(* ===== verification/Prelude.thy ===== *)
theory Prelude
  imports Main "HOL-Library.Word" "HOL-Library.Sublist" "HOL-Library.Char_ord"
begin

text \<open>
  Shared vocabulary of the development.  Rust strings are HOL strings (lists of
  characters, one character per byte); the standard-library string routines the
  code calls (starts_with, contains, find, replace, trim, split_whitespace,
  rsplit, to_lowercase) are defined here once, restricted to ASCII white space
  and ASCII case.  Fallible code returns \<open>'e + 'a\<close>: \<open>Inl\<close> is Rust's \<open>Err\<close>, \<open>Inr\<close> its \<open>Ok\<close>.
  Times are integers (nanoseconds) supplied by the caller, UUIDs 128-bit words.
\<close>

named_theorems model_simps \<open>unfolding rules of small model operations\<close>
named_theorems str_simps \<open>characterisations of the string routines\<close>

type_synonym uuid = "128 word"
type_synonym time = int
type_synonym u64 = "64 word"
type_synonym u32 = "32 word"
type_synonym u8 = "8 word"
type_synonym u16 = "16 word"

definition squoted :: "string \<Rightarrow> string" where
  "squoted s = CHR 0x27 # s @ [CHR 0x27]"

abbreviation NL :: char where "NL \<equiv> CHR 0x0A"

text \<open>Rust's \<open>?\<close> operator.\<close>

fun bind_res :: "'e + 'a \<Rightarrow> ('a \<Rightarrow> 'e + 'b) \<Rightarrow> 'e + 'b" where
  "bind_res (Inl e) f = Inl e"
| "bind_res (Inr x) f = f x"

fun is_ok :: "'e + 'a \<Rightarrow> bool" where
  "is_ok (Inl e) = False"
| "is_ok (Inr x) = True"

lemma bind_res_Inr_iff: "bind_res r f = Inr y \<longleftrightarrow> (\<exists>x. r = Inr x \<and> f x = Inr y)"
  by (cases r) auto

lemma bind_res_Inl_iff: "bind_res r f = Inl e \<longleftrightarrow> r = Inl e \<or> (\<exists>x. r = Inr x \<and> f x = Inl e)"
  by (cases r) auto

text \<open>\<open>Iterator::collect\<close> into a \<open>Result\<close>: the first error, or all the values.\<close>

fun collect_res :: "('e + 'a) list \<Rightarrow> 'e + 'a list" where
  "collect_res [] = Inr []"
| "collect_res (Inl e # rs) = Inl e"
| "collect_res (Inr x # rs) = bind_res (collect_res rs) (\<lambda>xs. Inr (x # xs))"

lemma collect_res_Inr_map: "collect_res (map (\<lambda>x. Inr (f x)) xs) = Inr (map f xs)"
  by (induction xs) auto

lemma collect_res_append:
  "collect_res (xs @ ys) = bind_res (collect_res xs) (\<lambda>a. bind_res (collect_res ys) (\<lambda>b. Inr (a @ b)))"
proof (induction xs rule: collect_res.induct)
  case (3 x rs)
  then show ?case by (cases "collect_res rs"; cases "collect_res ys") auto
next
  case 1
  then show ?case by (cases "collect_res ys") auto
qed simp

text \<open>Substring tests.\<close>

definition starts_with :: "string \<Rightarrow> string \<Rightarrow> bool" where
  "starts_with s p = prefix p s"

definition ends_with :: "string \<Rightarrow> string \<Rightarrow> bool" where
  "ends_with s p = suffix p s"

definition str_contains :: "string \<Rightarrow> string \<Rightarrow> bool" where
  "str_contains s p = sublist p s"

fun str_find :: "string \<Rightarrow> string \<Rightarrow> nat option" where
  "str_find [] p = (if p = [] then Some 0 else None)"
| "str_find (c # cs) p =
     (if prefix p (c # cs) then Some 0 else map_option Suc (str_find cs p))"

definition strip_prefix :: "string \<Rightarrow> string \<Rightarrow> string option" where
  "strip_prefix p s = (if prefix p s then Some (drop (length p) s) else None)"

definition strip_suffix :: "string \<Rightarrow> string \<Rightarrow> string option" where
  "strip_suffix p s = (if suffix p s then Some (take (length s - length p) s) else None)"

text \<open>\<open>str::replace\<close>: leftmost, non-overlapping occurrences.\<close>

function str_replace :: "string \<Rightarrow> string \<Rightarrow> string \<Rightarrow> string" where
  "str_replace s p r =
     (if p = [] then r @ concat (map (\<lambda>c. c # r) s)
      else case s of [] \<Rightarrow> []
           | c # cs \<Rightarrow> if prefix p s then r @ str_replace (drop (length p) s) p r
                      else c # str_replace cs p r)"
  by pat_completeness auto
termination
  by (relation "measure (\<lambda>(s, p, r). length s)") auto

declare str_replace.simps [simp del]

text \<open>White space, case, tokens.\<close>

definition is_ws :: "char \<Rightarrow> bool" where
  "is_ws c = (c = CHR '' '' \<or> (9 \<le> (of_char c :: nat) \<and> (of_char c :: nat) \<le> 13))"

definition trim_start :: "string \<Rightarrow> string" where
  "trim_start s = dropWhile is_ws s"

definition trim_end :: "string \<Rightarrow> string" where
  "trim_end s = rev (dropWhile is_ws (rev s))"

definition trim :: "string \<Rightarrow> string" where
  "trim s = trim_end (trim_start s)"

lemma trim_Nil [simp]: "trim [] = []"
  by (simp add: trim_def trim_start_def trim_end_def)

definition first_token :: "string \<Rightarrow> string" where
  "first_token s = takeWhile (\<lambda>c. \<not> is_ws c) (trim_start s)"

definition after_last :: "char \<Rightarrow> string \<Rightarrow> string" where
  "after_last d s = rev (takeWhile (\<lambda>c. c \<noteq> d) (rev s))"

definition ascii_lower :: "char \<Rightarrow> char" where
  "ascii_lower c = (if 65 \<le> (of_char c :: nat) \<and> (of_char c :: nat) \<le> 90
                    then char_of (of_char c + 32 :: nat) else c)"

definition to_lowercase :: "string \<Rightarrow> string" where
  "to_lowercase s = map ascii_lower s"

definition digit_char :: "nat \<Rightarrow> char" where
  "digit_char d = char_of (48 + d)"

fun show_nat :: "nat \<Rightarrow> string" where
  "show_nat n = (if n < 10 then [digit_char n] else show_nat (n div 10) @ [digit_char (n mod 10)])"

declare show_nat.simps [simp del]

fun join :: "string \<Rightarrow> string list \<Rightarrow> string" where
  "join sep [] = []"
| "join sep [x] = x"
| "join sep (x # y # ys) = x @ sep @ join sep (y # ys)"

definition show_word :: "'a::len word \<Rightarrow> string" where
  "show_word w = show_nat (unat w)"

text \<open>UTF-8: a byte of the form 10xxxxxx continues a character.  The count of characters,
  the start of the n-th character, and \<open>str::floor_char_boundary\<close>.\<close>

definition is_cont_byte :: "char \<Rightarrow> bool" where
  "is_cont_byte c = (128 \<le> (of_char c :: nat) \<and> (of_char c :: nat) < 192)"

definition char_count :: "string \<Rightarrow> nat" where
  "char_count s = length (filter (\<lambda>c. \<not> is_cont_byte c) s)"

definition char_start :: "string \<Rightarrow> nat \<Rightarrow> nat" where
  "char_start s n = (let starts = filter (\<lambda>i. \<not> is_cont_byte (s ! i)) [0..<length s] in
     if n < length starts then starts ! n else length s)"

fun floor_char_boundary :: "string \<Rightarrow> nat \<Rightarrow> nat" where
  "floor_char_boundary s 0 = 0"
| "floor_char_boundary s (Suc i) =
     (if length s \<le> Suc i then length s
      else if is_cont_byte (s ! Suc i) then floor_char_boundary s i else Suc i)"

definition is_char_boundary :: "string \<Rightarrow> nat \<Rightarrow> bool" where
  "is_char_boundary s i = (if i = 0 then True else if i < length s then \<not> is_cont_byte (s ! i)
     else i = length s)"

text \<open>Lemmas.\<close>

lemma starts_with_append [str_simps]: "starts_with s p \<longleftrightarrow> (\<exists>t. s = p @ t)"
  by (auto simp: starts_with_def prefix_def)

lemma ends_with_append [str_simps]: "ends_with s p \<longleftrightarrow> (\<exists>t. s = t @ p)"
  by (auto simp: ends_with_def suffix_def)

lemma str_contains_append [str_simps]: "str_contains s p \<longleftrightarrow> (\<exists>a b. s = a @ p @ b)"
  by (auto simp: str_contains_def sublist_def)

lemma strip_prefix_Some [str_simps]: "strip_prefix p s = Some t \<longleftrightarrow> s = p @ t"
  by (auto simp: strip_prefix_def prefix_def)

lemma strip_suffix_Some [str_simps]: "strip_suffix p s = Some t \<longleftrightarrow> s = t @ p"
  by (auto simp: strip_suffix_def suffix_def)

lemma strip_prefix_None [str_simps]: "strip_prefix p s = None \<longleftrightarrow> \<not> prefix p s"
  by (auto simp: strip_prefix_def)

lemma strip_suffix_None [str_simps]: "strip_suffix p s = None \<longleftrightarrow> \<not> suffix p s"
  by (auto simp: strip_suffix_def)

lemma str_find_None: "str_find s p = None \<longleftrightarrow> \<not> sublist p s"
  by (induction s) (auto simp: sublist_Cons_right)

lemma str_find_Some:
  assumes "str_find s p = Some i"
  shows "i + length p \<le> length s" "take (length p) (drop i s) = p"
    "\<forall>j<i. \<not> prefix p (drop j s)"
proof -
  have "i + length p \<le> length s \<and> take (length p) (drop i s) = p \<and> (\<forall>j<i. \<not> prefix p (drop j s))"
    using assms
  proof (induction s arbitrary: i)
    case (Cons c s)
    show ?case
    proof (cases "prefix p (c # s)")
      case True
      then have "i = 0" using Cons.prems by simp
      with True show ?thesis using prefix_length_le [OF True] by (auto simp: prefix_def)
    next
      case False
      then obtain k where "str_find s p = Some k" "i = Suc k" using Cons.prems by auto
      moreover have "\<not> prefix p (drop j (c # s))" if "j < Suc k" for j
        using False Cons.IH [OF \<open>str_find s p = Some k\<close>] that by (cases j) auto
      ultimately show ?thesis using Cons.IH by auto
    qed
  qed (auto split: if_splits)
  then show "i + length p \<le> length s" "take (length p) (drop i s) = p"
    "\<forall>j<i. \<not> prefix p (drop j s)" by blast+
qed

lemma str_find_eqI:
  assumes "prefix p (drop i s)" "\<forall>j<i. \<not> prefix p (drop j s)" "i \<le> length s"
  shows "str_find s p = Some i"
  using assms
proof (induction i arbitrary: s)
  case 0
  then show ?case by (cases s) auto
next
  case (Suc i)
  then obtain c cs where s: "s = c # cs" by (cases s) auto
  have "\<not> prefix p s" using Suc.prems(2) by (metis drop0 zero_less_Suc)
  moreover have "\<forall>j<i. \<not> prefix p (drop j cs)" using Suc.prems(2) s by (metis Suc_less_eq drop_Suc_Cons)
  ultimately show ?case using Suc s by auto
qed

lemma prefix_drop_find: "str_find s p = Some i \<Longrightarrow> prefix p (drop i s)"
  using str_find_Some(2) [of s p i] by (metis take_is_prefix)

lemma floor_char_boundary_le: "floor_char_boundary s i \<le> i"
  by (induction s i rule: floor_char_boundary.induct) (auto intro: le_SucI)

lemma floor_char_boundary_le_length: "floor_char_boundary s i \<le> length s"
  by (induction s i rule: floor_char_boundary.induct) auto

text \<open>The cut is a character boundary: the end of the string, its start, or a byte that
  does not continue a character; and every byte skipped continues a character.\<close>

lemma floor_char_boundary_boundary:
  "floor_char_boundary s i = 0 \<or> floor_char_boundary s i = length s
   \<or> (floor_char_boundary s i < length s \<and> \<not> is_cont_byte (s ! floor_char_boundary s i))"
  by (induction s i rule: floor_char_boundary.induct) auto

lemma floor_char_boundary_is_boundary: "is_char_boundary s (floor_char_boundary s i)"
  using floor_char_boundary_boundary [of s i] by (auto simp: is_char_boundary_def)

lemma floor_char_boundary_skips:
  "floor_char_boundary s i < j \<Longrightarrow> j \<le> i \<Longrightarrow> j < length s \<Longrightarrow> is_cont_byte (s ! j)"
proof (induction s i rule: floor_char_boundary.induct)
  case (2 s i)
  then show ?case by (cases "j = Suc i") (auto split: if_splits)
qed simp

lemma floor_char_boundary_ascii:
  "\<forall>c \<in> set s. \<not> is_cont_byte c \<Longrightarrow> floor_char_boundary s i = min i (length s)"
  by (induction s i rule: floor_char_boundary.induct) (auto simp: min_def)

lemma of_char_less_256: "(of_char c :: nat) < 256"
  using nat_of_char_less_256 .

lemma ascii_lower_idem [simp]: "ascii_lower (ascii_lower c) = ascii_lower c"
  by (auto simp: ascii_lower_def)

lemma to_lowercase_idem [simp]: "to_lowercase (to_lowercase s) = to_lowercase s"
  by (simp add: to_lowercase_def)

lemma length_to_lowercase [simp]: "length (to_lowercase s) = length s"
  by (simp add: to_lowercase_def)

lemma show_nat_nonempty [simp]: "show_nat n \<noteq> []"
  by (subst show_nat.simps) simp

lemma filter_eq_length_iff: "length (filter P xs) = length xs \<longleftrightarrow> filter P xs = xs"
  by (metis length_filter_less filter_True less_irrefl)

section \<open>Keyed containers\<close>

text \<open>The contract of the hash maps the components keep: what a lookup returns after an
  insertion and after a removal.  Each component interprets it on its own operations.\<close>

locale keyed_map =
  fixes look :: "'s \<Rightarrow> 'k \<Rightarrow> 'v option"
    and put :: "'k \<Rightarrow> 'v \<Rightarrow> 's \<Rightarrow> 's"
    and remove :: "'k \<Rightarrow> 's \<Rightarrow> 's"
  assumes look_put: "look (put k v s) k' = (if k' = k then Some v else look s k')"
    and look_remove: "look (remove k s) k' = (if k' = k then None else look s k')"
begin

lemma look_put_same: "look (put k v s) k = Some v"
  by (simp add: look_put)

lemma look_put_other: "k' \<noteq> k \<Longrightarrow> look (put k v s) k' = look s k'"
  by (simp add: look_put)

lemma look_remove_put: "look (remove k (put k v s)) k' = look (remove k s) k'"
  by (simp add: look_remove look_put)

lemma look_put_commute:
  "j \<noteq> k \<Longrightarrow> look (put j v (put k w s)) i = look (put k w (put j v s)) i"
  by (simp add: look_put)

text \<open>Inserting a list of bindings: the last binding of a key wins.\<close>

lemma look_fold_put:
  "look (fold (\<lambda>(k, v). put k v) kvs s) k =
     (case map_of (rev kvs) k of Some v \<Rightarrow> Some v | None \<Rightarrow> look s k)"
  by (induction kvs arbitrary: s) (auto simp: look_put map_add_def split: option.splits)

end

end
