(* ===== verification/Async_Channel.thy ===== *)
theory Async_Channel
  imports Prelude
begin

text \<open>
  The channels the program is built on are third-party: async_channel's and tokio's bounded
  queues and tokio's broadcast channel.  A model that uses one takes its operations as an
  argument, the records \<open>fifo_ops\<close> and \<open>fanout_ops\<close>; what their documentation promises is the
  abstract queue and the abstract fan-out below, and the locales \<open>fifo_channel\<close> and
  \<open>fanout_channel\<close> say that the operations behave as these do, through a view of the state.
  Handles are counted, as dropping the last one closes a channel.  A send or receive is
  one poll: it succeeds, fails, or has to be tried again.
\<close>

section \<open>Outcomes\<close>

datatype send_outcome = SendOk | SendFull | SendClosed

datatype 'm recv_outcome = Received 'm | RecvPending | RecvClosed | RecvLagged nat

section \<open>Bounded queues\<close>

record ('q, 'm) fifo_ops =
  fo_new :: "nat \<Rightarrow> 'q"
  fo_send :: "'m \<Rightarrow> 'q \<Rightarrow> send_outcome \<times> 'q"
  fo_recv :: "'q \<Rightarrow> 'm recv_outcome \<times> 'q"
  fo_len :: "'q \<Rightarrow> nat"
  fo_is_closed :: "'q \<Rightarrow> bool"
  fo_clone_tx :: "'q \<Rightarrow> 'q"
  fo_drop_tx :: "'q \<Rightarrow> 'q"
  fo_clone_rx :: "'q \<Rightarrow> 'q"
  fo_drop_rx :: "'q \<Rightarrow> 'q"

record 'm fifo =
  ff_items :: "'m list"
  ff_cap :: nat
  ff_senders :: nat
  ff_receivers :: nat

definition fifo_new :: "nat \<Rightarrow> 'm fifo" where
  "fifo_new n = \<lparr> ff_items = [], ff_cap = n, ff_senders = 1, ff_receivers = 1 \<rparr>"

definition fifo_send :: "'m \<Rightarrow> 'm fifo \<Rightarrow> send_outcome \<times> 'm fifo" where
  "fifo_send m q =
     (if ff_receivers q = 0 then (SendClosed, q)
      else if ff_cap q \<le> length (ff_items q) then (SendFull, q)
      else (SendOk, q \<lparr> ff_items := ff_items q @ [m] \<rparr>))"

definition fifo_recv :: "'m fifo \<Rightarrow> 'm recv_outcome \<times> 'm fifo" where
  "fifo_recv q = (case ff_items q of
       m # ms \<Rightarrow> (Received m, q \<lparr> ff_items := ms \<rparr>)
     | [] \<Rightarrow> (if ff_senders q = 0 then RecvClosed else RecvPending, q))"

definition fifo_list_ops :: "('m fifo, 'm) fifo_ops" where
  "fifo_list_ops = \<lparr>
     fo_new = fifo_new, fo_send = fifo_send, fo_recv = fifo_recv,
     fo_len = (\<lambda>q. length (ff_items q)),
     fo_is_closed = (\<lambda>q. ff_receivers q = 0),
     fo_clone_tx = (\<lambda>q. q \<lparr> ff_senders := Suc (ff_senders q) \<rparr>),
     fo_drop_tx = (\<lambda>q. q \<lparr> ff_senders := ff_senders q - 1 \<rparr>),
     fo_clone_rx = (\<lambda>q. q \<lparr> ff_receivers := Suc (ff_receivers q) \<rparr>),
     fo_drop_rx = (\<lambda>q. q \<lparr> ff_receivers := ff_receivers q - 1 \<rparr>) \<rparr>"

locale fifo_channel =
  fixes ops :: "('q, 'm) fifo_ops" and view :: "'q \<Rightarrow> 'm fifo"
  assumes view_new: "view (fo_new ops n) = fifo_new n"
    and view_send: "map_prod id view (fo_send ops m q) = fifo_send m (view q)"
    and view_recv: "map_prod id view (fo_recv ops q) = fifo_recv (view q)"
    and view_len: "fo_len ops q = length (ff_items (view q))"
    and view_is_closed: "fo_is_closed ops q = (ff_receivers (view q) = 0)"
    and view_clone_tx: "view (fo_clone_tx ops q) = (view q) \<lparr> ff_senders := Suc (ff_senders (view q)) \<rparr>"
    and view_drop_tx: "view (fo_drop_tx ops q) = (view q) \<lparr> ff_senders := ff_senders (view q) - 1 \<rparr>"
    and view_clone_rx: "view (fo_clone_rx ops q) = (view q) \<lparr> ff_receivers := Suc (ff_receivers (view q)) \<rparr>"
    and view_drop_rx: "view (fo_drop_rx ops q) = (view q) \<lparr> ff_receivers := ff_receivers (view q) - 1 \<rparr>"
begin

lemma sendD:
  assumes "fo_send ops m q = (r, q1)"
  shows "fifo_send m (view q) = (r, view q1)"
  using view_send [of m q] assms by simp

lemma recvD:
  assumes "fo_recv ops q = (r, q1)"
  shows "fifo_recv (view q) = (r, view q1)"
  using view_recv [of q] assms by simp

lemma send_ok:
  assumes "fo_send ops m q = (SendOk, q1)"
  shows "view q1 = (view q) \<lparr> ff_items := ff_items (view q) @ [m] \<rparr>"
    and "ff_receivers (view q) \<noteq> 0" and "length (ff_items (view q)) < ff_cap (view q)"
  using sendD [OF assms] by (auto simp: fifo_send_def split: if_splits)

lemma send_failed:
  assumes "fo_send ops m q = (r, q1)" "r \<noteq> SendOk"
  shows "view q1 = view q"
  using sendD [OF assms(1)] assms(2) by (auto simp: fifo_send_def split: if_splits)

lemma send_full:
  assumes "fo_send ops m q = (SendFull, q1)"
  shows "ff_cap (view q) \<le> length (ff_items (view q))" and "ff_receivers (view q) \<noteq> 0"
  using sendD [OF assms] by (auto simp: fifo_send_def split: if_splits)

lemma send_closed:
  assumes "fo_send ops m q = (SendClosed, q1)"
  shows "ff_receivers (view q) = 0"
  using sendD [OF assms] by (auto simp: fifo_send_def split: if_splits)

lemma recv_item:
  assumes "fo_recv ops q = (Received m, q1)"
  shows "ff_items (view q) = m # ff_items (view q1)"
    and "ff_cap (view q1) = ff_cap (view q)" "ff_senders (view q1) = ff_senders (view q)"
      "ff_receivers (view q1) = ff_receivers (view q)"
  using recvD [OF assms]
  by (auto simp: fifo_recv_def split: list.splits if_splits dest!: sym [where t = "view q1"])

lemma recv_none:
  assumes "fo_recv ops q = (r, q1)" "\<And>m. r \<noteq> Received m"
  shows "view q1 = view q" and "ff_items (view q) = []"
  using recvD [OF assms(1)] assms(2) by (auto simp: fifo_recv_def split: list.splits if_splits)

lemma recv_closed:
  assumes "fo_recv ops q = (RecvClosed, q1)"
  shows "ff_senders (view q) = 0"
  using recvD [OF assms] by (auto simp: fifo_recv_def split: list.splits if_splits)

lemma drop_many: "view ((fo_drop_tx ops ^^ n) q) = (view q) \<lparr> ff_senders := ff_senders (view q) - n \<rparr>"
  by (induction n) (simp_all add: view_drop_tx)

lemma recv_never_lags: "fo_recv ops q \<noteq> (RecvLagged n, q1)"
proof
  assume "fo_recv ops q = (RecvLagged n, q1)"
  from recvD [OF this] show False by (auto simp: fifo_recv_def split: list.splits if_splits)
qed

end

interpretation fifo_list: fifo_channel fifo_list_ops "\<lambda>q. q"
  by unfold_locales (simp_all add: fifo_list_ops_def id_def prod.map_ident)

section \<open>Broadcast\<close>

text \<open>A broadcast channel keeps the last values, as many as the capacity rounded up to a power
  of two; each receiver has a position in the sequence of everything sent.  A receiver whose
  position was overwritten is told how many values it missed and continues at the oldest
  one kept.  Sending fails when nobody receives.\<close>

record ('b, 'm) fanout_ops =
  bo_new :: "nat \<Rightarrow> 'b"
  bo_send :: "'m \<Rightarrow> 'b \<Rightarrow> send_outcome \<times> 'b"
  bo_subscribe :: "'b \<Rightarrow> nat \<times> 'b"
  bo_recv :: "nat \<Rightarrow> 'b \<Rightarrow> 'm recv_outcome \<times> 'b"
  bo_len :: "'b \<Rightarrow> nat"
  bo_clone_tx :: "'b \<Rightarrow> 'b"
  bo_drop_tx :: "'b \<Rightarrow> 'b"
  bo_drop_rx :: "nat \<Rightarrow> 'b \<Rightarrow> 'b"

record 'm fanout =
  fn_sent :: "'m list"
  fn_cap :: nat
  fn_senders :: nat
  fn_cursors :: "(nat \<times> nat) list"
  fn_next :: nat

fun pow2_from :: "nat \<Rightarrow> nat \<Rightarrow> nat" where
  "pow2_from 0 n = 1"
| "pow2_from (Suc k) n = (if n \<le> pow2_from k n then pow2_from k n else 2 * pow2_from k n)"

definition fn_oldest :: "'m fanout \<Rightarrow> nat" where
  "fn_oldest b = length (fn_sent b) - fn_cap b"

definition fanout_new :: "nat \<Rightarrow> 'm fanout" where
  "fanout_new n = \<lparr> fn_sent = [], fn_cap = pow2_from n n, fn_senders = 1, fn_cursors = [], fn_next = 0 \<rparr>"

definition fanout_send :: "'m \<Rightarrow> 'm fanout \<Rightarrow> send_outcome \<times> 'm fanout" where
  "fanout_send m b = (if fn_cursors b = [] then (SendClosed, b)
     else (SendOk, b \<lparr> fn_sent := fn_sent b @ [m] \<rparr>))"

definition fanout_subscribe :: "'m fanout \<Rightarrow> nat \<times> 'm fanout" where
  "fanout_subscribe b = (fn_next b, b \<lparr> fn_cursors := (fn_next b, length (fn_sent b)) # fn_cursors b,
     fn_next := Suc (fn_next b) \<rparr>)"

definition set_cursor :: "nat \<Rightarrow> nat \<Rightarrow> 'm fanout \<Rightarrow> 'm fanout" where
  "set_cursor i p b = b \<lparr> fn_cursors := map (\<lambda>(j, q). (j, if j = i then p else q)) (fn_cursors b) \<rparr>"

definition fanout_recv :: "nat \<Rightarrow> 'm fanout \<Rightarrow> 'm recv_outcome \<times> 'm fanout" where
  "fanout_recv i b = (case map_of (fn_cursors b) i of
       None \<Rightarrow> (RecvClosed, b)
     | Some p \<Rightarrow>
         if p < fn_oldest b then (RecvLagged (fn_oldest b - p), set_cursor i (fn_oldest b) b)
         else if p < length (fn_sent b) then (Received (fn_sent b ! p), set_cursor i (Suc p) b)
         else (if fn_senders b = 0 then RecvClosed else RecvPending, b))"

text \<open>A value is queued while it is kept and some receiver has still to see it.\<close>

definition fanout_len :: "'m fanout \<Rightarrow> nat" where
  "fanout_len b = length (filter (\<lambda>p. fn_oldest b \<le> p \<and> (\<exists>(i, q) \<in> set (fn_cursors b). q \<le> p))
     [0 ..< length (fn_sent b)])"

definition fanout_log_ops :: "('m fanout, 'm) fanout_ops" where
  "fanout_log_ops = \<lparr>
     bo_new = fanout_new, bo_send = fanout_send, bo_subscribe = fanout_subscribe,
     bo_recv = fanout_recv, bo_len = fanout_len,
     bo_clone_tx = (\<lambda>b. b \<lparr> fn_senders := Suc (fn_senders b) \<rparr>),
     bo_drop_tx = (\<lambda>b. b \<lparr> fn_senders := fn_senders b - 1 \<rparr>),
     bo_drop_rx = (\<lambda>i b. b \<lparr> fn_cursors := filter (\<lambda>(j, _). j \<noteq> i) (fn_cursors b) \<rparr>) \<rparr>"

locale fanout_channel =
  fixes ops :: "('b, 'm) fanout_ops" and view :: "'b \<Rightarrow> 'm fanout"
  assumes view_bnew: "view (bo_new ops n) = fanout_new n"
    and view_bsend: "map_prod id view (bo_send ops m b) = fanout_send m (view b)"
    and view_bsubscribe: "map_prod id view (bo_subscribe ops b) = fanout_subscribe (view b)"
    and view_brecv: "map_prod id view (bo_recv ops i b) = fanout_recv i (view b)"
    and view_blen: "bo_len ops b = fanout_len (view b)"
    and view_bclone_tx: "view (bo_clone_tx ops b) = (view b) \<lparr> fn_senders := Suc (fn_senders (view b)) \<rparr>"
    and view_bdrop_tx: "view (bo_drop_tx ops b) = (view b) \<lparr> fn_senders := fn_senders (view b) - 1 \<rparr>"
    and view_bdrop_rx: "view (bo_drop_rx ops i b)
          = (view b) \<lparr> fn_cursors := filter (\<lambda>(j, _). j \<noteq> i) (fn_cursors (view b)) \<rparr>"
begin

lemma bsendD:
  assumes "bo_send ops m b = (r, b1)"
  shows "fanout_send m (view b) = (r, view b1)"
  using view_bsend [of m b] assms by simp

lemma brecvD:
  assumes "bo_recv ops i b = (r, b1)"
  shows "fanout_recv i (view b) = (r, view b1)"
  using view_brecv [of i b] assms by simp

lemma bsubscribeD:
  assumes "bo_subscribe ops b = (i, b1)"
  shows "fanout_subscribe (view b) = (i, view b1)"
  using view_bsubscribe [of b] assms by simp

end

interpretation fanout_log: fanout_channel fanout_log_ops "\<lambda>b. b"
  by unfold_locales (simp_all add: fanout_log_ops_def id_def prod.map_ident)

end
