(* ===== verification/Event_Types.thy ===== *)
theory Event_Types
  imports Prelude
begin

text \<open>
  The message types of the bus (types/src/events/): channel identifiers, session
  keys with their textual form, inbound and outbound messages.  The metadata
  field, an arbitrary JSON value the modelled code only carries along, is kept as its
  text; a WebSocket stream event is the type parameter \<open>'ws\<close>.
\<close>

section \<open>Channels\<close>

datatype channel_type =
    Telegram | Discord | Slack | Feishu | Wechat | WebSocket | Cli | CustomChannel string

fun channel_as_str :: "channel_type \<Rightarrow> string" where
  "channel_as_str Telegram = ''telegram''"
| "channel_as_str Discord = ''discord''"
| "channel_as_str Slack = ''slack''"
| "channel_as_str Feishu = ''feishu''"
| "channel_as_str Wechat = ''wechat''"
| "channel_as_str WebSocket = ''websocket''"
| "channel_as_str Cli = ''cli''"
| "channel_as_str (CustomChannel name) = name"

definition channel_new :: "string \<Rightarrow> channel_type" where
  "channel_new name =
     (let s = to_lowercase name in
      if s = ''telegram'' then Telegram
      else if s = ''discord'' then Discord
      else if s = ''slack'' then Slack
      else if s = ''feishu'' then Feishu
      else if s = ''wechat'' then Wechat
      else if s = ''websocket'' then WebSocket
      else if s = ''cli'' then Cli
      else CustomChannel s)"

definition supports_streaming :: "channel_type \<Rightarrow> bool" where
  "supports_streaming c = (c = WebSocket)"

section \<open>Session keys\<close>

record session_key =
  sk_channel :: channel_type
  sk_chat_id :: string

definition session_key_new :: "channel_type \<Rightarrow> string \<Rightarrow> session_key" where
  "session_key_new c i = \<lparr> sk_channel = c, sk_chat_id = i \<rparr>"

definition session_key_display :: "session_key \<Rightarrow> string" where
  "session_key_display k = channel_as_str (sk_channel k) @ '':'' @ sk_chat_id k"

text \<open>\<open>splitn(2, sep)\<close>: at most two parts.\<close>

definition splitn2 :: "char \<Rightarrow> string \<Rightarrow> string list" where
  "splitn2 sep s = (case dropWhile (\<lambda>c. c \<noteq> sep) s of
      [] \<Rightarrow> [s]
    | _ # rest \<Rightarrow> [takeWhile (\<lambda>c. c \<noteq> sep) s, rest])"

definition session_key_parse :: "string \<Rightarrow> session_key option" where
  "session_key_parse s = (case splitn2 CHR '':'' s of
      [channel, chat_id] \<Rightarrow> Some (session_key_new (channel_new channel) chat_id)
    | _ \<Rightarrow> None)"

definition session_key_try_parse :: "string \<Rightarrow> string + session_key" where
  "session_key_try_parse s = (case session_key_parse s of
      Some k \<Rightarrow> Inr k
    | None \<Rightarrow> Inl (''Failed to parse session key: Invalid format (expected '' @ [CHR 0x27]
        @ ''channel:chat_id'' @ [CHR 0x27] @ ''): '' @ s))"

section \<open>Messages\<close>

record media_attachment =
  ma_media_type :: string
  ma_data :: string
  ma_caption :: "string option"

record inbound_message =
  im_channel :: channel_type
  im_sender_id :: string
  im_chat_id :: string
  im_content :: string
  im_media :: "media_attachment list option"
  im_metadata :: "string option"
  im_timestamp :: time
  im_trace_id :: "string option"

definition message_session_key :: "inbound_message \<Rightarrow> session_key" where
  "message_session_key m = session_key_new (im_channel m) (im_chat_id m)"

datatype target = Chat string | Broadcast

fun target_to_str :: "target \<Rightarrow> string" where
  "target_to_str (Chat i) = i"
| "target_to_str Broadcast = ''*''"

definition target_from_str :: "string \<Rightarrow> target" where
  "target_from_str s = (if s = ''*'' then Broadcast else Chat s)"

datatype 'ws outbound_payload = TextPayload string | StreamPayload 'ws

record 'ws outbound_message =
  om_channel :: channel_type
  om_target :: target
  om_payload :: "'ws outbound_payload"
  om_metadata :: "string option"
  om_trace_id :: "string option"

definition outbound_new :: "channel_type \<Rightarrow> string \<Rightarrow> string \<Rightarrow> 'ws outbound_message" where
  "outbound_new c chat content = \<lparr> om_channel = c, om_target = Chat chat,
     om_payload = TextPayload content, om_metadata = None, om_trace_id = None \<rparr>"

definition outbound_with_ws :: "channel_type \<Rightarrow> string \<Rightarrow> 'ws \<Rightarrow> 'ws outbound_message" where
  "outbound_with_ws c chat ws = \<lparr> om_channel = c, om_target = Chat chat,
     om_payload = StreamPayload ws, om_metadata = None, om_trace_id = None \<rparr>"

definition outbound_chat_id :: "'ws outbound_message \<Rightarrow> string" where
  "outbound_chat_id m = (case om_target m of Chat i \<Rightarrow> i | Broadcast \<Rightarrow> ''*'')"

definition outbound_content :: "'ws outbound_message \<Rightarrow> string" where
  "outbound_content m = (case om_payload m of TextPayload s \<Rightarrow> s | StreamPayload _ \<Rightarrow> [])"

definition outbound_ws_message :: "'ws outbound_message \<Rightarrow> 'ws option" where
  "outbound_ws_message m = (case om_payload m of StreamPayload w \<Rightarrow> Some w | TextPayload _ \<Rightarrow> None)"

definition is_broadcast :: "'ws outbound_message \<Rightarrow> bool" where
  "is_broadcast m = (om_target m = Broadcast)"

definition outbound_broadcast :: "channel_type \<Rightarrow> string \<Rightarrow> 'ws outbound_message" where
  "outbound_broadcast c content = \<lparr> om_channel = c, om_target = Broadcast,
     om_payload = TextPayload content, om_metadata = None, om_trace_id = None \<rparr>"

definition outbound_broadcast_ws :: "channel_type \<Rightarrow> 'ws \<Rightarrow> 'ws outbound_message" where
  "outbound_broadcast_ws c ws = \<lparr> om_channel = c, om_target = Broadcast,
     om_payload = StreamPayload ws, om_metadata = None, om_trace_id = None \<rparr>"

section \<open>Lemmas\<close>

lemma channel_new_idem: "channel_new (channel_as_str (channel_new s)) = channel_new s"
proof (cases "channel_new s")
  case (CustomChannel t)
  then have "channel_new t = channel_new s"
    by (auto simp: channel_new_def Let_def split: if_splits)
  with CustomChannel show ?thesis by simp
qed (simp_all add: channel_new_def Let_def to_lowercase_def ascii_lower_def)

lemma ascii_lower_colon: "ascii_lower c = CHR '':'' \<longleftrightarrow> c = CHR '':''"
proof (cases "65 \<le> (of_char c :: nat) \<and> (of_char c :: nat) \<le> 90")
  case True
  then have up: "(of_char (ascii_lower c) :: nat) = of_char c + 32" by (simp add: ascii_lower_def)
  have False if "ascii_lower c = CHR '':''"
    using up that True by simp
  moreover have False if "c = CHR '':''"
    using True that by simp
  ultimately show ?thesis by blast
next
  case False
  then have "ascii_lower c = c" unfolding ascii_lower_def by (rule if_not_P)
  then show ?thesis by simp
qed

lemma lower_no_colon: "CHR '':'' \<notin> set s \<Longrightarrow> CHR '':'' \<notin> set (to_lowercase s)"
  unfolding to_lowercase_def by (metis ascii_lower_colon imageE set_map)

lemma channel_new_no_colon:
  "CHR '':'' \<notin> set s \<Longrightarrow> CHR '':'' \<notin> set (channel_as_str (channel_new s))"
  by (drule lower_no_colon) (simp add: channel_new_def Let_def)

lemma splitn2_colon: "CHR '':'' \<notin> set a \<Longrightarrow> splitn2 CHR '':'' (a @ '':'' @ b) = [a, b]"
proof -
  assume "CHR '':'' \<notin> set a"
  then have "dropWhile (\<lambda>c. c \<noteq> CHR '':'') (a @ '':'' @ b) = CHR '':'' # b"
    "takeWhile (\<lambda>c. c \<noteq> CHR '':'') (a @ '':'' @ b) = a"
    by (induction a) auto
  then show ?thesis by (simp add: splitn2_def)
qed

lemma splitn2_two: "splitn2 sep s = [a, b] \<longleftrightarrow> s = a @ sep # b \<and> sep \<notin> set a"
proof
  assume *: "splitn2 sep s = [a, b]"
  then obtain d where d: "dropWhile (\<lambda>c. c \<noteq> sep) s = d # b" "a = takeWhile (\<lambda>c. c \<noteq> sep) s"
    by (auto simp: splitn2_def split: list.splits)
  then have "d = sep" using hd_dropWhile [of "\<lambda>c. c \<noteq> sep" s] by auto
  then show "s = a @ sep # b \<and> sep \<notin> set a"
    using d by (metis takeWhile_dropWhile_id set_takeWhileD)
next
  assume *: "s = a @ sep # b \<and> sep \<notin> set a"
  then have "dropWhile (\<lambda>c. c \<noteq> sep) s = sep # b" "takeWhile (\<lambda>c. c \<noteq> sep) s = a"
    by (auto simp: dropWhile_append takeWhile_append)
  then show "splitn2 sep s = [a, b]" by (simp add: splitn2_def)
qed

lemma session_key_parse_Some:
  "session_key_parse s = Some k \<longleftrightarrow>
     (\<exists>c i. s = c @ '':'' @ i \<and> CHR '':'' \<notin> set c \<and> k = session_key_new (channel_new c) i)"
proof
  assume "session_key_parse s = Some k"
  then obtain c i where "splitn2 CHR '':'' s = [c, i]" "k = session_key_new (channel_new c) i"
    by (auto simp: session_key_parse_def split: list.splits)
  then show "\<exists>c i. s = c @ '':'' @ i \<and> CHR '':'' \<notin> set c \<and> k = session_key_new (channel_new c) i"
    using splitn2_two [of "CHR '':''" s c i] by auto
next
  assume "\<exists>c i. s = c @ '':'' @ i \<and> CHR '':'' \<notin> set c \<and> k = session_key_new (channel_new c) i"
  then show "session_key_parse s = Some k" by (auto simp: session_key_parse_def splitn2_colon [simplified])
qed

text \<open>Session keys survive their text form.  Every key that parsing can produce is
  printed and parsed back unchanged, so storing the text and reading it again never
  moves a session; parsing fails exactly on text without a colon.\<close>

theorem session_key_roundtrip:
  "(case session_key_parse s of
      Some k \<Rightarrow> session_key_parse (session_key_display k) = Some k
    | None \<Rightarrow> CHR '':'' \<notin> set s)"
proof (cases "session_key_parse s")
  case None
  then have "splitn2 CHR '':'' s \<noteq> [takeWhile (\<lambda>c. c \<noteq> CHR '':'') s, tl (dropWhile (\<lambda>c. c \<noteq> CHR '':'') s)]"
    by (auto simp: session_key_parse_def)
  then have "dropWhile (\<lambda>c. c \<noteq> CHR '':'') s = []"
    by (auto simp: splitn2_def split: list.splits)
  then show ?thesis using None by (auto simp: dropWhile_eq_Nil_conv)
next
  case (Some k)
  then obtain c i where k: "CHR '':'' \<notin> set c" "k = session_key_new (channel_new c) i"
    by (auto simp: session_key_parse_Some)
  then have "CHR '':'' \<notin> set (channel_as_str (channel_new c))" by (simp add: channel_new_no_colon)
  then have "session_key_parse (session_key_display k) = Some k"
    unfolding session_key_parse_Some
    by (intro exI [of _ "channel_as_str (channel_new c)"] exI [of _ i])
      (simp add: k session_key_display_def session_key_new_def channel_new_idem)
  then show ?thesis using Some by simp
qed

section \<open>What commands tell about sessions\<close>

record session_summary =
  ss_key :: session_key
  ss_message_count :: nat
  ss_last_active :: "string option"

record model_switch_info =
  ms_previous :: string
  ms_current :: string

end
