(* ===== verification/Chat_Types.thy ===== *)
theory Chat_Types
  imports Event_Types
begin

text \<open>
  The vocabulary between the agent kernel and the language-model providers
  (providers/src/base.rs, the error type of providers/src/lib.rs, the stream events of
  types/src/events/stream.rs and the token usage of types/src/token_tracker.rs).
  A serde_json value is the type parameter \<open>'j\<close>; what the code asks of serde_json is
  the record \<open>json_ops\<close>.  Floating-point numbers are only carried along and are kept as
  their IEEE bit patterns; usize is a 64-bit word.
\<close>

section \<open>JSON values\<close>

record 'j json_ops =
  jo_show :: "'j \<Rightarrow> string"
  jo_parse :: "string \<Rightarrow> 'j option"
  jo_empty :: 'j
  jo_get_str :: "'j \<Rightarrow> string \<Rightarrow> string option"

definition parse_json_args :: "'j json_ops \<Rightarrow> string \<Rightarrow> 'j" where
  "parse_json_args js args = (case jo_parse js args of Some v \<Rightarrow> v | None \<Rightarrow> jo_empty js)"

section \<open>Provider errors\<close>

datatype provider_error =
    ProvAuth string
  | ProvRateLimit string
  | ProvInvalidRequest string
  | ProvModelNotFound string
  | ProvNetwork string
  | ProvApi u16 string
  | ProvParse string
  | ProvOther string
  | ProvInternal string

fun status_code :: "provider_error \<Rightarrow> u16 option" where
  "status_code (ProvApi c _) = Some c"
| "status_code _ = None"

fun provider_is_retryable :: "provider_error \<Rightarrow> bool" where
  "provider_is_retryable (ProvRateLimit _) = True"
| "provider_is_retryable (ProvNetwork _) = True"
| "provider_is_retryable (ProvApi c _) = (c = 429 \<or> c \<ge> 500)"
| "provider_is_retryable _ = False"

fun provider_error_to_str :: "provider_error \<Rightarrow> string" where
  "provider_error_to_str (ProvAuth s) = ''Authentication failed: '' @ s"
| "provider_error_to_str (ProvRateLimit s) = ''Rate limit exceeded: '' @ s"
| "provider_error_to_str (ProvInvalidRequest s) = ''Invalid request: '' @ s"
| "provider_error_to_str (ProvModelNotFound s) = ''Model not found: '' @ s"
| "provider_error_to_str (ProvNetwork s) = ''Network error: '' @ s"
| "provider_error_to_str (ProvApi c s) = ''API error (status '' @ show_nat (unat c) @ ''): '' @ s"
| "provider_error_to_str (ProvParse s) = ''Failed to parse response: '' @ s"
| "provider_error_to_str (ProvOther s) = s"
| "provider_error_to_str (ProvInternal s) = s"

section \<open>Messages\<close>

datatype message_role = SystemRole | UserRole | AssistantRole | ToolRole

fun role_as_str :: "message_role \<Rightarrow> string" where
  "role_as_str SystemRole = ''system''"
| "role_as_str UserRole = ''user''"
| "role_as_str AssistantRole = ''assistant''"
| "role_as_str ToolRole = ''tool''"

definition role_from_str :: "string \<Rightarrow> string + message_role" where
  "role_from_str s =
     (if s = ''system'' then Inr SystemRole
      else if s = ''user'' then Inr UserRole
      else if s = ''assistant'' then Inr AssistantRole
      else if s = ''tool'' then Inr ToolRole
      else Inl (''Unknown role: '' @ s))"

record 'j function_call =
  fc_name :: string
  fc_arguments :: 'j

record 'j tool_call =
  tc_id :: string
  tc_type :: string
  tc_function :: "'j function_call"

definition tool_call_new :: "string \<Rightarrow> string \<Rightarrow> 'j \<Rightarrow> 'j tool_call" where
  "tool_call_new i name args = \<lparr> tc_id = i, tc_type = ''function'',
     tc_function = \<lparr> fc_name = name, fc_arguments = args \<rparr> \<rparr>"

record 'j chat_message =
  cm_role :: message_role
  cm_content :: "string option"
  cm_tool_calls :: "'j tool_call list option"
  cm_tool_call_id :: "string option"
  cm_name :: "string option"
  cm_reasoning :: "string option"

definition msg_system :: "string \<Rightarrow> 'j chat_message" where
  "msg_system c = \<lparr> cm_role = SystemRole, cm_content = Some c, cm_tool_calls = None,
     cm_tool_call_id = None, cm_name = None, cm_reasoning = None \<rparr>"

definition msg_user :: "string \<Rightarrow> 'j chat_message" where
  "msg_user c = \<lparr> cm_role = UserRole, cm_content = Some c, cm_tool_calls = None,
     cm_tool_call_id = None, cm_name = None, cm_reasoning = None \<rparr>"

definition msg_assistant :: "string \<Rightarrow> 'j chat_message" where
  "msg_assistant c = \<lparr> cm_role = AssistantRole, cm_content = Some c, cm_tool_calls = None,
     cm_tool_call_id = None, cm_name = None, cm_reasoning = None \<rparr>"

definition msg_assistant_with_tools ::
  "string option \<Rightarrow> 'j tool_call list \<Rightarrow> string option \<Rightarrow> 'j chat_message" where
  "msg_assistant_with_tools c tcs r = \<lparr> cm_role = AssistantRole, cm_content = c,
     cm_tool_calls = Some tcs, cm_tool_call_id = None, cm_name = None, cm_reasoning = r \<rparr>"

definition msg_tool_result :: "string \<Rightarrow> string \<Rightarrow> string \<Rightarrow> 'j chat_message" where
  "msg_tool_result i name c = \<lparr> cm_role = ToolRole, cm_content = Some c, cm_tool_calls = None,
     cm_tool_call_id = Some i, cm_name = Some name, cm_reasoning = None \<rparr>"

section \<open>Requests and responses\<close>

record 'j tool_definition =
  td_type :: string
  td_name :: string
  td_description :: string
  td_parameters :: 'j

definition tool_definition_function :: "string \<Rightarrow> string \<Rightarrow> 'j \<Rightarrow> 'j tool_definition" where
  "tool_definition_function n d p =
     \<lparr> td_type = ''function'', td_name = n, td_description = d, td_parameters = p \<rparr>"

record thinking_config =
  thinking_type :: string

definition thinking_enabled :: thinking_config where
  "thinking_enabled = \<lparr> thinking_type = ''enabled'' \<rparr>"

record 'j chat_request =
  cr_model :: string
  cr_messages :: "'j chat_message list"
  cr_tools :: "'j tool_definition list option"
  cr_temperature :: "u32 option"
  cr_max_tokens :: "u32 option"
  cr_thinking :: "thinking_config option"

record usage =
  us_input_tokens :: u64
  us_output_tokens :: u64
  us_total_tokens :: u64

record 'j chat_response =
  rs_content :: "string option"
  rs_tool_calls :: "'j tool_call list"
  rs_reasoning :: "string option"
  rs_usage :: "usage option"

definition has_tool_calls :: "'j chat_response \<Rightarrow> bool" where
  "has_tool_calls r = (rs_tool_calls r \<noteq> [])"

section \<open>Streaming\<close>

datatype finish_reason = FinStop | FinToolCalls | FinLength | FinOther string

definition finish_from_api_str :: "string \<Rightarrow> finish_reason" where
  "finish_from_api_str s =
     (if s = ''stop'' then FinStop
      else if s = ''tool_calls'' then FinToolCalls
      else if s = ''length'' then FinLength
      else FinOther s)"

record tool_call_delta =
  tcd_index :: nat
  tcd_id :: "string option"
  tcd_function_name :: "string option"
  tcd_function_arguments :: "string option"

record chat_stream_delta =
  csd_content :: "string option"
  csd_reasoning :: "string option"
  csd_tool_calls :: "tool_call_delta list"

record chat_stream_chunk =
  csc_delta :: chat_stream_delta
  csc_finish_reason :: "finish_reason option"
  csc_usage :: "usage option"

definition delta_of_call :: "'j json_ops \<Rightarrow> nat \<times> 'j tool_call \<Rightarrow> tool_call_delta" where
  "delta_of_call js = (\<lambda>(i, tc). \<lparr> tcd_index = i, tcd_id = Some (tc_id tc),
     tcd_function_name = Some (fc_name (tc_function tc)),
     tcd_function_arguments = Some (jo_show js (fc_arguments (tc_function tc))) \<rparr>)"

definition chunk_from_response :: "'j json_ops \<Rightarrow> 'j chat_response \<Rightarrow> chat_stream_chunk" where
  "chunk_from_response js r = \<lparr>
     csc_delta = \<lparr> csd_content = rs_content r, csd_reasoning = rs_reasoning r,
       csd_tool_calls = map (delta_of_call js) (List.enumerate 0 (rs_tool_calls r)) \<rparr>,
     csc_finish_reason = (if has_tool_calls r then Some FinToolCalls else Some FinStop),
     csc_usage = rs_usage r \<rparr>"

section \<open>Stream events\<close>

datatype chat_event =
    Thinking string
  | ToolStart string "string option"
  | ToolEnd string "string option"
  | ContentEv string
  | Done
  | TextEv string
  | ErrorEv string
  | ContextStats u64 u64 u64 u64 u64 bool
  | WatermarkInfo u64 u64 u64 u64
  | SubagentStarted string string u32
  | SubagentThinking string string
  | SubagentContent string string
  | SubagentToolStart string string "string option"
  | SubagentToolEnd string string "string option"
  | SubagentCompleted string u32 string u32
  | SubagentError string u32 string
  | SubagentAllStarted u32
  | SubagentSynthesizing
  | ApprovalRequestEv string string string string
  | ApprovalResponseEv string bool bool

record stream_event =
  se_agent_id :: "string option"
  se_event :: chat_event

definition main_event :: "chat_event \<Rightarrow> stream_event" where
  "main_event e = \<lparr> se_agent_id = None, se_event = e \<rparr>"

definition subagent_event :: "string \<Rightarrow> chat_event \<Rightarrow> stream_event" where
  "subagent_event i e = \<lparr> se_agent_id = Some i, se_event = e \<rparr>"

definition is_subagent_event :: "stream_event \<Rightarrow> bool" where
  "is_subagent_event e = (se_agent_id e \<noteq> None)"

definition with_agent_id :: "string \<Rightarrow> stream_event \<Rightarrow> stream_event" where
  "with_agent_id i e = e \<lparr> se_agent_id := Some i \<rparr>"

definition to_chat_event :: "stream_event \<Rightarrow> chat_event option" where
  "to_chat_event e = (if se_agent_id e \<noteq> None then None else Some (se_event e))"

section \<open>Token usage\<close>

record token_usage =
  tu_input :: u64
  tu_output :: u64
  tu_total :: u64

definition token_usage_new :: "u64 \<Rightarrow> u64 \<Rightarrow> token_usage" where
  "token_usage_new i o' = \<lparr> tu_input = i, tu_output = o', tu_total = i + o' \<rparr>"

section \<open>The tool-call protocol\<close>

text \<open>What chat APIs demand of a conversation: every call an assistant message makes is
  answered by a tool message with its identifier, in order and before any other
  message.  The first argument holds the identifiers still owed an answer.\<close>

definition call_ids :: "'j chat_message \<Rightarrow> string list" where
  "call_ids m = (if cm_role m = AssistantRole
     then (case cm_tool_calls m of Some tcs \<Rightarrow> map tc_id tcs | None \<Rightarrow> []) else [])"

fun paired_from :: "string list \<Rightarrow> 'j chat_message list \<Rightarrow> bool" where
  "paired_from owed [] = (owed = [])"
| "paired_from owed (m # ms) =
     (if cm_role m = ToolRole
      then (case owed of [] \<Rightarrow> False
            | i # rest \<Rightarrow> cm_tool_call_id m = Some i \<and> paired_from rest ms)
      else owed = [] \<and> paired_from (call_ids m) ms)"

definition paired :: "'j chat_message list \<Rightarrow> bool" where
  "paired ms = paired_from [] ms"

lemma paired_from_append:
  "paired_from owed xs \<Longrightarrow> paired_from owed (xs @ ys) = paired_from [] ys"
  by (induction owed xs rule: paired_from.induct) (auto split: list.splits)

lemma paired_append: "paired xs \<Longrightarrow> paired (xs @ ys) = paired ys"
  by (simp add: paired_def paired_from_append)

lemma paired_Nil [simp]: "paired []"
  by (simp add: paired_def)

lemma msg_roles [simp]:
  "cm_role (msg_system c) = SystemRole" "cm_role (msg_user c) = UserRole"
  "cm_role (msg_assistant c) = AssistantRole" "cm_role (msg_assistant_with_tools d tcs r) = AssistantRole"
  "cm_role (msg_tool_result i n c) = ToolRole" "cm_tool_call_id (msg_tool_result i n c) = Some i"
  by (simp_all add: msg_system_def msg_user_def msg_assistant_def msg_assistant_with_tools_def
      msg_tool_result_def)

lemma call_ids_simps [simp]:
  "call_ids (msg_system c) = []" "call_ids (msg_user c) = []" "call_ids (msg_assistant c) = []"
  "call_ids (msg_assistant_with_tools d tcs r) = map tc_id tcs" "call_ids (msg_tool_result i n c) = []"
  by (simp_all add: call_ids_def msg_assistant_with_tools_def msg_assistant_def)

lemma paired_from_answers:
  "paired_from (map f xs) (map (\<lambda>x. msg_tool_result (f x) (g x) (h x)) xs)"
  by (induction xs) auto

lemma paired_round:
  "paired (msg_assistant_with_tools c tcs r # map (\<lambda>x. msg_tool_result (tc_id x) (g x) (h x)) tcs)"
  by (simp add: paired_def paired_from_answers)

lemma paired_single [simp]:
  "paired [msg_system c]" "paired [msg_user c]" "paired [msg_assistant c]"
  "paired [msg_assistant_with_tools d [] r]"
  by (simp_all add: paired_def)

lemma role_roundtrip: "role_from_str (role_as_str r) = Inr r"
  by (cases r) (simp_all add: role_from_str_def)

end
