(* ===== verification/Broker.thy ===== *)
theory Broker
  imports Async_Channel Chat_Types
begin

text \<open>
  The in-memory broker (broker/src/types.rs, error.rs, broker.rs, memory.rs): topics,
  envelopes, queues with their counters, subscribers.  A queue lives as long as somebody
  holds a handle of it, also after its topic was closed, so queues are kept in a store under
  numbers and the map of topics holds the numbers.  \<open>publish\<close> is two steps, taking
  the sender out of the map and polling it, as it may wait in between; the send and the
  increment of its counter are one step.  A number without a queue, or with a queue of the
  other kind, does not occur (\<open>broker_ok\<close> below).  The channel operations are the argument \<open>qo\<close>.
\<close>

section \<open>Topics and envelopes\<close>

datatype topic =
    InboundTopic | OutboundTopic | SystemEventTopic | ToolCallTopic string | LlmRequestTopic
  | StreamTopic string | CronTriggerTopic | HeartbeatTopic | WikiChangedTopic | CustomTopic string

definition topic_tool_call :: "string \<Rightarrow> string + topic" where
  "topic_tool_call name =
     (if name = [] then Inl ''ToolCall topic name cannot be empty'' else Inr (ToolCallTopic name))"

definition topic_custom :: "string \<Rightarrow> string + topic" where
  "topic_custom name =
     (if name = [] then Inl ''Custom topic name cannot be empty'' else Inr (CustomTopic name))"

datatype delivery_mode = PointToPoint | BroadcastMode

fun topic_delivery_mode :: "topic \<Rightarrow> delivery_mode" where
  "topic_delivery_mode SystemEventTopic = BroadcastMode"
| "topic_delivery_mode _ = PointToPoint"

datatype 'ws broker_payload =
    InboundPayload inbound_message
  | OutboundPayload "'ws outbound_message"
  | WikiChangedPayload string
  | SubagentStartedPayload string string "string option"
  | SubagentCompletedPayload string string "string option" bool nat

record 'ws envelope =
  en_id :: uuid
  en_timestamp :: u64
  en_topic :: topic
  en_payload :: "'ws broker_payload"

text \<open>\<open>now\<close> is in nanoseconds since the epoch.\<close>

definition envelope_new :: "uuid \<Rightarrow> time \<Rightarrow> topic \<Rightarrow> 'ws broker_payload \<Rightarrow> 'ws envelope" where
  "envelope_new i now t p = \<lparr> en_id = i,
     en_timestamp = (if now < 0 then 0 else word_of_int (now div 1000000)),
     en_topic = t, en_payload = p \<rparr>"

datatype broker_error =
    QueueFull | ChannelClosed | Lagged u64 | TopicNotFound | InvalidTopic string
  | AckAlreadyConsumed uuid | BrokerInternal string

section \<open>Queues\<close>

datatype ('p, 'b) queue_inner = P2PQueue 'p | BcastQueue 'b

record queue_stats =
  qs_published :: u64
  qs_consumed :: u64

definition queue_stats_new :: queue_stats where
  "queue_stats_new = \<lparr> qs_published = 0, qs_consumed = 0 \<rparr>"

record ('p, 'b) topic_queue =
  tq_inner :: "('p, 'b) queue_inner"
  tq_stats :: queue_stats

record ('p, 'b, 'ws) queue_ops =
  qo_p2p :: "('p, 'ws envelope) fifo_ops"
  qo_bcast :: "('b, 'ws envelope) fanout_ops"

record ('p, 'b) memory_broker =
  mb_topics :: "topic \<Rightarrow> nat option"
  mb_store :: "nat \<Rightarrow> ('p, 'b) topic_queue option"
  mb_next :: nat
  mb_p2p_capacity :: nat
  mb_broadcast_capacity :: nat

definition memory_broker_new :: "nat \<Rightarrow> nat \<Rightarrow> ('p, 'b) memory_broker" where
  "memory_broker_new p2p bcast = \<lparr> mb_topics = Map.empty, mb_store = Map.empty, mb_next = 0,
     mb_p2p_capacity = p2p, mb_broadcast_capacity = bcast \<rparr>"

definition memory_broker_default :: "('p, 'b) memory_broker" where
  "memory_broker_default = memory_broker_new 1024 256"

definition build_queue :: "('p, 'b, 'ws) queue_ops \<Rightarrow> topic \<Rightarrow> ('p, 'b) memory_broker \<Rightarrow> ('p, 'b) topic_queue" where
  "build_queue qo t mb = (case topic_delivery_mode t of
       PointToPoint \<Rightarrow> \<lparr> tq_inner = P2PQueue (fo_new (qo_p2p qo) (mb_p2p_capacity mb)),
                       tq_stats = queue_stats_new \<rparr>
     | BroadcastMode \<Rightarrow> \<lparr> tq_inner = BcastQueue (bo_new (qo_bcast qo) (mb_broadcast_capacity mb)),
                       tq_stats = queue_stats_new \<rparr>)"

definition put_queue :: "nat \<Rightarrow> ('p, 'b) topic_queue \<Rightarrow> ('p, 'b) memory_broker \<Rightarrow> ('p, 'b) memory_broker" where
  "put_queue i q mb = mb \<lparr> mb_store := (mb_store mb)(i \<mapsto> q) \<rparr>"

text \<open>The entry of a topic, created when there is none.\<close>

definition entry_or_build ::
  "('p, 'b, 'ws) queue_ops \<Rightarrow> topic \<Rightarrow> ('p, 'b) memory_broker \<Rightarrow> nat \<times> ('p, 'b) memory_broker" where
  "entry_or_build qo t mb = (case mb_topics mb t of
       Some i \<Rightarrow> (i, mb)
     | None \<Rightarrow> (mb_next mb, (put_queue (mb_next mb) (build_queue qo t mb) mb)
           \<lparr> mb_topics := (mb_topics mb)(t \<mapsto> mb_next mb), mb_next := Suc (mb_next mb) \<rparr>))"

definition map_inner ::
  "('p \<Rightarrow> 'p) \<Rightarrow> ('b \<Rightarrow> 'b) \<Rightarrow> nat \<Rightarrow> ('p, 'b) memory_broker \<Rightarrow> ('p, 'b) memory_broker" where
  "map_inner f g i mb = (case mb_store mb i of
       None \<Rightarrow> mb
     | Some q \<Rightarrow> put_queue i (q \<lparr> tq_inner := (case tq_inner q of
           P2PQueue p \<Rightarrow> P2PQueue (f p) | BcastQueue b \<Rightarrow> BcastQueue (g b)) \<rparr>) mb)"

definition clone_tx :: "('p, 'b, 'ws) queue_ops \<Rightarrow> nat \<Rightarrow> ('p, 'b) memory_broker \<Rightarrow> ('p, 'b) memory_broker" where
  "clone_tx qo = map_inner (fo_clone_tx (qo_p2p qo)) (bo_clone_tx (qo_bcast qo))"

definition drop_tx :: "('p, 'b, 'ws) queue_ops \<Rightarrow> nat \<Rightarrow> ('p, 'b) memory_broker \<Rightarrow> ('p, 'b) memory_broker" where
  "drop_tx qo = map_inner (fo_drop_tx (qo_p2p qo)) (bo_drop_tx (qo_bcast qo))"

definition sender_snapshot ::
  "('p, 'b, 'ws) queue_ops \<Rightarrow> topic \<Rightarrow> ('p, 'b) memory_broker \<Rightarrow> nat \<times> ('p, 'b) memory_broker" where
  "sender_snapshot qo t mb = (case entry_or_build qo t mb of (i, mb1) \<Rightarrow> (i, clone_tx qo i mb1))"

definition count_published :: "('p, 'b) topic_queue \<Rightarrow> ('p, 'b) topic_queue" where
  "count_published q = q \<lparr> tq_stats := (tq_stats q) \<lparr> qs_published := qs_published (tq_stats q) + 1 \<rparr> \<rparr>"

definition count_consumed :: "('p, 'b) topic_queue \<Rightarrow> ('p, 'b) topic_queue" where
  "count_consumed q = q \<lparr> tq_stats := (tq_stats q) \<lparr> qs_consumed := qs_consumed (tq_stats q) + 1 \<rparr> \<rparr>"

section \<open>Publishing\<close>

text \<open>One attempt on a sender taken out of the map; the sender itself stays.\<close>

definition send_on ::
  "('p, 'b, 'ws) queue_ops \<Rightarrow> nat \<Rightarrow> 'ws envelope \<Rightarrow> ('p, 'b) memory_broker
    \<Rightarrow> send_outcome \<times> ('p, 'b) memory_broker" where
  "send_on qo i env mb = (case mb_store mb i of
       None \<Rightarrow> (SendClosed, mb)
     | Some q \<Rightarrow> (case tq_inner q of
         P2PQueue p \<Rightarrow> (case fo_send (qo_p2p qo) env p of
             (SendOk, p1) \<Rightarrow> (SendOk, put_queue i (count_published (q \<lparr> tq_inner := P2PQueue p1 \<rparr>)) mb)
           | (r, p1) \<Rightarrow> (r, put_queue i (q \<lparr> tq_inner := P2PQueue p1 \<rparr>) mb))
       | BcastQueue b \<Rightarrow> (case bo_send (qo_bcast qo) env b of
             (_, b1) \<Rightarrow> (SendOk, put_queue i (count_published (q \<lparr> tq_inner := BcastQueue b1 \<rparr>)) mb))))"

text \<open>One poll of \<open>publish\<close>: no result while the queue is full.\<close>

definition publish_poll ::
  "('p, 'b, 'ws) queue_ops \<Rightarrow> nat \<Rightarrow> 'ws envelope \<Rightarrow> ('p, 'b) memory_broker
    \<Rightarrow> (broker_error + unit) option \<times> ('p, 'b) memory_broker" where
  "publish_poll qo i env mb = (case send_on qo i env mb of
       (SendOk, mb1) \<Rightarrow> (Some (Inr ()), drop_tx qo i mb1)
     | (SendFull, mb1) \<Rightarrow> (None, mb1)
     | (SendClosed, mb1) \<Rightarrow> (Some (Inl ChannelClosed), drop_tx qo i mb1))"

definition try_publish ::
  "('p, 'b, 'ws) queue_ops \<Rightarrow> 'ws envelope \<Rightarrow> ('p, 'b) memory_broker
    \<Rightarrow> (broker_error + unit) \<times> ('p, 'b) memory_broker" where
  "try_publish qo env mb = (case sender_snapshot qo (en_topic env) mb of (i, mb1) \<Rightarrow>
     (case send_on qo i env mb1 of
       (SendOk, mb2) \<Rightarrow> (Inr (), drop_tx qo i mb2)
     | (SendFull, mb2) \<Rightarrow> (Inl QueueFull, drop_tx qo i mb2)
     | (SendClosed, mb2) \<Rightarrow> (Inl ChannelClosed, drop_tx qo i mb2)))"

section \<open>Subscribing\<close>

text \<open>A subscriber: its queue, for a broadcast its receiver, and whether it counts.\<close>

datatype subscriber = P2PSub nat bool | BcastSub nat nat bool

definition sub_p2p :: "nat \<Rightarrow> subscriber" where
  "sub_p2p i = P2PSub i False"

definition sub_broadcast :: "nat \<Rightarrow> nat \<Rightarrow> subscriber" where
  "sub_broadcast i r = BcastSub i r False"

fun with_counter :: "subscriber \<Rightarrow> subscriber" where
  "with_counter (P2PSub i _) = P2PSub i True"
| "with_counter (BcastSub i r _) = BcastSub i r True"

definition subscribe ::
  "('p, 'b, 'ws) queue_ops \<Rightarrow> topic \<Rightarrow> ('p, 'b) memory_broker \<Rightarrow> (broker_error + subscriber) \<times> ('p, 'b) memory_broker" where
  "subscribe qo t mb = (case entry_or_build qo t mb of (i, mb1) \<Rightarrow>
     (case mb_store mb1 i of
       None \<Rightarrow> (Inl TopicNotFound, mb1)
     | Some q \<Rightarrow> (case tq_inner q of
         P2PQueue p \<Rightarrow> (Inr (with_counter (sub_p2p i)),
           put_queue i (q \<lparr> tq_inner := P2PQueue (fo_clone_rx (qo_p2p qo) p) \<rparr>) mb1)
       | BcastQueue b \<Rightarrow> (case bo_subscribe (qo_bcast qo) b of (r, b1) \<Rightarrow>
           (Inr (with_counter (sub_broadcast i r)),
            put_queue i (q \<lparr> tq_inner := BcastQueue b1 \<rparr>) mb1)))))"

text \<open>One poll of \<open>Subscriber::recv\<close>.\<close>

definition recv_result ::
  "bool \<Rightarrow> 'ws envelope recv_outcome \<Rightarrow> ('p, 'b) topic_queue
    \<Rightarrow> (broker_error + 'ws envelope) option \<times> ('p, 'b) topic_queue" where
  "recv_result counted r q = (case r of
       Received e \<Rightarrow> (Some (Inr e), if counted then count_consumed q else q)
     | RecvPending \<Rightarrow> (None, q)
     | RecvClosed \<Rightarrow> (Some (Inl ChannelClosed), q)
     | RecvLagged n \<Rightarrow> (Some (Inl (Lagged (of_nat n))), q))"

fun sub_recv ::
  "('p, 'b, 'ws) queue_ops \<Rightarrow> subscriber \<Rightarrow> ('p, 'b) memory_broker
    \<Rightarrow> (broker_error + 'ws envelope) option \<times> ('p, 'b) memory_broker" where
  "sub_recv qo (P2PSub i counted) mb = (case mb_store mb i of
       None \<Rightarrow> (Some (Inl ChannelClosed), mb)
     | Some q \<Rightarrow> (case tq_inner q of
         BcastQueue _ \<Rightarrow> (Some (Inl ChannelClosed), mb)
       | P2PQueue p \<Rightarrow> (case fo_recv (qo_p2p qo) p of (r, p1) \<Rightarrow>
           (case recv_result counted r (q \<lparr> tq_inner := P2PQueue p1 \<rparr>) of (res, q1) \<Rightarrow>
             (res, put_queue i q1 mb)))))"
| "sub_recv qo (BcastSub i n counted) mb = (case mb_store mb i of
       None \<Rightarrow> (Some (Inl ChannelClosed), mb)
     | Some q \<Rightarrow> (case tq_inner q of
         P2PQueue _ \<Rightarrow> (Some (Inl ChannelClosed), mb)
       | BcastQueue b \<Rightarrow> (case bo_recv (qo_bcast qo) n b of (r, b1) \<Rightarrow>
           (case recv_result counted r (q \<lparr> tq_inner := BcastQueue b1 \<rparr>) of (res, q1) \<Rightarrow>
             (res, put_queue i q1 mb)))))"

fun drop_sub :: "('p, 'b, 'ws) queue_ops \<Rightarrow> subscriber \<Rightarrow> ('p, 'b) memory_broker \<Rightarrow> ('p, 'b) memory_broker" where
  "drop_sub qo (P2PSub i _) mb = map_inner (fo_drop_rx (qo_p2p qo)) (\<lambda>b. b) i mb"
| "drop_sub qo (BcastSub i n _) mb = map_inner (\<lambda>p. p) (bo_drop_rx (qo_bcast qo) n) i mb"

section \<open>Closing and metrics\<close>

text \<open>Removing a topic drops the sender, and the receiver, its entry held.\<close>

definition close_topic ::
  "('p, 'b, 'ws) queue_ops \<Rightarrow> topic \<Rightarrow> ('p, 'b) memory_broker \<Rightarrow> ('p, 'b) memory_broker" where
  "close_topic qo t mb = (case mb_topics mb t of
       None \<Rightarrow> mb
     | Some i \<Rightarrow> map_inner (\<lambda>p. fo_drop_rx (qo_p2p qo) (fo_drop_tx (qo_p2p qo) p)) (bo_drop_tx (qo_bcast qo)) i
         (mb \<lparr> mb_topics := (mb_topics mb)(t := None) \<rparr>))"

record queue_metrics =
  qm_depth :: nat
  qm_total_published :: u64
  qm_total_consumed :: u64

definition broker_metrics ::
  "('p, 'b, 'ws) queue_ops \<Rightarrow> topic \<Rightarrow> ('p, 'b) memory_broker \<Rightarrow> queue_metrics option" where
  "broker_metrics qo t mb = (case mb_topics mb t of
       None \<Rightarrow> None
     | Some i \<Rightarrow> map_option (\<lambda>q. \<lparr>
         qm_depth = (case tq_inner q of P2PQueue p \<Rightarrow> fo_len (qo_p2p qo) p | BcastQueue b \<Rightarrow> bo_len (qo_bcast qo) b),
         qm_total_published = qs_published (tq_stats q),
         qm_total_consumed = qs_consumed (tq_stats q) \<rparr>) (mb_store mb i))"

end
