(* ===== verification/Broker_Proofs.thy ===== *)
theory Broker_Proofs
  imports Broker
begin

text \<open>
  What the broker guarantees, whatever its publishers and subscribers do and in whatever
  order: a point-to-point queue hands out what it accepted, once and in order; its counters
  and the number of its handles are right; a publisher to a topic is never told that its
  channel is closed.
\<close>

section \<open>Runs\<close>

text \<open>The publishers that wait, the live subscribers, and per queue what was accepted and
  what was handed out.\<close>

record ('p, 'b, 'ws) broker_run =
  br_mb :: "('p, 'b) memory_broker"
  br_pending :: "(nat \<times> 'ws envelope) list"
  br_subs :: "subscriber list"
  br_accepted :: "nat \<Rightarrow> 'ws envelope list"
  br_received :: "nat \<Rightarrow> 'ws envelope list"

datatype 'ws broker_action =
    StartPublish "'ws envelope" | PollPublish nat | TryPublish "'ws envelope"
  | Subscribe topic | Receive nat | DropSubscriber nat | CloseTopic topic

definition remove_nth :: "nat \<Rightarrow> 'a list \<Rightarrow> 'a list" where
  "remove_nth k xs = take k xs @ drop (Suc k) xs"

fun sub_queue :: "subscriber \<Rightarrow> nat" where
  "sub_queue (P2PSub i _) = i"
| "sub_queue (BcastSub i _ _) = i"

fun sub_counted :: "subscriber \<Rightarrow> bool" where
  "sub_counted (P2PSub _ c) = c"
| "sub_counted (BcastSub _ _ c) = c"

definition note_accepted :: "nat \<Rightarrow> 'ws envelope \<Rightarrow> ('p, 'b, 'ws) broker_run \<Rightarrow> ('p, 'b, 'ws) broker_run" where
  "note_accepted i e r = r \<lparr> br_accepted := (br_accepted r)(i := br_accepted r i @ [e]) \<rparr>"

definition note_received :: "nat \<Rightarrow> 'ws envelope \<Rightarrow> ('p, 'b, 'ws) broker_run \<Rightarrow> ('p, 'b, 'ws) broker_run" where
  "note_received i e r = r \<lparr> br_received := (br_received r)(i := br_received r i @ [e]) \<rparr>"

fun broker_act ::
  "('p, 'b, 'ws) queue_ops \<Rightarrow> 'ws broker_action \<Rightarrow> ('p, 'b, 'ws) broker_run \<Rightarrow> ('p, 'b, 'ws) broker_run" where
  "broker_act qo (StartPublish e) r = (case sender_snapshot qo (en_topic e) (br_mb r) of
     (i, mb) \<Rightarrow> r \<lparr> br_mb := mb, br_pending := (i, e) # br_pending r \<rparr>)"
| "broker_act qo (PollPublish k) r = (if k < length (br_pending r) then
     (case br_pending r ! k of (i, e) \<Rightarrow> (case publish_poll qo i e (br_mb r) of
        (None, mb) \<Rightarrow> r \<lparr> br_mb := mb \<rparr>
      | (Some (Inl _), mb) \<Rightarrow> r \<lparr> br_mb := mb, br_pending := remove_nth k (br_pending r) \<rparr>
      | (Some (Inr _), mb) \<Rightarrow>
          note_accepted i e (r \<lparr> br_mb := mb, br_pending := remove_nth k (br_pending r) \<rparr>)))
     else r)"
| "broker_act qo (TryPublish e) r = (case try_publish qo e (br_mb r) of
       (Inl _, mb) \<Rightarrow> r \<lparr> br_mb := mb \<rparr>
     | (Inr _, mb) \<Rightarrow> note_accepted (fst (entry_or_build qo (en_topic e) (br_mb r))) e (r \<lparr> br_mb := mb \<rparr>))"
| "broker_act qo (Subscribe t) r = (case subscribe qo t (br_mb r) of
       (Inl _, mb) \<Rightarrow> r \<lparr> br_mb := mb \<rparr>
     | (Inr s, mb) \<Rightarrow> r \<lparr> br_mb := mb, br_subs := s # br_subs r \<rparr>)"
| "broker_act qo (Receive k) r = (if k < length (br_subs r) then
     (case sub_recv qo (br_subs r ! k) (br_mb r) of
        (Some (Inr e), mb) \<Rightarrow> note_received (sub_queue (br_subs r ! k)) e (r \<lparr> br_mb := mb \<rparr>)
      | (_, mb) \<Rightarrow> r \<lparr> br_mb := mb \<rparr>)
     else r)"
| "broker_act qo (DropSubscriber k) r = (if k < length (br_subs r)
     then r \<lparr> br_mb := drop_sub qo (br_subs r ! k) (br_mb r), br_subs := remove_nth k (br_subs r) \<rparr>
     else r)"
| "broker_act qo (CloseTopic t) r = r \<lparr> br_mb := close_topic qo t (br_mb r) \<rparr>"

definition broker_start :: "nat \<Rightarrow> nat \<Rightarrow> ('p, 'b, 'ws) broker_run" where
  "broker_start p2p bcast = \<lparr> br_mb = memory_broker_new p2p bcast, br_pending = [], br_subs = [],
     br_accepted = (\<lambda>_. []), br_received = (\<lambda>_. []) \<rparr>"

definition broker_runs ::
  "('p, 'b, 'ws) queue_ops \<Rightarrow> 'ws broker_action list \<Rightarrow> ('p, 'b, 'ws) broker_run \<Rightarrow> ('p, 'b, 'ws) broker_run" where
  "broker_runs qo acts r = fold (broker_act qo) acts r"

section \<open>Handles and the invariant\<close>

definition in_map :: "nat \<Rightarrow> ('p, 'b) memory_broker \<Rightarrow> nat" where
  "in_map i mb = (if i \<in> ran (mb_topics mb) then 1 else 0)"

definition tx_handles :: "nat \<Rightarrow> ('p, 'b, 'ws) broker_run \<Rightarrow> nat" where
  "tx_handles i r = in_map i (br_mb r) + length (filter (\<lambda>x. fst x = i) (br_pending r))"

definition rx_handles :: "nat \<Rightarrow> ('p, 'b, 'ws) broker_run \<Rightarrow> nat" where
  "rx_handles i r = in_map i (br_mb r) + length (filter (\<lambda>s. sub_queue s = i) (br_subs r))"

definition queue_ok ::
  "('p \<Rightarrow> 'ws envelope fifo) \<Rightarrow> nat \<Rightarrow> nat \<Rightarrow> nat \<Rightarrow> 'ws envelope list \<Rightarrow> 'ws envelope list
    \<Rightarrow> ('p, 'b) topic_queue \<Rightarrow> bool" where
  "queue_ok view cap ntx nrx acc rec q = (case tq_inner q of
       BcastQueue _ \<Rightarrow> True
     | P2PQueue p \<Rightarrow> acc = rec @ ff_items (view p) \<and> length (ff_items (view p)) \<le> cap \<and> ff_cap (view p) = cap
         \<and> ff_senders (view p) = ntx \<and> ff_receivers (view p) = nrx
         \<and> qs_published (tq_stats q) = of_nat (length acc) \<and> qs_consumed (tq_stats q) = of_nat (length rec))"

definition is_p2p :: "('p, 'b) topic_queue \<Rightarrow> bool" where
  "is_p2p q = (case tq_inner q of P2PQueue _ \<Rightarrow> True | BcastQueue _ \<Rightarrow> False)"

definition kinds_ok :: "('p, 'b, 'ws) broker_run \<Rightarrow> bool" where
  "kinds_ok r = ((\<forall>t i. mb_topics (br_mb r) t = Some i \<longrightarrow>
       (\<exists>q. mb_store (br_mb r) i = Some q \<and> is_p2p q = (topic_delivery_mode t = PointToPoint)))
     \<and> (\<forall>s \<in> set (br_subs r). sub_counted s \<and> mb_store (br_mb r) (sub_queue s) \<noteq> None
          \<and> (\<forall>q. mb_store (br_mb r) (sub_queue s) = Some q \<longrightarrow> is_p2p q = (case s of P2PSub _ _ \<Rightarrow> True | _ \<Rightarrow> False)))
     \<and> (\<forall>x \<in> set (br_pending r). mb_store (br_mb r) (fst x) \<noteq> None)
     \<and> (\<forall>t u i. mb_topics (br_mb r) t = Some i \<longrightarrow> mb_topics (br_mb r) u = Some i \<longrightarrow> t = u)
     \<and> (\<forall>i. mb_store (br_mb r) i \<noteq> None \<longrightarrow> i < mb_next (br_mb r)))"

definition broker_ok :: "('p \<Rightarrow> 'ws envelope fifo) \<Rightarrow> nat \<Rightarrow> ('p, 'b, 'ws) broker_run \<Rightarrow> bool" where
  "broker_ok view cap r = (mb_p2p_capacity (br_mb r) = cap \<and> kinds_ok r
     \<and> (\<forall>i. mb_store (br_mb r) i = None \<longrightarrow> br_accepted r i = [] \<and> br_received r i = [])
     \<and> (\<forall>i q. mb_store (br_mb r) i = Some q \<longrightarrow>
          queue_ok view cap (tx_handles i r) (rx_handles i r) (br_accepted r i) (br_received r i) q))"

lemma put_queue_simps [simp]:
  "mb_topics (put_queue i q mb) = mb_topics mb" "mb_store (put_queue i q mb) = (mb_store mb)(i \<mapsto> q)"
  "mb_next (put_queue i q mb) = mb_next mb" "mb_p2p_capacity (put_queue i q mb) = mb_p2p_capacity mb"
  by (simp_all add: put_queue_def)

lemma kinds_topic:
  assumes "kinds_ok r" "mb_topics (br_mb r) t = Some i"
  obtains q where "mb_store (br_mb r) i = Some q" "is_p2p q = (topic_delivery_mode t = PointToPoint)"
  using assms unfolding kinds_ok_def by blast

lemma kinds_sub:
  assumes "kinds_ok r" "s \<in> set (br_subs r)"
  obtains q where "mb_store (br_mb r) (sub_queue s) = Some q"
    "is_p2p q = (case s of P2PSub _ _ \<Rightarrow> True | _ \<Rightarrow> False)" "sub_counted s"
  using assms unfolding kinds_ok_def by blast

lemma kinds_pending: "kinds_ok r \<Longrightarrow> x \<in> set (br_pending r) \<Longrightarrow> \<exists>q. mb_store (br_mb r) (fst x) = Some q"
  unfolding kinds_ok_def by blast

lemma kinds_inj: "kinds_ok r \<Longrightarrow> mb_topics (br_mb r) t = Some i \<Longrightarrow> mb_topics (br_mb r) u = Some i \<Longrightarrow> t = u"
  unfolding kinds_ok_def by blast

lemma kinds_next: "kinds_ok r \<Longrightarrow> mb_store (br_mb r) i = Some q \<Longrightarrow> i < mb_next (br_mb r)"
  unfolding kinds_ok_def by blast

text \<open>An operation on one queue that keeps its kind.\<close>

lemma broker_ok_update:
  assumes ok: "broker_ok view cap r" and here: "mb_store (br_mb r) i = Some q"
    and st: "mb_store (br_mb r1) = (mb_store (br_mb r))(i \<mapsto> q1)"
    and topics: "mb_topics (br_mb r1) \<subseteq>\<^sub>m mb_topics (br_mb r)"
    and rest: "mb_next (br_mb r1) = mb_next (br_mb r)" "mb_p2p_capacity (br_mb r1) = mb_p2p_capacity (br_mb r)"
    and kind: "is_p2p q1 = is_p2p q"
    and q1: "queue_ok view cap (tx_handles i r1) (rx_handles i r1) (br_accepted r1 i) (br_received r1 i) q1"
    and others: "\<And>j. j \<noteq> i \<Longrightarrow> tx_handles j r1 = tx_handles j r \<and> rx_handles j r1 = rx_handles j r
        \<and> br_accepted r1 j = br_accepted r j \<and> br_received r1 j = br_received r j"
    and subs: "\<And>s. s \<in> set (br_subs r1) \<Longrightarrow> s \<in> set (br_subs r)
        \<or> (sub_counted s \<and> sub_queue s = i \<and> is_p2p q = (case s of P2PSub _ _ \<Rightarrow> True | _ \<Rightarrow> False))"
    and pend: "\<And>x. x \<in> set (br_pending r1) \<Longrightarrow> x \<in> set (br_pending r) \<or> fst x = i"
  shows "broker_ok view cap r1"
proof -
  have k: "kinds_ok r" and c: "mb_p2p_capacity (br_mb r) = cap" using ok by (simp_all add: broker_ok_def)
  have t: "mb_topics (br_mb r1) t = Some j \<Longrightarrow> mb_topics (br_mb r) t = Some j" for t j
    using topics by (metis domI map_le_def)
  have "kinds_ok r1"
    unfolding kinds_ok_def
  proof (intro conjI allI ballI impI)
    fix t j assume "mb_topics (br_mb r1) t = Some j"
    from kinds_topic [OF k t [OF this]] obtain q0
      where "mb_store (br_mb r) j = Some q0" "is_p2p q0 = (topic_delivery_mode t = PointToPoint)" by blast
    then show "\<exists>q. mb_store (br_mb r1) j = Some q \<and> is_p2p q = (topic_delivery_mode t = PointToPoint)"
      using here kind by (cases "j = i") (auto simp: st)
  next
    fix s assume "s \<in> set (br_subs r1)"
    then show "sub_counted s" using subs k unfolding kinds_ok_def by blast
  next
    fix s assume "s \<in> set (br_subs r1)"
    then show "mb_store (br_mb r1) (sub_queue s) \<noteq> None"
      using subs [of s] k by (auto simp: st kinds_ok_def)
  next
    fix s q' assume s: "s \<in> set (br_subs r1)" and q': "mb_store (br_mb r1) (sub_queue s) = Some q'"
    show "is_p2p q' = (case s of P2PSub _ _ \<Rightarrow> True | _ \<Rightarrow> False)"
      using subs [OF s]
    proof
      assume "s \<in> set (br_subs r)"
      then have "\<forall>q0. mb_store (br_mb r) (sub_queue s) = Some q0 \<longrightarrow> is_p2p q0 = (case s of P2PSub _ _ \<Rightarrow> True | _ \<Rightarrow> False)"
        using k by (simp add: kinds_ok_def)
      then show ?thesis using q' here kind by (cases "sub_queue s = i") (auto simp: st)
    next
      assume "sub_counted s \<and> sub_queue s = i \<and> is_p2p q = (case s of P2PSub _ _ \<Rightarrow> True | _ \<Rightarrow> False)"
      then show ?thesis using q' kind by (auto simp: st)
    qed
  next
    fix x assume "x \<in> set (br_pending r1)"
    then show "mb_store (br_mb r1) (fst x) \<noteq> None"
      using pend [of x] k by (auto simp: st kinds_ok_def)
  next
    fix t u j assume "mb_topics (br_mb r1) t = Some j" "mb_topics (br_mb r1) u = Some j"
    then show "t = u" using t kinds_inj [OF k] by blast
  next
    fix j assume "mb_store (br_mb r1) j \<noteq> None"
    then have "mb_store (br_mb r) j \<noteq> None" using here by (auto simp: st split: if_splits)
    then show "j < mb_next (br_mb r1)" using k by (simp add: kinds_ok_def rest)
  qed
  moreover have "\<forall>j. mb_store (br_mb r1) j = None \<longrightarrow> br_accepted r1 j = [] \<and> br_received r1 j = []"
    using ok others by (auto simp: broker_ok_def st)
  moreover have "\<forall>j q'. mb_store (br_mb r1) j = Some q' \<longrightarrow>
      queue_ok view cap (tx_handles j r1) (rx_handles j r1) (br_accepted r1 j) (br_received r1 j) q'"
  proof (intro allI impI)
    fix j q' assume q': "mb_store (br_mb r1) j = Some q'"
    show "queue_ok view cap (tx_handles j r1) (rx_handles j r1) (br_accepted r1 j) (br_received r1 j) q'"
    proof (cases "j = i")
      case True
      then show ?thesis using q' q1 by (simp add: st)
    next
      case False
      then have "mb_store (br_mb r) j = Some q'" using q' by (simp add: st)
      then show ?thesis using ok others [OF False] by (simp add: broker_ok_def)
    qed
  qed
  ultimately show ?thesis using c by (simp add: broker_ok_def rest)
qed

section \<open>Every action keeps the invariant\<close>

definition inner_map :: "('p \<Rightarrow> 'p) \<Rightarrow> ('b \<Rightarrow> 'b) \<Rightarrow> ('p, 'b) topic_queue \<Rightarrow> ('p, 'b) topic_queue" where
  "inner_map f g q = q \<lparr> tq_inner := (case tq_inner q of P2PQueue p \<Rightarrow> P2PQueue (f p) | BcastQueue b \<Rightarrow> BcastQueue (g b)) \<rparr>"

lemma map_inner_put:
  "mb_store mb i = Some q \<Longrightarrow> map_inner f g i mb = put_queue i (inner_map f g q) mb"
  by (simp add: map_inner_def inner_map_def)

lemma inner_map_simps [simp]:
  "is_p2p (inner_map f g q) = is_p2p q" "tq_stats (inner_map f g q) = tq_stats q"
  "is_p2p (count_published q) = is_p2p q" "is_p2p (count_consumed q) = is_p2p q"
  by (simp_all add: inner_map_def is_p2p_def count_published_def count_consumed_def split: queue_inner.split)

lemma count_handles: "k < length xs \<Longrightarrow>
    length (filter P (remove_nth k xs)) = length (filter P xs) - (if P (xs ! k) then 1 else 0)"
proof -
  assume k: "k < length xs"
  have "length (filter P (take k xs @ xs ! k # drop (Suc k) xs)) = length (filter P xs)"
    using id_take_nth_drop [OF k] by simp
  then show ?thesis by (auto simp: remove_nth_def)
qed

lemma count_handles_pos: "k < length xs \<Longrightarrow> P (xs ! k) \<Longrightarrow> 0 < length (filter P xs)"
  by (metis (no_types, lifting) filter_empty_conv length_greater_0_conv nth_mem)

lemma set_remove_nth: "set (remove_nth k xs) \<subseteq> set xs"
  by (auto simp: remove_nth_def dest: in_set_takeD in_set_dropD)

locale broker_channels = fifo_channel "qo_p2p qo" view
  for qo :: "('p, 'b, 'ws) queue_ops" and view :: "'p \<Rightarrow> 'ws envelope fifo"
begin

lemma entry_ok:
  assumes ok: "broker_ok view cap r" and e: "entry_or_build qo t (br_mb r) = (i, mb)"
  shows "broker_ok view cap (r \<lparr> br_mb := mb \<rparr>)" and "mb_topics mb t = Some i"
proof -
  have k: "kinds_ok r" and c: "mb_p2p_capacity (br_mb r) = cap" using ok by (simp_all add: broker_ok_def)
  have "broker_ok view cap (r \<lparr> br_mb := mb \<rparr>) \<and> mb_topics mb t = Some i"
  proof (cases "mb_topics (br_mb r) t")
    case (Some j)
    then have "mb = br_mb r" "i = j" using e by (simp_all add: entry_or_build_def)
    then show ?thesis using ok Some by simp
  next
    case None
    let ?n = "mb_next (br_mb r)" and ?q = "build_queue qo t (br_mb r)"
    have i: "i = ?n" and mb: "mb = (put_queue ?n ?q (br_mb r))
        \<lparr> mb_topics := (mb_topics (br_mb r))(t \<mapsto> ?n), mb_next := Suc ?n \<rparr>"
      using e None by (auto simp: entry_or_build_def)
    have fresh: "mb_store (br_mb r) ?n = None" using kinds_next [OF k] by (cases "mb_store (br_mb r) ?n") auto
    have unmapped: "mb_topics (br_mb r) u \<noteq> Some ?n" for u
      using kinds_topic [OF k] fresh by (metis option.distinct(1))
    have nopend: "filter (\<lambda>x. fst x = ?n) (br_pending r) = []"
      unfolding filter_empty_conv using kinds_pending [OF k] fresh by force
    have nosub: "filter (\<lambda>s. sub_queue s = ?n) (br_subs r) = []"
      unfolding filter_empty_conv using kinds_sub [OF k] fresh by (metis option.distinct(1))
    have ran: "j \<in> ran (mb_topics mb) \<longleftrightarrow> j = ?n \<or> j \<in> ran (mb_topics (br_mb r))" for j
      using None by (auto simp: mb ran_map_upd)
    have handles: "tx_handles j (r \<lparr> br_mb := mb \<rparr>) = (if j = ?n then 1 else tx_handles j r)"
      "rx_handles j (r \<lparr> br_mb := mb \<rparr>) = (if j = ?n then 1 else rx_handles j r)" for j
      using ran nopend nosub by (auto simp: tx_handles_def rx_handles_def in_map_def)
    have kind: "is_p2p ?q = (topic_delivery_mode t = PointToPoint)"
      by (simp add: build_queue_def is_p2p_def split: delivery_mode.split)
    have new: "queue_ok view cap 1 1 [] [] ?q"
      using c by (auto simp: build_queue_def queue_ok_def view_new fifo_new_def queue_stats_new_def
          split: delivery_mode.split queue_inner.split)
    have "kinds_ok (r \<lparr> br_mb := mb \<rparr>)"
      unfolding kinds_ok_def
    proof (intro conjI allI ballI impI)
      fix u j assume u: "mb_topics (br_mb (r \<lparr> br_mb := mb \<rparr>)) u = Some j"
      show "\<exists>q. mb_store (br_mb (r \<lparr> br_mb := mb \<rparr>)) j = Some q \<and> is_p2p q = (topic_delivery_mode u = PointToPoint)"
      proof (cases "u = t")
        case True
        then show ?thesis using u kind by (simp add: mb)
      next
        case False
        then have uj: "mb_topics (br_mb r) u = Some j" using u by (simp add: mb)
        then have "j \<noteq> ?n" using unmapped by blast
        then show ?thesis using kinds_topic [OF k uj] by (simp add: mb) blast
      qed
    next
      fix s assume "s \<in> set (br_subs (r \<lparr> br_mb := mb \<rparr>))"
      then have s: "s \<in> set (br_subs r)" by simp
      from kinds_sub [OF k s] obtain q where q: "mb_store (br_mb r) (sub_queue s) = Some q"
        "is_p2p q = (case s of P2PSub _ _ \<Rightarrow> True | _ \<Rightarrow> False)" "sub_counted s" by blast
      show "sub_counted s" using q(3) .
      have ne: "sub_queue s \<noteq> ?n" using q(1) fresh by auto
      show "mb_store (br_mb (r \<lparr> br_mb := mb \<rparr>)) (sub_queue s) \<noteq> None" using q(1) by (simp add: mb)
      fix q' assume "mb_store (br_mb (r \<lparr> br_mb := mb \<rparr>)) (sub_queue s) = Some q'"
      then have "q' = q" using q(1) ne by (simp add: mb)
      then show "is_p2p q' = (case s of P2PSub _ _ \<Rightarrow> True | _ \<Rightarrow> False)" using q(2) by simp
    next
      fix x assume "x \<in> set (br_pending (r \<lparr> br_mb := mb \<rparr>))"
      then show "mb_store (br_mb (r \<lparr> br_mb := mb \<rparr>)) (fst x) \<noteq> None"
        using kinds_pending [OF k] by (auto simp: mb)
    next
      fix u v j assume "mb_topics (br_mb (r \<lparr> br_mb := mb \<rparr>)) u = Some j" "mb_topics (br_mb (r \<lparr> br_mb := mb \<rparr>)) v = Some j"
      then show "u = v" using unmapped kinds_inj [OF k] by (auto simp: mb split: if_splits)
    next
      fix j assume "mb_store (br_mb (r \<lparr> br_mb := mb \<rparr>)) j \<noteq> None"
      then show "j < mb_next (br_mb (r \<lparr> br_mb := mb \<rparr>))"
        using kinds_next [OF k] by (auto simp: mb less_Suc_eq split: if_splits)
    qed
    moreover have "\<forall>j. mb_store mb j = None \<longrightarrow> br_accepted r j = [] \<and> br_received r j = []"
      using ok by (auto simp: mb broker_ok_def split: if_splits)
    moreover have "\<forall>j q. mb_store mb j = Some q \<longrightarrow> queue_ok view cap (tx_handles j (r \<lparr> br_mb := mb \<rparr>))
        (rx_handles j (r \<lparr> br_mb := mb \<rparr>)) (br_accepted r j) (br_received r j) q"
    proof (intro allI impI)
      fix j q assume q: "mb_store mb j = Some q"
      show "queue_ok view cap (tx_handles j (r \<lparr> br_mb := mb \<rparr>)) (rx_handles j (r \<lparr> br_mb := mb \<rparr>))
          (br_accepted r j) (br_received r j) q"
      proof (cases "j = ?n")
        case True
        then have "q = ?q" "br_accepted r j = []" "br_received r j = []"
          using q ok fresh by (auto simp: mb broker_ok_def)
        then show ?thesis using new True handles by simp
      next
        case False
        then show ?thesis using q ok handles by (simp add: mb broker_ok_def)
      qed
    qed
    ultimately show ?thesis using c by (simp add: broker_ok_def i mb)
  qed
  then show "broker_ok view cap (r \<lparr> br_mb := mb \<rparr>)" "mb_topics mb t = Some i" by simp_all
qed

lemma snapshot_ok:
  assumes ok: "broker_ok view cap r" and e: "sender_snapshot qo t (br_mb r) = (i, mb)"
  shows "broker_ok view cap (r \<lparr> br_mb := mb, br_pending := (i, x) # br_pending r \<rparr>)"
    and "mb_topics mb t = Some i"
proof -
  obtain mb1 where e1: "entry_or_build qo t (br_mb r) = (i, mb1)" and mb: "mb = clone_tx qo i mb1"
    using e by (auto simp: sender_snapshot_def split: prod.splits)
  note ok1 = entry_ok [OF ok e1]
  have k: "kinds_ok (r \<lparr> br_mb := mb1 \<rparr>)" using ok1(1) by (simp add: broker_ok_def)
  obtain q where q: "mb_store mb1 i = Some q" using kinds_topic [OF k, of t i] ok1(2) by auto
  have put: "mb = put_queue i (inner_map (fo_clone_tx (qo_p2p qo)) (bo_clone_tx (qo_bcast qo)) q) mb1"
    by (simp add: mb clone_tx_def map_inner_put [OF q])
  have qok: "queue_ok view cap (tx_handles i (r \<lparr> br_mb := mb1 \<rparr>)) (rx_handles i (r \<lparr> br_mb := mb1 \<rparr>))
      (br_accepted r i) (br_received r i) q"
    using ok1(1) q by (simp add: broker_ok_def)
  show "broker_ok view cap (r \<lparr> br_mb := mb, br_pending := (i, x) # br_pending r \<rparr>)"
    using qok
    by (intro broker_ok_update [OF ok1(1), where i = i and q = q
        and ?q1.0 = "inner_map (fo_clone_tx (qo_p2p qo)) (bo_clone_tx (qo_bcast qo)) q"])
      (auto simp: put q tx_handles_def rx_handles_def in_map_def queue_ok_def inner_map_def is_p2p_def view_clone_tx
        split: queue_inner.splits)
  show "mb_topics mb t = Some i" using ok1(2) by (simp add: put)
qed

lemma send_on_ok:
  assumes ok: "broker_ok view cap r" and q: "mb_store (br_mb r) i = Some q"
    and s: "send_on qo i e (br_mb r) = (o', mb)"
  shows "broker_ok view cap (if o' = SendOk then note_accepted i e (r \<lparr> br_mb := mb \<rparr>) else r \<lparr> br_mb := mb \<rparr>)"
    and "mb_topics mb = mb_topics (br_mb r)"
    and "\<exists>q. mb_store mb i = Some q"
    and "o' = SendClosed \<Longrightarrow> rx_handles i r = 0"
    and "o' = SendFull \<longleftrightarrow> rx_handles i r \<noteq> 0 \<and> is_p2p q \<and> cap \<le> length (br_accepted r i) - length (br_received r i)"
proof -
  have qok: "queue_ok view cap (tx_handles i r) (rx_handles i r) (br_accepted r i) (br_received r i) q"
    using ok q by (simp add: broker_ok_def)
  have *: "broker_ok view cap (if o' = SendOk then note_accepted i e (r \<lparr> br_mb := mb \<rparr>) else r \<lparr> br_mb := mb \<rparr>)
    \<and> mb_topics mb = mb_topics (br_mb r) \<and> (\<exists>q. mb_store mb i = Some q)
    \<and> (o' = SendClosed \<longrightarrow> rx_handles i r = 0)
    \<and> (o' = SendFull \<longleftrightarrow> rx_handles i r \<noteq> 0 \<and> is_p2p q \<and> cap \<le> length (br_accepted r i) - length (br_received r i))"
  proof (cases "tq_inner q")
    case (P2PQueue p)
    obtain p1 where p1: "fo_send (qo_p2p qo) e p = (o', p1)"
      and mb: "mb = put_queue i (if o' = SendOk then count_published (q \<lparr> tq_inner := P2PQueue p1 \<rparr>)
                              else q \<lparr> tq_inner := P2PQueue p1 \<rparr>) (br_mb r)" (is "mb = put_queue i ?q1 _")
      using s by (auto simp: send_on_def q P2PQueue split: prod.splits send_outcome.splits)
    have sent: "fifo_send e (view p) = (o', view p1)" by (rule sendD [OF p1])
    show ?thesis
    proof (intro conjI)
      show "broker_ok view cap (if o' = SendOk then note_accepted i e (r \<lparr> br_mb := mb \<rparr>) else r \<lparr> br_mb := mb \<rparr>)"
        using sent qok
        by (intro broker_ok_update [OF ok q, where ?q1.0 = ?q1])
          (auto simp: mb note_accepted_def tx_handles_def rx_handles_def in_map_def queue_ok_def is_p2p_def P2PQueue
            count_published_def fifo_send_def split: if_splits dest!: sym [where t = "view p1"])
    qed (use sent qok in \<open>auto simp: mb queue_ok_def P2PQueue is_p2p_def fifo_send_def split: if_splits\<close>)
  next
    case (BcastQueue b)
    obtain b1 x where b1: "bo_send (qo_bcast qo) e b = (x, b1)" by fastforce
    have o': "o' = SendOk" and mb: "mb = put_queue i (count_published (q \<lparr> tq_inner := BcastQueue b1 \<rparr>)) (br_mb r)"
      using s by (auto simp: send_on_def q BcastQueue b1)
    show ?thesis
    proof (intro conjI)
      show "broker_ok view cap (if o' = SendOk then note_accepted i e (r \<lparr> br_mb := mb \<rparr>) else r \<lparr> br_mb := mb \<rparr>)"
        by (intro broker_ok_update [OF ok q, where ?q1.0 = "count_published (q \<lparr> tq_inner := BcastQueue b1 \<rparr>)"])
          (auto simp: o' mb note_accepted_def tx_handles_def rx_handles_def in_map_def queue_ok_def is_p2p_def BcastQueue
            count_published_def split: if_splits)
    qed (auto simp: o' mb is_p2p_def BcastQueue)
  qed
  then show "broker_ok view cap (if o' = SendOk then note_accepted i e (r \<lparr> br_mb := mb \<rparr>) else r \<lparr> br_mb := mb \<rparr>)"
    "mb_topics mb = mb_topics (br_mb r)" "\<exists>q. mb_store mb i = Some q" "o' = SendClosed \<Longrightarrow> rx_handles i r = 0"
    "o' = SendFull \<longleftrightarrow> rx_handles i r \<noteq> 0 \<and> is_p2p q \<and> cap \<le> length (br_accepted r i) - length (br_received r i)"
    by blast+
qed

lemma drop_tx_ok:
  assumes ok: "broker_ok view cap r" and k: "k < length (br_pending r)" "fst (br_pending r ! k) = i"
  shows "broker_ok view cap (r \<lparr> br_mb := drop_tx qo i (br_mb r), br_pending := remove_nth k (br_pending r) \<rparr>)"
proof -
  have kk: "kinds_ok r" using ok by (simp add: broker_ok_def)
  obtain q where q: "mb_store (br_mb r) i = Some q"
    using kinds_pending [OF kk, of "br_pending r ! k"] k by auto
  have qok: "queue_ok view cap (tx_handles i r) (rx_handles i r) (br_accepted r i) (br_received r i) q"
    using ok q by (simp add: broker_ok_def)
  have put: "drop_tx qo i (br_mb r) = put_queue i (inner_map (fo_drop_tx (qo_p2p qo)) (bo_drop_tx (qo_bcast qo)) q) (br_mb r)"
    by (simp add: drop_tx_def map_inner_put [OF q])
  note pos = count_handles_pos [OF k(1), of "\<lambda>x. fst x = i"]
  show ?thesis
    using qok pos k set_remove_nth [of k "br_pending r"]
    by (intro broker_ok_update [OF ok q, where ?q1.0 = "inner_map (fo_drop_tx (qo_p2p qo)) (bo_drop_tx (qo_bcast qo)) q"])
      (auto simp: put tx_handles_def rx_handles_def in_map_def queue_ok_def inner_map_def is_p2p_def view_drop_tx
        count_handles [OF k(1)] split: queue_inner.splits)
qed

lemma act_start: "broker_ok view cap r \<Longrightarrow> broker_ok view cap (broker_act qo (StartPublish e) r)"
  using snapshot_ok(1) by (auto split: prod.splits)

lemma poll_ok:
  assumes ok: "broker_ok view cap r" and k: "k < length (br_pending r)" "br_pending r ! k = (i, e)"
  shows "broker_ok view cap (broker_act qo (PollPublish k) r)"
proof -
  have kk: "kinds_ok r" using ok by (simp add: broker_ok_def)
  have mem: "(i, e) \<in> set (br_pending r)" using k nth_mem by metis
  then obtain q where q: "mb_store (br_mb r) i = Some q" using kinds_pending [OF kk] by fastforce
  obtain o' mb where s: "send_on qo i e (br_mb r) = (o', mb)" by fastforce
  note sent = send_on_ok(1) [OF ok q s]
  have k': "k < length (br_pending (note_accepted i e (r \<lparr> br_mb := mb \<rparr>)))"
    "fst (br_pending (note_accepted i e (r \<lparr> br_mb := mb \<rparr>)) ! k) = i" using k by (simp_all add: note_accepted_def)
  have k'': "k < length (br_pending (r \<lparr> br_mb := mb \<rparr>))"
    "fst (br_pending (r \<lparr> br_mb := mb \<rparr>) ! k) = i" using k by simp_all
  show ?thesis
  proof (cases o')
    case SendOk
    then show ?thesis using drop_tx_ok [OF _ k'] sent k s by (cases r) (simp add: publish_poll_def note_accepted_def)
  next
    case SendFull
    then show ?thesis using sent k s by (simp add: publish_poll_def)
  next
    case SendClosed
    then show ?thesis using drop_tx_ok [OF _ k''] sent k s by (simp add: publish_poll_def)
  qed
qed

lemma act_poll: "broker_ok view cap r \<Longrightarrow> broker_ok view cap (broker_act qo (PollPublish k) r)"
  using poll_ok [of cap r k] by (cases "k < length (br_pending r)"; cases "br_pending r ! k") auto

lemma remove_nth_0 [simp]: "remove_nth 0 (x # xs) = xs"
  by (simp add: remove_nth_def)

lemma try_publish_ok:
  assumes ok: "broker_ok view cap r" and t: "try_publish qo e (br_mb r) = (res, mb)"
  shows "broker_ok view cap (broker_act qo (TryPublish e) r)"
    and "res \<noteq> Inl ChannelClosed"
    and "res = Inl QueueFull \<longleftrightarrow> topic_delivery_mode (en_topic e) = PointToPoint
      \<and> (let i = fst (entry_or_build qo (en_topic e) (br_mb r)) in
         cap \<le> length (br_accepted r i) - length (br_received r i))"
proof -
  obtain i mb1 where sn: "sender_snapshot qo (en_topic e) (br_mb r) = (i, mb1)" by fastforce
  have i: "fst (entry_or_build qo (en_topic e) (br_mb r)) = i"
    using sn by (auto simp: sender_snapshot_def split: prod.splits)
  let ?r = "r \<lparr> br_mb := mb1, br_pending := (i, e) # br_pending r \<rparr>"
  note ok1 = snapshot_ok(1) [OF ok sn, of e] snapshot_ok(2) [OF ok sn]
  have kk: "kinds_ok ?r" using ok1(1) by (simp add: broker_ok_def)
  obtain q where q: "mb_store (br_mb ?r) i = Some q" "is_p2p q = (topic_delivery_mode (en_topic e) = PointToPoint)"
    using kinds_topic [OF kk, of "en_topic e" i] ok1(2) by auto
  obtain o' mb2 where s: "send_on qo i e (br_mb ?r) = (o', mb2)" by fastforce
  note sent = send_on_ok [OF ok1(1) q(1) s]
  have rx: "rx_handles i ?r \<noteq> 0"
    using ok1(2) by (auto simp: rx_handles_def in_map_def ran_def)
  have res: "res = (case o' of SendOk \<Rightarrow> Inr () | SendFull \<Rightarrow> Inl QueueFull | SendClosed \<Rightarrow> Inl ChannelClosed)"
    and mb: "mb = drop_tx qo i mb2"
    using t sn s by (auto simp: try_publish_def split: send_outcome.splits)
  have d: "broker_ok view cap (if o' = SendOk then note_accepted i e (r \<lparr> br_mb := mb \<rparr>) else r \<lparr> br_mb := mb \<rparr>)"
  proof (cases "o' = SendOk")
    case True
    then have "broker_ok view cap (note_accepted i e (?r \<lparr> br_mb := mb2 \<rparr>))" using sent(1) by simp
    from drop_tx_ok [OF this, of 0 i] show ?thesis using True by (cases r) (simp add: mb note_accepted_def)
  next
    case False
    then have "broker_ok view cap (?r \<lparr> br_mb := mb2 \<rparr>)" using sent(1) by simp
    from drop_tx_ok [OF this, of 0 i] show ?thesis using False by (simp add: mb)
  qed
  have "broker_act qo (TryPublish e) r = (if o' = SendOk then note_accepted i e (r \<lparr> br_mb := mb \<rparr>) else r \<lparr> br_mb := mb \<rparr>)"
    using t res by (cases o') (auto simp: i)
  then show "broker_ok view cap (broker_act qo (TryPublish e) r)" using d by simp
  show "res \<noteq> Inl ChannelClosed" using sent(4) rx by (cases o') (auto simp: res)
  have "res = Inl QueueFull \<longleftrightarrow> o' = SendFull" by (cases o') (auto simp: res)
  then show "res = Inl QueueFull \<longleftrightarrow> topic_delivery_mode (en_topic e) = PointToPoint
      \<and> (let i = fst (entry_or_build qo (en_topic e) (br_mb r)) in
         cap \<le> length (br_accepted r i) - length (br_received r i))"
    using sent(5) rx q(2) by (simp add: i)
qed

lemma subscribe_ok:
  assumes ok: "broker_ok view cap r"
  shows "broker_ok view cap (broker_act qo (Subscribe t) r)"
proof -
  obtain i mb1 where e: "entry_or_build qo t (br_mb r) = (i, mb1)" by fastforce
  note ok1 = entry_ok [OF ok e]
  have kk: "kinds_ok (r \<lparr> br_mb := mb1 \<rparr>)" using ok1(1) by (simp add: broker_ok_def)
  obtain q where q: "mb_store (br_mb (r \<lparr> br_mb := mb1 \<rparr>)) i = Some q"
    using kinds_topic [OF kk, of t i] ok1(2) by auto
  have qok: "queue_ok view cap (tx_handles i (r \<lparr> br_mb := mb1 \<rparr>)) (rx_handles i (r \<lparr> br_mb := mb1 \<rparr>))
      (br_accepted r i) (br_received r i) q"
    using ok1(1) q by (simp add: broker_ok_def)
  show ?thesis
  proof (cases "tq_inner q")
    case (P2PQueue p)
    let ?q1 = "q \<lparr> tq_inner := P2PQueue (fo_clone_rx (qo_p2p qo) p) \<rparr>"
    have act: "broker_act qo (Subscribe t) r = r \<lparr> br_mb := put_queue i ?q1 mb1, br_subs := P2PSub i True # br_subs r \<rparr>"
      using q by (simp add: subscribe_def e P2PQueue sub_p2p_def)
    show ?thesis unfolding act using qok
      by (intro broker_ok_update [OF ok1(1) q, where ?q1.0 = ?q1])
        (auto simp: tx_handles_def rx_handles_def in_map_def queue_ok_def is_p2p_def P2PQueue view_clone_rx)
  next
    case (BcastQueue b)
    obtain n b1 where b1: "bo_subscribe (qo_bcast qo) b = (n, b1)" by fastforce
    let ?q1 = "q \<lparr> tq_inner := BcastQueue b1 \<rparr>"
    have act: "broker_act qo (Subscribe t) r = r \<lparr> br_mb := put_queue i ?q1 mb1, br_subs := BcastSub i n True # br_subs r \<rparr>"
      using q by (simp add: subscribe_def e BcastQueue b1 sub_broadcast_def)
    show ?thesis unfolding act
      by (intro broker_ok_update [OF ok1(1) q, where ?q1.0 = ?q1])
        (auto simp: tx_handles_def rx_handles_def in_map_def queue_ok_def is_p2p_def BcastQueue)
  qed
qed

lemma recv_result_kind [simp]: "is_p2p (snd (recv_result c x q)) = is_p2p q"
  by (cases x) (auto simp: recv_result_def)

lemma receive_ok:
  assumes ok: "broker_ok view cap r"
  shows "broker_ok view cap (broker_act qo (Receive k) r)"
proof (cases "k < length (br_subs r)")
  case False
  then show ?thesis using ok by simp
next
  case k: True
  have kk: "kinds_ok r" using ok by (simp add: broker_ok_def)
  have mem: "br_subs r ! k \<in> set (br_subs r)" using k by simp
  obtain q where q: "mb_store (br_mb r) (sub_queue (br_subs r ! k)) = Some q"
    "is_p2p q = (case br_subs r ! k of P2PSub _ _ \<Rightarrow> True | _ \<Rightarrow> False)" "sub_counted (br_subs r ! k)"
    using kinds_sub [OF kk mem] by blast
  let ?i = "sub_queue (br_subs r ! k)"
  have qok: "queue_ok view cap (tx_handles ?i r) (rx_handles ?i r) (br_accepted r ?i) (br_received r ?i) q"
    using ok q(1) by (simp add: broker_ok_def)
  show ?thesis
  proof (cases "br_subs r ! k")
    case (P2PSub i c)
    then obtain p where p: "tq_inner q = P2PQueue p"
      using q(2) by (auto simp: is_p2p_def split: queue_inner.splits)
    obtain x p1 where x: "fo_recv (qo_p2p qo) p = (x, p1)" by fastforce
    have c: "c" and qi: "mb_store (br_mb r) i = Some q" using q P2PSub by simp_all
    let ?q1 = "snd (recv_result c x (q \<lparr> tq_inner := P2PQueue p1 \<rparr>))"
    let ?r1 = "r \<lparr> br_mb := put_queue i ?q1 (br_mb r) \<rparr>"
    have act: "broker_act qo (Receive k) r = (case x of Received e \<Rightarrow> note_received i e ?r1 | _ \<Rightarrow> ?r1)"
      using k qi by (cases x) (simp_all add: P2PSub p x recv_result_def)
    show ?thesis
    proof (cases "\<exists>e. x = Received e")
      case True
      then obtain e where e: "x = Received e" by blast
      show ?thesis unfolding act using qok recv_item [OF x [unfolded e]]
        by (intro broker_ok_update [OF ok qi, where ?q1.0 = ?q1])
          (auto simp: e c P2PSub tx_handles_def rx_handles_def in_map_def queue_ok_def is_p2p_def p recv_result_def
            count_consumed_def note_received_def)
    next
      case False
      then have v: "view p1 = view p" using recv_none(1) [OF x] by blast
      have act': "broker_act qo (Receive k) r = ?r1" using False by (cases x) (auto simp: act simp del: broker_act.simps)
      have q1: "?q1 = q \<lparr> tq_inner := P2PQueue p1 \<rparr>" using False by (cases x) (simp_all add: recv_result_def)
      show ?thesis unfolding act' using qok
        by (intro broker_ok_update [OF ok qi, where ?q1.0 = ?q1])
          (auto simp: q1 v P2PSub tx_handles_def rx_handles_def in_map_def queue_ok_def is_p2p_def p)
    qed
  next
    case (BcastSub i n c)
    then obtain b where b: "tq_inner q = BcastQueue b"
      using q(2) by (auto simp: is_p2p_def split: queue_inner.splits)
    obtain x b1 where x: "bo_recv (qo_bcast qo) n b = (x, b1)" by fastforce
    have qi: "mb_store (br_mb r) i = Some q" using q BcastSub by simp
    let ?q1 = "snd (recv_result c x (q \<lparr> tq_inner := BcastQueue b1 \<rparr>))"
    let ?r1 = "r \<lparr> br_mb := put_queue i ?q1 (br_mb r) \<rparr>"
    have act: "broker_act qo (Receive k) r = (case x of Received e \<Rightarrow> note_received i e ?r1 | _ \<Rightarrow> ?r1)"
      using k qi by (cases x) (simp_all add: BcastSub b x recv_result_def)
    have q1: "\<exists>b. tq_inner ?q1 = BcastQueue b" by (cases x) (simp_all add: recv_result_def count_consumed_def)
    show ?thesis unfolding act using q1
      by (intro broker_ok_update [OF ok qi, where ?q1.0 = ?q1])
        (auto simp: tx_handles_def rx_handles_def in_map_def queue_ok_def is_p2p_def b note_received_def
          split: recv_outcome.splits)
  qed
qed

lemma drop_sub_ok:
  assumes ok: "broker_ok view cap r"
  shows "broker_ok view cap (broker_act qo (DropSubscriber k) r)"
proof (cases "k < length (br_subs r)")
  case False
  then show ?thesis using ok by simp
next
  case k: True
  have kk: "kinds_ok r" using ok by (simp add: broker_ok_def)
  have mem: "br_subs r ! k \<in> set (br_subs r)" using k by simp
  obtain q where q: "mb_store (br_mb r) (sub_queue (br_subs r ! k)) = Some q"
    "is_p2p q = (case br_subs r ! k of P2PSub _ _ \<Rightarrow> True | _ \<Rightarrow> False)"
    using kinds_sub [OF kk mem] by blast
  let ?i = "sub_queue (br_subs r ! k)"
  have qok: "queue_ok view cap (tx_handles ?i r) (rx_handles ?i r) (br_accepted r ?i) (br_received r ?i) q"
    using ok q(1) by (simp add: broker_ok_def)
  define f where "f = (case br_subs r ! k of P2PSub _ _ \<Rightarrow> fo_drop_rx (qo_p2p qo) | _ \<Rightarrow> (\<lambda>p. p))"
  define g where "g = (case br_subs r ! k of BcastSub _ n _ \<Rightarrow> bo_drop_rx (qo_bcast qo) n | _ \<Rightarrow> (\<lambda>b. b))"
  have act: "broker_act qo (DropSubscriber k) r
      = r \<lparr> br_mb := put_queue ?i (inner_map f g q) (br_mb r), br_subs := remove_nth k (br_subs r) \<rparr>"
    using k q(1) by (cases "br_subs r ! k") (simp_all add: map_inner_put f_def g_def)
  have f: "tq_inner q = P2PQueue p \<Longrightarrow> f p = fo_drop_rx (qo_p2p qo) p" for p
    using q(2) by (auto simp: f_def is_p2p_def split: subscriber.splits)
  note pos = count_handles_pos [OF k, of "\<lambda>s. sub_queue s = ?i"]
  show ?thesis unfolding act using qok pos set_remove_nth [of k "br_subs r"]
    by (intro broker_ok_update [OF ok q(1), where ?q1.0 = "inner_map f g q"])
      (auto simp: tx_handles_def rx_handles_def in_map_def queue_ok_def inner_map_def is_p2p_def f view_drop_rx
        count_handles [OF k] split: queue_inner.splits)
qed

lemma close_ok:
  assumes ok: "broker_ok view cap r"
  shows "broker_ok view cap (broker_act qo (CloseTopic t) r)"
proof (cases "mb_topics (br_mb r) t")
  case None
  then show ?thesis using ok by (simp add: close_topic_def)
next
  case (Some i)
  have kk: "kinds_ok r" using ok by (simp add: broker_ok_def)
  obtain q where q: "mb_store (br_mb r) i = Some q" using kinds_topic [OF kk Some] by blast
  have qok: "queue_ok view cap (tx_handles i r) (rx_handles i r) (br_accepted r i) (br_received r i) q"
    using ok q(1) by (simp add: broker_ok_def)
  let ?T = "(mb_topics (br_mb r))(t := None)"
  have ran: "j \<in> ran ?T \<longleftrightarrow> j \<noteq> i \<and> j \<in> ran (mb_topics (br_mb r))" for j
    using Some kinds_inj [OF kk] by (auto simp: ran_def) (metis option.inject)
  have was: "i \<in> ran (mb_topics (br_mb r))" using Some by (auto simp: ran_def)
  let ?f = "\<lambda>p. fo_drop_rx (qo_p2p qo) (fo_drop_tx (qo_p2p qo) p)"
  let ?q1 = "inner_map ?f (bo_drop_tx (qo_bcast qo)) q"
  have act: "broker_act qo (CloseTopic t) r = r \<lparr> br_mb := put_queue i ?q1 ((br_mb r) \<lparr> mb_topics := ?T \<rparr>) \<rparr>"
    using q by (simp add: close_topic_def Some map_inner_put)
  show ?thesis unfolding act using qok was
    by (intro broker_ok_update [OF ok q, where ?q1.0 = ?q1])
      (auto simp: tx_handles_def rx_handles_def in_map_def ran queue_ok_def inner_map_def is_p2p_def
        view_drop_rx view_drop_tx map_le_def split: queue_inner.splits)
qed

lemma act_try: "broker_ok view cap r \<Longrightarrow> broker_ok view cap (broker_act qo (TryPublish e) r)"
  using try_publish_ok(1) [of cap r e] by (cases "try_publish qo e (br_mb r)") blast

lemma act_ok: "broker_ok view cap r \<Longrightarrow> broker_ok view cap (broker_act qo a r)"
  by (cases a) (simp_all only: act_start act_poll act_try subscribe_ok receive_ok drop_sub_ok close_ok)

lemma start_ok: "broker_ok view p2p (broker_start p2p bcast)"
  by (simp add: broker_ok_def kinds_ok_def broker_start_def memory_broker_new_def)

lemma runs_ok: "broker_ok view cap r \<Longrightarrow> broker_ok view cap (broker_runs qo acts r)"
  by (induction acts arbitrary: r) (auto simp: broker_runs_def intro: act_ok)

lemmas reachable_ok = runs_ok [OF start_ok]

lemma full_iff_depth:
  assumes ok: "broker_ok view cap r" and cap: "0 < cap"
  shows "fst (try_publish qo e (br_mb r)) = Inl QueueFull \<longleftrightarrow> topic_delivery_mode (en_topic e) = PointToPoint
      \<and> (\<exists>m. broker_metrics qo (en_topic e) (br_mb r) = Some m \<and> qm_depth m = cap)"
proof -
  let ?t = "en_topic e" and ?i = "fst (entry_or_build qo (en_topic e) (br_mb r))"
  have kk: "kinds_ok r" using ok by (simp add: broker_ok_def)
  have full: "fst (try_publish qo e (br_mb r)) = Inl QueueFull \<longleftrightarrow> topic_delivery_mode ?t = PointToPoint
      \<and> cap \<le> length (br_accepted r ?i) - length (br_received r ?i)"
    using try_publish_ok(3) [OF ok, of e] by (cases "try_publish qo e (br_mb r)") (simp add: Let_def)
  show ?thesis
  proof (cases "mb_topics (br_mb r) ?t")
    case None
    then have i: "?i = mb_next (br_mb r)" by (simp add: entry_or_build_def)
    have "mb_store (br_mb r) ?i = None" using kinds_next [OF kk] by (cases "mb_store (br_mb r) ?i") (auto simp: i)
    then have "br_accepted r ?i = []" using ok by (simp add: broker_ok_def)
    then show ?thesis using full cap None by (simp add: broker_metrics_def)
  next
    case (Some j)
    then have i: "?i = j" by (simp add: entry_or_build_def)
    obtain q where q: "mb_store (br_mb r) j = Some q" "is_p2p q = (topic_delivery_mode ?t = PointToPoint)"
      using kinds_topic [OF kk Some] by blast
    have "queue_ok view cap (tx_handles j r) (rx_handles j r) (br_accepted r j) (br_received r j) q"
      using ok q(1) by (simp add: broker_ok_def)
    then show ?thesis using full q Some
      by (auto simp: i broker_metrics_def queue_ok_def is_p2p_def view_len split: queue_inner.splits)
  qed
qed

lemma reachable_queue:
  assumes "mb_store (br_mb (broker_runs qo acts (broker_start p2p bcast))) i = Some q" "tq_inner q = P2PQueue p"
  shows "let r = broker_runs qo acts (broker_start p2p bcast) in
      br_accepted r i = br_received r i @ ff_items (view p) \<and> length (ff_items (view p)) \<le> p2p
    \<and> qs_published (tq_stats q) = of_nat (length (br_accepted r i))
    \<and> qs_consumed (tq_stats q) = of_nat (length (br_received r i))
    \<and> ff_senders (view p) = tx_handles i r \<and> ff_receivers (view p) = rx_handles i r"
  using reachable_ok [of p2p acts bcast] assms unfolding broker_ok_def queue_ok_def Let_def by fastforce

end

interpretation list_broker: broker_channels "\<lparr> qo_p2p = fifo_list_ops, qo_bcast = fanout_log_ops \<rparr>" "\<lambda>q. q"
  by (simp add: broker_channels_def fifo_list.fifo_channel_axioms)

section \<open>Properties\<close>

text \<open>C4: a point-to-point queue of the in-memory broker hands out exactly what it accepted:
  whatever publishers, subscribers and closings of topics do and in whatever order, what
  all its subscribers received together, followed by what is still queued, is what was
  accepted, in the order of acceptance; no message is lost, doubled or overtaken.  At most
  the configured number is queued, and the two counters of the queue count the accepted
  and the received messages.  Assumed: the bounded channel is a bounded queue.\<close>

theorem broker_exactly_once:
  assumes "fifo_channel (qo_p2p qo) view"
    and "mb_store (br_mb (broker_runs qo acts (broker_start p2p bcast))) i = Some q"
    and "tq_inner q = P2PQueue p"
  shows "let r = broker_runs qo acts (broker_start p2p bcast) in
      br_accepted r i = br_received r i @ ff_items (view p) \<and> length (ff_items (view p)) \<le> p2p
    \<and> qs_published (tq_stats q) = of_nat (length (br_accepted r i))
    \<and> qs_consumed (tq_stats q) = of_nat (length (br_received r i))"
  using broker_channels.reachable_queue [OF broker_channels.intro [OF assms(1)] assms(2,3)]
  unfolding Let_def by blast


definition demo_env :: "nat \<Rightarrow> unit envelope" where
  "demo_env n = envelope_new (of_nat n) 0 InboundTopic (WikiChangedPayload [])"

definition demo_acts :: "unit broker_action list" where
  "demo_acts = [Subscribe InboundTopic, Subscribe InboundTopic, StartPublish (demo_env 1), StartPublish (demo_env 2),
     PollPublish 0, PollPublish 0, Receive 1, CloseTopic InboundTopic, Receive 0, TryPublish (demo_env 3)]"

definition list_queues :: "(unit envelope fifo, unit envelope fanout, unit) queue_ops" where
  "list_queues = \<lparr> qo_p2p = fifo_list_ops, qo_bcast = fanout_log_ops \<rparr>"

definition demo_broker_run :: "(unit envelope fifo, unit envelope fanout, unit) broker_run" where
  "demo_broker_run = broker_runs list_queues demo_acts (broker_start 1 1)"

lemma list_queues_fifo: "fifo_channel (qo_p2p list_queues) (\<lambda>q. q)"
  by (simp add: list_queues_def fifo_list.fifo_channel_axioms)

lemma demo_run_store:
  "map_option tq_inner (mb_store (br_mb demo_broker_run) 0)
     = Some (P2PQueue \<lparr> ff_items = [], ff_cap = 1, ff_senders = 1, ff_receivers = 2 \<rparr>)"
  by code_simp

lemma demo_run_queue:
  obtains q p where "mb_store (br_mb demo_broker_run) 0 = Some q" "tq_inner q = P2PQueue p" "p = \<lparr> ff_items = [], ff_cap = 1, ff_senders = 1, ff_receivers = 2 \<rparr>"
  using demo_run_store by (cases "mb_store (br_mb demo_broker_run) 0") auto

theorem broker_exactly_once_witness:
  "br_accepted demo_broker_run 0 = [demo_env 2] \<and> br_received demo_broker_run 0 = [demo_env 2]"
proof -
  obtain q p where q: "mb_store (br_mb demo_broker_run) 0 = Some q" "tq_inner q = P2PQueue p"
    and p: "p = \<lparr> ff_items = [], ff_cap = 1, ff_senders = 1, ff_receivers = 2 \<rparr>"
    by (rule demo_run_queue)
  have "br_accepted demo_broker_run 0 = br_received demo_broker_run 0 @ ff_items p"
    using broker_exactly_once [OF list_queues_fifo q [unfolded demo_broker_run_def]]
    unfolding demo_broker_run_def Let_def by blast
  moreover have "br_received demo_broker_run 0 = [demo_env 2]" by code_simp
  ultimately show ?thesis by (simp add: p)
qed

definition full_acts :: "unit broker_action list" where
  "full_acts = [Subscribe InboundTopic, TryPublish (demo_env 1)]"


end
