(* ===== verification/Session_Manager.thy ===== *)
theory Session_Manager
  imports Broker
begin

text \<open>
  The session manager (broker/src/session.rs): dispatchers take inbound messages to the task
  of their session, tasks handle them one at a time and publish what the handler says.
  A dispatcher or a task is a program counter; a step is the code between two awaits, so
  dispatchers, tasks and the garbage collector interleave freely.  \<open>run\<close> has one
  dispatcher; \<open>dispatch_to_session\<close> is written for several, and so is the model.  What
  the handler answers comes with the step; \<open>ops\<close> is tokio's mpsc channel, \<open>js\<close> serde_json.
\<close>

section \<open>State\<close>

datatype disp_pc =
    DispIdle
  | DispFast nat session_key inbound_message
  | DispSpawn session_key inbound_message
  | DispSlow nat session_key inbound_message

text \<open>After an envelope is published: the remaining events of a command, the rest of a stream,
  or nothing.\<close>

datatype 'ws publish_after =
    AfterCommand inbound_message "'ws list" | AfterStream inbound_message | AfterReply

datatype 'ws session_pc =
    TkWaiting
  | TkHandling inbound_message
  | TkStreaming inbound_message
  | TkPublishing nat "'ws envelope" "'ws publish_after"
  | TkLeaving
  | TkDone

record ('q, 'p, 'b, 'ws) session_manager =
  sm_sessions :: "(session_key \<times> nat) list"
  sm_chans :: "nat \<Rightarrow> 'q option"
  sm_tasks :: "nat \<Rightarrow> (session_key \<times> 'ws session_pc) option"
  sm_disp :: "disp_pc list"
  sm_next :: nat
  sm_broker :: "('p, 'b) memory_broker"

text \<open>Per session, the messages its channels took and the messages its tasks took out.\<close>

record sm_history =
  sh_accepted :: "session_key \<Rightarrow> inbound_message list"
  sh_started :: "session_key \<Rightarrow> inbound_message list"

definition SESSION_CAPACITY :: nat where "SESSION_CAPACITY = 32"

definition session_manager_new :: "nat \<Rightarrow> ('p, 'b) memory_broker \<Rightarrow> ('q, 'p, 'b, 'ws) session_manager" where
  "session_manager_new n mb = \<lparr> sm_sessions = [], sm_chans = Map.empty, sm_tasks = Map.empty,
     sm_disp = replicate n DispIdle, sm_next = 0, sm_broker = mb \<rparr>"

definition put_session :: "session_key \<Rightarrow> nat \<Rightarrow> (session_key \<times> nat) list \<Rightarrow> (session_key \<times> nat) list" where
  "put_session k c xs = (k, c) # filter (\<lambda>e. fst e \<noteq> k) xs"

definition on_chan ::
  "('q \<Rightarrow> 'q) \<Rightarrow> nat \<Rightarrow> ('q, 'p, 'b, 'ws) session_manager \<Rightarrow> ('q, 'p, 'b, 'ws) session_manager" where
  "on_chan f c s = s \<lparr> sm_chans := (sm_chans s)(c := map_option f (sm_chans s c)) \<rparr>"

definition set_disp :: "nat \<Rightarrow> disp_pc \<Rightarrow> ('q, 'p, 'b, 'ws) session_manager \<Rightarrow> ('q, 'p, 'b, 'ws) session_manager" where
  "set_disp d pc s = s \<lparr> sm_disp := (sm_disp s)[d := pc] \<rparr>"

definition set_task :: "nat \<Rightarrow> 'ws session_pc \<Rightarrow> ('q, 'p, 'b, 'ws) session_manager \<Rightarrow> ('q, 'p, 'b, 'ws) session_manager" where
  "set_task c pc s = s \<lparr> sm_tasks := (sm_tasks s)(c := map_option (\<lambda>(k, _). (k, pc)) (sm_tasks s c)) \<rparr>"

definition closed_chan ::
  "('q, inbound_message) fifo_ops \<Rightarrow> nat \<Rightarrow> ('q, 'p, 'b, 'ws) session_manager \<Rightarrow> bool" where
  "closed_chan ops c s = (case sm_chans s c of Some q \<Rightarrow> fo_is_closed ops q | None \<Rightarrow> True)"

section \<open>Dispatching\<close>

text \<open>A message arrives: intercepted, or on its way to the channel of its session.\<close>

definition dispatch_to_session ::
  "('q, inbound_message) fifo_ops \<Rightarrow> nat \<Rightarrow> inbound_message \<Rightarrow> bool
    \<Rightarrow> ('q, 'p, 'b, 'ws) session_manager \<Rightarrow> ('q, 'p, 'b, 'ws) session_manager" where
  "dispatch_to_session ops d m intercepted s =
     (if intercepted then s
      else let k = message_session_key m in
        (case map_of (sm_sessions s) k of
           Some c \<Rightarrow> set_disp d (DispFast c k m) (on_chan (fo_clone_tx ops) c s)
         | None \<Rightarrow> set_disp d (DispSpawn k m) s))"

text \<open>A poll of \<open>tx.send(msg)\<close>; \<open>closed\<close> is what follows when the receiver is gone.\<close>

definition poll_send ::
  "('q, inbound_message) fifo_ops \<Rightarrow> nat \<Rightarrow> nat \<Rightarrow> inbound_message \<Rightarrow> disp_pc
    \<Rightarrow> ('q, 'p, 'b, 'ws) session_manager \<Rightarrow> bool \<times> ('q, 'p, 'b, 'ws) session_manager" where
  "poll_send ops d c m closed s = (case sm_chans s c of
       None \<Rightarrow> (False, set_disp d closed s)
     | Some q \<Rightarrow> (case fo_send ops m q of
         (SendOk, q1) \<Rightarrow> (True, set_disp d DispIdle (s \<lparr> sm_chans := (sm_chans s)(c \<mapsto> fo_drop_tx ops q1) \<rparr>))
       | (SendFull, q1) \<Rightarrow> (False, s \<lparr> sm_chans := (sm_chans s)(c \<mapsto> q1) \<rparr>)
       | (SendClosed, q1) \<Rightarrow> (False, set_disp d closed (s \<lparr> sm_chans := (sm_chans s)(c \<mapsto> fo_drop_tx ops q1) \<rparr>))))"

text \<open>\<open>spawn_session\<close> up to its send: claim the slot, or join the task that holds it.\<close>

definition claim_slot ::
  "('q, inbound_message) fifo_ops \<Rightarrow> session_key \<Rightarrow> ('q, 'p, 'b, 'ws) session_manager
    \<Rightarrow> nat \<times> ('q, 'p, 'b, 'ws) session_manager" where
  "claim_slot ops k s =
     (let fresh = (let c = sm_next s; old = map_of (sm_sessions s) k;
                       s1 = (case old of Some o' \<Rightarrow> on_chan (fo_drop_tx ops) o' s | None \<Rightarrow> s) in
             (c, s1 \<lparr> sm_sessions := put_session k c (sm_sessions s),
                      sm_chans := (sm_chans s1)(c \<mapsto> fo_clone_tx ops (fo_new ops SESSION_CAPACITY)),
                      sm_tasks := (sm_tasks s)(c \<mapsto> (k, TkWaiting)), sm_next := Suc c \<rparr>)) in
      (case map_of (sm_sessions s) k of
         Some c \<Rightarrow> if \<not> closed_chan ops c s then (c, on_chan (fo_clone_tx ops) c s) else fresh
       | None \<Rightarrow> fresh))"

definition spawn_session ::
  "('q, inbound_message) fifo_ops \<Rightarrow> nat \<Rightarrow> session_key \<Rightarrow> inbound_message
    \<Rightarrow> ('q, 'p, 'b, 'ws) session_manager \<Rightarrow> ('q, 'p, 'b, 'ws) session_manager" where
  "spawn_session ops d k m s = (case claim_slot ops k s of (c, s1) \<Rightarrow> set_disp d (DispSlow c k m) s1)"

text \<open>The garbage collection of \<open>run\<close>.\<close>

definition gc_sessions ::
  "('q, inbound_message) fifo_ops \<Rightarrow> ('q, 'p, 'b, 'ws) session_manager \<Rightarrow> ('q, 'p, 'b, 'ws) session_manager" where
  "gc_sessions ops s = fold (\<lambda>(_, c). on_chan (fo_drop_tx ops) c)
       (filter (\<lambda>(_, c). closed_chan ops c s) (sm_sessions s))
       (s \<lparr> sm_sessions := filter (\<lambda>(_, c). \<not> closed_chan ops c s) (sm_sessions s) \<rparr>)"

text \<open>The end of \<open>run\<close>: the map of senders is dropped with the manager.\<close>

definition shut_down ::
  "('q, inbound_message) fifo_ops \<Rightarrow> ('q, 'p, 'b, 'ws) session_manager \<Rightarrow> ('q, 'p, 'b, 'ws) session_manager" where
  "shut_down ops s = (if list_all (\<lambda>pc. pc = DispIdle) (sm_disp s)
     then fold (\<lambda>(_, c). on_chan (fo_drop_tx ops) c) (sm_sessions s) (s \<lparr> sm_sessions := [], sm_disp := [] \<rparr>)
     else s)"

section \<open>The session task\<close>

text \<open>One poll of the receive with its timeout; the channel is asked first.\<close>

definition task_recv ::
  "('q, inbound_message) fifo_ops \<Rightarrow> nat \<Rightarrow> bool \<Rightarrow> ('q, 'p, 'b, 'ws) session_manager
    \<Rightarrow> inbound_message option \<times> ('q, 'p, 'b, 'ws) session_manager" where
  "task_recv ops c elapsed s = (case sm_chans s c of
       None \<Rightarrow> (None, s)
     | Some q \<Rightarrow> (case fo_recv ops q of
         (Received m, q1) \<Rightarrow> (Some m, set_task c (TkHandling m) (s \<lparr> sm_chans := (sm_chans s)(c \<mapsto> q1) \<rparr>))
       | (RecvClosed, q1) \<Rightarrow> (None, set_task c TkLeaving (s \<lparr> sm_chans := (sm_chans s)(c \<mapsto> q1) \<rparr>))
       | (_, q1) \<Rightarrow> (None, (if elapsed then set_task c TkLeaving else (\<lambda>x. x))
                            (s \<lparr> sm_chans := (sm_chans s)(c \<mapsto> q1) \<rparr>))))"

definition is_force_compact :: "'j json_ops \<Rightarrow> inbound_message \<Rightarrow> bool" where
  "is_force_compact js m = (case jo_parse js (im_content m) of
     Some v \<Rightarrow> jo_get_str js v ''type'' = Some ''force_compact'' | None \<Rightarrow> False)"

definition command_outbound :: "inbound_message \<Rightarrow> 'ws \<Rightarrow> 'ws outbound_message" where
  "command_outbound m ev = (outbound_with_ws (im_channel m) (im_chat_id m) ev)
     \<lparr> om_metadata := im_metadata m, om_trace_id := im_trace_id m \<rparr>"

definition stream_outbound :: "inbound_message \<Rightarrow> 'ws \<Rightarrow> 'ws outbound_message" where
  "stream_outbound m ev = (outbound_with_ws (im_channel m) (im_chat_id m) ev) \<lparr> om_trace_id := im_trace_id m \<rparr>"

definition reply_outbound :: "inbound_message \<Rightarrow> string \<Rightarrow> 'ws outbound_message" where
  "reply_outbound m content = (outbound_new (im_channel m) (im_chat_id m) content)
     \<lparr> om_metadata := im_metadata m, om_trace_id := im_trace_id m \<rparr>"

text \<open>\<open>BrokerOutput::send\<close> and the publishing of command events, up to the first poll.\<close>

definition start_output ::
  "('p, 'b, 'ws) queue_ops \<Rightarrow> uuid \<Rightarrow> time \<Rightarrow> nat \<Rightarrow> 'ws outbound_message \<Rightarrow> 'ws publish_after
    \<Rightarrow> ('q, 'p, 'b, 'ws) session_manager \<Rightarrow> ('q, 'p, 'b, 'ws) session_manager" where
  "start_output qo i now c msg after s =
     (let env = envelope_new i now OutboundTopic (OutboundPayload msg) in
      case sender_snapshot qo OutboundTopic (sm_broker s) of
        (t, mb) \<Rightarrow> set_task c (TkPublishing t env after) (s \<lparr> sm_broker := mb \<rparr>))"

definition next_command_event ::
  "('p, 'b, 'ws) queue_ops \<Rightarrow> uuid \<Rightarrow> time \<Rightarrow> nat \<Rightarrow> inbound_message \<Rightarrow> 'ws list
    \<Rightarrow> ('q, 'p, 'b, 'ws) session_manager \<Rightarrow> ('q, 'p, 'b, 'ws) session_manager" where
  "next_command_event qo i now c m evs s = (case evs of
       [] \<Rightarrow> set_task c TkWaiting s
     | ev # rest \<Rightarrow> start_output qo i now c (command_outbound m ev) (AfterCommand m rest) s)"

text \<open>What the handler returns: the events of a command, a started stream, or a reply.\<close>

datatype 'ws handler_outcome = HandlerErr | CommandEvents "'ws list" | StreamOpened | ReplyContent string

text \<open>\<open>handle_command\<close>, \<open>handle_streaming_message\<close> or \<open>handle_message\<close> returns.\<close>

definition handler_returns ::
  "'j json_ops \<Rightarrow> ('p, 'b, 'ws) queue_ops \<Rightarrow> uuid \<Rightarrow> time \<Rightarrow> nat \<Rightarrow> inbound_message \<Rightarrow> 'ws handler_outcome
    \<Rightarrow> ('q, 'p, 'b, 'ws) session_manager \<Rightarrow> ('q, 'p, 'b, 'ws) session_manager" where
  "handler_returns js qo i now c m oc s =
     (if is_force_compact js m then (case oc of
          CommandEvents evs \<Rightarrow> next_command_event qo i now c m evs s
        | HandlerErr \<Rightarrow> set_task c TkWaiting s
        | _ \<Rightarrow> s)
      else if supports_streaming (im_channel m) then (case oc of
          StreamOpened \<Rightarrow> set_task c (TkStreaming m) s
        | HandlerErr \<Rightarrow> set_task c TkWaiting s
        | _ \<Rightarrow> s)
      else (case oc of
          ReplyContent t \<Rightarrow> start_output qo i now c (reply_outbound m t) AfterReply s
        | HandlerErr \<Rightarrow> set_task c TkWaiting s
        | _ \<Rightarrow> s))"

text \<open>A poll of a publish; an error ends a message but not a command.\<close>

definition poll_output ::
  "('p, 'b, 'ws) queue_ops \<Rightarrow> uuid \<Rightarrow> time \<Rightarrow> nat \<Rightarrow> nat \<Rightarrow> 'ws envelope \<Rightarrow> 'ws publish_after
    \<Rightarrow> ('q, 'p, 'b, 'ws) session_manager \<Rightarrow> ('q, 'p, 'b, 'ws) session_manager" where
  "poll_output qo i now c t env after s = (case publish_poll qo t env (sm_broker s) of
       (None, mb) \<Rightarrow> s \<lparr> sm_broker := mb \<rparr>
     | (Some r, mb) \<Rightarrow> (case after of
         AfterCommand m evs \<Rightarrow> next_command_event qo i now c m evs (s \<lparr> sm_broker := mb \<rparr>)
       | AfterStream m \<Rightarrow> set_task c (if is_ok r then TkStreaming m else TkWaiting) (s \<lparr> sm_broker := mb \<rparr>)
       | AfterReply \<Rightarrow> set_task c TkWaiting (s \<lparr> sm_broker := mb \<rparr>)))"

end
