(* ===== verification/Session_Runs.thy ===== *)
theory Session_Runs
  imports Session_Manager
begin

text \<open>
  Runs of the session manager: every interleaving of dispatchers, session tasks, garbage
  collection, idle timeouts and shutdown.  A session has at most one task, its messages
  are handled in the order its channels took them; without idle timeouts none is lost,
  with one a message can be.
\<close>

section \<open>Actions\<close>

datatype 'ws sm_action =
    Dispatch nat inbound_message bool
  | PollDispatch nat
  | CollectGarbage
  | ShutDown
  | TaskPoll nat bool
  | HandlerReturns nat uuid time "'ws handler_outcome"
  | StreamEvent nat uuid time 'ws
  | StreamEnd nat
  | PollOutput nat uuid time
  | TaskExit nat

definition note_taken :: "session_key \<Rightarrow> inbound_message \<Rightarrow> sm_history \<Rightarrow> sm_history" where
  "note_taken k m h = h \<lparr> sh_accepted := (sh_accepted h)(k := sh_accepted h k @ [m]) \<rparr>"

definition note_started :: "session_key \<Rightarrow> inbound_message \<Rightarrow> sm_history \<Rightarrow> sm_history" where
  "note_started k m h = h \<lparr> sh_started := (sh_started h)(k := sh_started h k @ [m]) \<rparr>"

definition act_poll_dispatch ::
  "('q, inbound_message) fifo_ops \<Rightarrow> nat \<Rightarrow> ('q, 'p, 'b, 'ws) session_manager \<times> sm_history
    \<Rightarrow> ('q, 'p, 'b, 'ws) session_manager \<times> sm_history" where
  "act_poll_dispatch ops d = (\<lambda>(s, h).
     if d < length (sm_disp s) then (case sm_disp s ! d of
         DispIdle \<Rightarrow> (s, h)
       | DispFast c k m \<Rightarrow> (case poll_send ops d c m (DispSpawn k m) s of
             (ok, s1) \<Rightarrow> (s1, if ok then note_taken k m h else h))
       | DispSpawn k m \<Rightarrow> (spawn_session ops d k m s, h)
       | DispSlow c k m \<Rightarrow> (case poll_send ops d c m DispIdle s of
             (ok, s1) \<Rightarrow> (s1, if ok then note_taken k m h else h)))
     else (s, h))"

definition act_task_poll ::
  "('q, inbound_message) fifo_ops \<Rightarrow> nat \<Rightarrow> bool \<Rightarrow> ('q, 'p, 'b, 'ws) session_manager \<times> sm_history
    \<Rightarrow> ('q, 'p, 'b, 'ws) session_manager \<times> sm_history" where
  "act_task_poll ops c elapsed = (\<lambda>(s, h). case sm_tasks s c of
       Some (k, TkWaiting) \<Rightarrow> (case task_recv ops c elapsed s of
           (Some m, s1) \<Rightarrow> (s1, note_started k m h) | (None, s1) \<Rightarrow> (s1, h))
     | _ \<Rightarrow> (s, h))"

fun sm_act ::
  "('q, inbound_message) fifo_ops \<Rightarrow> 'j json_ops \<Rightarrow> ('p, 'b, 'ws) queue_ops \<Rightarrow> 'ws sm_action
    \<Rightarrow> ('q, 'p, 'b, 'ws) session_manager \<times> sm_history \<Rightarrow> ('q, 'p, 'b, 'ws) session_manager \<times> sm_history" where
  "sm_act ops js qo (Dispatch d m intercepted) (s, h) =
     (if d < length (sm_disp s) \<and> sm_disp s ! d = DispIdle then dispatch_to_session ops d m intercepted s else s, h)"
| "sm_act ops js qo (PollDispatch d) sh = act_poll_dispatch ops d sh"
| "sm_act ops js qo CollectGarbage (s, h) = (if sm_disp s = [] then s else gc_sessions ops s, h)"
| "sm_act ops js qo ShutDown (s, h) = (shut_down ops s, h)"
| "sm_act ops js qo (TaskPoll c elapsed) sh = act_task_poll ops c elapsed sh"
| "sm_act ops js qo (HandlerReturns c i now oc) (s, h) = (case sm_tasks s c of
       Some (_, TkHandling m) \<Rightarrow> handler_returns js qo i now c m oc s | _ \<Rightarrow> s, h)"
| "sm_act ops js qo (StreamEvent c i now ev) (s, h) = (case sm_tasks s c of
       Some (_, TkStreaming m) \<Rightarrow> start_output qo i now c (stream_outbound m ev) (AfterStream m) s | _ \<Rightarrow> s, h)"
| "sm_act ops js qo (StreamEnd c) (s, h) = (case sm_tasks s c of
       Some (_, TkStreaming _) \<Rightarrow> set_task c TkWaiting s | _ \<Rightarrow> s, h)"
| "sm_act ops js qo (PollOutput c i now) (s, h) = (case sm_tasks s c of
       Some (_, TkPublishing t env after) \<Rightarrow> poll_output qo i now c t env after s | _ \<Rightarrow> s, h)"
| "sm_act ops js qo (TaskExit c) (s, h) = (case sm_tasks s c of
       Some (_, TkLeaving) \<Rightarrow> set_task c TkDone (on_chan (fo_drop_rx ops) c s) | _ \<Rightarrow> s, h)"

definition sm_start :: "nat \<Rightarrow> ('p, 'b) memory_broker \<Rightarrow> ('q, 'p, 'b, 'ws) session_manager \<times> sm_history" where
  "sm_start n mb = (session_manager_new n mb, \<lparr> sh_accepted = (\<lambda>_. []), sh_started = (\<lambda>_. []) \<rparr>)"

definition sm_runs ::
  "('q, inbound_message) fifo_ops \<Rightarrow> 'j json_ops \<Rightarrow> ('p, 'b, 'ws) queue_ops \<Rightarrow> 'ws sm_action list
    \<Rightarrow> ('q, 'p, 'b, 'ws) session_manager \<times> sm_history \<Rightarrow> ('q, 'p, 'b, 'ws) session_manager \<times> sm_history" where
  "sm_runs ops js qo acts sh = fold (sm_act ops js qo) acts sh"

section \<open>The invariant\<close>

definition live :: "nat \<Rightarrow> session_key \<Rightarrow> ('q, 'p, 'b, 'ws) session_manager \<Rightarrow> bool" where
  "live c k s = (case sm_tasks s c of Some (k', pc) \<Rightarrow> k' = k \<and> pc \<noteq> TkDone | None \<Rightarrow> False)"

fun disp_chan :: "disp_pc \<Rightarrow> nat option" where
  "disp_chan (DispFast c _ _) = Some c"
| "disp_chan (DispSlow c _ _) = Some c"
| "disp_chan _ = None"

fun disp_key :: "disp_pc \<Rightarrow> session_key option" where
  "disp_key (DispFast _ k _) = Some k"
| "disp_key (DispSlow _ k _) = Some k"
| "disp_key _ = None"

definition senders_of :: "nat \<Rightarrow> ('q, 'p, 'b, 'ws) session_manager \<Rightarrow> nat" where
  "senders_of c s = length (filter (\<lambda>e. snd e = c) (sm_sessions s))
     + length (filter (\<lambda>pc. disp_chan pc = Some c) (sm_disp s))"

text \<open>The part of the state the claims are about, channel by channel.\<close>

definition chan_ok :: "('q \<Rightarrow> inbound_message fifo) \<Rightarrow> nat \<Rightarrow> ('q, 'p, 'b, 'ws) session_manager \<Rightarrow> bool" where
  "chan_ok view c s = (case (sm_tasks s c, sm_chans s c) of
       (None, None) \<Rightarrow> sm_next s \<le> c
     | (Some (k, pc), Some q) \<Rightarrow> c < sm_next s \<and> ff_receivers (view q) = (if pc = TkDone then 0 else 1)
         \<and> (pc \<noteq> TkDone \<longrightarrow> ff_senders (view q) = senders_of c s)
         \<and> length (ff_items (view q)) \<le> SESSION_CAPACITY \<and> ff_cap (view q) = SESSION_CAPACITY
     | _ \<Rightarrow> False)"

definition links_ok :: "('q, 'p, 'b, 'ws) session_manager \<Rightarrow> bool" where
  "links_ok s = (distinct (map fst (sm_sessions s))
     \<and> (\<forall>(k, c) \<in> set (sm_sessions s). \<exists>pc. sm_tasks s c = Some (k, pc))
     \<and> (\<forall>pc \<in> set (sm_disp s). \<forall>c. disp_chan pc = Some c \<longrightarrow> (\<exists>k. disp_key pc = Some k \<and> (\<exists>pc'. sm_tasks s c = Some (k, pc'))))
     \<and> (\<forall>c k. sm_disp s \<noteq> [] \<longrightarrow> live c k s \<longrightarrow> map_of (sm_sessions s) k = Some c)
     \<and> (\<forall>c c' k. live c k s \<longrightarrow> live c' k s \<longrightarrow> c = c')
     \<and> (sm_disp s = [] \<longrightarrow> sm_sessions s = []))"

text \<open>What was accepted is what was taken out, up to \<open>R\<close>, followed by what is queued.\<close>

definition order_ok ::
  "('q \<Rightarrow> inbound_message fifo) \<Rightarrow> (inbound_message list \<Rightarrow> inbound_message list \<Rightarrow> bool)
    \<Rightarrow> ('q, 'p, 'b, 'ws) session_manager \<times> sm_history \<Rightarrow> bool" where
  "order_ok view R = (\<lambda>(s, h). \<forall>k.
     (\<forall>c q. live c k s \<longrightarrow> sm_chans s c = Some q \<longrightarrow>
        (\<exists>pre. sh_accepted h k = pre @ ff_items (view q) \<and> R (sh_started h k) pre))
     \<and> ((\<forall>c. \<not> live c k s) \<longrightarrow> R (sh_started h k) (sh_accepted h k)))"

definition sm_ok ::
  "('q \<Rightarrow> inbound_message fifo) \<Rightarrow> (inbound_message list \<Rightarrow> inbound_message list \<Rightarrow> bool)
    \<Rightarrow> ('q, 'p, 'b, 'ws) session_manager \<times> sm_history \<Rightarrow> bool" where
  "sm_ok view R sh = ((\<forall>c. chan_ok view c (fst sh)) \<and> links_ok (fst sh) \<and> order_ok view R sh)"

text \<open>The invariant sees of a task only its key and whether it is done, of a channel its view.\<close>

definition same_core ::
  "('q \<Rightarrow> inbound_message fifo) \<Rightarrow> ('q, 'p, 'b, 'ws) session_manager \<Rightarrow> ('q, 'p, 'b, 'ws) session_manager \<Rightarrow> bool" where
  "same_core view s s1 = (sm_sessions s1 = sm_sessions s \<and> sm_disp s1 = sm_disp s \<and> sm_next s1 = sm_next s
     \<and> (\<forall>c. map_option view (sm_chans s1 c) = map_option view (sm_chans s c))
     \<and> (\<forall>c. map_option (\<lambda>(k, pc). (k, pc = TkDone)) (sm_tasks s1 c)
          = map_option (\<lambda>(k, pc). (k, pc = TkDone)) (sm_tasks s c)))"

lemma same_core_chan:
  assumes "same_core view s s1" shows "chan_ok view c s1 = chan_ok view c s"
proof -
  have v: "map_option view (sm_chans s1 c) = map_option view (sm_chans s c)"
    and t: "map_option (\<lambda>(k, pc). (k, pc = TkDone)) (sm_tasks s1 c)
          = map_option (\<lambda>(k, pc). (k, pc = TkDone)) (sm_tasks s c)"
    and r: "sm_sessions s1 = sm_sessions s" "sm_disp s1 = sm_disp s" "sm_next s1 = sm_next s"
    using assms by (simp_all add: same_core_def)
  have sd: "senders_of c s1 = senders_of c s" using r by (simp add: senders_of_def)
  show ?thesis using v t r sd
    by (cases "sm_chans s c"; cases "sm_chans s1 c"; cases "sm_tasks s c"; cases "sm_tasks s1 c")
      (auto simp: chan_ok_def)
qed

lemma same_core_live:
  assumes "same_core view s s1" shows "live c k s1 = live c k s"
proof -
  have "map_option (\<lambda>(k, pc). (k, pc = TkDone)) (sm_tasks s1 c) = map_option (\<lambda>(k, pc). (k, pc = TkDone)) (sm_tasks s c)"
    using assms by (simp add: same_core_def)
  then show ?thesis by (cases "sm_tasks s c"; cases "sm_tasks s1 c") (auto simp: live_def)
qed

lemma same_core_key:
  assumes "same_core view s s1" shows "(\<exists>pc. sm_tasks s1 c = Some (k, pc)) = (\<exists>pc. sm_tasks s c = Some (k, pc))"
proof -
  have "map_option (\<lambda>(k, pc). (k, pc = TkDone)) (sm_tasks s1 c) = map_option (\<lambda>(k, pc). (k, pc = TkDone)) (sm_tasks s c)"
    using assms by (simp add: same_core_def)
  then show ?thesis by (cases "sm_tasks s c"; cases "sm_tasks s1 c") auto
qed

lemma same_core_ok:
  assumes c: "same_core view s s1" and ok: "sm_ok view R (s, h)"
  shows "sm_ok view R (s1, h)"
proof -
  have r: "sm_sessions s1 = sm_sessions s" "sm_disp s1 = sm_disp s"
    and v: "map_option view (sm_chans s1 d) = map_option view (sm_chans s d)" for d
    using c by (simp_all add: same_core_def)
  have "links_ok s1"
    using ok unfolding sm_ok_def links_ok_def fst_conv r same_core_live [OF c] same_core_key [OF c]
    by simp
  moreover have "order_ok view R (s1, h)"
    unfolding order_ok_def prod.case
  proof (intro allI conjI impI)
    fix k d q assume l: "live d k s1" and q: "sm_chans s1 d = Some q"
    then obtain q0 where q0: "sm_chans s d = Some q0" "view q0 = view q" using v [of d] by (cases "sm_chans s d") auto
    then show "\<exists>pre. sh_accepted h k = pre @ ff_items (view q) \<and> R (sh_started h k) pre"
      using ok l same_core_live [OF c] unfolding sm_ok_def order_ok_def by fastforce
  next
    fix k assume "\<forall>d. \<not> live d k s1"
    then show "R (sh_started h k) (sh_accepted h k)"
      using ok same_core_live [OF c] unfolding sm_ok_def order_ok_def by fastforce
  qed
  ultimately show ?thesis using ok same_core_chan [OF c] by (simp add: sm_ok_def)
qed

lemma set_task_core:
  assumes "sm_tasks s c = Some (k, pc0)" "pc0 \<noteq> TkDone" "pc \<noteq> TkDone"
  shows "same_core view s (set_task c pc (s \<lparr> sm_broker := mb \<rparr>))" "same_core view s (set_task c pc s)"
  using assms by (auto simp: same_core_def set_task_def)

lemma broker_core [simp]: "same_core view s (s \<lparr> sm_broker := mb \<rparr>)" "same_core view s s"
  by (simp_all add: same_core_def)

lemma start_output_core:
  assumes "sm_tasks s c = Some (k, pc0)" "pc0 \<noteq> TkDone"
  shows "same_core view s (start_output qo i now c msg after (s \<lparr> sm_broker := mb \<rparr>))"
    "same_core view s (start_output qo i now c msg after s)"
  using assms by (auto simp: same_core_def set_task_def start_output_def split: prod.splits)

lemma next_event_core:
  assumes "sm_tasks s c = Some (k, pc0)" "pc0 \<noteq> TkDone"
  shows "same_core view s (next_command_event qo i now c m evs (s \<lparr> sm_broker := mb \<rparr>))"
    "same_core view s (next_command_event qo i now c m evs s)"
  using start_output_core [OF assms] set_task_core [OF assms]
  by (auto simp: next_command_event_def split: list.splits)

lemma handler_core:
  assumes "sm_tasks s c = Some (k, pc0)" "pc0 \<noteq> TkDone"
  shows "same_core view s (handler_returns js qo i now c m oc s)"
  using start_output_core [OF assms] set_task_core [OF assms] next_event_core [OF assms]
  by (auto simp: handler_returns_def split: handler_outcome.splits)

lemma poll_output_core:
  assumes "sm_tasks s c = Some (k, pc0)" "pc0 \<noteq> TkDone"
  shows "same_core view s (poll_output qo i now c t env after s)"
  using set_task_core [OF assms] next_event_core [OF assms]
  by (auto simp: poll_output_def split: prod.splits option.splits publish_after.splits)

section \<open>Every action keeps the invariant\<close>

lemma okD:
  assumes "sm_ok view R (s, h)"
  shows ok_chan: "chan_ok view c s" and ok_links: "links_ok s" and ok_order: "order_ok view R (s, h)"
  using assms by (simp_all add: sm_ok_def)

lemma chan_of_task:
  assumes "chan_ok view c s" "sm_tasks s c = Some (k, pc)"
  obtains q where "sm_chans s c = Some q" "c < sm_next s" "ff_receivers (view q) = (if pc = TkDone then 0 else 1)"
    "pc \<noteq> TkDone \<Longrightarrow> ff_senders (view q) = senders_of c s"
    "length (ff_items (view q)) \<le> SESSION_CAPACITY" "ff_cap (view q) = SESSION_CAPACITY"
  using assms by (cases "sm_chans s c") (auto simp: chan_ok_def)

lemma links_session: "links_ok s \<Longrightarrow> map_of (sm_sessions s) k = Some c \<Longrightarrow> \<exists>pc. sm_tasks s c = Some (k, pc)"
  using map_of_SomeD by (fastforce simp: links_ok_def)

lemma links_disp:
  "links_ok s \<Longrightarrow> pc \<in> set (sm_disp s) \<Longrightarrow> disp_chan pc = Some c \<Longrightarrow> disp_key pc = Some k
    \<Longrightarrow> \<exists>pc'. sm_tasks s c = Some (k, pc')"
  unfolding links_ok_def by (metis option.inject)

lemma links_live:
  "links_ok s \<Longrightarrow> sm_disp s \<noteq> [] \<Longrightarrow> live c k s \<Longrightarrow> map_of (sm_sessions s) k = Some c"
  unfolding links_ok_def by blast

lemma links_unique: "links_ok s \<Longrightarrow> live c k s \<Longrightarrow> live c' k s \<Longrightarrow> c = c'"
  unfolding links_ok_def by blast

lemma live_iff: "sm_tasks s c = Some (k, pc) \<Longrightarrow> live c k s = (pc \<noteq> TkDone)"
  by (simp add: live_def)

lemma live_key: "live c k s \<Longrightarrow> sm_tasks s c = Some (k', pc) \<Longrightarrow> k' = k"
  by (simp add: live_def)

lemma count_update:
  "d < length xs \<Longrightarrow> length (filter P (xs[d := y])) + (if P (xs ! d) then 1 else 0)
     = length (filter P xs) + (if P y then 1 else 0)"
proof (induction xs arbitrary: d)
  case (Cons x xs)
  show ?case
  proof (cases d)
    case (Suc e)
    then show ?thesis using Cons.IH [of e] Cons.prems by (auto split: if_splits)
  qed (simp split: if_splits)
qed simp

lemma senders_set_disp:
  assumes "d < length (sm_disp s)"
  shows "senders_of c (set_disp d pc s) + (if disp_chan (sm_disp s ! d) = Some c then 1 else 0)
    = senders_of c s + (if disp_chan pc = Some c then 1 else 0)"
  using count_update [OF assms, of "\<lambda>pc. disp_chan pc = Some c" pc] by (simp add: senders_of_def set_disp_def)

text \<open>An action that touches one channel, one dispatcher and the history of one session.\<close>

lemma distinct_map_filter: "distinct (map f xs) \<Longrightarrow> distinct (map f (filter P xs))"
  by (induction xs) auto

lemma map_of_filter_in: "k \<noteq> k' \<Longrightarrow> map_of (filter (\<lambda>e. fst e \<noteq> k) xs) k' = map_of xs k'"
  by (induction xs) auto

lemma links_set_disp:
  assumes "links_ok s" "d < length (sm_disp s)"
    and "\<And>c. disp_chan pc = Some c \<Longrightarrow> \<exists>k. disp_key pc = Some k \<and> (\<exists>pc'. sm_tasks s c = Some (k, pc'))"
  shows "links_ok (set_disp d pc s)"
proof -
  have "live c k (set_disp d pc s) = live c k s" for c k by (simp add: live_def set_disp_def)
  moreover have "x \<in> set ((sm_disp s)[d := pc]) \<Longrightarrow> x = pc \<or> x \<in> set (sm_disp s)" for x
    using set_update_subset_insert by fastforce
  ultimately show ?thesis using assms unfolding links_ok_def set_disp_def by simp blast
qed

lemma links_chans [simp]: "links_ok (s \<lparr> sm_chans := f \<rparr>) = links_ok s"
  by (simp add: links_ok_def live_def)

lemma order_same:
  assumes "order_ok view R (s, h)" "\<And>c k. live c k s1 = live c k s"
    "\<And>c q1. sm_chans s1 c = Some q1 \<Longrightarrow> \<exists>q. sm_chans s c = Some q \<and> ff_items (view q) = ff_items (view q1)"
  shows "order_ok view R (s1, h)"
  using assms unfolding order_ok_def prod.case by metis

lemma fold_on_chan:
  "fold (\<lambda>(_, c). on_chan f c) xs s
     = s \<lparr> sm_chans := (\<lambda>c. map_option (f ^^ length (filter (\<lambda>e. snd e = c) xs)) (sm_chans s c)) \<rparr>"
proof (induction xs arbitrary: s)
  case (Cons x xs)
  have "map_option (f ^^ n) (map_option f v) = map_option (f ^^ Suc n) v" for n v
    by (cases v) (simp_all add: funpow_swap1)
  then have "(on_chan f (snd x) s) \<lparr> sm_chans := \<lambda>c. map_option (f ^^ length (filter (\<lambda>e. snd e = c) xs)) (sm_chans (on_chan f (snd x) s) c) \<rparr>
      = s \<lparr> sm_chans := \<lambda>c. map_option (f ^^ length (filter (\<lambda>e. snd e = c) (x # xs))) (sm_chans s c) \<rparr>"
    by (auto simp: on_chan_def fun_eq_iff simp del: funpow.simps)
  moreover have "fold (\<lambda>(_, c). on_chan f c) (x # xs) s = fold (\<lambda>(_, c). on_chan f c) xs (on_chan f (snd x) s)"
    by (cases x) simp
  ultimately show ?case by (simp only: Cons.IH)
qed (simp add: option.map_id)

locale session_channels = fifo_channel ops view
  for ops :: "('q, inbound_message) fifo_ops" and view :: "'q \<Rightarrow> inbound_message fifo" +
  fixes R :: "inbound_message list \<Rightarrow> inbound_message list \<Rightarrow> bool"
  assumes R_Nil: "R [] []" and R_snoc: "R xs ys \<Longrightarrow> R (xs @ [m]) (ys @ [m])"
begin

text \<open>Chan by chan: what stays is as it was, what changes is given.\<close>

lemma chan_okI:
  assumes "chan_ok view c s" "sm_tasks s1 c = sm_tasks s c" "sm_next s1 = sm_next s"
    and "sm_chans s1 c = sm_chans s c" "senders_of c s1 = senders_of c s"
  shows "chan_ok view c s1"
  using assms by (cases "sm_tasks s c"; cases "sm_chans s c") (auto simp: chan_ok_def)

lemma clone_chan:
  assumes "chan_ok view c s" "sm_tasks s c = Some (k, pc)" "sm_tasks s1 c = sm_tasks s c" "sm_next s1 = sm_next s"
    and "sm_chans s1 c = map_option (fo_clone_tx ops) (sm_chans s c)" "senders_of c s1 = Suc (senders_of c s)"
  shows "chan_ok view c s1"
proof -
  obtain q where "sm_chans s c = Some q" "c < sm_next s" "ff_receivers (view q) = (if pc = TkDone then 0 else 1)"
    "pc \<noteq> TkDone \<Longrightarrow> ff_senders (view q) = senders_of c s"
    "length (ff_items (view q)) \<le> SESSION_CAPACITY" "ff_cap (view q) = SESSION_CAPACITY"
    using chan_of_task [OF assms(1,2)] by blast
  then show ?thesis using assms by (simp add: chan_ok_def view_clone_tx)
qed

text \<open>A dispatcher takes a sender of a channel.\<close>

lemma take_sender_ok:
  assumes ok: "sm_ok view R (s, h)" and d: "d < length (sm_disp s)" "disp_chan (sm_disp s ! d) = None"
    and t: "sm_tasks s c = Some (k, pc)" and pc: "disp_chan dpc = Some c" "disp_key dpc = Some k"
  shows "sm_ok view R (set_disp d dpc (on_chan (fo_clone_tx ops) c s), h)"
proof -
  let ?s0 = "on_chan (fo_clone_tx ops) c s"
  let ?s1 = "set_disp d dpc ?s0"
  have "links_ok ?s0" using ok_links [OF ok] by (simp add: on_chan_def)
  then have "links_ok ?s1" using d pc t by (intro links_set_disp) (auto simp: on_chan_def)
  moreover have snd: "senders_of e ?s1 = senders_of e s + (if e = c then 1 else 0)" for e
    using senders_set_disp [of d ?s0 e dpc] d pc by (auto simp: on_chan_def senders_of_def)
  have "chan_ok view e ?s1" for e
  proof (cases "e = c")
    case True
    then show ?thesis using snd [of c] t
      by (intro clone_chan [OF ok_chan [OF ok]]) (auto simp: set_disp_def on_chan_def)
  next
    case False
    then show ?thesis using snd [of e]
      by (intro chan_okI [OF ok_chan [OF ok]]) (auto simp: set_disp_def on_chan_def)
  qed
  moreover have "order_ok view R (?s1, h)"
    by (rule order_same [OF ok_order [OF ok]])
      (auto simp: live_def set_disp_def on_chan_def view_clone_tx split: if_splits)
  ultimately show ?thesis by (simp add: sm_ok_def)
qed

lemma dispatch_ok:
  assumes ok: "sm_ok view R (s, h)" and d: "d < length (sm_disp s)" "sm_disp s ! d = DispIdle"
  shows "sm_ok view R (dispatch_to_session ops d m b s, h)"
proof (cases "b \<or> map_of (sm_sessions s) (message_session_key m) = None")
  case True
  show ?thesis
  proof (cases b)
    case True
    then show ?thesis using ok by (simp add: dispatch_to_session_def)
  next
    case False
    let ?s1 = "set_disp d (DispSpawn (message_session_key m) m) s"
    have s1: "dispatch_to_session ops d m b s = ?s1" using True False by (simp add: dispatch_to_session_def)
    have "links_ok ?s1" by (rule links_set_disp [OF ok_links [OF ok] d(1)]) simp
    moreover have "senders_of c ?s1 = senders_of c s" for c
      using senders_set_disp [OF d(1), of c "DispSpawn (message_session_key m) m"] d(2) by simp
    then have "chan_ok view c ?s1" for c
      by (intro chan_okI [OF ok_chan [OF ok]]) (simp_all add: set_disp_def)
    moreover have "order_ok view R (?s1, h)"
      by (rule order_same [OF ok_order [OF ok]]) (auto simp: live_def set_disp_def)
    ultimately show ?thesis by (simp add: s1 sm_ok_def)
  qed
next
  case False
  let ?k = "message_session_key m"
  obtain c where c: "map_of (sm_sessions s) ?k = Some c" "\<not> b" using False by auto
  obtain pc where pc: "sm_tasks s c = Some (?k, pc)" using links_session [OF ok_links [OF ok] c(1)] by blast
  show ?thesis
    using take_sender_ok [OF ok d(1) _ pc, of "DispFast c ?k m"] d(2) c by (simp add: dispatch_to_session_def)
qed

lemma order_taken:
  assumes o': "order_ok view R (s, h)" and u: "links_ok s" and l: "live c k s" and q: "sm_chans s c = Some q"
    and q1: "ff_items (view q1) = ff_items (view q) @ [m]"
    and s1: "\<And>c k. live c k s1 = live c k s" "sm_chans s1 = (sm_chans s)(c \<mapsto> q1)"
  shows "order_ok view R (s1, note_taken k m h)"
  unfolding order_ok_def prod.case
proof (intro allI conjI impI)
  fix k' e q' assume le: "live e k' s1" and q': "sm_chans s1 e = Some q'"
  show "\<exists>pre. sh_accepted (note_taken k m h) k' = pre @ ff_items (view q') \<and> R (sh_started (note_taken k m h) k') pre"
  proof (cases "e = c")
    case True
    then have "k' = k" using le l s1(1) by (auto simp: live_def split: option.splits)
    moreover obtain pre where "sh_accepted h k = pre @ ff_items (view q)" "R (sh_started h k) pre"
      using o' l q unfolding order_ok_def by blast
    ultimately show ?thesis using True q' q1 by (auto simp: s1(2) note_taken_def)
  next
    case False
    then have "k' \<noteq> k" using links_unique [OF u] l le s1(1) by metis
    then show ?thesis using o' le q' False s1 unfolding order_ok_def note_taken_def by simp
  qed
next
  fix k' assume n: "\<forall>e. \<not> live e k' s1"
  then have "k' \<noteq> k" using l s1(1) by blast
  then show "R (sh_started (note_taken k m h) k') (sh_accepted (note_taken k m h) k')"
    using o' n s1(1) unfolding order_ok_def note_taken_def by simp
qed

lemma poll_send_ok:
  assumes ok: "sm_ok view R (s, h)" and d: "d < length (sm_disp s)" "disp_chan (sm_disp s ! d) = Some c"
    "disp_key (sm_disp s ! d) = Some k" and cl: "disp_chan closed = None"
    and p: "poll_send ops d c m closed s = (b, s1)"
  shows "sm_ok view R (s1, if b then note_taken k m h else h)"
proof -
  have mem: "sm_disp s ! d \<in> set (sm_disp s)" using d by simp
  obtain pc where pc: "sm_tasks s c = Some (k, pc)" using links_disp [OF ok_links [OF ok] mem d(2,3)] by blast
  obtain q where q: "sm_chans s c = Some q" "c < sm_next s" "ff_receivers (view q) = (if pc = TkDone then 0 else 1)"
    "pc \<noteq> TkDone \<Longrightarrow> ff_senders (view q) = senders_of c s"
    "length (ff_items (view q)) \<le> SESSION_CAPACITY" "ff_cap (view q) = SESSION_CAPACITY"
    using chan_of_task [OF ok_chan [OF ok] pc] by blast
  obtain r q1 where f: "fo_send ops m q = (r, q1)" by fastforce
  have idle: "disp_chan x = None \<Longrightarrow> links_ok (set_disp d x (s \<lparr> sm_chans := y \<rparr>))" for x y
    using ok_links [OF ok] d(1) by (intro links_set_disp) auto
  have snd: "disp_chan x = None \<Longrightarrow>
      senders_of e (set_disp d x (s \<lparr> sm_chans := y \<rparr>)) = senders_of e s - (if e = c then 1 else 0)" for x y e
    using senders_set_disp [of d "s \<lparr> sm_chans := y \<rparr>" e x] d by (auto simp: senders_of_def)
  have chans: "chan_ok view e (set_disp d x (s \<lparr> sm_chans := (sm_chans s)(c \<mapsto> fo_drop_tx ops q1) \<rparr>))"
    if "disp_chan x = None" "length (ff_items (view q1)) \<le> SESSION_CAPACITY" "ff_cap (view q1) = SESSION_CAPACITY"
      "ff_receivers (view q1) = ff_receivers (view q)" "ff_senders (view q1) = ff_senders (view q)" for x e
  proof (cases "e = c")
    case True
    have "senders_of c (set_disp d x (s \<lparr> sm_chans := (sm_chans s)(c \<mapsto> fo_drop_tx ops q1) \<rparr>)) = senders_of c s - 1"
      using snd [OF that(1), of c "(sm_chans s)(c \<mapsto> fo_drop_tx ops q1)"] by simp
    then show ?thesis
      using that q pc True by (auto simp: chan_ok_def set_disp_def view_drop_tx)
  next
    case False
    have "senders_of e (set_disp d x (s \<lparr> sm_chans := (sm_chans s)(c \<mapsto> fo_drop_tx ops q1) \<rparr>)) = senders_of e s"
      using snd [OF that(1), of e "(sm_chans s)(c \<mapsto> fo_drop_tx ops q1)"] False by simp
    then show ?thesis using False
      by (intro chan_okI [OF ok_chan [OF ok]]) (auto simp: set_disp_def)
  qed
  show ?thesis
  proof (cases r)
    case SendOk
    have b: "b" and s1: "s1 = set_disp d DispIdle (s \<lparr> sm_chans := (sm_chans s)(c \<mapsto> fo_drop_tx ops q1) \<rparr>)"
      using p by (auto simp: poll_send_def q(1) f SendOk)
    have v: "view q1 = (view q) \<lparr> ff_items := ff_items (view q) @ [m] \<rparr>" and "ff_receivers (view q) \<noteq> 0"
      and len: "length (ff_items (view q)) < ff_cap (view q)"
      using send_ok [OF f [unfolded SendOk]] by simp_all
    then have "pc \<noteq> TkDone" using q(3) by auto
    then have l: "live c k s" using pc by (simp add: live_def)
    have "order_ok view R (s1, note_taken k m h)"
      by (rule order_taken [OF ok_order [OF ok] ok_links [OF ok] l q(1), where ?q1.0 = "fo_drop_tx ops q1"])
        (simp_all add: v view_drop_tx s1 live_def set_disp_def)
    moreover have "chan_ok view e s1" for e
      unfolding s1 by (rule chans) (use v len q in simp_all)
    ultimately show ?thesis using idle [of DispIdle] b by (simp add: s1 sm_ok_def)
  next
    case SendFull
    have b: "\<not> b" and s1: "s1 = s \<lparr> sm_chans := (sm_chans s)(c \<mapsto> q1) \<rparr>"
      using p by (auto simp: poll_send_def q(1) f SendFull)
    have "view q1 = view q" using send_failed [OF f] by (simp add: SendFull)
    then have "same_core view s s1" by (simp add: same_core_def s1 q(1))
    from same_core_ok [OF this ok] show ?thesis using b by simp
  next
    case SendClosed
    have b: "\<not> b" and s1: "s1 = set_disp d closed (s \<lparr> sm_chans := (sm_chans s)(c \<mapsto> fo_drop_tx ops q1) \<rparr>)"
      using p by (auto simp: poll_send_def q(1) f SendClosed)
    have v: "view q1 = view q" using send_failed [OF f] by (simp add: SendClosed)
    have "order_ok view R (s1, h)"
      by (rule order_same [OF ok_order [OF ok]])
        (auto simp: live_def set_disp_def s1 q(1) view_drop_tx v split: if_splits)
    moreover have "chan_ok view e s1" for e
      unfolding s1 by (rule chans [OF cl]) (use v q in simp_all)
    ultimately show ?thesis using idle [OF cl] b by (simp add: s1 sm_ok_def)
  qed
qed

lemma closed_iff_done:
  assumes "chan_ok view c s" "sm_tasks s c = Some (k, pc)"
  shows "closed_chan ops c s = (pc = TkDone)"
proof -
  obtain q where "sm_chans s c = Some q" "ff_receivers (view q) = (if pc = TkDone then 0 else 1)"
    using chan_of_task [OF assms] by blast
  then show ?thesis by (simp add: closed_chan_def view_is_closed)
qed

text \<open>A fresh task takes the slot of its session.\<close>

lemma fresh_task_ok:
  assumes ok: "sm_ok view R (s, h)" and d: "d < length (sm_disp s)" "disp_chan (sm_disp s ! d) = None"
    and gone: "\<And>e. \<not> live e k s"
    and s1: "sm_sessions s1 = put_session k (sm_next s) (sm_sessions s)"
      "sm_tasks s1 = (sm_tasks s)(sm_next s \<mapsto> (k, TkWaiting))" "sm_next s1 = Suc (sm_next s)"
      "sm_disp s1 = (sm_disp s)[d := DispSlow (sm_next s) k m]"
      "sm_chans s1 (sm_next s) = Some (fo_clone_tx ops (fo_new ops SESSION_CAPACITY))"
    and others: "\<And>e. e \<noteq> sm_next s \<Longrightarrow> sm_chans s1 e = sm_chans s e \<or>
      (\<exists>pc. sm_tasks s e = Some (k, pc)) \<and> sm_chans s1 e = map_option (fo_drop_tx ops) (sm_chans s e)"
  shows "sm_ok view R (s1, h)"
proof -
  let ?c = "sm_next s"
  note li = ok_links [OF ok] and ch = ok_chan [OF ok]
  have fresh: "sm_tasks s ?c = None"
  proof (rule ccontr)
    assume "sm_tasks s ?c \<noteq> None"
    then obtain k' pc where "sm_tasks s ?c = Some (k', pc)" by auto
    from chan_of_task [OF ch this] show False by blast
  qed
  have lv: "live e k' s1 = (if e = ?c then k' = k else live e k' s)" for e k'
    by (auto simp: live_def s1(2))
  have sess: "(k', e) \<in> set (sm_sessions s) \<Longrightarrow> \<exists>pc. sm_tasks s e = Some (k', pc)" for k' e
    using li unfolding links_ok_def by blast
  have nsess: "snd x \<noteq> ?c" if "x \<in> set (sm_sessions s)" for x
    using sess [of "fst x" "snd x"] that fresh by auto
  have ndisp: "disp_chan x \<noteq> Some ?c" if "x \<in> set (sm_disp s)" for x
    using li that fresh unfolding links_ok_def by (metis option.distinct(1))
  have snd_new: "senders_of ?c s1 = 2"
  proof -
    have "filter (\<lambda>e. snd e = ?c) (sm_sessions s1) = [(k, ?c)]"
      using nsess by (auto simp: s1(1) put_session_def filter_empty_conv)
    moreover have "length (filter (\<lambda>x. disp_chan x = Some ?c) (sm_disp s)) = 0"
      using ndisp by (simp add: filter_empty_conv)
    then have "length (filter (\<lambda>x. disp_chan x = Some ?c) (sm_disp s1)) = 1"
      using count_update [OF d(1), of "\<lambda>x. disp_chan x = Some ?c" "DispSlow ?c k m"] d(2) by (simp add: s1(4))
    ultimately show ?thesis by (simp add: senders_of_def)
  qed
  have snd_old: "senders_of e s1 = senders_of e s" if e: "e \<noteq> ?c" "sm_tasks s e = Some (k', pc)" "k' \<noteq> k" for e k' pc
  proof -
    have "filter (\<lambda>x. snd x = e \<and> fst x \<noteq> k) (sm_sessions s) = filter (\<lambda>x. snd x = e) (sm_sessions s)"
      by (rule filter_cong [OF refl]) (use sess that in fastforce)
    then have "filter (\<lambda>x. snd x = e) (sm_sessions s1) = filter (\<lambda>x. snd x = e) (sm_sessions s)"
      using e(1) by (simp add: s1(1) put_session_def conj_commute)
    moreover have "length (filter (\<lambda>x. disp_chan x = Some e) (sm_disp s1)) = length (filter (\<lambda>x. disp_chan x = Some e) (sm_disp s))"
      using count_update [OF d(1), of "\<lambda>x. disp_chan x = Some e" "DispSlow ?c k m"] d(2) e(1) by (simp add: s1(4))
    ultimately show ?thesis by (simp add: senders_of_def)
  qed
  have "chan_ok view e s1" for e
  proof (cases "e = ?c")
    case True
    then show ?thesis using snd_new
      by (simp add: chan_ok_def s1 view_clone_tx view_new fifo_new_def)
  next
    case ne: False
    show ?thesis
    proof (cases "sm_tasks s e")
      case None
      then have "sm_chans s1 e = sm_chans s e" using others [OF ne] by auto
      then show ?thesis using ch [of e] None ne by (auto simp: chan_ok_def s1 split: option.splits)
    next
      case (Some t)
      obtain k' pc where t: "sm_tasks s e = Some (k', pc)" using Some by (cases t) auto
      obtain q where q: "sm_chans s e = Some q" "e < sm_next s" "ff_receivers (view q) = (if pc = TkDone then 0 else 1)"
        "pc \<noteq> TkDone \<Longrightarrow> ff_senders (view q) = senders_of e s"
        "length (ff_items (view q)) \<le> SESSION_CAPACITY" "ff_cap (view q) = SESSION_CAPACITY"
        using chan_of_task [OF ch t] by blast
      have dn: "k' = k \<Longrightarrow> pc = TkDone" using gone [of e] t by (auto simp: live_def)
      then have "pc \<noteq> TkDone \<Longrightarrow> sm_chans s1 e = Some q" using others [OF ne] t q(1) by auto
      moreover have "pc \<noteq> TkDone \<Longrightarrow> senders_of e s1 = senders_of e s" using snd_old [OF ne t] dn by blast
      ultimately show ?thesis using others [OF ne] q t ne
        by (cases "pc = TkDone") (auto simp: chan_ok_def s1 view_drop_tx)
    qed
  qed
  moreover have "links_ok s1"
    unfolding links_ok_def
  proof (intro conjI)
    have "distinct (map fst (sm_sessions s))" using li by (simp add: links_ok_def)
    then show "distinct (map fst (sm_sessions s1))"
      by (auto simp: s1(1) put_session_def distinct_map_filter)
    show "\<forall>(k, c) \<in> set (sm_sessions s1). \<exists>pc. sm_tasks s1 c = Some (k, pc)"
      using sess nsess by (fastforce simp: s1(1,2) put_session_def)
    show "\<forall>pc \<in> set (sm_disp s1). \<forall>c. disp_chan pc = Some c \<longrightarrow>
        (\<exists>k. disp_key pc = Some k \<and> (\<exists>pc'. sm_tasks s1 c = Some (k, pc')))"
    proof (intro ballI allI impI)
      fix x c assume x: "x \<in> set (sm_disp s1)" "disp_chan x = Some c"
      then have "x = DispSlow ?c k m \<or> x \<in> set (sm_disp s)"
        using set_update_subset_insert unfolding s1(4) by fastforce
      then show "\<exists>k. disp_key x = Some k \<and> (\<exists>pc'. sm_tasks s1 c = Some (k, pc'))"
      proof
        assume "x \<in> set (sm_disp s)"
        then have "\<exists>k. disp_key x = Some k \<and> (\<exists>pc'. sm_tasks s c = Some (k, pc'))" and "c \<noteq> ?c"
          using li x(2) ndisp [of x] unfolding links_ok_def by (blast, fastforce)
        then show ?thesis by (simp add: s1(2))
      qed (use x in \<open>auto simp: s1(2)\<close>)
    qed
    have ne: "sm_disp s \<noteq> []" using d(1) by auto
    show "\<forall>c k'. sm_disp s1 \<noteq> [] \<longrightarrow> live c k' s1 \<longrightarrow> map_of (sm_sessions s1) k' = Some c"
    proof (intro allI impI)
      fix c k' assume l: "live c k' s1"
      show "map_of (sm_sessions s1) k' = Some c"
      proof (cases "c = ?c")
        case True
        then show ?thesis using l by (simp add: lv s1(1) put_session_def)
      next
        case False
        then have "live c k' s" "k' \<noteq> k" using l gone by (auto simp: lv)
        then show ?thesis using links_live [OF li ne] by (simp add: s1(1) put_session_def map_of_filter_in)
      qed
    qed
    show "\<forall>c c' k'. live c k' s1 \<longrightarrow> live c' k' s1 \<longrightarrow> c = c'"
      using gone links_unique [OF li] by (auto simp: lv split: if_splits)
    show "sm_disp s1 = [] \<longrightarrow> sm_sessions s1 = []" using ne by (simp add: s1(4))
  qed
  moreover have "order_ok view R (s1, h)"
    unfolding order_ok_def prod.case
  proof (intro allI conjI impI)
    fix k' e q assume l: "live e k' s1" and q: "sm_chans s1 e = Some q"
    show "\<exists>pre. sh_accepted h k' = pre @ ff_items (view q) \<and> R (sh_started h k') pre"
    proof (cases "e = ?c")
      case True
      then have "k' = k" "ff_items (view q) = []" using l q by (auto simp: lv s1(5) view_clone_tx view_new fifo_new_def)
      then show ?thesis using ok_order [OF ok] gone by (simp add: order_ok_def)
    next
      case False
      then have l0: "live e k' s" and "k' \<noteq> k" using l gone by (auto simp: lv)
      then have "sm_chans s e = Some q" using others [OF False] q by (auto simp: live_def)
      then show ?thesis using ok_order [OF ok] l0 unfolding order_ok_def by blast
    qed
  next
    fix k' assume n: "\<forall>e. \<not> live e k' s1"
    have "\<not> live e k' s" for e
    proof (cases "e = ?c")
      case True
      then show ?thesis using fresh by (simp add: live_def)
    next
      case False
      then show ?thesis using n lv [of e k'] by simp
    qed
    then show "R (sh_started h k') (sh_accepted h k')" using ok_order [OF ok] by (simp add: order_ok_def)
  qed
  ultimately show ?thesis by (simp add: sm_ok_def)
qed

lemma spawn_ok:
  assumes ok: "sm_ok view R (s, h)" and d: "d < length (sm_disp s)" "disp_chan (sm_disp s ! d) = None"
  shows "sm_ok view R (spawn_session ops d k m s, h)"
proof (cases "\<exists>c. map_of (sm_sessions s) k = Some c \<and> \<not> closed_chan ops c s")
  case True
  then obtain c where c: "map_of (sm_sessions s) k = Some c" "\<not> closed_chan ops c s" by blast
  obtain pc where pc: "sm_tasks s c = Some (k, pc)" using links_session [OF ok_links [OF ok] c(1)] by blast
  show ?thesis
    using take_sender_ok [OF ok d pc, of "DispSlow c k m"] c by (simp add: spawn_session_def claim_slot_def)
next
  case False
  have ne: "sm_disp s \<noteq> []" using d(1) by auto
  have gone: "\<not> live e k s" for e
  proof
    assume l: "live e k s"
    then have m: "map_of (sm_sessions s) k = Some e" by (rule links_live [OF ok_links [OF ok] ne])
    obtain pc where pc: "sm_tasks s e = Some (k, pc)" using links_session [OF ok_links [OF ok] m] by blast
    then show False
      using False m l closed_iff_done [OF ok_chan [OF ok] pc] live_iff [OF pc] by blast
  qed
  let ?s1 = "spawn_session ops d k m s" and ?c = "sm_next s"
  define s0 where "s0 = (case map_of (sm_sessions s) k of Some o' \<Rightarrow> on_chan (fo_drop_tx ops) o' s | None \<Rightarrow> s)"
  have s1: "?s1 = set_disp d (DispSlow ?c k m) (s0 \<lparr> sm_sessions := put_session k ?c (sm_sessions s),
      sm_chans := (sm_chans s0)(?c \<mapsto> fo_clone_tx ops (fo_new ops SESSION_CAPACITY)),
      sm_tasks := (sm_tasks s)(?c \<mapsto> (k, TkWaiting)), sm_next := Suc ?c \<rparr>)"
    using False by (auto simp: spawn_session_def claim_slot_def s0_def Let_def split: option.splits)
  have disp0: "sm_disp s0 = sm_disp s" by (simp add: s0_def on_chan_def split: option.split)
  have old: "sm_chans s0 e = sm_chans s e \<or>
      (\<exists>pc. sm_tasks s e = Some (k, pc)) \<and> sm_chans s0 e = map_option (fo_drop_tx ops) (sm_chans s e)" for e
    using links_session [OF ok_links [OF ok], of k e] by (auto simp: s0_def on_chan_def split: option.split)
  show ?thesis
    by (rule fresh_task_ok [OF ok d gone])
      (use old in \<open>simp_all add: s1 set_disp_def disp0\<close>)
qed

text \<open>Entries of the map are dropped with their senders, live ones only at shutdown.\<close>

lemma drop_entries_ok:
  assumes ok: "sm_ok view R (s, h)"
    and s1: "s1 = fold (\<lambda>(_, c). on_chan (fo_drop_tx ops) c) (filter (\<lambda>e. \<not> P e) (sm_sessions s))
        (s \<lparr> sm_sessions := filter P (sm_sessions s), sm_disp := ds \<rparr>)"
    and senders: "\<And>c. length (filter (\<lambda>pc. disp_chan pc = Some c) ds) = length (filter (\<lambda>pc. disp_chan pc = Some c) (sm_disp s))"
    and sub: "set ds \<subseteq> set (sm_disp s)"
    and keep: "\<And>c k. ds \<noteq> [] \<Longrightarrow> live c k s \<Longrightarrow> P (k, c)"
    and none: "ds = [] \<Longrightarrow> filter P (sm_sessions s) = []"
  shows "sm_ok view R (s1, h)"
proof -
  note li = ok_links [OF ok]
  have f: "sm_sessions s1 = filter P (sm_sessions s)" "sm_disp s1 = ds" "sm_tasks s1 = sm_tasks s" "sm_next s1 = sm_next s"
    "\<And>c. sm_chans s1 c = map_option (fo_drop_tx ops ^^ length (filter (\<lambda>e. snd e = c) (filter (\<lambda>e. \<not> P e) (sm_sessions s)))) (sm_chans s c)"
    unfolding s1 fold_on_chan by simp_all
  have split: "length (filter (\<lambda>e. snd e = c) xs) = length (filter (\<lambda>e. snd e = c) (filter P xs))
      + length (filter (\<lambda>e. snd e = c) (filter (\<lambda>e. \<not> P e) xs))" for c and xs :: "(session_key \<times> nat) list"
    by (induction xs) auto
  have "chan_ok view c s1" for c
  proof -
    have "senders_of c s1 = senders_of c s - length (filter (\<lambda>e. snd e = c) (filter (\<lambda>e. \<not> P e) (sm_sessions s)))"
      using split [of c "sm_sessions s"] senders [of c] by (simp add: senders_of_def f)
    then show ?thesis using ok_chan [OF ok, of c]
      by (cases "sm_tasks s c"; cases "sm_chans s c") (auto simp: chan_ok_def f drop_many)
  qed
  moreover have lv: "live c k s1 = live c k s" for c k by (simp add: live_def f)
  have "links_ok s1"
    unfolding links_ok_def
  proof (intro conjI)
    have di: "distinct (map fst (sm_sessions s))" using li by (simp add: links_ok_def)
    then show di1: "distinct (map fst (sm_sessions s1))" by (simp add: f distinct_map_filter)
    show "\<forall>(k, c) \<in> set (sm_sessions s1). \<exists>pc. sm_tasks s1 c = Some (k, pc)"
      using li unfolding links_ok_def f by fastforce
    show "\<forall>pc \<in> set (sm_disp s1). \<forall>c. disp_chan pc = Some c \<longrightarrow>
        (\<exists>k. disp_key pc = Some k \<and> (\<exists>pc'. sm_tasks s1 c = Some (k, pc')))"
      using li sub unfolding links_ok_def f by blast
    show "\<forall>c k. sm_disp s1 \<noteq> [] \<longrightarrow> live c k s1 \<longrightarrow> map_of (sm_sessions s1) k = Some c"
    proof (intro allI impI)
      fix c k assume n: "sm_disp s1 \<noteq> []" and l: "live c k s1"
      then have "sm_disp s \<noteq> []" using sub by (auto simp: f)
      then have "(k, c) \<in> set (sm_sessions s)" using links_live [OF li] l lv map_of_SomeD by metis
      then have "(k, c) \<in> set (sm_sessions s1)" using keep n l lv by (simp add: f)
      then show "map_of (sm_sessions s1) k = Some c" using di1 by (simp add: map_of_eq_Some_iff)
    qed
    show "\<forall>c c' k. live c k s1 \<longrightarrow> live c' k s1 \<longrightarrow> c = c'" using links_unique [OF li] lv by blast
    show "sm_disp s1 = [] \<longrightarrow> sm_sessions s1 = []" using none by (simp add: f)
  qed
  moreover have "order_ok view R (s1, h)"
    by (rule order_same [OF ok_order [OF ok] lv]) (auto simp: f drop_many)
  ultimately show ?thesis by (simp add: sm_ok_def)
qed

lemma gc_ok:
  assumes ok: "sm_ok view R (s, h)" and ne: "sm_disp s \<noteq> []"
  shows "sm_ok view R (gc_sessions ops s, h)"
proof (rule drop_entries_ok [OF ok, where ds = "sm_disp s" and P = "\<lambda>e. \<not> closed_chan ops (snd e) s"])
  show "gc_sessions ops s = fold (\<lambda>(_, c). on_chan (fo_drop_tx ops) c)
      (filter (\<lambda>e. \<not> \<not> closed_chan ops (snd e) s) (sm_sessions s))
      (s \<lparr> sm_sessions := filter (\<lambda>e. \<not> closed_chan ops (snd e) s) (sm_sessions s), sm_disp := sm_disp s \<rparr>)"
    by (cases s) (simp add: gc_sessions_def case_prod_unfold)
next
  fix c k assume "live c k s"
  then obtain pc where pc: "sm_tasks s c = Some (k, pc)" "pc \<noteq> TkDone"
    by (auto simp: live_def split: option.splits)
  then show "\<not> closed_chan ops (snd (k, c)) s" using closed_iff_done [OF ok_chan [OF ok] pc(1)] by simp
qed (use ne in simp_all)

lemma shut_down_ok:
  assumes ok: "sm_ok view R (s, h)"
  shows "sm_ok view R (shut_down ops s, h)"
proof (cases "list_all (\<lambda>pc. pc = DispIdle) (sm_disp s)")
  case True
  then have "filter (\<lambda>pc. disp_chan pc = Some c) (sm_disp s) = []" for c
    by (fastforce simp: filter_empty_conv list_all_iff)
  then show ?thesis using True
    by (intro drop_entries_ok [OF ok, where ds = "[]" and P = "\<lambda>_. False"]) (simp_all add: shut_down_def)
next
  case False
  then show ?thesis using ok by (simp add: shut_down_def)
qed

lemma order_started:
  assumes o': "order_ok view R (s, h)" and u: "links_ok s" and l: "live c k s" and q: "sm_chans s c = Some q"
    and q1: "ff_items (view q) = m # ff_items (view q1)"
    and s1: "\<And>c k. live c k s1 = live c k s" "sm_chans s1 = (sm_chans s)(c \<mapsto> q1)"
  shows "order_ok view R (s1, note_started k m h)"
  unfolding order_ok_def prod.case
proof (intro allI conjI impI)
  fix k' e q' assume le: "live e k' s1" and q': "sm_chans s1 e = Some q'"
  show "\<exists>pre. sh_accepted (note_started k m h) k' = pre @ ff_items (view q') \<and> R (sh_started (note_started k m h) k') pre"
  proof (cases "e = c")
    case True
    then have k': "k' = k" using le l s1(1) by (auto simp: live_def split: option.splits)
    obtain pre where pre: "sh_accepted h k = pre @ ff_items (view q)" "R (sh_started h k) pre"
      using o' l q unfolding order_ok_def by blast
    have "R (sh_started h k @ [m]) (pre @ [m])" using pre(2) by (rule R_snoc)
    then show ?thesis using True q' q1 pre(1) k' by (intro exI [of _ "pre @ [m]"]) (auto simp: s1(2) note_started_def)
  next
    case False
    then have "k' \<noteq> k" using links_unique [OF u] l le s1(1) by metis
    then show ?thesis using o' le q' False s1 unfolding order_ok_def note_started_def by simp
  qed
next
  fix k' assume n: "\<forall>e. \<not> live e k' s1"
  then have "k' \<noteq> k" using l s1(1) by blast
  then show "R (sh_started (note_started k m h) k') (sh_accepted (note_started k m h) k')"
    using o' n s1(1) unfolding order_ok_def note_started_def by simp
qed

lemma set_task_live: "sm_tasks s c = Some (k, pc0) \<Longrightarrow> pc0 \<noteq> TkDone \<Longrightarrow> pc \<noteq> TkDone
    \<Longrightarrow> live e k' (set_task c pc (s \<lparr> sm_chans := y \<rparr>)) = live e k' s"
  by (auto simp: live_def set_task_def)

lemma task_poll_ok:
  assumes ok: "sm_ok view R (s, h)"
  shows "sm_ok view R (act_task_poll ops c elapsed (s, h))"
proof (cases "\<exists>k. sm_tasks s c = Some (k, TkWaiting)")
  case False
  then show ?thesis using ok by (auto simp: act_task_poll_def split: option.splits session_pc.splits)
next
  case True
  then obtain k where k: "sm_tasks s c = Some (k, TkWaiting)" by blast
  obtain q where q: "sm_chans s c = Some q" "length (ff_items (view q)) \<le> SESSION_CAPACITY"
    "ff_cap (view q) = SESSION_CAPACITY" "ff_senders (view q) = senders_of c s" "ff_receivers (view q) = 1" "c < sm_next s"
    using chan_of_task [OF ok_chan [OF ok] k] by auto
  have l: "live c k s" using k by (simp add: live_def)
  obtain r q1 where f: "fo_recv ops q = (r, q1)" by fastforce
  show ?thesis
  proof (cases "\<exists>m. r = Received m")
    case True
    then obtain m where m: "r = Received m" by blast
    let ?s1 = "set_task c (TkHandling m) (s \<lparr> sm_chans := (sm_chans s)(c \<mapsto> q1) \<rparr>)"
    have act: "act_task_poll ops c elapsed (s, h) = (?s1, note_started k m h)"
      by (simp add: act_task_poll_def task_recv_def k q(1) f m)
    note v = recv_item [OF f [unfolded m]]
    let ?s2 = "s \<lparr> sm_chans := (sm_chans s)(c \<mapsto> q1) \<rparr>"
    have sd: "senders_of e ?s2 = senders_of e s" for e by (simp add: senders_of_def)
    have "chan_ok view e ?s2" for e
    proof (cases "e = c")
      case True
      then show ?thesis using q v sd [of c] k by (simp add: chan_ok_def)
    next
      case False
      then show ?thesis using sd [of e] by (intro chan_okI [OF ok_chan [OF ok]]) simp_all
    qed
    moreover have "order_ok view R (?s2, note_started k m h)"
      by (rule order_started [OF ok_order [OF ok] ok_links [OF ok] l q(1) v(1)]) (simp_all add: live_def)
    ultimately have ok2: "sm_ok view R (?s2, note_started k m h)" using ok_links [OF ok] by (simp add: sm_ok_def)
    have "same_core view ?s2 ?s1" by (rule set_task_core(2) [of _ c k TkWaiting]) (simp_all add: k)
    from same_core_ok [OF this ok2] show ?thesis by (simp add: act)
  next
    case False
    then have v: "view q1 = view q" using recv_none(1) [OF f] by blast
    let ?s2 = "s \<lparr> sm_chans := (sm_chans s)(c \<mapsto> q1) \<rparr>"
    have c2: "same_core view s ?s2" by (simp add: same_core_def v q(1))
    have ok2: "sm_ok view R (?s2, h)" by (rule same_core_ok [OF c2 ok])
    have "same_core view ?s2 (set_task c TkLeaving ?s2)"
      by (rule set_task_core(2) [of _ c k TkWaiting]) (simp_all add: k)
    from same_core_ok [OF this ok2] have ok3: "sm_ok view R (set_task c TkLeaving ?s2, h)" .
    show ?thesis using False ok2 ok3
      by (cases r) (simp_all add: act_task_poll_def task_recv_def k q(1) f)
  qed
qed

lemma task_exit_ok:
  assumes ok: "sm_ok view R (s, h)" and t: "sm_tasks s c = Some (k, TkLeaving)"
    and lost: "\<And>q xs ys. sm_chans s c = Some q \<Longrightarrow> R xs ys \<Longrightarrow> R xs (ys @ ff_items (view q))"
  shows "sm_ok view R (set_task c TkDone (on_chan (fo_drop_rx ops) c s), h)"
proof -
  let ?s1 = "set_task c TkDone (on_chan (fo_drop_rx ops) c s)"
  note li = ok_links [OF ok]
  obtain q where q: "sm_chans s c = Some q" "length (ff_items (view q)) \<le> SESSION_CAPACITY"
    "ff_cap (view q) = SESSION_CAPACITY" "ff_receivers (view q) = 1" "c < sm_next s"
    using chan_of_task [OF ok_chan [OF ok] t] by auto
  have f: "sm_sessions ?s1 = sm_sessions s" "sm_disp ?s1 = sm_disp s" "sm_next ?s1 = sm_next s"
    "sm_tasks ?s1 = (sm_tasks s)(c \<mapsto> (k, TkDone))" "sm_chans ?s1 = (sm_chans s)(c \<mapsto> fo_drop_rx ops q)"
    by (simp_all add: set_task_def on_chan_def t q(1))
  have lv: "live e k' ?s1 = (e \<noteq> c \<and> live e k' s)" for e k' by (simp add: live_def f)
  have key: "(\<exists>pc. sm_tasks ?s1 e = Some (k', pc)) = (\<exists>pc. sm_tasks s e = Some (k', pc))" for e k'
    by (auto simp: f t)
  have sd: "senders_of e ?s1 = senders_of e s" for e by (simp add: senders_of_def f)
  have "chan_ok view e ?s1" for e
  proof (cases "e = c")
    case True
    then show ?thesis using q by (simp add: chan_ok_def f view_drop_rx)
  next
    case False
    then show ?thesis using sd [of e] by (intro chan_okI [OF ok_chan [OF ok]]) (simp_all add: f)
  qed
  moreover have "links_ok ?s1"
    using li unfolding links_ok_def f(1,2) key lv by blast
  moreover have "order_ok view R (?s1, h)"
    unfolding order_ok_def prod.case
  proof (intro allI conjI impI)
    fix k' e q' assume "live e k' ?s1" "sm_chans ?s1 e = Some q'"
    then have "live e k' s" "sm_chans s e = Some q'" by (auto simp: lv f(5))
    then show "\<exists>pre. sh_accepted h k' = pre @ ff_items (view q') \<and> R (sh_started h k') pre"
      using ok_order [OF ok] unfolding order_ok_def by blast
  next
    fix k' assume n: "\<forall>e. \<not> live e k' ?s1"
    show "R (sh_started h k') (sh_accepted h k')"
    proof (cases "live c k' s")
      case True
      then obtain pre where "sh_accepted h k' = pre @ ff_items (view q)" "R (sh_started h k') pre"
        using ok_order [OF ok] q(1) unfolding order_ok_def by blast
      then show ?thesis using lost [OF q(1)] by simp
    next
      case False
      then show ?thesis using n ok_order [OF ok] unfolding order_ok_def lv by auto
    qed
  qed
  ultimately show ?thesis by (simp add: sm_ok_def)
qed

lemma act_poll_dispatch_ok:
  assumes ok: "sm_ok view R (s, h)"
  shows "sm_ok view R (act_poll_dispatch ops d (s, h))"
proof (cases "d < length (sm_disp s)")
  case False
  then show ?thesis using ok by (simp add: act_poll_dispatch_def)
next
  case d: True
  show ?thesis
  proof (cases "sm_disp s ! d")
    case (DispFast c k m)
    obtain b s1 where p: "poll_send ops d c m (DispSpawn k m) s = (b, s1)" by fastforce
    show ?thesis using poll_send_ok [OF ok d _ _ _ p] d DispFast by (simp add: act_poll_dispatch_def p)
  next
    case (DispSlow c k m)
    obtain b s1 where p: "poll_send ops d c m DispIdle s = (b, s1)" by fastforce
    show ?thesis using poll_send_ok [OF ok d _ _ _ p] d DispSlow by (simp add: act_poll_dispatch_def p)
  next
    case (DispSpawn k m)
    then show ?thesis using spawn_ok [OF ok d] d by (simp add: act_poll_dispatch_def)
  qed (use ok d in \<open>simp add: act_poll_dispatch_def\<close>)
qed

definition losses_fit :: "('q, 'p, 'b, 'ws) session_manager \<Rightarrow> bool" where
  "losses_fit s = (\<forall>c k q xs ys. sm_tasks s c = Some (k, TkLeaving) \<longrightarrow> sm_chans s c = Some q \<longrightarrow> R xs ys
     \<longrightarrow> R xs (ys @ ff_items (view q)))"

lemma sm_act_ok:
  assumes ok: "sm_ok view R (s, h)" and lost: "losses_fit s"
  shows "sm_ok view R (sm_act ops js qo a (s, h))"
proof (cases a)
  case (Dispatch d m b)
  then show ?thesis using dispatch_ok [OF ok] ok by simp
next
  case (PollDispatch d)
  then show ?thesis using act_poll_dispatch_ok [OF ok] by simp
next
  case CollectGarbage
  then show ?thesis using gc_ok [OF ok] ok by simp
next
  case ShutDown
  then show ?thesis using shut_down_ok [OF ok] by simp
next
  case (TaskPoll c e)
  then show ?thesis using task_poll_ok [OF ok] by simp
next
  case (HandlerReturns c i now oc)
  then show ?thesis using ok
    by (auto split: option.splits session_pc.splits intro!: same_core_ok [OF handler_core ok])
next
  case (StreamEvent c i now ev)
  then show ?thesis using ok
    by (auto split: option.splits session_pc.splits intro!: same_core_ok [OF start_output_core(2) ok])
next
  case (StreamEnd c)
  then show ?thesis using ok
    by (auto split: option.splits session_pc.splits intro!: same_core_ok [OF set_task_core(2) ok])
next
  case (PollOutput c i now)
  then show ?thesis using ok
    by (auto split: option.splits session_pc.splits intro!: same_core_ok [OF poll_output_core ok])
next
  case (TaskExit c)
  then show ?thesis using ok lost unfolding losses_fit_def
    by (auto split: option.splits session_pc.splits intro!: task_exit_ok [OF ok])
qed

lemma sm_start_ok: "sm_ok view R (sm_start n mb)"
  by (auto simp: sm_start_def session_manager_new_def sm_ok_def chan_ok_def links_ok_def order_ok_def live_def
      senders_of_def R_Nil)

end

end
