(* ===== verification/Session_Properties.thy ===== *)
theory Session_Properties
  imports Session_Runs
begin

text \<open>
  What the session manager promises its users, and where it does not: sessions are served one
  message at a time and in order, messages are lost only around an idle timeout, and a
  session that does not take its messages stops the dispatcher for all.
\<close>

section \<open>Without idle timeouts\<close>

definition stopping :: "('q, 'p, 'b, 'ws) session_manager \<Rightarrow> nat \<Rightarrow> bool" where
  "stopping s c = (case sm_tasks s c of Some (_, pc) \<Rightarrow> pc = TkLeaving \<or> pc = TkDone | None \<Rightarrow> False)"

definition emptied :: "('q \<Rightarrow> inbound_message fifo) \<Rightarrow> ('q, 'p, 'b, 'ws) session_manager \<Rightarrow> nat \<Rightarrow> bool" where
  "emptied view s c = (case sm_chans s c of Some q \<Rightarrow> ff_items (view q) = [] | None \<Rightarrow> True)"

text \<open>A task stops only after shutdown, with nothing left to do.\<close>

definition drained :: "('q \<Rightarrow> inbound_message fifo) \<Rightarrow> ('q, 'p, 'b, 'ws) session_manager \<Rightarrow> bool" where
  "drained view s = (\<forall>c. stopping s c \<longrightarrow> sm_disp s = [] \<and> emptied view s c)"

lemma drainedI:
  assumes "drained view s" "\<And>c. stopping s1 c \<Longrightarrow> stopping s c" "sm_disp s = [] \<Longrightarrow> sm_disp s1 = []"
    and "\<And>c. sm_disp s = [] \<Longrightarrow> emptied view s c \<Longrightarrow> emptied view s1 c"
  shows "drained view s1"
  using assms unfolding drained_def by blast

lemma stopping_set_task:
  assumes "sm_tasks s c = Some (k, pc0)" "pc \<noteq> TkLeaving" "pc \<noteq> TkDone"
  shows "stopping (set_task c pc s) e \<Longrightarrow> stopping s e"
  using assms by (auto simp: stopping_def set_task_def split: if_splits)

lemma set_task_rest [simp]: "sm_disp (set_task c pc s) = sm_disp s" "emptied view (set_task c pc s) = emptied view s"
  by (simp_all add: set_task_def emptied_def fun_eq_iff)

lemma drained_set_task:
  assumes "drained view s" "sm_tasks s c = Some (k, pc0)" "pc \<noteq> TkLeaving" "pc \<noteq> TkDone"
  shows "drained view (set_task c pc (s \<lparr> sm_broker := mb \<rparr>))" "drained view (set_task c pc s)"
proof -
  have "drained view (s \<lparr> sm_broker := mb \<rparr>)" using assms(1) by (simp add: drained_def stopping_def emptied_def)
  then show "drained view (set_task c pc (s \<lparr> sm_broker := mb \<rparr>))"
    by (rule drainedI) (auto dest: stopping_set_task [rotated 3] simp: assms)
  show "drained view (set_task c pc s)"
    using assms(1) by (rule drainedI) (auto dest: stopping_set_task [rotated 3] simp: assms)
qed

lemma drained_output:
  assumes "drained view s" "sm_tasks s c = Some (k, pc0)"
  shows "drained view (start_output qo i now c msg after (s \<lparr> sm_broker := mb \<rparr>))"
    "drained view (start_output qo i now c msg after s)"
    "drained view (next_command_event qo i now c m evs (s \<lparr> sm_broker := mb \<rparr>))"
    "drained view (next_command_event qo i now c m evs s)"
  using drained_set_task [OF assms]
  by (auto simp: start_output_def next_command_event_def split: prod.splits list.splits)

lemma drained_handler:
  assumes "drained view s" "sm_tasks s c = Some (k, pc0)"
  shows "drained view (handler_returns js qo i now c m oc s)"
  using drained_set_task [OF assms] drained_output [OF assms] assms(1)
  by (auto simp: handler_returns_def split: handler_outcome.splits)

lemma drained_poll_output:
  assumes "drained view s" "sm_tasks s c = Some (k, pc0)"
  shows "drained view (poll_output qo i now c t env after s)"
proof -
  have "drained view (s \<lparr> sm_broker := mb \<rparr>)" for mb using assms(1) by (simp add: drained_def stopping_def emptied_def)
  then show ?thesis
    using drained_set_task [OF assms] drained_output [OF assms]
    by (auto simp: poll_output_def split: prod.splits option.splits publish_after.splits)
qed

lemma senders_in_map: "(k, c) \<in> set (sm_sessions s) \<Longrightarrow> senders_of c s \<noteq> 0"
  by (force simp: senders_of_def filter_empty_conv)

context session_channels
begin

lemma drained_recv:
  assumes ok: "sm_ok view R (s, h)" and dr: "drained view s"
  shows "drained view (fst (act_task_poll ops c False (s, h)))"
proof (cases "\<exists>k. sm_tasks s c = Some (k, TkWaiting)")
  case False
  then show ?thesis using dr by (auto simp: act_task_poll_def split: option.splits session_pc.splits)
next
  case True
  then obtain k where k: "sm_tasks s c = Some (k, TkWaiting)" by blast
  obtain q where q: "sm_chans s c = Some q" "ff_senders (view q) = senders_of c s"
    using chan_of_task [OF ok_chan [OF ok] k] by auto
  obtain r q1 where f: "fo_recv ops q = (r, q1)" by fastforce
  let ?s2 = "s \<lparr> sm_chans := (sm_chans s)(c \<mapsto> q1) \<rparr>"
  have dr2: "drained view ?s2"
  proof (rule drainedI [OF dr])
    fix e assume "emptied view s e"
    then show "emptied view ?s2 e"
      using recv_item(1) [of q _ q1] recv_none(1) [OF f] f q(1)
      by (cases r) (auto simp: emptied_def)
  qed (auto simp: stopping_def)
  have go: "drained view (set_task c (TkHandling m) ?s2)" for m
    by (rule drained_set_task(2) [OF dr2]) (simp_all add: k)
  have closed: "drained view (set_task c TkLeaving ?s2)" if "r = RecvClosed"
  proof -
    have "senders_of c s = 0" using recv_closed [OF f [unfolded that]] q(2) by simp
    moreover have "live c k s" using k by (simp add: live_def)
    ultimately have none: "sm_disp s = []"
      using links_live [OF ok_links [OF ok]] senders_in_map map_of_SomeD by metis
    have "emptied view ?s2 c" using recv_none [OF f] that by (simp add: emptied_def)
    then show ?thesis using dr2 none k unfolding drained_def
      by (auto simp: stopping_def set_task_def emptied_def split: if_splits)
  qed
  show ?thesis using dr2 go closed
    by (cases r) (simp_all add: act_task_poll_def task_recv_def k q(1) f)
qed

lemma drained_act:
  assumes ok: "sm_ok view R (s, h)" and dr: "drained view s" and a: "\<And>c. a \<noteq> TaskPoll c True"
  shows "drained view (fst (sm_act ops js qo a (s, h)))"
proof (cases a)
  case (Dispatch d m b)
  have "drained view (dispatch_to_session ops d m b s)" if "d < length (sm_disp s)"
    using that by (intro drainedI [OF dr])
      (auto simp: dispatch_to_session_def set_disp_def on_chan_def stopping_def Let_def split: option.splits if_splits)
  then show ?thesis using dr Dispatch by simp
next
  case (PollDispatch d)
  have p: "poll_send ops d c m x s = (y, s1) \<Longrightarrow> d < length (sm_disp s) \<Longrightarrow> drained view s1" for c m x y s1
    by (rule drainedI [OF dr])
      (auto simp: poll_send_def set_disp_def stopping_def split: option.splits prod.splits send_outcome.splits)
  have sp: "drained view (spawn_session ops d k m s)" if "d < length (sm_disp s)" for k m
    using that by (intro drainedI [OF dr])
      (auto simp: spawn_session_def claim_slot_def set_disp_def on_chan_def stopping_def Let_def split: option.splits if_splits prod.splits)
  show ?thesis using p sp dr PollDispatch by (auto simp: act_poll_dispatch_def split: disp_pc.splits prod.splits)
next
  case CollectGarbage
  have "drained view (gc_sessions ops s)" if "sm_disp s \<noteq> []"
    using that by (intro drainedI [OF dr]) (auto simp: gc_sessions_def fold_on_chan stopping_def)
  then show ?thesis using dr CollectGarbage by simp
next
  case ShutDown
  have "drained view (shut_down ops s)"
  proof (cases "list_all (\<lambda>pc. pc = DispIdle) (sm_disp s)")
    case True
    then show ?thesis
      by (intro drainedI [OF dr])
        (auto simp: shut_down_def fold_on_chan stopping_def emptied_def drop_many split: option.splits)
  qed (simp add: shut_down_def dr)
  then show ?thesis using ShutDown by simp
next
  case (TaskPoll c e)
  then show ?thesis using drained_recv [OF ok dr] a by (cases e) auto
next
  case (HandlerReturns c i now oc)
  then show ?thesis using dr by (auto split: option.splits session_pc.splits intro!: drained_handler)
next
  case (StreamEvent c i now ev)
  then show ?thesis using dr by (auto split: option.splits session_pc.splits intro!: drained_output)
next
  case (StreamEnd c)
  then show ?thesis using dr by (auto split: option.splits session_pc.splits intro!: drained_set_task)
next
  case (PollOutput c i now)
  then show ?thesis using dr by (auto split: option.splits session_pc.splits intro!: drained_poll_output)
next
  case (TaskExit c)
  have "drained view (set_task c TkDone (on_chan (fo_drop_rx ops) c s))" if "sm_tasks s c = Some (k, TkLeaving)" for k
    using that by (intro drainedI [OF dr])
      (auto simp: stopping_def set_task_def on_chan_def emptied_def view_drop_rx split: option.splits if_splits)
  then show ?thesis using dr TaskExit by (auto split: option.splits session_pc.splits)
qed

lemma runs_drained:
  assumes "\<And>c. TaskPoll c True \<notin> set acts" "sm_ok view R sh"
    "drained view (fst (sh :: ('q, 'p, 'b, 'ws) session_manager \<times> sm_history))"
    and fits: "\<And>s :: ('q, 'p, 'b, 'ws) session_manager. drained view s \<Longrightarrow> losses_fit s"
  shows "sm_ok view R (sm_runs ops js qo acts sh) \<and> drained view (fst (sm_runs ops js qo acts sh))"
  using assms(1-3)
proof (induction acts arbitrary: sh)
  case (Cons a acts)
  obtain s h where sh: "sh = (s, h)" by fastforce
  have "sm_ok view R (sm_act ops js qo a sh)"
    using Cons.prems fits unfolding sh by (intro sm_act_ok) auto
  moreover have "drained view (fst (sm_act ops js qo a sh))"
    using Cons.prems unfolding sh by (intro drained_act) auto
  ultimately show ?case using Cons by (simp add: sm_runs_def)
qed (simp add: sm_runs_def)

lemma runs_fit:
  assumes "sm_ok view R sh" "\<And>s :: ('q, 'p, 'b, 'ws) session_manager. losses_fit s"
  shows "sm_ok view R (sm_runs ops js qo acts (sh :: ('q, 'p, 'b, 'ws) session_manager \<times> sm_history))"
  using assms(1)
proof (induction acts arbitrary: sh)
  case (Cons a acts)
  have "sm_ok view R (sm_act ops js qo a sh)"
    using sm_act_ok [of "fst sh" "snd sh"] Cons.prems assms(2) by simp
  then show ?case using Cons.IH by (simp add: sm_runs_def)
qed (simp add: sm_runs_def)

end

lemma subseq_sessions: "fifo_channel ops view \<Longrightarrow> session_channels ops view subseq"
  by (simp add: session_channels_def session_channels_axioms_def list_emb_append_mono)

lemma eq_sessions: "fifo_channel ops view \<Longrightarrow> session_channels ops view (=)"
  by (simp add: session_channels_def session_channels_axioms_def)

interpretation ordered_sessions: session_channels fifo_list_ops "\<lambda>q. q" subseq
  by (rule subseq_sessions [OF fifo_list.fifo_channel_axioms])

lemma subseq_append_right: "subseq xs ys \<Longrightarrow> subseq xs (ys @ zs)"
  by (metis list_emb_append_mono append_Nil2 list_emb_Nil)

lemma sm_runs_serial:
  assumes "fifo_channel ops view"
  shows "sm_ok view subseq (sm_runs ops js qo acts (sm_start n mb))"
  by (intro session_channels.runs_fit [OF subseq_sessions [OF assms]]
      session_channels.sm_start_ok [OF subseq_sessions [OF assms]])
    (simp add: session_channels.losses_fit_def [OF subseq_sessions [OF assms]] subseq_append_right)

lemma drained_fits:
  assumes "fifo_channel ops view" and dr: "drained view s"
  shows "session_channels.losses_fit view (=) s"
proof -
  have "ff_items (view q) = []" if "sm_tasks s c = Some (k, TkLeaving)" "sm_chans s c = Some q" for c k q
  proof -
    have "stopping s c" using that(1) by (simp add: stopping_def)
    then have "emptied view s c" using dr by (simp add: drained_def)
    then show ?thesis using that(2) by (simp add: emptied_def)
  qed
  then show ?thesis unfolding session_channels.losses_fit_def [OF eq_sessions [OF assms(1)]] by auto
qed

lemma sm_runs_exact:
  assumes "fifo_channel ops view" "\<And>c. TaskPoll c True \<notin> set acts"
  shows "sm_ok view (=) (sm_runs ops js qo acts (sm_start n mb))"
proof -
  have "drained view (fst (sm_start n mb))"
    by (simp add: sm_start_def session_manager_new_def drained_def stopping_def)
  from session_channels.runs_drained [OF eq_sessions [OF assms(1)] assms(2)
      session_channels.sm_start_ok [OF eq_sessions [OF assms(1)]] this drained_fits [OF assms(1)]]
  show ?thesis by blast
qed

section \<open>Properties\<close>

text \<open>The messages a session's live channel holds.\<close>

definition queued :: "('q \<Rightarrow> inbound_message fifo) \<Rightarrow> session_key \<Rightarrow> ('q, 'p, 'b, 'ws) session_manager
    \<Rightarrow> inbound_message list \<Rightarrow> bool" where
  "queued view k s ms = ((\<forall>c q. live c k s \<longrightarrow> sm_chans s c = Some q \<longrightarrow> ff_items (view q) = ms)
     \<and> ((\<forall>c. \<not> live c k s) \<longrightarrow> ms = []))"

definition demo_json :: "unit json_ops" where
  "demo_json = \<lparr> jo_show = (\<lambda>_. []), jo_parse = (\<lambda>_. None), jo_empty = (), jo_get_str = (\<lambda>_ _. None) \<rparr>"

definition demo_queues :: "(unit envelope fifo, unit envelope fanout, unit) queue_ops" where
  "demo_queues = \<lparr> qo_p2p = fifo_list_ops, qo_bcast = fanout_log_ops \<rparr>"

definition demo_msg :: "nat \<Rightarrow> inbound_message" where
  "demo_msg n = \<lparr> im_channel = Cli, im_sender_id = ''u'', im_chat_id = ''c'', im_content = replicate n CHR ''x'',
     im_media = None, im_metadata = None, im_timestamp = 0, im_trace_id = None \<rparr>"

definition demo_key :: session_key where "demo_key = message_session_key (demo_msg 0)"

text \<open>A session is started, handles a message and takes two more.\<close>

definition demo_start :: "unit sm_action list" where
  "demo_start = [Dispatch 0 (demo_msg 1) False, PollDispatch 0, PollDispatch 0, TaskPoll 0 False,
     Dispatch 0 (demo_msg 2) False, PollDispatch 0, Dispatch 0 (demo_msg 3) False, PollDispatch 0,
     HandlerReturns 0 0 0 (ReplyContent ''ok''), PollOutput 0 0 0, TaskPoll 0 False]"

definition demo_run ::
  "unit sm_action list \<Rightarrow> (inbound_message fifo, unit envelope fifo, unit envelope fanout, unit) session_manager \<times> sm_history" where
  "demo_run acts = sm_runs fifo_list_ops demo_json demo_queues acts (sm_start 1 memory_broker_default)"

text \<open>C3: whatever dispatchers, session tasks, idle timeouts, garbage collection and shutdown
  do and in whatever order, a session has at most one task that is not done, and its
  messages are taken out in the order in which its channels accepted them, each at most once.\<close>

theorem serial_per_session:
  assumes "fifo_channel ops view" and "sm_runs ops js qo acts (sm_start n mb) = (s, h)"
  shows "(live c k s \<longrightarrow> live c' k s \<longrightarrow> c = c') \<and> subseq (sh_started h k) (sh_accepted h k)"
proof -
  have ok: "sm_ok view subseq (s, h)" using sm_runs_serial [OF assms(1), of js qo acts n mb] assms(2) by simp
  have "subseq (sh_started h k) (sh_accepted h k)"
  proof (cases "\<exists>c. live c k s")
    case True
    then obtain d where d: "live d k s" by blast
    then obtain pc where "sm_tasks s d = Some (k, pc)" by (auto simp: live_def split: option.splits)
    then obtain q where "sm_chans s d = Some q" using chan_of_task [OF ok_chan [OF ok]] by blast
    then obtain pre where "sh_accepted h k = pre @ ff_items (view q)" "subseq (sh_started h k) pre"
      using ok_order [OF ok] d unfolding order_ok_def by blast
    then show ?thesis by (simp add: subseq_append_right)
  next
    case False
    then show ?thesis using ok_order [OF ok] unfolding order_ok_def by blast
  qed
  then show ?thesis using links_unique [OF ok_links [OF ok]] by blast
qed

theorem serial_per_session_witness:
  "subseq (sh_started (snd (demo_run demo_start)) demo_key) (sh_accepted (snd (demo_run demo_start)) demo_key)
    \<and> length (sh_started (snd (demo_run demo_start)) demo_key) = 2"
proof -
  have "subseq (sh_started (snd (demo_run demo_start)) demo_key) (sh_accepted (snd (demo_run demo_start)) demo_key)"
    using serial_per_session [OF fifo_list.fifo_channel_axioms, where js = demo_json and qo = demo_queues
        and acts = demo_start and n = 1 and mb = memory_broker_default and s = "fst (demo_run demo_start)"
        and h = "snd (demo_run demo_start)" and k = demo_key]
    by (simp add: demo_run_def)
  moreover have "length (sh_started (snd (demo_run demo_start)) demo_key) = 2" by code_simp
  ultimately show ?thesis by blast
qed

text \<open>C6: in a run in which no idle timeout fires, every message a session's channel accepted
  was taken out by a task or is still queued for the live task of the session, also across
  shutdown: nothing that was accepted is lost.\<close>

theorem no_loss_without_timeout:
  assumes "fifo_channel ops view" and "\<And>c. TaskPoll c True \<notin> set acts"
    and "sm_runs ops js qo acts (sm_start n mb) = (s, h)"
  shows "\<exists>ms. queued view k s ms \<and> sh_accepted h k = sh_started h k @ ms"
proof -
  have ok: "sm_ok view (=) (s, h)" using sm_runs_exact [OF assms(1,2), of js qo n mb] assms(3) by simp
  show ?thesis
  proof (cases "\<exists>c. live c k s")
    case True
    then obtain d where d: "live d k s" by blast
    then obtain pc where "sm_tasks s d = Some (k, pc)" by (auto simp: live_def split: option.splits)
    then obtain q where q: "sm_chans s d = Some q" using chan_of_task [OF ok_chan [OF ok]] by blast
    then have "sh_accepted h k = sh_started h k @ ff_items (view q)"
      using ok_order [OF ok] d unfolding order_ok_def by blast
    moreover have "queued view k s (ff_items (view q))"
      using d q links_unique [OF ok_links [OF ok] d] unfolding queued_def by (metis option.inject)
    ultimately show ?thesis by blast
  next
    case False
    then have "sh_accepted h k = sh_started h k" using ok_order [OF ok] by (simp add: order_ok_def)
    then show ?thesis using False by (auto simp: queued_def)
  qed
qed

theorem no_loss_without_timeout_witness:
  "\<exists>ms. queued (\<lambda>q. q) demo_key (fst (demo_run demo_start)) ms
    \<and> sh_accepted (snd (demo_run demo_start)) demo_key = sh_started (snd (demo_run demo_start)) demo_key @ ms"
  by (rule no_loss_without_timeout [OF fifo_list.fifo_channel_axioms, where acts = demo_start])
    (simp_all add: demo_run_def demo_start_def)

section \<open>A session that is not taking messages\<close>

definition elsewhere :: "nat \<Rightarrow> ('q, 'p, 'b, 'ws) session_manager \<Rightarrow> ('q, 'p, 'b, 'ws) session_manager \<Rightarrow> bool" where
  "elsewhere c s s1 = (sm_tasks s1 c = sm_tasks s c \<and> sm_chans s1 = sm_chans s \<and> sm_disp s1 = sm_disp s)"

lemma elsewhere_simps [simp]:
  "e \<noteq> c \<Longrightarrow> elsewhere c s (set_task e pc s)" "e \<noteq> c \<Longrightarrow> elsewhere c s (set_task e pc (s \<lparr> sm_broker := mb \<rparr>))"
  "elsewhere c s s" "elsewhere c s (s \<lparr> sm_broker := mb \<rparr>)"
  by (simp_all add: elsewhere_def set_task_def)

lemma elsewhere_output [simp]:
  "e \<noteq> c \<Longrightarrow> elsewhere c s (start_output qo i now e msg after s)"
  "e \<noteq> c \<Longrightarrow> elsewhere c s (start_output qo i now e msg after (s \<lparr> sm_broker := mb \<rparr>))"
  "e \<noteq> c \<Longrightarrow> elsewhere c s (next_command_event qo i now e m evs s)"
  "e \<noteq> c \<Longrightarrow> elsewhere c s (next_command_event qo i now e m evs (s \<lparr> sm_broker := mb \<rparr>))"
  by (auto simp: start_output_def next_command_event_def split: prod.split list.split)

lemma elsewhere_handler [simp]:
  "e \<noteq> c \<Longrightarrow> elsewhere c s (handler_returns js qo i now e m oc s)"
  "e \<noteq> c \<Longrightarrow> elsewhere c s (poll_output qo i now e t env after s)"
  by (auto simp: handler_returns_def poll_output_def split: handler_outcome.split prod.split option.split publish_after.split)

definition stuck ::
  "('q \<Rightarrow> inbound_message fifo) \<Rightarrow> nat \<Rightarrow> session_key \<Rightarrow> inbound_message \<Rightarrow> inbound_message
    \<Rightarrow> ('q, 'p, 'b, 'ws) session_manager \<Rightarrow> bool" where
  "stuck view c k m m0 s = (sm_disp s = [DispFast c k m] \<and> sm_tasks s c = Some (k, TkHandling m0)
     \<and> (case sm_chans s c of None \<Rightarrow> False
        | Some q \<Rightarrow> ff_receivers (view q) \<noteq> 0 \<and> ff_cap (view q) \<le> length (ff_items (view q))))"

lemma stuck_elsewhere: "stuck view c k m m0 s \<Longrightarrow> elsewhere c s s1 \<Longrightarrow> stuck view c k m m0 s1"
  by (simp add: stuck_def elsewhere_def)

locale inbound_channel = fifo_channel ops view
  for ops :: "('q, inbound_message) fifo_ops" and view :: "'q \<Rightarrow> inbound_message fifo"
begin

lemma stuck_poll_send:
  assumes st: "stuck view c k m m0 s" and p: "poll_send ops 0 c m x s = (b, s1)"
  shows "\<not> b \<and> stuck view c k m m0 s1"
proof -
  obtain q where q: "sm_chans s c = Some q" "ff_receivers (view q) \<noteq> 0" "ff_cap (view q) \<le> length (ff_items (view q))"
    using st by (auto simp: stuck_def split: option.splits)
  obtain r q1 where f: "fo_send ops m q = (r, q1)" by fastforce
  have "r = SendFull" using sendD [OF f] q by (auto simp: fifo_send_def)
  then have "view q1 = view q" "\<not> b" "s1 = s \<lparr> sm_chans := (sm_chans s)(c \<mapsto> q1) \<rparr>"
    using send_failed [OF f] p by (auto simp: poll_send_def q(1) f)
  then show ?thesis using st q by (simp add: stuck_def)
qed

lemma stuck_chan:
  assumes "stuck view c k m m0 s" "sm_disp s1 = sm_disp s" "sm_tasks s1 c = sm_tasks s c"
    and "\<And>q. sm_chans s c = Some q \<Longrightarrow> \<exists>q1. sm_chans s1 c = Some q1 \<and> ff_receivers (view q1) = ff_receivers (view q)
        \<and> ff_cap (view q1) = ff_cap (view q) \<and> ff_items (view q1) = ff_items (view q)"
  shows "stuck view c k m m0 s1"
proof -
  obtain q where q: "sm_chans s c = Some q" "ff_receivers (view q) \<noteq> 0" "ff_cap (view q) \<le> length (ff_items (view q))"
    using assms(1) by (auto simp: stuck_def split: option.splits)
  obtain q1 where "sm_chans s1 c = Some q1" "ff_receivers (view q1) = ff_receivers (view q)"
    "ff_cap (view q1) = ff_cap (view q)" "ff_items (view q1) = ff_items (view q)" using assms(4) [OF q(1)] by blast
  then show ?thesis using assms(1-3) q by (simp add: stuck_def)
qed

lemma stuck_recv:
  assumes st: "stuck view c k m m0 s"
  shows "stuck view c k m m0 (fst (act_task_poll ops e x (s, h))) \<and> sh_accepted (snd (act_task_poll ops e x (s, h))) = sh_accepted h"
proof (cases "e = c")
  case True
  then show ?thesis using st by (simp add: act_task_poll_def stuck_def)
next
  case False
  have "stuck view c k m m0 (set_task e pc (s \<lparr> sm_chans := (sm_chans s)(e \<mapsto> q) \<rparr>))"
    "stuck view c k m m0 (s \<lparr> sm_chans := (sm_chans s)(e \<mapsto> q) \<rparr>)" for pc q
    using st False by (simp_all add: stuck_def set_task_def)
  then show ?thesis using st
    by (auto simp: act_task_poll_def task_recv_def note_started_def
        split: option.splits session_pc.splits prod.splits recv_outcome.splits)
qed

lemma stuck_act:
  assumes st: "stuck view c k m m0 s" and a: "\<And>i now oc. a \<noteq> HandlerReturns c i now oc"
  shows "stuck view c k m m0 (fst (sm_act ops js qo a (s, h)))
    \<and> sh_accepted (snd (sm_act ops js qo a (s, h))) = sh_accepted h"
proof -
  have t: "sm_tasks s c = Some (k, TkHandling m0)" using st by (simp add: stuck_def)
  show ?thesis
  proof (cases a)
  case (PollDispatch d)
  obtain b s1 where p: "poll_send ops 0 c m (DispSpawn k m) s = (b, s1)" by fastforce
  have "sm_disp s = [DispFast c k m]" using st by (simp add: stuck_def)
  then show ?thesis using stuck_poll_send [OF st p] st PollDispatch p
    by (cases d) (simp_all add: act_poll_dispatch_def)
next
  case CollectGarbage
  have "stuck view c k m m0 (gc_sessions ops s)"
    by (rule stuck_chan [OF st]) (auto simp: gc_sessions_def fold_on_chan drop_many)
  then show ?thesis using st CollectGarbage by simp
next
  case ShutDown
  then show ?thesis using st by (simp add: shut_down_def stuck_def)
next
  case (Dispatch d m1 b)
  then show ?thesis using st by (cases d) (auto simp: stuck_def)
next
  case (TaskPoll e x)
  then show ?thesis using stuck_recv [OF st] by simp
next
  case (HandlerReturns e i now oc)
  then have "e \<noteq> c" using a by blast
  then show ?thesis using HandlerReturns st stuck_elsewhere [OF st elsewhere_handler(1)]
    by (auto split: option.splits session_pc.splits)
next
  case (TaskExit e)
  have "e \<noteq> c \<Longrightarrow> stuck view c k m m0 (set_task e TkDone (on_chan (fo_drop_rx ops) e s))"
    by (rule stuck_chan [OF st]) (auto simp: set_task_def on_chan_def)
  then show ?thesis using TaskExit st
    by (cases "e = c") (auto simp: t split: option.splits session_pc.splits)
next
  case (StreamEvent e i now ev)
  then show ?thesis using st stuck_elsewhere [OF st elsewhere_output(1)]
    by (cases "e = c") (auto simp: t split: option.splits session_pc.splits)
next
  case (StreamEnd e)
  then show ?thesis using st stuck_elsewhere [OF st elsewhere_simps(1)]
    by (cases "e = c") (auto simp: t split: option.splits session_pc.splits)
next
  case (PollOutput e i now)
  then show ?thesis using st stuck_elsewhere [OF st elsewhere_handler(2)]
    by (cases "e = c") (auto simp: t split: option.splits session_pc.splits)
qed
qed

lemma stuck_runs:
  assumes "stuck view c k m m0 (fst sh)" "\<And>i now oc. HandlerReturns c i now oc \<notin> set acts"
  shows "stuck view c k m m0 (fst (sm_runs ops js qo acts sh))
    \<and> sh_accepted (snd (sm_runs ops js qo acts sh)) = sh_accepted (snd sh)"
  using assms
proof (induction acts arbitrary: sh)
  case (Cons a acts)
  have "stuck view c k m m0 (fst (sm_act ops js qo a sh)) \<and> sh_accepted (snd (sm_act ops js qo a sh)) = sh_accepted (snd sh)"
    using stuck_act [of c k m m0 "fst sh" a js qo "snd sh"] Cons.prems by auto
  then show ?case using Cons by (simp add: sm_runs_def)
qed (simp add: sm_runs_def)

end

interpretation list_inbound: inbound_channel fifo_list_ops "\<lambda>q. q"
  by (simp add: inbound_channel_def fifo_list.fifo_channel_axioms)

text \<open>C12: while the only dispatcher waits to put a message into the full channel of a session whose
  task is inside its handler, no action except the return of that handler lets any channel,
  of this or of any other session, accept a message, and the dispatcher stays where it is,
  so no further inbound message is even offered to try_intercept: a handler that waits
  for the user's reply, with its channel full, waits in vain.\<close>

theorem full_session_stops_dispatch:
  assumes "fifo_channel ops view" and "stuck view c k m m0 s"
    and "\<And>i now oc. HandlerReturns c i now oc \<notin> set acts"
    and "sm_runs ops js qo acts (s, h) = (s1, h1)"
  shows "sm_disp s1 = [DispFast c k m] \<and> sh_accepted h1 = sh_accepted h"
  using inbound_channel.stuck_runs [OF inbound_channel.intro [OF assms(1)], of c k m m0 "(s, h)" acts js qo] assms
  by (simp add: stuck_def)

definition flood :: "unit sm_action list" where
  "flood = [Dispatch 0 (demo_msg 0) False, PollDispatch 0, PollDispatch 0, TaskPoll 0 False]
     @ concat (replicate 32 [Dispatch 0 (demo_msg 0) False, PollDispatch 0]) @ [Dispatch 0 (demo_msg 0) False]"

definition busy_with :: "inbound_message list \<Rightarrow> disp_pc
    \<Rightarrow> (inbound_message fifo, unit envelope fifo, unit envelope fanout, unit) session_manager" where
  "busy_with ms pc = \<lparr> sm_sessions = [(demo_key, 0)],
     sm_chans = [0 \<mapsto> \<lparr> ff_items = ms, ff_cap = 32, ff_senders = (if pc = DispIdle then 1 else Suc 1), ff_receivers = 1 \<rparr>],
     sm_tasks = [0 \<mapsto> (demo_key, TkHandling (demo_msg 0))], sm_disp = [pc], sm_next = 1,
     sm_broker = memory_broker_default \<rparr>"

lemma demo_msg_key [simp]: "message_session_key (demo_msg n) = demo_key"
  by (simp add: demo_key_def demo_msg_def message_session_key_def)

lemmas dispatch_eval = dispatch_to_session_def set_disp_def on_chan_def poll_send_def fifo_list_ops_def fifo_send_def
  act_poll_dispatch_def Let_def

lemma flood_dispatch: "fst (sm_act fifo_list_ops demo_json demo_queues (Dispatch 0 (demo_msg 0) False) (busy_with ms DispIdle, h))
    = busy_with ms (DispFast 0 demo_key (demo_msg 0))"
  by (simp add: busy_with_def dispatch_eval)

lemma flood_poll: "length ms < 32 \<Longrightarrow>
    fst (sm_act fifo_list_ops demo_json demo_queues (PollDispatch 0) (busy_with ms (DispFast 0 demo_key (demo_msg 0)), h))
    = busy_with (ms @ [demo_msg 0]) DispIdle"
  by (simp add: busy_with_def dispatch_eval)

lemma fst_act: "fst (sm_act ops js qo a (s, h)) = s1 \<Longrightarrow> \<exists>h1. sm_act ops js qo a (s, h) = (s1, h1)"
  by (cases "sm_act ops js qo a (s, h)") auto

lemma flood_many: "length ms + n \<le> 32 \<Longrightarrow> \<exists>h1. fold (sm_act fifo_list_ops demo_json demo_queues)
      (concat (replicate n [Dispatch 0 (demo_msg 0) False, PollDispatch 0])) (busy_with ms DispIdle, h)
    = (busy_with (ms @ replicate n (demo_msg 0)) DispIdle, h1)"
proof (induction n arbitrary: ms h)
  case (Suc n)
  obtain h2 where 2: "sm_act fifo_list_ops demo_json demo_queues (Dispatch 0 (demo_msg 0) False) (busy_with ms DispIdle, h)
      = (busy_with ms (DispFast 0 demo_key (demo_msg 0)), h2)"
    using fst_act [OF flood_dispatch] by blast
  obtain h3 where 3: "sm_act fifo_list_ops demo_json demo_queues (PollDispatch 0)
      (busy_with ms (DispFast 0 demo_key (demo_msg 0)), h2) = (busy_with (ms @ [demo_msg 0]) DispIdle, h3)"
    using fst_act [OF flood_poll] Suc.prems by force
  show ?case using Suc.IH [of "ms @ [demo_msg 0]" h3] Suc.prems
    by (simp add: 2 3 del: sm_act.simps)
qed simp

lemma flood_starts: "fst (demo_run [Dispatch 0 (demo_msg 0) False, PollDispatch 0, PollDispatch 0, TaskPoll 0 False])
    = busy_with [] DispIdle"
  by (simp add: demo_run_def sm_runs_def sm_start_def session_manager_new_def dispatch_eval spawn_session_def
      claim_slot_def put_session_def fifo_new_def SESSION_CAPACITY_def act_task_poll_def task_recv_def fifo_recv_def
      set_task_def busy_with_def)

lemma flood_run: "fst (demo_run flood) = busy_with (replicate 32 (demo_msg 0)) (DispFast 0 demo_key (demo_msg 0))"
proof -
  let ?first = "[Dispatch 0 (demo_msg 0) False, PollDispatch 0, PollDispatch 0, TaskPoll 0 False] :: unit sm_action list"
  obtain h1 where h1: "demo_run ?first = (busy_with [] DispIdle, h1)"
    using flood_starts by (cases "demo_run ?first") auto
  obtain h2 where h2: "fold (sm_act fifo_list_ops demo_json demo_queues)
      (concat (replicate 32 [Dispatch 0 (demo_msg 0) False, PollDispatch 0])) (busy_with [] DispIdle, h1)
    = (busy_with (replicate 32 (demo_msg 0)) DispIdle, h2)"
    using flood_many [of "[]" 32 h1] by auto
  have "demo_run flood = sm_act fifo_list_ops demo_json demo_queues (Dispatch 0 (demo_msg 0) False)
      (fold (sm_act fifo_list_ops demo_json demo_queues)
        (concat (replicate 32 [Dispatch 0 (demo_msg 0) False, PollDispatch 0])) (demo_run ?first))"
    by (simp add: demo_run_def sm_runs_def flood_def del: sm_act.simps replicate.simps)
  then show ?thesis by (simp only: h1 h2 flood_dispatch)
qed

lemma flood_stuck: "stuck (\<lambda>q. q) 0 demo_key (demo_msg 0) (demo_msg 0) (fst (demo_run flood))"
  by (simp add: flood_run stuck_def busy_with_def)

theorem full_session_stops_dispatch_witness:
  "sm_disp (fst (sm_runs fifo_list_ops demo_json demo_queues [PollDispatch 0, Dispatch 0 (demo_msg 1) True] (demo_run flood)))
    = [DispFast 0 demo_key (demo_msg 0)]"
proof -
  obtain s h where s: "demo_run flood = (s, h)" by fastforce
  obtain s1 h1 where r: "sm_runs fifo_list_ops demo_json demo_queues [PollDispatch 0, Dispatch 0 (demo_msg 1) True] (s, h) = (s1, h1)"
    by fastforce
  have "stuck (\<lambda>q. q) 0 demo_key (demo_msg 0) (demo_msg 0) s" using flood_stuck by (simp add: s)
  from full_session_stops_dispatch [OF fifo_list.fifo_channel_axioms this _ r] show ?thesis unfolding s r by simp
qed

section \<open>A message lost to the idle timeout\<close>

definition race_acts :: "inbound_message \<Rightarrow> inbound_message \<Rightarrow> 'ws sm_action list" where
  "race_acts m1 m2 = [Dispatch 0 m1 False, PollDispatch 0, PollDispatch 0, TaskPoll 0 False,
     HandlerReturns 0 0 0 HandlerErr, TaskPoll 0 True, Dispatch 0 m2 False, PollDispatch 0, TaskExit 0]"

lemma handler_error [simp]: "handler_returns js qo i now c m HandlerErr s = set_task c TkWaiting s"
  by (simp add: handler_returns_def)



end
