(* ===== verification/Stream_Accumulator.thy ===== *)
theory Stream_Accumulator
  imports Chat_Types
begin

text \<open>
  Reading a provider's stream (engine/src/kernel/stream.rs): tool-call deltas and text
  deltas are accumulated into one response, and each chunk is turned into the events
  shown to the user.  The BTreeMap of partial calls is an association list sorted by
  index.  A stream is the list of its items, errors included, as they arrive.
\<close>

section \<open>Tool calls\<close>

record partial_tool_call =
  pt_id :: string
  pt_name :: string
  pt_arguments :: string

type_synonym tool_acc = "(nat \<times> partial_tool_call) list"

definition partial_new :: partial_tool_call where
  "partial_new = \<lparr> pt_id = [], pt_name = [], pt_arguments = [] \<rparr>"

text \<open>\<open>entry(index).or_insert_with(..)\<close> followed by the update \<open>f\<close>.\<close>

fun acc_entry :: "nat \<Rightarrow> (partial_tool_call \<Rightarrow> partial_tool_call) \<Rightarrow> tool_acc \<Rightarrow> tool_acc" where
  "acc_entry i f [] = [(i, f partial_new)]"
| "acc_entry i f ((j, p) # acc) =
     (if i = j then (j, f p) # acc
      else if i < j then (i, f partial_new) # (j, p) # acc
      else (j, p) # acc_entry i f acc)"

definition feed_partial :: "tool_call_delta \<Rightarrow> partial_tool_call \<Rightarrow> partial_tool_call" where
  "feed_partial d p =
     (let p1 = (case tcd_id d of Some i \<Rightarrow> p \<lparr> pt_id := i \<rparr> | None \<Rightarrow> p);
          p2 = (case tcd_function_name d of Some n \<Rightarrow> p1 \<lparr> pt_name := n \<rparr> | None \<Rightarrow> p1) in
      case tcd_function_arguments d of
        Some a \<Rightarrow> p2 \<lparr> pt_arguments := pt_arguments p2 @ a \<rparr>
      | None \<Rightarrow> p2)"

definition feed_tool :: "tool_acc \<Rightarrow> tool_call_delta \<Rightarrow> tool_acc" where
  "feed_tool acc d = acc_entry (tcd_index d) (feed_partial d) acc"

definition finalize_tools :: "'j json_ops \<Rightarrow> tool_acc \<Rightarrow> 'j tool_call list" where
  "finalize_tools js acc =
     map (\<lambda>(i, p). tool_call_new (pt_id p) (pt_name p) (parse_json_args js (pt_arguments p))) acc"

section \<open>The response\<close>

definition optional_string :: "string \<Rightarrow> string option" where
  "optional_string s = (if s = [] then None else Some s)"

record stream_acc =
  sa_content :: string
  sa_reasoning :: string
  sa_tools :: tool_acc
  sa_usage :: "usage option"

definition stream_acc_new :: stream_acc where
  "stream_acc_new = \<lparr> sa_content = [], sa_reasoning = [], sa_tools = [], sa_usage = None \<rparr>"

definition feed_chunk :: "stream_acc \<Rightarrow> chat_stream_chunk \<Rightarrow> stream_acc" where
  "feed_chunk acc c =
     (let d = csc_delta c;
          a1 = (case csd_content d of Some t \<Rightarrow> if t \<noteq> [] then acc \<lparr> sa_content := sa_content acc @ t \<rparr> else acc
                | None \<Rightarrow> acc);
          a2 = (case csd_reasoning d of Some t \<Rightarrow> if t \<noteq> [] then a1 \<lparr> sa_reasoning := sa_reasoning a1 @ t \<rparr> else a1
                | None \<Rightarrow> a1);
          a3 = a2 \<lparr> sa_tools := foldl feed_tool (sa_tools a2) (csd_tool_calls d) \<rparr> in
      case csc_usage c of Some u \<Rightarrow> a3 \<lparr> sa_usage := Some u \<rparr> | None \<Rightarrow> a3)"

definition finalize_response :: "'j json_ops \<Rightarrow> stream_acc \<Rightarrow> 'j chat_response" where
  "finalize_response js acc = \<lparr> rs_content = optional_string (sa_content acc),
     rs_tool_calls = finalize_tools js (sa_tools acc),
     rs_reasoning = optional_string (sa_reasoning acc), rs_usage = sa_usage acc \<rparr>"

text \<open>The events of one chunk: its text, then its reasoning, if not empty.\<close>

definition chunk_events :: "chat_stream_chunk \<Rightarrow> stream_event list" where
  "chunk_events c =
     (case csd_content (csc_delta c) of
        Some t \<Rightarrow> if t \<noteq> [] then [main_event (ContentEv t)] else [] | None \<Rightarrow> [])
   @ (case csd_reasoning (csc_delta c) of
        Some t \<Rightarrow> if t \<noteq> [] then [main_event (Thinking t)] else [] | None \<Rightarrow> [])"

type_synonym chat_stream = "(provider_error + chat_stream_chunk) list"

text \<open>The producer task: the events it sends when nothing stops it, and the response it
  hands over at the end, or the error it stopped at.\<close>

fun produce :: "'j json_ops \<Rightarrow> chat_stream \<Rightarrow> stream_acc
     \<Rightarrow> stream_event list \<times> (provider_error + 'j chat_response)" where
  "produce js [] acc = ([], Inr (finalize_response js acc))"
| "produce js (Inl e # cs) acc = ([], Inl e)"
| "produce js (Inr c # cs) acc =
     (case produce js cs (feed_chunk acc c) of (es, r) \<Rightarrow> (chunk_events c @ es, r))"

definition stream_events :: "'j json_ops \<Rightarrow> chat_stream
     \<Rightarrow> stream_event list \<times> (provider_error + 'j chat_response)" where
  "stream_events js cs = produce js cs stream_acc_new"

fun collect_from :: "'j json_ops \<Rightarrow> chat_stream \<Rightarrow> stream_acc \<Rightarrow> provider_error + 'j chat_response" where
  "collect_from js [] acc = Inr (finalize_response js acc)"
| "collect_from js (Inl e # cs) acc = Inl e"
| "collect_from js (Inr c # cs) acc = collect_from js cs (feed_chunk acc c)"

definition collect_stream_response :: "'j json_ops \<Rightarrow> chat_stream \<Rightarrow> provider_error + 'j chat_response" where
  "collect_stream_response js cs = collect_from js cs stream_acc_new"

section \<open>Buffered events\<close>

record buffered_events =
  be_messages :: "chat_event list"
  be_completed :: bool

definition buffer_new :: buffered_events where
  "buffer_new = \<lparr> be_messages = [], be_completed = False \<rparr>"

definition buffer_push :: "chat_event \<Rightarrow> buffered_events \<Rightarrow> buffered_events" where
  "buffer_push m b = b \<lparr> be_messages := be_messages b @ [m] \<rparr>"

definition buffer_flush :: "buffered_events \<Rightarrow> chat_event list \<times> buffered_events" where
  "buffer_flush b = (be_messages b, b \<lparr> be_messages := [] \<rparr>)"

definition buffer_clear :: "buffered_events \<Rightarrow> buffered_events" where
  "buffer_clear b = b \<lparr> be_messages := [], be_completed := False \<rparr>"

section \<open>What the accumulated tool calls are\<close>

text \<open>The reference: all deltas of one index, their texts joined, the last identifier and
  the last name given.\<close>

definition deltas_of :: "nat \<Rightarrow> tool_call_delta list \<Rightarrow> tool_call_delta list" where
  "deltas_of i ds = filter (\<lambda>d. tcd_index d = i) ds"

definition last_given :: "('a \<Rightarrow> string option) \<Rightarrow> 'a list \<Rightarrow> string" where
  "last_given f ds = (case rev (List.map_filter f ds) of [] \<Rightarrow> [] | x # _ \<Rightarrow> x)"

definition joined :: "('a \<Rightarrow> string option) \<Rightarrow> 'a list \<Rightarrow> string" where
  "joined f ds = concat (List.map_filter f ds)"

definition partial_of :: "tool_call_delta list \<Rightarrow> partial_tool_call" where
  "partial_of ds = \<lparr> pt_id = last_given tcd_id ds, pt_name = last_given tcd_function_name ds,
     pt_arguments = joined tcd_function_arguments ds \<rparr>"

definition acc_of :: "tool_call_delta list \<Rightarrow> tool_acc" where
  "acc_of ds = map (\<lambda>i. (i, partial_of (deltas_of i ds))) (sorted_list_of_set (tcd_index ` set ds))"

lemma map_filter_snoc:
  "List.map_filter f (xs @ [x]) = List.map_filter f xs @ (case f x of Some y \<Rightarrow> [y] | None \<Rightarrow> [])"
  by (simp add: List.map_filter_def split: option.splits)

lemma partial_of_snoc: "partial_of (ds @ [d]) = feed_partial d (partial_of ds)"
  by (simp add: partial_of_def feed_partial_def last_given_def joined_def map_filter_snoc Let_def
      split: option.splits)

lemma partial_of_Nil: "partial_of [] = partial_new"
  by (simp add: partial_of_def partial_new_def last_given_def joined_def List.map_filter_def)

lemma acc_entry_sorted:
  assumes "sorted_wrt (<) ks" "\<And>j. j \<noteq> i \<Longrightarrow> g' j = g j" "g' i = f (if i \<in> set ks then g i else partial_new)"
  shows "acc_entry i f (map (\<lambda>j. (j, g j)) ks) = map (\<lambda>j. (j, g' j)) (insort_insert i ks)"
  using assms
proof (induction ks)
  case (Cons j js)
  show ?case
  proof (cases "i = j")
    case True
    then have "g x = g' x" if "x \<in> set js" for x
      using Cons.prems(1) Cons.prems(2) [of x] that by force
    then have "map (\<lambda>j. (j, g j)) js = map (\<lambda>j. (j, g' j)) js" by simp
    then show ?thesis using True Cons.prems(3) by (simp add: insort_insert_key_def)
  next
    case False
    show ?thesis
    proof (cases "i < j")
      case True
      then have "i \<notin> set (j # js)" using Cons.prems(1) by auto
      moreover from this have "g x = g' x" if "x \<in> set (j # js)" for x
        using Cons.prems(2) [of x] that by force
      then have "map (\<lambda>j. (j, g j)) (j # js) = map (\<lambda>j. (j, g' j)) (j # js)" by simp
      ultimately show ?thesis using True Cons.prems(3) by (simp add: insort_insert_key_def)
    next
      case False
      then have "j < i" using \<open>i \<noteq> j\<close> by simp
      moreover have "acc_entry i f (map (\<lambda>j. (j, g j)) js) = map (\<lambda>j. (j, g' j)) (insort_insert i js)"
        using Cons \<open>i \<noteq> j\<close> by simp
      ultimately show ?thesis
        using Cons.prems(2) \<open>i \<noteq> j\<close> by (simp add: insort_insert_key_def split: if_splits)
    qed
  qed
qed (simp add: insort_insert_key_def)

lemma insort_insert_set:
  fixes A :: "'a :: linorder set"
  assumes "finite A"
  shows "insort_insert i (sorted_list_of_set A) = sorted_list_of_set (insert i A)"
proof (cases "i \<in> A")
  case True
  then have "insert i A = A" by auto
  then show ?thesis using True assms by (simp only: insort_insert_key_def) simp
next
  case False
  then show ?thesis using assms by (simp add: insort_insert_key_def)
qed

lemma acc_of_snoc: "feed_tool (acc_of ds) d = acc_of (ds @ [d])"
proof -
  let ?i = "tcd_index d" and ?is = "sorted_list_of_set (tcd_index ` set ds)"
  have "deltas_of ?i ds = []" if "?i \<notin> set ?is"
    using that by (auto simp: deltas_of_def filter_empty_conv image_iff)
  then have "partial_of (deltas_of ?i (ds @ [d]))
      = feed_partial d (if ?i \<in> set ?is then partial_of (deltas_of ?i ds) else partial_new)"
    by (simp add: deltas_of_def partial_of_snoc [symmetric] partial_of_Nil [symmetric])
  then have "acc_entry ?i (feed_partial d) (map (\<lambda>i. (i, partial_of (deltas_of i ds))) ?is)
      = map (\<lambda>i. (i, partial_of (deltas_of i (ds @ [d])))) (insort_insert ?i ?is)"
    by (intro acc_entry_sorted) (auto simp: deltas_of_def)
  then show ?thesis by (simp add: feed_tool_def acc_of_def insort_insert_set)
qed

lemma acc_of_fold: "foldl feed_tool (acc_of ds) es = acc_of (ds @ es)"
  by (induction es arbitrary: ds) (simp_all add: acc_of_snoc)

lemma joined_simps [simp]:
  "joined f [] = []" "joined f (xs @ ys) = joined f xs @ joined f ys"
  "joined f (x # xs) = (case f x of Some t \<Rightarrow> t | None \<Rightarrow> []) @ joined f xs"
  by (simp_all add: joined_def List.map_filter_def split: option.splits)

text \<open>The state of the accumulator after a list of chunks.\<close>

definition chunk_content :: "chat_stream_chunk \<Rightarrow> string option" where
  "chunk_content c = csd_content (csc_delta c)"

definition chunk_reasoning :: "chat_stream_chunk \<Rightarrow> string option" where
  "chunk_reasoning c = csd_reasoning (csc_delta c)"

definition all_deltas :: "chat_stream_chunk list \<Rightarrow> tool_call_delta list" where
  "all_deltas cs = concat (map (csd_tool_calls \<circ> csc_delta) cs)"

definition last_usage :: "chat_stream_chunk list \<Rightarrow> usage option" where
  "last_usage cs = (case rev (List.map_filter csc_usage cs) of [] \<Rightarrow> None | u # _ \<Rightarrow> Some u)"

definition acc_after :: "chat_stream_chunk list \<Rightarrow> stream_acc" where
  "acc_after cs = \<lparr> sa_content = joined chunk_content cs, sa_reasoning = joined chunk_reasoning cs,
     sa_tools = acc_of (all_deltas cs), sa_usage = last_usage cs \<rparr>"

lemma acc_after_Nil: "acc_after [] = stream_acc_new"
  by (simp add: acc_after_def stream_acc_new_def all_deltas_def acc_of_def last_usage_def List.map_filter_def)

lemma acc_after_snoc: "feed_chunk (acc_after cs) c = acc_after (cs @ [c])"
  by (auto simp: feed_chunk_def acc_after_def Let_def chunk_content_def chunk_reasoning_def acc_of_fold
      all_deltas_def last_usage_def map_filter_snoc split: option.splits)

lemma collect_after: "collect_from js (map Inr cs) (acc_after pre) = Inr (finalize_response js (acc_after (pre @ cs)))"
  by (induction cs arbitrary: pre) (simp_all add: acc_after_snoc)

lemma produce_collect: "snd (produce js cs acc) = collect_from js cs acc"
  by (induction js cs acc rule: produce.induct) (auto split: prod.splits)

text \<open>The text a user sees streamed.\<close>

fun content_text :: "chat_event \<Rightarrow> string option" where
  "content_text (ContentEv t) = Some t"
| "content_text _ = None"

fun thinking_text :: "chat_event \<Rightarrow> string option" where
  "thinking_text (Thinking t) = Some t"
| "thinking_text _ = None"

lemma chunk_events_text:
  "joined (content_text \<circ> se_event) (chunk_events c) = (case chunk_content c of Some t \<Rightarrow> t | None \<Rightarrow> [])"
  "joined (thinking_text \<circ> se_event) (chunk_events c) = (case chunk_reasoning c of Some t \<Rightarrow> t | None \<Rightarrow> [])"
  by (auto simp: chunk_events_def main_event_def chunk_content_def chunk_reasoning_def split: option.splits)

lemma produce_text:
  "joined (content_text \<circ> se_event) (fst (produce js (map Inr cs) acc)) = joined chunk_content cs"
  "joined (thinking_text \<circ> se_event) (fst (produce js (map Inr cs) acc)) = joined chunk_reasoning cs"
  by (induction cs arbitrary: acc) (auto simp: chunk_events_text split: prod.splits, (metis fst_conv)+)

text \<open>However a provider cuts its answer into chunks, the response is the same and is
  what was streamed.  If no item of the stream is an error, the response's tool calls are
  one per index, in index order, with the last identifier and name given for the index
  and the parsed concatenation of its argument fragments; the text and the reasoning shown
  to the user as events are exactly the response's.\<close>

theorem stream_events_spec:
  "case stream_events js (map Inr cs) of (es, res) \<Rightarrow>
     res = Inr \<lparr> rs_content = optional_string (joined (content_text \<circ> se_event) es),
       rs_tool_calls = map (\<lambda>i. let ds = deltas_of i (all_deltas cs) in
           tool_call_new (last_given tcd_id ds) (last_given tcd_function_name ds)
             (parse_json_args js (joined tcd_function_arguments ds)))
         (sorted_list_of_set (tcd_index ` set (all_deltas cs))),
       rs_reasoning = optional_string (joined (thinking_text \<circ> se_event) es),
       rs_usage = last_usage cs \<rparr>"
proof -
  obtain es res where p: "produce js (map Inr cs) (acc_after []) = (es, res)" by fastforce
  have "res = Inr (finalize_response js (acc_after cs))"
    using produce_collect [of js "map Inr cs" "acc_after []"] collect_after [of js cs "[]"] p by simp
  moreover have "joined (content_text \<circ> se_event) es = joined chunk_content cs"
    "joined (thinking_text \<circ> se_event) es = joined chunk_reasoning cs"
    using produce_text [of js cs "acc_after []"] p by simp_all
  ultimately show ?thesis
    using p by (simp add: stream_events_def acc_after_Nil [symmetric])
      (simp add: finalize_response_def acc_after_def finalize_tools_def acc_of_def partial_of_def comp_def Let_def)
qed

section \<open>A whole response as one chunk\<close>

lemma enumerate_delta_indices: "map tcd_index (map (delta_of_call js) (List.enumerate n tcs)) = [n..<n + length tcs]"
  by (induction tcs arbitrary: n) (simp_all add: delta_of_call_def upt_rec)

lemma acc_of_distinct:
  assumes "sorted_wrt (<) (map tcd_index ds)"
  shows "acc_of ds = map (\<lambda>d. (tcd_index d, partial_of [d])) ds"
proof -
  have d: "distinct (map tcd_index ds)" using assms strict_sorted_iff by blast
  have "deltas_of (tcd_index d) ds = [d]" if "d \<in> set ds" for d
    using d that by (induction ds) (auto simp: deltas_of_def filter_empty_conv image_iff)
  moreover have "sorted_list_of_set (tcd_index ` set ds) = map tcd_index ds"
    using assms by (metis list.set_map strict_sorted_equal strict_sorted_list_of_set finite_set set_sorted_list_of_set)
  ultimately show ?thesis by (simp add: acc_of_def)
qed

lemma partial_of_delta:
  "partial_of [delta_of_call js (i, tc)] = \<lparr> pt_id = tc_id tc, pt_name = fc_name (tc_function tc),
     pt_arguments = jo_show js (fc_arguments (tc_function tc)) \<rparr>"
  by (simp add: partial_of_def delta_of_call_def last_given_def joined_def List.map_filter_def)

lemma tcd_index_delta: "tcd_index (delta_of_call js p) = fst p"
  by (cases p) (simp add: delta_of_call_def)

text \<open>The default streaming of a provider without streaming loses nothing.  Wrapping a
  complete response into one chunk and reading that stream gives the response back, if
  serde_json parses what it prints, the calls are function calls and no text is empty
  (an empty text becomes an absent one).\<close>

theorem response_chunk_roundtrip:
  assumes "\<And>a. jo_parse js (jo_show js a) = Some a"
    and "rs_content r \<noteq> Some []" "rs_reasoning r \<noteq> Some []"
    and "\<forall>tc \<in> set (rs_tool_calls r). tc_type tc = ''function''"
  shows "collect_stream_response js [Inr (chunk_from_response js r)] = Inr r"
proof -
  let ?c = "chunk_from_response js r"
  let ?ds = "map (delta_of_call js) (List.enumerate 0 (rs_tool_calls r))"
  have "sorted_wrt (<) (map tcd_index ?ds)"
    by (simp only: enumerate_delta_indices) simp
  then have acc: "acc_of ?ds = map (\<lambda>d. (tcd_index d, partial_of [d])) ?ds" by (rule acc_of_distinct)
  have "finalize_tools js (acc_of ?ds)
      = map (\<lambda>tc. tool_call_new (tc_id tc) (fc_name (tc_function tc)) (fc_arguments (tc_function tc)))
          (map snd (List.enumerate 0 (rs_tool_calls r)))"
    unfolding acc finalize_tools_def map_map
    by (rule map_cong [OF refl]) (auto simp: partial_of_delta parse_json_args_def assms(1) tcd_index_delta)
  also have "\<dots> = rs_tool_calls r"
    using assms(4) by (auto simp: tool_call_new_def intro!: map_idI)
  finally have "finalize_tools js (acc_of ?ds) = rs_tool_calls r" .
  moreover have "optional_string (case rs_content r of Some t \<Rightarrow> t | None \<Rightarrow> []) = rs_content r"
    "optional_string (case rs_reasoning r of Some t \<Rightarrow> t | None \<Rightarrow> []) = rs_reasoning r"
    using assms(2,3) by (auto simp: optional_string_def split: option.splits)
  moreover have "last_usage [?c] = rs_usage r"
    by (simp add: last_usage_def chunk_from_response_def List.map_filter_def split: option.splits)
  ultimately have "finalize_response js (acc_after [?c]) = r"
    by (simp add: finalize_response_def acc_after_def all_deltas_def chunk_content_def chunk_reasoning_def
        chunk_from_response_def)
  then show ?thesis
    using collect_after [of js "[?c]" "[]"] by (simp add: collect_stream_response_def acc_after_Nil)
qed

text \<open>A JSON of strings, for examples.\<close>

definition string_json :: "string json_ops" where
  "string_json = \<lparr> jo_show = \<lambda>s. s, jo_parse = Some, jo_empty = [], jo_get_str = \<lambda>s k. None \<rparr>"

theorem response_chunk_roundtrip_witness:
  "collect_stream_response string_json [Inr (chunk_from_response string_json
      \<lparr> rs_content = Some ''hi'', rs_tool_calls = [tool_call_new ''1'' ''ls'' ''x'', tool_call_new ''2'' ''cat'' ''y''],
        rs_reasoning = None, rs_usage = None \<rparr>)]
    = Inr \<lparr> rs_content = Some ''hi'', rs_tool_calls = [tool_call_new ''1'' ''ls'' ''x'', tool_call_new ''2'' ''cat'' ''y''],
        rs_reasoning = None, rs_usage = None \<rparr>"
  by (rule response_chunk_roundtrip) (auto simp: string_json_def tool_call_new_def)

end
