(* ===== verification/Tool_Registry.thy ===== *)
theory Tool_Registry
  imports Chat_Types "HOL-Library.AList"
begin

text \<open>
  Tools, their metadata and context (types/src/tool.rs, types/src/agent.rs) and the
  registry that runs them behind the user's approval (engine/src/tools/registry.rs).
  What a tool, an approval callback or a UUID source does to the outside is a function
  on a state of the world \<open>'w\<close>; shared handles (channels, spawner, callbacks) are opaque
  values of type \<open>'h\<close>.  An awaited operation returns \<open>None\<close> when it is still pending at the
  caller's timeout.  The HashMap is an association list in its iteration order.
\<close>

section \<open>Tools\<close>

datatype tool_error =
    InvalidArguments string
  | ExecutionError string
  | ToolPermissionDenied string
  | ToolNotFound string

fun tool_error_to_str :: "tool_error \<Rightarrow> string" where
  "tool_error_to_str (InvalidArguments s) = ''Invalid arguments: '' @ s"
| "tool_error_to_str (ExecutionError s) = ''Execution error: '' @ s"
| "tool_error_to_str (ToolPermissionDenied s) = ''Permission denied: '' @ s"
| "tool_error_to_str (ToolNotFound s) = ''Not found: '' @ s"

datatype agent_role = Orchestrator | Worker

definition can_spawn :: "agent_role \<Rightarrow> bool" where
  "can_spawn r = (r = Orchestrator)"

record 'h session_refs =
  sr_session_key :: "session_key option"
  sr_outbound_tx :: "'h option"
  sr_spawner :: "'h option"
  sr_token_tracker :: "'h option"
  sr_aggregator_cancel :: "'h option"
  sr_pending_asks :: "'h option"
  sr_synthesis_callback :: "'h option"

record 'h tool_context =
  tx_session_key :: session_key
  tx_outbound_tx :: 'h
  tx_spawner :: "'h option"
  tx_token_tracker :: 'h
  tx_ws_summary_limit :: u64
  tx_plugin_timeout_secs :: u64
  tx_synthesis_callback :: "'h option"
  tx_aggregator_cancel :: "'h option"
  tx_pending_asks :: "'h option"

text \<open>\<open>tx\<close>, \<open>tracker\<close>: the fresh channel and the unlimited tracker of the default.\<close>

definition default_tool_context :: "'h \<Rightarrow> 'h \<Rightarrow> 'h tool_context" where
  "default_tool_context tx tracker = \<lparr> tx_session_key = session_key_new Cli ''default'',
     tx_outbound_tx = tx, tx_spawner = None, tx_token_tracker = tracker, tx_ws_summary_limit = 0,
     tx_plugin_timeout_secs = 120, tx_synthesis_callback = None, tx_aggregator_cancel = None,
     tx_pending_asks = None \<rparr>"

definition apply_session_refs :: "'h session_refs \<Rightarrow> 'h tool_context \<Rightarrow> 'h tool_context" where
  "apply_session_refs refs ctx =
     (let c1 = (case sr_session_key refs of Some k \<Rightarrow> ctx \<lparr> tx_session_key := k \<rparr> | None \<Rightarrow> ctx);
          c2 = (case sr_outbound_tx refs of Some h \<Rightarrow> c1 \<lparr> tx_outbound_tx := h \<rparr> | None \<Rightarrow> c1);
          c3 = (case sr_spawner refs of Some h \<Rightarrow> c2 \<lparr> tx_spawner := Some h \<rparr> | None \<Rightarrow> c2);
          c4 = (case sr_token_tracker refs of Some h \<Rightarrow> c3 \<lparr> tx_token_tracker := h \<rparr> | None \<Rightarrow> c3);
          c5 = (case sr_aggregator_cancel refs of Some h \<Rightarrow> c4 \<lparr> tx_aggregator_cancel := Some h \<rparr> | None \<Rightarrow> c4);
          c6 = (case sr_pending_asks refs of Some h \<Rightarrow> c5 \<lparr> tx_pending_asks := Some h \<rparr> | None \<Rightarrow> c5) in
      case sr_synthesis_callback refs of Some h \<Rightarrow> c6 \<lparr> tx_synthesis_callback := Some h \<rparr> | None \<Rightarrow> c6)"

record ('j, 'h, 'w) tool =
  tl_name :: string
  tl_description :: string
  tl_parameters :: 'j
  tl_execute :: "'j \<Rightarrow> 'h tool_context \<Rightarrow> 'w \<Rightarrow> (tool_error + string) option \<times> 'w"

record tool_metadata =
  tm_display_name :: string
  tm_category :: string
  tm_tags :: "string list"
  tm_requires_approval :: bool
  tm_is_mutating :: bool

record tool_approval_request =
  ta_id :: string
  ta_tool_name :: string
  ta_description :: string
  ta_arguments :: string

type_synonym 'w approval_callback =
  "session_key \<Rightarrow> tool_approval_request \<Rightarrow> 'w \<Rightarrow> (string + bool) option \<times> 'w"

section \<open>The registry\<close>

record ('j, 'h, 'w) registered_tool =
  rt_tool :: "('j, 'h, 'w) tool"
  rt_metadata :: "tool_metadata option"

record ('j, 'h, 'w) tool_registry =
  tr_items :: "(string \<times> ('j, 'h, 'w) registered_tool) list"
  tr_approval_callback :: "'w approval_callback option"

definition registry_new :: "('j, 'h, 'w) tool_registry" where
  "registry_new = \<lparr> tr_items = [], tr_approval_callback = None \<rparr>"

definition with_approval_callback ::
  "'w approval_callback \<Rightarrow> ('j, 'h, 'w) tool_registry \<Rightarrow> ('j, 'h, 'w) tool_registry" where
  "with_approval_callback cb reg = reg \<lparr> tr_approval_callback := Some cb \<rparr>"

definition register_tool ::
  "('j, 'h, 'w) tool \<Rightarrow> ('j, 'h, 'w) tool_registry \<Rightarrow> ('j, 'h, 'w) tool_registry" where
  "register_tool t reg = reg \<lparr> tr_items :=
     AList.update (tl_name t) \<lparr> rt_tool = t, rt_metadata = None \<rparr> (tr_items reg) \<rparr>"

definition register_with_metadata ::
  "('j, 'h, 'w) tool \<Rightarrow> tool_metadata \<Rightarrow> ('j, 'h, 'w) tool_registry \<Rightarrow> ('j, 'h, 'w) tool_registry" where
  "register_with_metadata t meta reg = reg \<lparr> tr_items :=
     AList.update (tl_name t) \<lparr> rt_tool = t, rt_metadata = Some meta \<rparr> (tr_items reg) \<rparr>"

definition registry_get :: "('j, 'h, 'w) tool_registry \<Rightarrow> string \<Rightarrow> ('j, 'h, 'w) tool option" where
  "registry_get reg name = map_option rt_tool (map_of (tr_items reg) name)"

definition definition_of :: "('j, 'h, 'w) registered_tool \<Rightarrow> 'j tool_definition" where
  "definition_of e = tool_definition_function (tl_name (rt_tool e)) (tl_description (rt_tool e))
     (tl_parameters (rt_tool e))"

definition get_definitions :: "('j, 'h, 'w) tool_registry \<Rightarrow> 'j tool_definition list" where
  "get_definitions reg = map (definition_of \<circ> snd) (tr_items reg)"

definition get_definitions_filtered ::
  "string list option \<Rightarrow> ('j, 'h, 'w) tool_registry \<Rightarrow> 'j tool_definition list" where
  "get_definitions_filtered f reg =
     map (definition_of \<circ> snd)
       (filter (\<lambda>(name, _). case f of None \<Rightarrow> True | Some allowed \<Rightarrow> name \<in> set allowed) (tr_items reg))"

definition approval_request_of ::
  "'j json_ops \<Rightarrow> string \<Rightarrow> string \<Rightarrow> tool_metadata \<Rightarrow> 'j \<Rightarrow> tool_approval_request" where
  "approval_request_of js i name meta args = \<lparr> ta_id = i, ta_tool_name = name,
     ta_description = (if tm_display_name meta = []
       then ''Execute tool '' @ [CHR 0x27] @ name @ [CHR 0x27] else tm_display_name meta),
     ta_arguments = jo_show js args \<rparr>"

text \<open>\<open>new_id\<close>: a fresh UUID as text.  The approval step of execute: \<open>None\<close> while the user has
  not answered, \<open>Some (Inr ())\<close> to go on.\<close>

definition approval_step ::
  "'j json_ops \<Rightarrow> ('w \<Rightarrow> string \<times> 'w) \<Rightarrow> ('j, 'h, 'w) tool_registry \<Rightarrow> ('j, 'h, 'w) registered_tool
   \<Rightarrow> string \<Rightarrow> 'j \<Rightarrow> 'h tool_context \<Rightarrow> 'w \<Rightarrow> (tool_error + unit) option \<times> 'w" where
  "approval_step js new_id reg entry name args ctx w =
     (case rt_metadata entry of
        None \<Rightarrow> (Some (Inr ()), w)
      | Some meta \<Rightarrow>
          if \<not> tm_requires_approval meta then (Some (Inr ()), w)
          else (case tr_approval_callback reg of
                  None \<Rightarrow> (Some (Inr ()), w)
                | Some cb \<Rightarrow>
                    (case new_id w of
                       (i, w1) \<Rightarrow>
                         (case cb (tx_session_key ctx) (approval_request_of js i name meta args) w1 of
                            (None, w2) \<Rightarrow> (None, w2)
                          | (Some (Inr True), w2) \<Rightarrow> (Some (Inr ()), w2)
                          | (Some (Inr False), w2) \<Rightarrow>
                              (Some (Inl (ToolPermissionDenied (''User denied execution of tool ''
                                 @ [CHR 0x27] @ name @ [CHR 0x27]))), w2)
                          | (Some (Inl e), w2) \<Rightarrow>
                              (Some (Inl (ToolPermissionDenied (''Approval check failed for tool ''
                                 @ [CHR 0x27] @ name @ [CHR 0x27] @ '': '' @ e))), w2)))))"

definition registry_execute ::
  "'j json_ops \<Rightarrow> ('w \<Rightarrow> string \<times> 'w) \<Rightarrow> ('j, 'h, 'w) tool_registry
   \<Rightarrow> string \<Rightarrow> 'j \<Rightarrow> 'h tool_context \<Rightarrow> 'w \<Rightarrow> (tool_error + string) option \<times> 'w" where
  "registry_execute js new_id reg name args ctx w =
     (case map_of (tr_items reg) name of
        None \<Rightarrow> (Some (Inl (ToolNotFound (''Tool not found: '' @ name))), w)
      | Some entry \<Rightarrow>
          (case approval_step js new_id reg entry name args ctx w of
             (None, w1) \<Rightarrow> (None, w1)
           | (Some (Inl e), w1) \<Rightarrow> (Some (Inl e), w1)
           | (Some (Inr _), w1) \<Rightarrow> tl_execute (rt_tool entry) args ctx w1))"

definition registry_list :: "('j, 'h, 'w) tool_registry \<Rightarrow> string list" where
  "registry_list reg = map fst (tr_items reg)"

section \<open>Approval gates the tool\<close>

text \<open>The registry with the code of one tool exchanged.\<close>

definition exchange_code ::
  "string \<Rightarrow> ('j \<Rightarrow> 'h tool_context \<Rightarrow> 'w \<Rightarrow> (tool_error + string) option \<times> 'w)
   \<Rightarrow> ('j, 'h, 'w) tool_registry \<Rightarrow> ('j, 'h, 'w) tool_registry" where
  "exchange_code name f reg = reg \<lparr> tr_items := map (\<lambda>(n, e).
     (n, if n = name then e \<lparr> rt_tool := (rt_tool e) \<lparr> tl_execute := f \<rparr> \<rparr> else e)) (tr_items reg) \<rparr>"

lemma map_of_exchange:
  "map_of (tr_items (exchange_code name f reg)) name =
     map_option (\<lambda>e. e \<lparr> rt_tool := (rt_tool e) \<lparr> tl_execute := f \<rparr> \<rparr>) (map_of (tr_items reg) name)"
proof -
  have "map_of (map (\<lambda>(n, e). (n, if n = name then g e else e)) xs) name = map_option g (map_of xs name)"
    for xs and g :: "('a, 'b, 'c) registered_tool \<Rightarrow> ('a, 'b, 'c) registered_tool"
    by (induction xs) auto
  then show ?thesis by (simp add: exchange_code_def)
qed

lemma approval_step_entry:
  "rt_metadata e = rt_metadata e' \<Longrightarrow> tr_approval_callback reg = tr_approval_callback reg' \<Longrightarrow>
     approval_step js new_id reg e = approval_step js new_id reg' e'"
  by (simp add: approval_step_def fun_eq_iff cong: option.case_cong if_cong)

lemma approval_step_go:
  "fst (approval_step js new_id reg entry name args ctx w) = Some (Inr u) \<longleftrightarrow>
     (case (rt_metadata entry, tr_approval_callback reg) of
        (Some meta, Some cb) \<Rightarrow> tm_requires_approval meta \<longrightarrow>
          fst (cb (tx_session_key ctx) (approval_request_of js (fst (new_id w)) name meta args)
                 (snd (new_id w))) = Some (Inr True)
      | _ \<Rightarrow> True)"
  by (auto simp: approval_step_def split: option.splits sum.splits prod.splits bool.splits)

lemma registry_execute_refused:
  assumes "map_of (tr_items reg) name = Some entry"
    and "\<And>u. fst (approval_step js new_id reg entry name args ctx w) \<noteq> Some (Inr u)"
  shows "registry_execute js new_id reg name args ctx w =
    (case approval_step js new_id reg entry name args ctx w of
       (Some (Inl e), w1) \<Rightarrow> (Some (Inl e), w1) | (_, w1) \<Rightarrow> (None, w1))"
  using assms by (auto simp: registry_execute_def split: prod.splits option.splits sum.splits)

text \<open>C9: a tool that requires approval runs only after the user has said yes.  If exchanging
  the code of a registered tool that requires approval changes the outcome of a call, then
  no approval callback is configured, or the callback was asked about exactly this tool
  with these arguments in the caller's session and answered yes.\<close>

theorem approval_gates_tool:
  assumes "map_of (tr_items reg) name = Some entry" "rt_metadata entry = Some meta" "tm_requires_approval meta"
    and "registry_execute js new_id (exchange_code name f reg) name args ctx w
      \<noteq> registry_execute js new_id (exchange_code name g reg) name args ctx w"
  shows "tr_approval_callback reg = None
    \<or> (\<exists>cb. tr_approval_callback reg = Some cb
        \<and> fst (cb (tx_session_key ctx) (approval_request_of js (fst (new_id w)) name meta args)
               (snd (new_id w))) = Some (Inr True))"
proof (rule ccontr)
  assume no: "\<not> ?thesis"
  let ?e = "\<lambda>h. entry \<lparr> rt_tool := (rt_tool entry) \<lparr> tl_execute := h \<rparr> \<rparr>"
  have step: "approval_step js new_id (exchange_code name h reg) (?e h) = approval_step js new_id reg entry" for h
    by (rule approval_step_entry) (simp_all add: exchange_code_def)
  have "fst (approval_step js new_id reg entry name args ctx w) \<noteq> Some (Inr u)" for u
    using no assms(2,3) by (auto simp: approval_step_go)
  then have "registry_execute js new_id (exchange_code name h reg) name args ctx w =
    (case approval_step js new_id reg entry name args ctx w of
       (Some (Inl e), w1) \<Rightarrow> (Some (Inl e), w1) | (_, w1) \<Rightarrow> (None, w1))" for h
    using registry_execute_refused [of "exchange_code name h reg" name "?e h" js new_id args ctx w]
    by (simp add: map_of_exchange assms(1) step)
  then show False using assms(4) by simp
qed

definition demo_tool :: "(string, unit, nat) tool" where
  "demo_tool = \<lparr> tl_name = ''rm'', tl_description = ''remove'', tl_parameters = [],
     tl_execute = \<lambda>a c w. (Some (Inr ''removed''), w + 1) \<rparr>"

definition demo_meta :: tool_metadata where
  "demo_meta = \<lparr> tm_display_name = [], tm_category = ''fs'', tm_tags = [],
     tm_requires_approval = True, tm_is_mutating = True \<rparr>"

definition demo_registry :: "(string, unit, nat) tool_registry" where
  "demo_registry = with_approval_callback (\<lambda>s r w. (Some (Inr True), w))
     (register_with_metadata demo_tool demo_meta registry_new)"

definition demo_json :: "string json_ops" where
  "demo_json = \<lparr> jo_show = \<lambda>s. s, jo_parse = Some, jo_empty = [], jo_get_str = \<lambda>s k. None \<rparr>"

theorem approval_gates_tool_witness:
  "tr_approval_callback demo_registry = None
    \<or> (\<exists>cb. tr_approval_callback demo_registry = Some cb
        \<and> fst (cb (tx_session_key (default_tool_context () ()))
               (approval_request_of demo_json (fst (''1'', 0 :: nat)) ''rm'' demo_meta ''x'') (snd (''1'', 0)))
            = Some (Inr True))"
  by (rule approval_gates_tool [where new_id = "\<lambda>w. (''1'', w)" and f = "\<lambda>a c w. (None, w)"
        and g = "\<lambda>a c w. (Some (Inr []), w)" and entry = "\<lparr> rt_tool = demo_tool, rt_metadata = Some demo_meta \<rparr>"])
    (simp_all add: demo_registry_def with_approval_callback_def register_with_metadata_def registry_new_def
      demo_tool_def demo_meta_def registry_execute_def exchange_code_def approval_step_def)

section \<open>What the model is shown\<close>

text \<open>Registries as the code builds them.\<close>

datatype ('j, 'h, 'w) registration =
    Plain "('j, 'h, 'w) tool"
  | Described "('j, 'h, 'w) tool" tool_metadata

fun register :: "('j, 'h, 'w) registration \<Rightarrow> ('j, 'h, 'w) tool_registry \<Rightarrow> ('j, 'h, 'w) tool_registry" where
  "register (Plain t) reg = register_tool t reg"
| "register (Described t meta) reg = register_with_metadata t meta reg"

fun registered_name :: "('j, 'h, 'w) registration \<Rightarrow> string" where
  "registered_name (Plain t) = tl_name t"
| "registered_name (Described t meta) = tl_name t"

fun registered_entry :: "('j, 'h, 'w) registration \<Rightarrow> ('j, 'h, 'w) registered_tool" where
  "registered_entry (Plain t) = \<lparr> rt_tool = t, rt_metadata = None \<rparr>"
| "registered_entry (Described t meta) = \<lparr> rt_tool = t, rt_metadata = Some meta \<rparr>"

lemma register_update:
  "tr_items (register x reg) = AList.update (registered_name x) (registered_entry x) (tr_items reg)"
  by (cases x) (simp_all add: register_tool_def register_with_metadata_def)

definition registry_inv :: "('j, 'h, 'w) tool_registry \<Rightarrow> bool" where
  "registry_inv reg = (distinct (map fst (tr_items reg))
     \<and> (\<forall>n e. map_of (tr_items reg) n = Some e \<longrightarrow> tl_name (rt_tool e) = n))"

lemma registered_entry_name: "tl_name (rt_tool (registered_entry x)) = registered_name x"
  by (cases x) simp_all

lemma register_inv: "registry_inv reg \<Longrightarrow> registry_inv (register x reg)"
  by (auto simp: registry_inv_def register_update distinct_update update_conv' registered_entry_name
      split: if_splits)

lemma registry_inv_new: "registry_inv registry_new"
  by (simp add: registry_inv_def registry_new_def)

lemma register_all_inv: "registry_inv reg \<Longrightarrow> registry_inv (fold register xs reg)"
  by (induction xs arbitrary: reg) (simp_all add: register_inv)

lemma register_all_names:
  "fst ` set (tr_items (fold register xs reg)) = fst ` set (tr_items reg) \<union> registered_name ` set xs"
  by (induction xs arbitrary: reg) (auto simp: register_update dom_update)

lemma filtered_names:
  assumes "registry_inv reg"
  shows "map td_name (get_definitions_filtered f reg)
    = filter (\<lambda>n. case f of None \<Rightarrow> True | Some allowed \<Rightarrow> n \<in> set allowed) (map fst (tr_items reg))"
proof -
  have "tl_name (rt_tool e) = n" if "(n, e) \<in> set (tr_items reg)" for n e
    using assms that by (auto simp: registry_inv_def)
  then have "map (\<lambda>p. tl_name (rt_tool (snd p))) (filter P (tr_items reg)) = map fst (filter P (tr_items reg))" for P
    by (auto intro!: map_cong)
  note named = this
  have eq: "(\<lambda>x. case f of None \<Rightarrow> True | Some allowed \<Rightarrow> fst x \<in> set allowed)
      = (\<lambda>(n, _). case f of None \<Rightarrow> True | Some allowed \<Rightarrow> n \<in> set allowed)"
    by (auto simp: fun_eq_iff split: option.splits)
  show ?thesis
    by (simp only: get_definitions_filtered_def definition_of_def tool_definition_function_def
        filter_map map_map comp_def tool_definition.simps) (simp only: named eq)
qed

text \<open>The model is shown each permitted tool once.  In every registry built by
  registrations, the definitions offered under an allow list are, by name, exactly the
  registered tools on the list, without duplicates; no list means all, an empty list none.\<close>

theorem definitions_filtered_spec:
  "distinct (map td_name (get_definitions_filtered f (fold register xs registry_new)))
   \<and> td_name ` set (get_definitions_filtered f (fold register xs registry_new))
     = (case f of None \<Rightarrow> registered_name ` set xs
        | Some allowed \<Rightarrow> registered_name ` set xs \<inter> set allowed)"
proof -
  let ?reg = "fold register xs registry_new"
  have inv: "registry_inv ?reg" by (simp add: register_all_inv registry_inv_new)
  note names = filtered_names [OF inv, of f]
  have "distinct (map fst (tr_items ?reg))" using inv by (simp add: registry_inv_def)
  then have "distinct (map td_name (get_definitions_filtered f ?reg))" by (simp add: names)
  moreover have "set (map td_name (get_definitions_filtered f ?reg))
      = (case f of None \<Rightarrow> registered_name ` set xs | Some allowed \<Rightarrow> registered_name ` set xs \<inter> set allowed)"
    using register_all_names [of xs registry_new]
    by (auto simp only: names) (auto simp: registry_new_def split: option.splits)
  ultimately show ?thesis by simp
qed

end
