(* ===== verification/Kernel.thy ===== *)
theory Kernel
  imports Stream_Accumulator Tool_Registry
begin

text \<open>
  The agent kernel (engine/src/kernel/): request building and retries, one tool call, one
  step (a model call and the tool calls it asks for) and the loop of steps.  The
  provider, the tools and the checkpoint callback act on a world \<open>'w\<close> that is threaded in
  program order.  The events go to a sink that may close after some number of them.
  Concurrent tool calls follow a schedule, the order in which they start and finish;
  the effects of a call happen when it finishes.
\<close>

section \<open>Configuration, errors, context\<close>

datatype kernel_error =
    ProviderFailed string
  | MaxIterations u32
  | ToolExecutionFailed string
  | StepTimeout u64

record kernel_config =
  kc_model :: string
  kc_max_iterations :: u32
  kc_max_retries :: u32
  kc_temperature :: u32
  kc_max_tokens :: u32
  kc_max_tool_result_chars :: u64
  kc_thinking_enabled :: bool
  kc_tool_timeout_secs :: u64
  kc_plugin_timeout_secs :: u64
  kc_ws_summary_limit :: u64
  kc_tool_filter :: "string list option"

text \<open>The temperature 1.0 as an f32 bit pattern.\<close>

definition kernel_config_new :: "string \<Rightarrow> kernel_config" where
  "kernel_config_new model = \<lparr> kc_model = model, kc_max_iterations = 100, kc_max_retries = 3,
     kc_temperature = 0x3F800000, kc_max_tokens = 65536, kc_max_tool_result_chars = 16000,
     kc_thinking_enabled = False, kc_tool_timeout_secs = 120, kc_plugin_timeout_secs = 120,
     kc_ws_summary_limit = 0, kc_tool_filter = None \<rparr>"

definition MAX_STREAM_CHUNKS :: nat where
  "MAX_STREAM_CHUNKS = 100000"

definition TOOL_CONCURRENCY :: nat where
  "TOOL_CONCURRENCY = 5"

text \<open>A provider's stream: its items, and whether the step's time budget is over after some
  number of forwarded events, before it ends.\<close>

record llm_stream =
  ls_items :: chat_stream
  ls_elapsed :: "nat option"

record ('j, 'w) checkpoint_callback =
  cb_get :: "nat \<Rightarrow> 'w \<Rightarrow> string option \<times> 'w"
  cb_save_ask :: "'j chat_message list \<Rightarrow> string \<Rightarrow> 'w \<Rightarrow> 'w"

record ('j, 'h, 'w) runtime_context =
  rc_chat_stream :: "'j chat_request \<Rightarrow> 'w \<Rightarrow> (provider_error + llm_stream) \<times> 'w"
  rc_tools :: "('j, 'h, 'w) tool_registry"
  rc_config :: kernel_config
  rc_role :: agent_role
  rc_checkpoint :: "('j, 'w) checkpoint_callback option"
  rc_refs :: "'h session_refs"

datatype sched_act = StartCall nat | FinishCall nat

record ('j, 'h, 'w) kernel_env =
  ke_json :: "'j json_ops"
  ke_new_id :: "'w \<Rightarrow> string \<times> 'w"
  ke_default_tx :: 'h
  ke_default_tracker :: 'h
  ke_schedule :: "'w \<Rightarrow> nat \<Rightarrow> sched_act list"
  ke_count_tokens :: "string \<Rightarrow> nat"

definition empty_refs :: "'h session_refs" where
  "empty_refs = \<lparr> sr_session_key = None, sr_outbound_tx = None, sr_spawner = None, sr_token_tracker = None,
     sr_aggregator_cancel = None, sr_pending_asks = None, sr_synthesis_callback = None \<rparr>"

definition runtime_context_new where
  "runtime_context_new chat tools cfg role = \<lparr> rc_chat_stream = chat, rc_tools = tools, rc_config = cfg,
     rc_role = role, rc_checkpoint = None, rc_refs = empty_refs \<rparr>"

definition build_tool_context ::
  "('j, 'h, 'w) kernel_env \<Rightarrow> ('j, 'h, 'w) runtime_context \<Rightarrow> 'h tool_context" where
  "build_tool_context env ctx = apply_session_refs (rc_refs ctx)
     ((default_tool_context (ke_default_tx env) (ke_default_tracker env))
        \<lparr> tx_ws_summary_limit := kc_ws_summary_limit (rc_config ctx),
          tx_plugin_timeout_secs := kc_plugin_timeout_secs (rc_config ctx) \<rparr>)"

section \<open>Events\<close>

record event_sink =
  es_sent :: "stream_event list"
  es_open :: "nat option"

definition send_event :: "stream_event \<Rightarrow> event_sink \<Rightarrow> bool \<times> event_sink" where
  "send_event e k = (case es_open k of
      None \<Rightarrow> (True, k \<lparr> es_sent := es_sent k @ [e] \<rparr>)
    | Some 0 \<Rightarrow> (False, k)
    | Some (Suc n) \<Rightarrow> (True, k \<lparr> es_sent := es_sent k @ [e], es_open := Some n \<rparr>))"

section \<open>Token ledger\<close>

type_synonym token_ledger = "token_usage option"

definition ledger_new :: token_ledger where
  "ledger_new = None"

definition accumulate :: "token_usage \<Rightarrow> token_ledger \<Rightarrow> token_ledger" where
  "accumulate u l = (case l of
      Some acc \<Rightarrow> Some \<lparr> tu_input = tu_input acc + tu_input u, tu_output = tu_output acc + tu_output u,
        tu_total = tu_total acc + tu_total u \<rparr>
    | None \<Rightarrow> Some u)"

section \<open>Requests\<close>

definition build_chat_request ::
  "('j, 'h, 'w) runtime_context \<Rightarrow> 'j chat_message list \<Rightarrow> 'j chat_request" where
  "build_chat_request ctx msgs =
     (let cfg = rc_config ctx in
      \<lparr> cr_model = kc_model cfg, cr_messages = msgs,
        cr_tools = Some (get_definitions_filtered (kc_tool_filter cfg) (rc_tools ctx)),
        cr_temperature = Some (kc_temperature cfg), cr_max_tokens = Some (kc_max_tokens cfg),
        cr_thinking = (if kc_thinking_enabled cfg then Some thinking_enabled else None) \<rparr>)"

definition backoff_secs :: "nat \<Rightarrow> nat" where
  "backoff_secs retries = min (2 ^ min retries 63) 15"

text \<open>The result, the waits between the attempts, the world.\<close>

function send_retrying ::
  "('j chat_request \<Rightarrow> 'w \<Rightarrow> (provider_error + llm_stream) \<times> 'w) \<Rightarrow> 'j chat_request \<Rightarrow> nat \<Rightarrow> nat \<Rightarrow> 'w
   \<Rightarrow> (provider_error + llm_stream) \<times> nat list \<times> 'w" where
  "send_retrying chat req max_retries retries w =
     (case chat req w of
        (Inr s, w1) \<Rightarrow> (Inr s, [], w1)
      | (Inl e, w1) \<Rightarrow>
          if \<not> provider_is_retryable e then (Inl e, [], w1)
          else if retries \<ge> max_retries then (Inl e, [], w1)
          else (case send_retrying chat req max_retries (Suc retries) w1 of
                  (res, waits, w2) \<Rightarrow> (res, backoff_secs (Suc retries) # waits, w2)))"
  by pat_completeness auto
termination
  by (relation "measure (\<lambda>(chat, req, max_retries, retries, w). max_retries - retries)") auto

declare send_retrying.simps [simp del]

definition send_with_retry ::
  "('j, 'h, 'w) runtime_context \<Rightarrow> 'j chat_request \<Rightarrow> 'w
   \<Rightarrow> (provider_error + llm_stream) \<times> nat list \<times> 'w" where
  "send_with_retry ctx req w =
     send_retrying (rc_chat_stream ctx) req (unat (kc_max_retries (rc_config ctx))) 0 w"

section \<open>One tool call\<close>

record tool_call_result =
  tcr_id :: string
  tcr_name :: string
  tcr_output :: string

definition truncate_for_display :: "string \<Rightarrow> nat \<Rightarrow> string" where
  "truncate_for_display s max_len =
     (if char_count s \<le> max_len then s
      else take (char_start s max_len) s @ ''... ('' @ show_nat (char_count s) @ '' chars total, truncated)'')"

definition truncate_result :: "nat \<Rightarrow> string \<Rightarrow> string" where
  "truncate_result limit s =
     (if limit > 0 \<and> length s > limit
      then take (floor_char_boundary s limit) s @ [NL, NL] @ ''[OUTPUT TRUNCATED: original ''
           @ show_nat (length s) @ '' chars exceeded limit of '' @ show_nat limit @ '' chars]''
      else s)"

definition execute_one ::
  "('j, 'h, 'w) kernel_env \<Rightarrow> ('j, 'h, 'w) runtime_context \<Rightarrow> 'j tool_call \<Rightarrow> 'h tool_context \<Rightarrow> 'w
   \<Rightarrow> tool_call_result \<times> 'w" where
  "execute_one env ctx tc tctx w =
     (case registry_execute (ke_json env) (ke_new_id env) (rc_tools ctx) (fc_name (tc_function tc))
             (fc_arguments (tc_function tc)) tctx w of
        (r, w1) \<Rightarrow>
          (let s = (case r of
                      None \<Rightarrow> ''Error: Tool execution timed out after ''
                        @ show_nat (unat (kc_tool_timeout_secs (rc_config ctx))) @ ''s''
                    | Some (Inl e) \<Rightarrow> ''Error: '' @ tool_error_to_str e
                    | Some (Inr out) \<Rightarrow> out)
           in (\<lparr> tcr_id = tc_id tc, tcr_name = fc_name (tc_function tc),
                 tcr_output = truncate_result (unat (kc_max_tool_result_chars (rc_config ctx))) s \<rparr>, w1)))"

section \<open>The tool calls of one response\<close>

text \<open>\<open>buffer_unordered(TOOL_CONCURRENCY)\<close>: calls start in order, at most five run at a time, and
  finish in any order.\<close>

fun valid_from :: "nat \<Rightarrow> nat \<Rightarrow> nat list \<Rightarrow> sched_act list \<Rightarrow> bool" where
  "valid_from n nxt running [] = (nxt = n \<and> running = [])"
| "valid_from n nxt running (StartCall i # acts) =
     (i = nxt \<and> i < n \<and> length running < TOOL_CONCURRENCY \<and> valid_from n (Suc nxt) (running @ [i]) acts)"
| "valid_from n nxt running (FinishCall i # acts) =
     (i \<in> set running \<and> valid_from n nxt (remove1 i running) acts)"

definition valid_schedule :: "nat \<Rightarrow> sched_act list \<Rightarrow> bool" where
  "valid_schedule n acts = valid_from n 0 [] acts"

type_synonym 'w call_state = "event_sink \<times> 'w \<times> (nat \<times> tool_call_result) list"

fun run_act ::
  "('j, 'h, 'w) kernel_env \<Rightarrow> ('j, 'h, 'w) runtime_context \<Rightarrow> 'j tool_call list \<Rightarrow> 'h tool_context
   \<Rightarrow> 'w call_state \<Rightarrow> sched_act \<Rightarrow> 'w call_state" where
  "run_act env ctx calls tctx (k, w, rs) (StartCall i) =
     (let tc = calls ! i in
      (snd (send_event (main_event (ToolStart (fc_name (tc_function tc))
         (Some (truncate_for_display (jo_show (ke_json env) (fc_arguments (tc_function tc))) 100)))) k), w, rs))"
| "run_act env ctx calls tctx (k, w, rs) (FinishCall i) =
     (case execute_one env ctx (calls ! i) tctx w of
        (r, w1) \<Rightarrow>
          (let limit = unat (kc_max_tool_result_chars (rc_config ctx));
               display = (if limit > 0 \<and> length (tcr_output r) > limit
                          then truncate_for_display (tcr_output r) limit else tcr_output r)
           in (snd (send_event (main_event (ToolEnd (tcr_name r) (Some display))) k), w1, rs @ [(i, r)])))"

record ('j, 'w) kernel_state =
  ks_messages :: "'j chat_message list"
  ks_ledger :: token_ledger
  ks_sink :: event_sink
  ks_world :: 'w

text \<open>The checkpoint written before an \<open>ask_user\<close> call blocks: for the first such call, if its
  arguments hold a prompt and a callback is there.\<close>

definition save_ask ::
  "('j, 'h, 'w) kernel_env \<Rightarrow> ('j, 'h, 'w) runtime_context \<Rightarrow> 'j tool_call list \<Rightarrow> 'j chat_message list \<Rightarrow> 'w \<Rightarrow> 'w" where
  "save_ask env ctx calls msgs w =
     (case find (\<lambda>tc. fc_name (tc_function tc) = ''ask_user'') calls of
        None \<Rightarrow> w
      | Some tc \<Rightarrow>
          (case (rc_checkpoint ctx, jo_get_str (ke_json env) (fc_arguments (tc_function tc)) ''prompt'') of
             (Some cb, Some prompt) \<Rightarrow> cb_save_ask cb msgs prompt w
           | _ \<Rightarrow> w))"

definition handle_tool_calls ::
  "('j, 'h, 'w) kernel_env \<Rightarrow> ('j, 'h, 'w) runtime_context \<Rightarrow> 'j chat_response \<Rightarrow> ('j, 'w) kernel_state
   \<Rightarrow> tool_call_result list \<times> ('j, 'w) kernel_state" where
  "handle_tool_calls env ctx r st =
     (let calls = rs_tool_calls r;
          msgs = ks_messages st @ [msg_assistant_with_tools (rs_content r) calls (rs_reasoning r)];
          w1 = save_ask env ctx calls msgs (ks_world st) in
      case foldl (run_act env ctx calls (build_tool_context env ctx)) (ks_sink st, w1, [])
             (ke_schedule env w1 (length calls)) of
        (k, w2, rs) \<Rightarrow>
          (let results = map snd (sort_key fst rs) in
           (results, st \<lparr> ks_sink := k, ks_world := w2,
              ks_messages := msgs @ map (\<lambda>x. msg_tool_result (tcr_id x) (tcr_name x) (tcr_output x)) results \<rparr>)))"

section \<open>One step\<close>

text \<open>Forwarding events: how many were taken from the producer, and the sink.\<close>

fun forward :: "nat \<Rightarrow> stream_event list \<Rightarrow> event_sink \<Rightarrow> nat \<times> event_sink" where
  "forward limit [] k = (0, k)"
| "forward 0 (e # es) k = (0, k)"
| "forward (Suc limit) (e # es) k =
     (case send_event e k of
        (True, k1) \<Rightarrow> (case forward limit es k1 of (n, k2) \<Rightarrow> (Suc n, k2))
      | (False, k1) \<Rightarrow> (1, k1))"

text \<open>The channel between the producer task and the forwarding loop holds 32 events; when the
  loop has stopped early the channel stays open, and a producer with more to send than
  it holds waits until the step's time budget is over.\<close>

definition STREAM_BUFFER :: nat where
  "STREAM_BUFFER = 32"

definition get_response ::
  "('j, 'h, 'w) kernel_env \<Rightarrow> llm_stream \<Rightarrow> event_sink \<Rightarrow> token_ledger
   \<Rightarrow> (kernel_error + 'j chat_response) option \<times> event_sink \<times> token_ledger" where
  "get_response env ls k ledger =
     (case stream_events (ke_json env) (ls_items ls) of
        (es, res) \<Rightarrow>
          (case ls_elapsed ls of
             Some n \<Rightarrow> (None, snd (forward (min n MAX_STREAM_CHUNKS) es k), ledger)
           | None \<Rightarrow>
               (case forward MAX_STREAM_CHUNKS es k of
                  (n, k1) \<Rightarrow>
                    if length es - n > STREAM_BUFFER then (None, k1, ledger)
                    else (case res of
                            Inl e \<Rightarrow> (Some (Inl (ProviderFailed (provider_error_to_str e))), k1, ledger)
                          | Inr r \<Rightarrow> (Some (Inr r), k1,
                              (case rs_usage r of
                                 Some u \<Rightarrow> accumulate (token_usage_new (us_input_tokens u) (us_output_tokens u)) ledger
                               | None \<Rightarrow> ledger))))))"

record 'j step_result =
  st_response :: "'j chat_response"
  st_tool_results :: "tool_call_result list"
  st_should_continue :: bool

definition saturating_mul :: "u64 \<Rightarrow> u64 \<Rightarrow> u64" where
  "saturating_mul a b = (if unat a * unat b < 2 ^ 64 then a * b else - 1)"

definition step_budget_secs :: "kernel_config \<Rightarrow> u64" where
  "step_budget_secs cfg = max (saturating_mul (kc_tool_timeout_secs cfg) 2) 60"

definition inject_checkpoint ::
  "('j, 'h, 'w) runtime_context \<Rightarrow> ('j, 'w) kernel_state \<Rightarrow> ('j, 'w) kernel_state" where
  "inject_checkpoint ctx st =
     (case rc_checkpoint ctx of
        None \<Rightarrow> st
      | Some cb \<Rightarrow>
          (case cb_get cb (length (ks_messages st)) (ks_world st) of
             (None, w) \<Rightarrow> st \<lparr> ks_world := w \<rparr>
           | (Some summary, w) \<Rightarrow> st \<lparr> ks_world := w,
               ks_messages := ks_messages st @ [msg_system (''[Working Memory] '' @ summary)] \<rparr>))"

definition kernel_step ::
  "('j, 'h, 'w) kernel_env \<Rightarrow> ('j, 'h, 'w) runtime_context \<Rightarrow> ('j, 'w) kernel_state
   \<Rightarrow> (kernel_error + 'j step_result) \<times> ('j, 'w) kernel_state" where
  "kernel_step env ctx st =
     (let st1 = inject_checkpoint ctx st in
      case send_with_retry ctx (build_chat_request ctx (ks_messages st1)) (ks_world st1) of
        (Inl e, _, w) \<Rightarrow> (Inl (ProviderFailed (provider_error_to_str e)), st1 \<lparr> ks_world := w \<rparr>)
      | (Inr ls, _, w) \<Rightarrow>
          (case get_response env ls (ks_sink st1) (ks_ledger st1) of
             (res, k, ledger) \<Rightarrow>
               (let st2 = st1 \<lparr> ks_world := w, ks_sink := k, ks_ledger := ledger \<rparr> in
                case res of
                  None \<Rightarrow> (Inl (StepTimeout (step_budget_secs (rc_config ctx))), st2)
                | Some (Inl e) \<Rightarrow> (Inl e, st2)
                | Some (Inr r) \<Rightarrow>
                    if \<not> has_tool_calls r
                    then (Inr \<lparr> st_response = r, st_tool_results = [], st_should_continue = False \<rparr>,
                          (case rs_content r of
                             Some c \<Rightarrow> st2 \<lparr> ks_messages := ks_messages st2
                                 @ [msg_assistant_with_tools (Some c) [] (rs_reasoning r)] \<rparr>
                           | None \<Rightarrow> st2))
                    else (case handle_tool_calls env ctx r st2 of
                            (results, st3) \<Rightarrow>
                              (Inr \<lparr> st_response = r, st_tool_results = results, st_should_continue = True \<rparr>, st3)))))"

section \<open>The loop\<close>

definition DEFAULT_NO_RESPONSE :: string where
  "DEFAULT_NO_RESPONSE = ''I'' @ [CHR 0x27] @ ''ve completed processing but have no response to give.''"

record kernel_result =
  kr_content :: string
  kr_reasoning :: "string option"
  kr_tools_used :: "string list"
  kr_token_usage :: "token_usage option"

definition estimated_usage :: "(string \<Rightarrow> nat) \<Rightarrow> 'j chat_message list \<Rightarrow> string \<Rightarrow> token_usage" where
  "estimated_usage count msgs content =
     (let o' = of_nat (count content);
          i = sum_list (map (of_nat \<circ> count) (List.map_filter cm_content msgs))
      in \<lparr> tu_input = i, tu_output = o', tu_total = i + o' \<rparr>)"

definition to_result ::
  "(string \<Rightarrow> nat) \<Rightarrow> 'j chat_message list \<Rightarrow> string list \<Rightarrow> string \<Rightarrow> string option \<Rightarrow> token_ledger
   \<Rightarrow> kernel_result" where
  "to_result count msgs used content reasoning ledger = \<lparr> kr_content = content, kr_reasoning = reasoning,
     kr_tools_used = used,
     kr_token_usage = (case ledger of Some u \<Rightarrow> Some u | None \<Rightarrow> Some (estimated_usage count msgs content)) \<rparr>"

definition send_done :: "('j, 'w) kernel_state \<Rightarrow> ('j, 'w) kernel_state" where
  "send_done st = st \<lparr> ks_sink := snd (send_event (main_event Done) (ks_sink st)) \<rparr>"

fun loop_from ::
  "('j, 'h, 'w) kernel_env \<Rightarrow> ('j, 'h, 'w) runtime_context \<Rightarrow> nat \<Rightarrow> string list \<Rightarrow> ('j, 'w) kernel_state
   \<Rightarrow> (kernel_error + kernel_result) \<times> ('j, 'w) kernel_state" where
  "loop_from env ctx 0 used st =
     (Inl (MaxIterations (kc_max_iterations (rc_config ctx))), send_done st)"
| "loop_from env ctx (Suc n) used st =
     (case kernel_step env ctx st of
        (Inl e, st1) \<Rightarrow> (Inl e, st1)
      | (Inr r, st1) \<Rightarrow>
          (let used1 = used @ map tcr_name (st_tool_results r) in
           if \<not> st_should_continue r
           then (let content = (case rs_content (st_response r) of Some c \<Rightarrow> c | None \<Rightarrow> DEFAULT_NO_RESPONSE);
                     st2 = send_done st1
                 in (Inr (to_result (ke_count_tokens env) (ks_messages st2) used1 content
                           (rs_reasoning (st_response r)) (ks_ledger st2)), st2))
           else loop_from env ctx n used1 st1))"

definition run_loop ::
  "('j, 'h, 'w) kernel_env \<Rightarrow> ('j, 'h, 'w) runtime_context \<Rightarrow> 'j chat_message list \<Rightarrow> event_sink \<Rightarrow> 'w
   \<Rightarrow> (kernel_error + kernel_result) \<times> ('j, 'w) kernel_state" where
  "run_loop env ctx msgs k w =
     loop_from env ctx (unat (kc_max_iterations (rc_config ctx))) []
       \<lparr> ks_messages = msgs, ks_ledger = ledger_new, ks_sink = k, ks_world = w \<rparr>"

end
