(* ===== verification/Event_Store.thy ===== *)
theory Event_Store
  imports Chat_Types "HOL-Library.List_Lexorder"
begin

text \<open>
  The event log of the sessions (types/src/session_event.rs, storage/src/event_store.rs).
  The SQLite tables sessions_v2 and session_events are lists of rows in insertion order;
  each definition is the meaning of the SQL text the function runs, with the primary
  keys the migrations declare.  A transaction that the database refuses (\<open>io = Some e\<close>)
  leaves the tables unchanged.  The serde_json, uuid and RFC 3339 codecs are the
  parameter record \<open>codec\<close>; \<open>count_tokens\<close> is the tokenizer's.
\<close>

section \<open>Events\<close>

datatype summary_type = TimeWindow u32 | Topic string | Compression u64

datatype 'j event_type =
    UserMessage
  | AssistantMessage
  | ToolCallEv string 'j
  | ToolResultEv string string bool
  | SummaryEv summary_type "uuid list"

fun is_summary :: "'j event_type \<Rightarrow> bool" where
  "is_summary (SummaryEv t ids) = True"
| "is_summary _ = False"

fun event_role_str :: "'j event_type \<Rightarrow> string" where
  "event_role_str UserMessage = ''user''"
| "event_role_str AssistantMessage = ''assistant''"
| "event_role_str (ToolCallEv n a) = ''tool''"
| "event_role_str (ToolResultEv i n e) = ''tool''"
| "event_role_str (SummaryEv t ids) = ''system''"

text \<open>The derived \<open>Debug\<close> text of a summary type.\<close>

fun summary_type_debug :: "summary_type \<Rightarrow> string" where
  "summary_type_debug (TimeWindow h) = ''TimeWindow { duration_hours: '' @ show_word h @ '' }''"
| "summary_type_debug (Topic t) = ''Topic { topic: '' @ [CHR 0x22] @ t @ [CHR 0x22] @ '' }''"
| "summary_type_debug (Compression b) = ''Compression { token_budget: '' @ show_word b @ '' }''"

fun event_type_display :: "'j event_type \<Rightarrow> string" where
  "event_type_display UserMessage = ''User''"
| "event_type_display AssistantMessage = ''Assistant''"
| "event_type_display (ToolCallEv n a) = ''Tool('' @ n @ '')''"
| "event_type_display (ToolResultEv i n e) = ''ToolResult('' @ n @ '')''"
| "event_type_display (SummaryEv t ids) = ''Summary('' @ summary_type_debug t @ '')''"

fun event_type_tag :: "'j event_type \<Rightarrow> string" where
  "event_type_tag UserMessage = ''user_message''"
| "event_type_tag AssistantMessage = ''assistant_message''"
| "event_type_tag (ToolCallEv n a) = ''tool_call''"
| "event_type_tag (ToolResultEv i n e) = ''tool_result''"
| "event_type_tag (SummaryEv t ids) = ''summary''"

record 'j event_metadata =
  em_tools_used :: "string list"
  em_token_usage :: "token_usage option"
  em_content_token_len :: nat
  em_extra :: "(string \<times> 'j) list"

definition default_metadata :: "'j event_metadata" where
  "default_metadata = \<lparr> em_tools_used = [], em_token_usage = None, em_content_token_len = 0, em_extra = [] \<rparr>"

record 'j session_event =
  se_id :: uuid
  se_session_key :: string
  se_event_type :: "'j event_type"
  se_content :: string
  se_metadata :: "'j event_metadata"
  se_created_at :: time
  se_sequence :: int

section \<open>Rows\<close>

datatype store_error =
    DatabaseErr string
  | SerializationErr string
  | InvalidUuid string
  | InvalidEventType string

definition store_error_to_str :: "store_error \<Rightarrow> string" where
  "store_error_to_str e = (case e of
       DatabaseErr s \<Rightarrow> ''Database error: '' @ s
     | SerializationErr s \<Rightarrow> ''Serialization error: '' @ s
     | InvalidUuid s \<Rightarrow> ''Invalid UUID: '' @ s
     | InvalidEventType s \<Rightarrow> ''Invalid event type: '' @ s)"

record 'j codec =
  cd_uuid_show :: "uuid \<Rightarrow> string"
  cd_uuid_parse :: "string \<Rightarrow> uuid option"
  cd_type_show :: "'j event_type \<Rightarrow> string"
  cd_type_parse :: "string \<Rightarrow> string + 'j event_type"
  cd_tools_show :: "string list \<Rightarrow> string"
  cd_tools_parse :: "string \<Rightarrow> string + string list"
  cd_usage_show :: "token_usage \<Rightarrow> string"
  cd_usage_parse :: "string \<Rightarrow> string + token_usage"
  cd_extra_show :: "(string \<times> 'j) list \<Rightarrow> string"
  cd_extra_parse :: "string \<Rightarrow> string + (string \<times> 'j) list"
  cd_time_show :: "time \<Rightarrow> string"
  cd_time_parse :: "string \<Rightarrow> time option"

record event_row =
  er_id :: string
  er_session_key :: string
  er_channel :: string
  er_chat_id :: string
  er_event_type :: string
  er_content :: string
  er_tools_used :: string
  er_token_usage :: "string option"
  er_token_len :: nat
  er_event_data :: "string option"
  er_extra :: string
  er_created_at :: string
  er_sequence :: int

record session_row =
  sv_key :: string
  sv_channel :: string
  sv_chat_id :: string
  sv_created_at :: string
  sv_updated_at :: string
  sv_total_events :: int

record event_db =
  db_sessions :: "session_row list"
  db_events :: "event_row list"

definition serde :: "string + 'a \<Rightarrow> store_error + 'a" where
  "serde r = (case r of Inl e \<Rightarrow> Inl (SerializationErr e) | Inr x \<Rightarrow> Inr x)"

text \<open>\<open>TryFrom<EventRow> for SessionEvent\<close>; \<open>now\<close> replaces an unreadable timestamp.\<close>

definition row_event_type :: "'j codec \<Rightarrow> event_row \<Rightarrow> store_error + 'j event_type" where
  "row_event_type cd row =
     (if er_event_type row = ''user_message'' then Inr UserMessage
      else if er_event_type row = ''assistant_message'' then Inr AssistantMessage
      else if er_event_type row \<in> {''tool_call'', ''tool_result'', ''summary''}
      then serde (cd_type_parse cd (case er_event_data row of Some d \<Rightarrow> d | None \<Rightarrow> [CHR 0x22, CHR 0x22]))
      else Inl (InvalidEventType (er_event_type row)))"

definition event_of_row :: "'j codec \<Rightarrow> time \<Rightarrow> event_row \<Rightarrow> store_error + 'j session_event" where
  "event_of_row cd now row =
     bind_res (row_event_type cd row) (\<lambda>ty.
     bind_res (serde (cd_tools_parse cd (er_tools_used row))) (\<lambda>tools.
     bind_res (case er_token_usage row of None \<Rightarrow> Inr None
               | Some u \<Rightarrow> bind_res (serde (cd_usage_parse cd u)) (\<lambda>x. Inr (Some x))) (\<lambda>usg.
     bind_res (serde (cd_extra_parse cd (er_extra row))) (\<lambda>extra.
     let key = (if er_channel row \<noteq> [] \<and> er_chat_id row \<noteq> []
                then er_channel row @ '':'' @ er_chat_id row else er_session_key row) in
     case cd_uuid_parse cd (er_id row) of
       None \<Rightarrow> Inl (InvalidUuid (er_id row))
     | Some i \<Rightarrow> Inr \<lparr> se_id = i, se_session_key = key, se_event_type = ty, se_content = er_content row,
         se_metadata = \<lparr> em_tools_used = tools, em_token_usage = usg,
           em_content_token_len = er_token_len row, em_extra = extra \<rparr>,
         se_created_at = (case cd_time_parse cd (er_created_at row) of Some t \<Rightarrow> t | None \<Rightarrow> now),
         se_sequence = er_sequence row \<rparr>))))"

definition events_of_rows :: "'j codec \<Rightarrow> time \<Rightarrow> event_row list \<Rightarrow> store_error + 'j session_event list" where
  "events_of_rows cd now rows = collect_res (map (event_of_row cd now) rows)"

section \<open>Append\<close>

definition parse_session_key_str :: "string \<Rightarrow> string \<times> string" where
  "parse_session_key_str s =
     (let k = (case session_key_parse s of Some k \<Rightarrow> k | None \<Rightarrow> session_key_new Cli s) in
      (channel_as_str (sk_channel k), sk_chat_id k))"

definition in_session :: "string \<Rightarrow> string \<Rightarrow> event_row \<Rightarrow> bool" where
  "in_session channel chat_id r = (er_channel r = channel \<and> er_chat_id r = chat_id)"

definition session_matches :: "string \<Rightarrow> string \<Rightarrow> session_row \<Rightarrow> bool" where
  "session_matches channel chat_id s = (sv_channel s = channel \<and> sv_chat_id s = chat_id)"

text \<open>\<open>INSERT OR IGNORE INTO sessions_v2\<close> (primary key \<open>key\<close>).\<close>

definition insert_session :: "string \<Rightarrow> string \<Rightarrow> string \<Rightarrow> string \<Rightarrow> session_row list \<Rightarrow> session_row list" where
  "insert_session key channel chat_id now ss =
     (if \<exists>s \<in> set ss. sv_key s = key then ss
      else ss @ [\<lparr> sv_key = key, sv_channel = channel, sv_chat_id = chat_id,
                   sv_created_at = now, sv_updated_at = now, sv_total_events = 0 \<rparr>])"

definition next_sequence :: "string \<Rightarrow> string \<Rightarrow> session_row list \<Rightarrow> int" where
  "next_sequence channel chat_id ss = (case find (session_matches channel chat_id) ss of
       Some s \<Rightarrow> sv_total_events s
     | None \<Rightarrow> 0)"

definition bump_session :: "string \<Rightarrow> string \<Rightarrow> string \<Rightarrow> session_row list \<Rightarrow> session_row list" where
  "bump_session channel chat_id now ss = map (\<lambda>s. if session_matches channel chat_id s
     then s \<lparr> sv_updated_at := now, sv_total_events := sv_total_events s + 1 \<rparr> else s) ss"

definition row_of_event ::
  "'j codec \<Rightarrow> (string \<Rightarrow> nat) \<Rightarrow> 'j session_event \<Rightarrow> string \<Rightarrow> string \<Rightarrow> int \<Rightarrow> event_row" where
  "row_of_event cd count_tokens ev channel chat_id sequence = \<lparr>
     er_id = cd_uuid_show cd (se_id ev), er_session_key = se_session_key ev,
     er_channel = channel, er_chat_id = chat_id, er_event_type = event_type_tag (se_event_type ev),
     er_content = se_content ev, er_tools_used = cd_tools_show cd (em_tools_used (se_metadata ev)),
     er_token_usage = map_option (cd_usage_show cd) (em_token_usage (se_metadata ev)),
     er_token_len = (if em_content_token_len (se_metadata ev) > 0 then em_content_token_len (se_metadata ev)
                     else count_tokens (se_content ev)),
     er_event_data = (if se_event_type ev = UserMessage \<or> se_event_type ev = AssistantMessage then None
                      else Some (cd_type_show cd (se_event_type ev))),
     er_extra = cd_extra_show cd (em_extra (se_metadata ev)),
     er_created_at = cd_time_show cd (se_created_at ev), er_sequence = sequence \<rparr>"

text \<open>The transaction; the third component is what is broadcast to the subscribers.  A
  second row with the same primary key \<open>id\<close> is refused by the table.\<close>

definition append_event ::
  "'j codec \<Rightarrow> (string \<Rightarrow> nat) \<Rightarrow> string option \<Rightarrow> time \<Rightarrow> 'j session_event \<Rightarrow> event_db
    \<Rightarrow> (store_error + int) \<times> event_db \<times> 'j session_event list" where
  "append_event cd count_tokens io now ev db =
     (let (channel, chat_id) = parse_session_key_str (se_session_key ev);
          ss = insert_session (se_session_key ev) channel chat_id (cd_time_show cd now) (db_sessions db);
          sequence = next_sequence channel chat_id ss;
          row = row_of_event cd count_tokens ev channel chat_id sequence in
      case io of
        Some e \<Rightarrow> (Inl (DatabaseErr e), db, [])
      | None \<Rightarrow>
          if \<exists>r \<in> set (db_events db). er_id r = er_id row
          then (Inl (DatabaseErr ''UNIQUE constraint failed: session_events.id''), db, [])
          else (Inr sequence,
                \<lparr> db_sessions = bump_session channel chat_id (cd_time_show cd now) ss,
                  db_events = db_events db @ [row] \<rparr>, [ev]))"

section \<open>Queries\<close>

definition key_channel :: "session_key \<Rightarrow> string" where
  "key_channel k = channel_as_str (sk_channel k)"

definition session_rows :: "session_key \<Rightarrow> event_db \<Rightarrow> event_row list" where
  "session_rows k db = sort_key er_sequence (filter (in_session (key_channel k) (sk_chat_id k)) (db_events db))"

definition get_session_history ::
  "'j codec \<Rightarrow> time \<Rightarrow> session_key \<Rightarrow> event_db \<Rightarrow> store_error + 'j session_event list" where
  "get_session_history cd now k db = events_of_rows cd now (session_rows k db)"

definition get_events_after_sequence ::
  "'j codec \<Rightarrow> time \<Rightarrow> session_key \<Rightarrow> int \<Rightarrow> event_db \<Rightarrow> store_error + 'j session_event list" where
  "get_events_after_sequence cd now k n db =
     events_of_rows cd now (filter (\<lambda>r. er_sequence r > n) (session_rows k db))"

definition get_events_up_to_sequence ::
  "'j codec \<Rightarrow> time \<Rightarrow> session_key \<Rightarrow> int \<Rightarrow> event_db \<Rightarrow> store_error + 'j session_event list" where
  "get_events_up_to_sequence cd now k n db =
     events_of_rows cd now (filter (\<lambda>r. er_sequence r \<le> n \<and> er_event_type r \<noteq> ''summary'') (session_rows k db))"

definition get_events_by_ids ::
  "'j codec \<Rightarrow> time \<Rightarrow> session_key \<Rightarrow> uuid list \<Rightarrow> event_db \<Rightarrow> store_error + 'j session_event list" where
  "get_events_by_ids cd now k ids db =
     (if ids = [] then Inr []
      else events_of_rows cd now (filter (\<lambda>r. er_id r \<in> cd_uuid_show cd ` set ids) (session_rows k db)))"

definition get_events_by_ids_global ::
  "'j codec \<Rightarrow> time \<Rightarrow> uuid list \<Rightarrow> event_db \<Rightarrow> store_error + 'j session_event list" where
  "get_events_by_ids_global cd now ids db =
     (if ids = [] then Inr []
      else events_of_rows cd now (sort_key (\<lambda>r. er_session_key r)
             (sort_key er_sequence (filter (\<lambda>r. er_id r \<in> cd_uuid_show cd ` set ids) (db_events db)))))"

definition get_event_ids_up_to :: "session_key \<Rightarrow> int \<Rightarrow> event_db \<Rightarrow> string list" where
  "get_event_ids_up_to k n db =
     map er_id (filter (\<lambda>r. in_session (key_channel k) (sk_chat_id k) r \<and> er_sequence r \<le> n) (db_events db))"

definition clear_session_rows :: "string option \<Rightarrow> session_key \<Rightarrow> event_db \<Rightarrow> (store_error + unit) \<times> event_db" where
  "clear_session_rows io k db = (case io of
       Some e \<Rightarrow> (Inl (DatabaseErr e), db)
     | None \<Rightarrow> (Inr (), \<lparr>
         db_sessions = filter (\<lambda>s. \<not> session_matches (key_channel k) (sk_chat_id k) s) (db_sessions db),
         db_events = filter (\<lambda>r. \<not> in_session (key_channel k) (sk_chat_id k) r) (db_events db) \<rparr>))"

text \<open>Every failure of the query reads as 0.\<close>

definition get_max_sequence :: "session_key \<Rightarrow> event_db \<Rightarrow> int" where
  "get_max_sequence k db = (case filter (in_session (key_channel k) (sk_chat_id k)) (db_events db) of
       [] \<Rightarrow> 0
     | rows \<Rightarrow> Max (set (map er_sequence rows)))"

definition delete_events_upto ::
  "string option \<Rightarrow> session_key \<Rightarrow> int \<Rightarrow> event_db \<Rightarrow> (store_error + nat) \<times> event_db" where
  "delete_events_upto io k n db = (case io of
       Some e \<Rightarrow> (Inl (DatabaseErr e), db)
     | None \<Rightarrow> (let gone = (\<lambda>r. in_session (key_channel k) (sk_chat_id k) r \<and> er_sequence r \<le> n) in
         (Inr (length (filter gone (db_events db))),
          db \<lparr> db_events := filter (\<lambda>r. \<not> gone r) (db_events db) \<rparr>)))"

definition get_latest_summary ::
  "'j codec \<Rightarrow> time \<Rightarrow> session_key \<Rightarrow> event_db \<Rightarrow> store_error + 'j session_event option" where
  "get_latest_summary cd now k db =
     (case rev (filter (\<lambda>r. er_event_type r = ''summary'') (session_rows k db)) of
        [] \<Rightarrow> Inr None
      | r # _ \<Rightarrow> bind_res (event_of_row cd now r) (\<lambda>ev. Inr (Some ev)))"

definition get_sessions_by_channel :: "string \<Rightarrow> event_db \<Rightarrow> string list" where
  "get_sessions_by_channel channel db =
     map sv_key (rev (sort_key sv_updated_at (filter (\<lambda>s. sv_channel s = channel) (db_sessions db))))"

definition get_sessions_by_chat_id :: "string \<Rightarrow> event_db \<Rightarrow> string list" where
  "get_sessions_by_chat_id chat_id db =
     map sv_key (rev (sort_key sv_updated_at (filter (\<lambda>s. sv_chat_id s = chat_id) (db_sessions db))))"

definition is_chat_row :: "event_row \<Rightarrow> bool" where
  "is_chat_row r = (er_event_type r \<in> {''user_message'', ''assistant_message''})"

definition get_recent_events :: "'j codec \<Rightarrow> time \<Rightarrow> nat \<Rightarrow> event_db \<Rightarrow> store_error + 'j session_event list" where
  "get_recent_events cd now limit db =
     (let rows = sort_key er_created_at (filter is_chat_row (db_events db)) in
      events_of_rows cd now (if limit > 0 then take limit rows else rows))"

definition get_all_events :: "'j codec \<Rightarrow> time \<Rightarrow> event_db \<Rightarrow> store_error + 'j session_event list" where
  "get_all_events cd now db = get_recent_events cd now 0 db"

record 'j event_filter =
  ef_session_key :: "session_key option"
  ef_time_range :: "(time \<times> time) option"
  ef_event_types :: "'j event_type list option"
  ef_event_ids :: "uuid list option"
  ef_limit :: "nat option"
  ef_sequence_after :: "int option"

definition filter_accepts :: "'j codec \<Rightarrow> 'j event_filter \<Rightarrow> event_row \<Rightarrow> bool" where
  "filter_accepts cd f r \<longleftrightarrow>
     (case ef_time_range f of None \<Rightarrow> True
      | Some (a, b) \<Rightarrow> cd_time_show cd a \<le> er_created_at r \<and> er_created_at r \<le> cd_time_show cd b)
   \<and> (case ef_sequence_after f of None \<Rightarrow> True | Some n \<Rightarrow> er_sequence r > n)
   \<and> (case ef_event_types f of None \<Rightarrow> True
      | Some ts \<Rightarrow> ts = [] \<or> er_event_type r \<in> event_type_tag ` set ts)
   \<and> (case ef_event_ids f of None \<Rightarrow> True
      | Some ids \<Rightarrow> ids = [] \<or> er_id r \<in> cd_uuid_show cd ` set ids)"

definition query_events ::
  "'j codec \<Rightarrow> time \<Rightarrow> 'j event_filter \<Rightarrow> event_db \<Rightarrow> store_error + 'j session_event list" where
  "query_events cd now f db = (case ef_session_key f of
       None \<Rightarrow> Inr []
     | Some k \<Rightarrow> (let rows = filter (filter_accepts cd f) (session_rows k db) in
         events_of_rows cd now (case ef_limit f of None \<Rightarrow> rows | Some n \<Rightarrow> take n rows)))"

section \<open>Keyword search\<close>

text \<open>SQLite's \<open>LIKE ... ESCAPE '\'\<close>: case-insensitive on ASCII, % any text, _ one character.\<close>

abbreviation BSL :: char where "BSL \<equiv> CHR 0x5C"

fun like_match :: "string \<Rightarrow> string \<Rightarrow> bool" where
  "like_match [] s = (s = [])"
| "like_match (p # ps) [] = (p = CHR ''%'' \<and> like_match ps [])"
| "like_match (p # ps) (c # cs) =
     (if p = BSL then (case ps of [] \<Rightarrow> False | q # qs \<Rightarrow> ascii_lower q = ascii_lower c \<and> like_match qs cs)
      else if p = CHR ''%'' then like_match ps (c # cs) \<or> like_match (p # ps) cs
      else if p = CHR ''_'' then like_match ps cs
      else ascii_lower p = ascii_lower c \<and> like_match ps cs)"

definition search_pattern :: "string \<Rightarrow> string" where
  "search_pattern keyword = ''%'' @ str_replace (str_replace (str_replace keyword [BSL] [BSL, BSL])
     ''%'' [BSL, CHR ''%'']) ''_'' [BSL, CHR ''_''] @ ''%''"

definition search_session_events ::
  "'j codec \<Rightarrow> time \<Rightarrow> session_key \<Rightarrow> string \<Rightarrow> nat \<Rightarrow> event_db \<Rightarrow> store_error + 'j session_event list" where
  "search_session_events cd now k keyword limit db =
     events_of_rows cd now (take limit (rev (sort_key er_created_at (filter (\<lambda>r.
       er_session_key r = session_key_display k \<and> like_match (search_pattern keyword) (er_content r)
       \<and> is_chat_row r) (db_events db)))))"

lemma str_replace_char: "str_replace s [d] r = concat (map (\<lambda>c. if c = d then r else [c]) s)"
proof (induction s)
  case Nil
  then show ?case by (simp add: str_replace.simps)
next
  case (Cons c s)
  then show ?case by (subst str_replace.simps) auto
qed

definition esc_char :: "char \<Rightarrow> string" where
  "esc_char c = (if c \<in> {BSL, CHR ''%'', CHR ''_''} then [BSL, c] else [c])"

lemma search_pattern_esc: "search_pattern kw = ''%'' @ concat (map esc_char kw) @ ''%''"
proof -
  have "concat (map (\<lambda>c. if c = CHR ''_'' then [BSL, CHR ''_''] else [c])
      (concat (map (\<lambda>c. if c = CHR ''%'' then [BSL, CHR ''%''] else [c])
        (concat (map (\<lambda>c. if c = BSL then [BSL, BSL] else [c]) kw)))))
    = concat (map esc_char kw)"
    by (induction kw) (auto simp: esc_char_def)
  then show ?thesis by (simp add: search_pattern_def str_replace_char)
qed

lemma like_all: "like_match ''%'' s"
  by (induction s) auto

lemma like_literal:
  "like_match (concat (map esc_char kw) @ ps) s \<longleftrightarrow>
     (\<exists>a b. s = a @ b \<and> map ascii_lower a = map ascii_lower kw \<and> like_match ps b)"
proof (induction kw arbitrary: s)
  case (Cons k kw)
  show ?case
  proof (cases s)
    case Nil
    then show ?thesis by (auto simp: esc_char_def)
  next
    case (Cons c cs)
    have "like_match (concat (map esc_char (k # kw)) @ ps) (c # cs)
        \<longleftrightarrow> ascii_lower k = ascii_lower c \<and> like_match (concat (map esc_char kw) @ ps) cs"
      by (auto simp: esc_char_def)
    also have "\<dots> \<longleftrightarrow> (\<exists>a b. c # cs = a @ b \<and> map ascii_lower a = map ascii_lower (k # kw) \<and> like_match ps b)"
    proof
      assume "ascii_lower k = ascii_lower c \<and> like_match (concat (map esc_char kw) @ ps) cs"
      then obtain a b where "cs = a @ b" "map ascii_lower a = map ascii_lower kw" "like_match ps b"
        "ascii_lower k = ascii_lower c" unfolding Cons.IH by blast
      then have "c # cs = (c # a) @ b" "map ascii_lower (c # a) = map ascii_lower (k # kw)" "like_match ps b"
        by simp_all
      then show "\<exists>a b. c # cs = a @ b \<and> map ascii_lower a = map ascii_lower (k # kw) \<and> like_match ps b"
        by blast
    next
      assume "\<exists>a b. c # cs = a @ b \<and> map ascii_lower a = map ascii_lower (k # kw) \<and> like_match ps b"
      then show "ascii_lower k = ascii_lower c \<and> like_match (concat (map esc_char kw) @ ps) cs"
        unfolding Cons.IH by (auto simp: Cons_eq_append_conv)
    qed
    finally show ?thesis using Cons by simp
  qed
qed simp

lemma like_percent: "like_match (CHR ''%'' # ps) s \<longleftrightarrow> (\<exists>a b. s = a @ b \<and> like_match ps b)"
  by (induction s) (auto simp: Cons_eq_append_conv)

text \<open>Searching is literal.  Whatever characters the keyword contains, wildcards and
  backslashes included, the query selects the texts that contain the keyword itself,
  compared without regard to ASCII case; nothing in a keyword acts as a wildcard.\<close>

theorem search_is_literal:
  "like_match (search_pattern kw) content = str_contains (to_lowercase content) (to_lowercase kw)"
proof -
  have "like_match (search_pattern kw) content \<longleftrightarrow>
      (\<exists>a m b. content = a @ m @ b \<and> map ascii_lower m = map ascii_lower kw)"
    unfolding search_pattern_esc by (auto simp: like_percent like_literal like_all)
  also have "\<dots> \<longleftrightarrow> (\<exists>a b. map ascii_lower content = a @ map ascii_lower kw @ b)"
  proof
    assume "\<exists>a m b. content = a @ m @ b \<and> map ascii_lower m = map ascii_lower kw"
    then obtain a m b where "content = a @ m @ b" "map ascii_lower m = map ascii_lower kw" by blast
    then have "map ascii_lower content = map ascii_lower a @ map ascii_lower kw @ map ascii_lower b" by simp
    then show "\<exists>a b. map ascii_lower content = a @ map ascii_lower kw @ b" by blast
  next
    assume "\<exists>a b. map ascii_lower content = a @ map ascii_lower kw @ b"
    then obtain a b where eq: "map ascii_lower content = a @ map ascii_lower kw @ b" by blast
    let ?n = "length a" and ?l = "length kw"
    have "content = take ?n content @ take ?l (drop ?n content) @ drop ?l (drop ?n content)"
      by (simp only: append_take_drop_id)
    moreover have "map ascii_lower (take ?l (drop ?n content)) = map ascii_lower kw"
      unfolding take_map [symmetric] drop_map [symmetric] eq by simp
    ultimately show "\<exists>a m b. content = a @ m @ b \<and> map ascii_lower m = map ascii_lower kw" by blast
  qed
  finally show ?thesis by (simp add: str_contains_def sublist_def to_lowercase_def)
qed

section \<open>The log\<close>

text \<open>The states the log's own operations reach from empty tables.\<close>

inductive log_reach :: "'j codec \<Rightarrow> (string \<Rightarrow> nat) \<Rightarrow> event_db \<Rightarrow> bool" for cd count_tokens where
  log_new: "log_reach cd count_tokens \<lparr> db_sessions = [], db_events = [] \<rparr>"
| log_append: "log_reach cd count_tokens db
    \<Longrightarrow> log_reach cd count_tokens (fst (snd (append_event cd count_tokens io now ev db)))"
| log_clear: "log_reach cd count_tokens db \<Longrightarrow> log_reach cd count_tokens (snd (clear_session_rows io k db))"
| log_delete: "log_reach cd count_tokens db \<Longrightarrow> log_reach cd count_tokens (snd (delete_events_upto io k n db))"

definition log_inv :: "event_db \<Rightarrow> bool" where
  "log_inv db \<longleftrightarrow>
     (\<forall>s \<in> set (db_sessions db). parse_session_key_str (sv_key s) = (sv_channel s, sv_chat_id s))
   \<and> (\<forall>r \<in> set (db_events db). er_sequence r < next_sequence (er_channel r) (er_chat_id r) (db_sessions db))
   \<and> (\<forall>c i. sorted_wrt (<) (map er_sequence (filter (in_session c i) (db_events db))))"

lemma log_invI:
  assumes "\<And>s. s \<in> set (db_sessions db) \<Longrightarrow> parse_session_key_str (sv_key s) = (sv_channel s, sv_chat_id s)"
    and "\<And>r. r \<in> set (db_events db) \<Longrightarrow> er_sequence r < next_sequence (er_channel r) (er_chat_id r) (db_sessions db)"
    and "\<And>c i. sorted_wrt (<) (map er_sequence (filter (in_session c i) (db_events db)))"
  shows "log_inv db"
  unfolding log_inv_def using assms by blast

lemma find_map_bump:
  "find (session_matches c i) (bump_session c' i' now ss) =
     map_option (\<lambda>s. if session_matches c' i' s
        then s \<lparr> sv_updated_at := now, sv_total_events := sv_total_events s + 1 \<rparr> else s)
       (find (session_matches c i) ss)"
  by (induction ss) (auto simp: bump_session_def session_matches_def)

lemma find_SomeE: "find P xs = Some x \<Longrightarrow> P x"
  by (auto simp: find_Some_iff)

lemma next_bump_same:
  "find (session_matches c i) ss \<noteq> None \<Longrightarrow> next_sequence c i (bump_session c i now ss) = next_sequence c i ss + 1"
  by (auto simp: next_sequence_def find_map_bump dest: find_SomeE split: option.splits)

lemma next_bump_other:
  "(c, i) \<noteq> (c', i') \<Longrightarrow> next_sequence c i (bump_session c' i' now ss) = next_sequence c i ss"
  by (auto simp: next_sequence_def find_map_bump session_matches_def dest!: find_SomeE split: option.splits)

lemma find_app: "find P (xs @ ys) = (case find P xs of Some x \<Rightarrow> Some x | None \<Rightarrow> find P ys)"
  by (induction xs) auto

lemma next_insert: "next_sequence c i (insert_session key c' i' now ss) = next_sequence c i ss"
  by (auto simp: next_sequence_def insert_session_def find_app split: option.splits)

lemma find_insert:
  assumes "\<forall>s \<in> set ss. parse_session_key_str (sv_key s) = (sv_channel s, sv_chat_id s)"
    and "parse_session_key_str key = (c, i)"
  shows "find (session_matches c i) (insert_session key c i now ss) \<noteq> None"
proof -
  have "\<exists>s \<in> set (insert_session key c i now ss). session_matches c i s"
    using assms by (force simp: insert_session_def session_matches_def)
  then show ?thesis by (auto simp: find_None_iff)
qed

lemma bump_keys:
  "s \<in> set (bump_session c i now ss) \<Longrightarrow>
     \<exists>s' \<in> set ss. sv_key s = sv_key s' \<and> sv_channel s = sv_channel s' \<and> sv_chat_id s = sv_chat_id s'"
  by (auto simp: bump_session_def)

text \<open>What a successful append does.\<close>

lemma append_event_ok:
  assumes "append_event cd ct io now ev db = (Inr seq, db', out)"
    and "parse_session_key_str (se_session_key ev) = (c, i)"
  shows "io = None" "seq = next_sequence c i (db_sessions db)" "out = [ev]"
    "db' = \<lparr> db_sessions = bump_session c i (cd_time_show cd now)
        (insert_session (se_session_key ev) c i (cd_time_show cd now) (db_sessions db)),
      db_events = db_events db @ [row_of_event cd ct ev c i seq] \<rparr>"
  using assms by (auto simp: append_event_def Let_def next_insert split: option.splits if_splits)

lemma append_event_fail:
  assumes "append_event cd ct io now ev db = (Inl e, db', out)"
  shows "db' = db" "out = []"
  using assms by (auto simp: append_event_def Let_def split: option.splits if_splits prod.splits)

lemma log_inv_append:
  assumes inv: "log_inv db"
  shows "log_inv (fst (snd (append_event cd ct io now ev db)))"
proof -
  obtain r db' out where ap: "append_event cd ct io now ev db = (r, db', out)" by (metis prod.exhaust)
  obtain c i where key: "parse_session_key_str (se_session_key ev) = (c, i)" by fastforce
  show ?thesis
  proof (cases r)
    case (Inl e)
    then show ?thesis using append_event_fail(1) [of cd ct io now ev db e db' out] ap inv by simp
  next
    case (Inr seq)
    let ?ss = "insert_session (se_session_key ev) c i (cd_time_show cd now) (db_sessions db)"
    let ?row = "row_of_event cd ct ev c i seq"
    note ok = append_event_ok [OF ap [unfolded Inr] key]
    have keys: "\<forall>s \<in> set ?ss. parse_session_key_str (sv_key s) = (sv_channel s, sv_chat_id s)"
      using inv key by (auto simp: log_inv_def insert_session_def)
    have found: "find (session_matches c i) ?ss \<noteq> None"
      using inv key by (intro find_insert) (auto simp: log_inv_def)
    have nxt: "next_sequence c i (db_sessions db') = seq + 1"
      unfolding ok(4) event_db.simps next_bump_same [OF found] next_insert using ok(2) by simp
    have grow: "next_sequence c' i' (db_sessions db) \<le> next_sequence c' i' (db_sessions db')" for c' i'
    proof (cases "(c', i') = (c, i)")
      case True
      then show ?thesis using nxt ok(2) by simp
    next
      case False
      then show ?thesis unfolding ok(4) event_db.simps next_bump_other [OF False] next_insert by simp
    qed
    have row: "er_channel ?row = c" "er_chat_id ?row = i" "er_sequence ?row = seq"
      by (simp_all add: row_of_event_def)
    have ev': "db_events db' = db_events db @ [?row]" unfolding ok(4) by simp
    have "log_inv db'"
    proof (rule log_invI)
      fix s
      assume "s \<in> set (db_sessions db')"
      then show "parse_session_key_str (sv_key s) = (sv_channel s, sv_chat_id s)"
        using keys bump_keys [of s c i "cd_time_show cd now" ?ss] unfolding ok(4) by auto
    next
      fix x
      assume "x \<in> set (db_events db')"
      then consider "x \<in> set (db_events db)" | "x = ?row" unfolding ev' by auto
      then show "er_sequence x < next_sequence (er_channel x) (er_chat_id x) (db_sessions db')"
      proof cases
        case 1
        then have "er_sequence x < next_sequence (er_channel x) (er_chat_id x) (db_sessions db)"
          using inv by (simp add: log_inv_def)
        with grow [of "er_channel x" "er_chat_id x"] show ?thesis by linarith
      qed (simp add: row nxt)
    next
      fix c' i'
      have "\<forall>x \<in> set (filter (in_session c' i') (db_events db)). in_session c' i' ?row \<longrightarrow> er_sequence x < seq"
      proof (intro ballI impI)
        fix x
        assume x: "x \<in> set (filter (in_session c' i') (db_events db))" "in_session c' i' ?row"
        then have "er_channel x = c" "er_chat_id x = i" using row by (auto simp: in_session_def)
        moreover have "er_sequence x < next_sequence (er_channel x) (er_chat_id x) (db_sessions db)"
          using x inv by (simp add: log_inv_def)
        ultimately show "er_sequence x < seq" using ok(2) by simp
      qed
      moreover have "sorted_wrt (<) (map er_sequence (filter (in_session c' i') (db_events db)))"
        using inv by (simp add: log_inv_def)
      ultimately show "sorted_wrt (<) (map er_sequence (filter (in_session c' i') (db_events db')))"
        unfolding ev' by (auto simp: sorted_wrt_append row)
    qed
    then show ?thesis using ap by simp
  qed
qed

lemma sorted_wrt_filter_map: "sorted_wrt R (map f (filter P xs)) \<Longrightarrow> sorted_wrt R (map f (filter (\<lambda>x. P x \<and> Q x) xs))"
  by (induction xs) (auto split: if_splits)

lemma log_inv_filter_events:
  "log_inv db \<Longrightarrow> log_inv (db \<lparr> db_events := filter Q (db_events db) \<rparr>)"
proof (rule log_invI)
  fix c i
  assume "log_inv db"
  then have "sorted_wrt (<) (map er_sequence (filter (in_session c i) (db_events db)))" by (simp add: log_inv_def)
  then have "sorted_wrt (<) (map er_sequence (filter (\<lambda>r. in_session c i r \<and> Q r) (db_events db)))"
    by (rule sorted_wrt_filter_map)
  then show "sorted_wrt (<) (map er_sequence (filter (in_session c i) (db_events (db\<lparr>db_events := filter Q (db_events db)\<rparr>))))"
    by (simp add: conj_commute)
qed (auto simp: log_inv_def)

lemma next_filter:
  "(c, i) \<noteq> (c', i') \<Longrightarrow> next_sequence c i (filter (\<lambda>s. \<not> session_matches c' i' s) ss) = next_sequence c i ss"
  by (induction ss) (auto simp: next_sequence_def session_matches_def split: option.splits)

lemma log_inv_clear: "log_inv db \<Longrightarrow> log_inv (snd (clear_session_rows io k db))"
proof (cases io)
  case None
  assume inv: "log_inv db"
  let ?c = "key_channel k" and ?i = "sk_chat_id k"
  let ?db = "db \<lparr> db_events := filter (\<lambda>r. \<not> in_session ?c ?i r) (db_events db) \<rparr>"
  have inv': "log_inv ?db" using inv by (rule log_inv_filter_events)
  have "log_inv \<lparr> db_sessions = filter (\<lambda>s. \<not> session_matches ?c ?i s) (db_sessions db),
      db_events = filter (\<lambda>r. \<not> in_session ?c ?i r) (db_events db) \<rparr>" (is "log_inv ?db'")
  proof (rule log_invI)
    fix r
    assume r: "r \<in> set (db_events ?db')"
    then have "(er_channel r, er_chat_id r) \<noteq> (?c, ?i)" by (auto simp: in_session_def)
    from next_filter [OF this, of "db_sessions db"] r inv
    show "er_sequence r < next_sequence (er_channel r) (er_chat_id r) (db_sessions ?db')"
      by (simp add: log_inv_def)
  qed (use inv inv' in \<open>auto simp: log_inv_def\<close>)
  then show ?thesis using None by (simp add: clear_session_rows_def)
qed (simp add: clear_session_rows_def)

lemma log_inv_delete: "log_inv db \<Longrightarrow> log_inv (snd (delete_events_upto io k n db))"
  by (simp add: delete_events_upto_def Let_def log_inv_filter_events split: option.split)

lemma log_reach_inv: "log_reach cd ct db \<Longrightarrow> log_inv db"
  by (induction rule: log_reach.induct)
    (simp_all add: log_inv_append log_inv_clear log_inv_delete, simp add: log_inv_def)

text \<open>In a reachable log the rows of a session stand in sequence order, so reading them
  needs no sorting.\<close>

lemma session_rows_filter:
  assumes "log_inv db"
  shows "session_rows k db = filter (in_session (key_channel k) (sk_chat_id k)) (db_events db)"
proof -
  have "sorted_wrt (<) (map er_sequence (filter (in_session (key_channel k) (sk_chat_id k)) (db_events db)))"
    using assms by (simp add: log_inv_def)
  then have "sorted (map er_sequence (filter (in_session (key_channel k) (sk_chat_id k)) (db_events db)))"
    by (rule strict_sorted_imp_sorted)
  then show ?thesis unfolding session_rows_def by (rule sort_key_id_if_sorted)
qed

text \<open>What the codecs are relied on for: reading back what they wrote of this event.\<close>

definition codec_reads :: "'j codec \<Rightarrow> 'j session_event \<Rightarrow> bool" where
  "codec_reads cd ev \<longleftrightarrow> cd_uuid_parse cd (cd_uuid_show cd (se_id ev)) = Some (se_id ev)
     \<and> (if se_event_type ev = UserMessage \<or> se_event_type ev = AssistantMessage then True
        else cd_type_parse cd (cd_type_show cd (se_event_type ev)) = Inr (se_event_type ev))
     \<and> cd_tools_parse cd (cd_tools_show cd (em_tools_used (se_metadata ev))) = Inr (em_tools_used (se_metadata ev))
     \<and> (case em_token_usage (se_metadata ev) of None \<Rightarrow> True
        | Some u \<Rightarrow> cd_usage_parse cd (cd_usage_show cd u) = Inr u)
     \<and> cd_extra_parse cd (cd_extra_show cd (em_extra (se_metadata ev))) = Inr (em_extra (se_metadata ev))
     \<and> cd_time_parse cd (cd_time_show cd (se_created_at ev)) = Some (se_created_at ev)"

text \<open>An event as the log returns it: with its sequence number, its token count and the
  normal form of its session key.\<close>

definition stored_event :: "(string \<Rightarrow> nat) \<Rightarrow> 'j session_event \<Rightarrow> int \<Rightarrow> 'j session_event" where
  "stored_event ct ev n =
     (let (c, i) = parse_session_key_str (se_session_key ev) in
      ev \<lparr> se_session_key := (if c \<noteq> [] \<and> i \<noteq> [] then c @ '':'' @ i else se_session_key ev),
           se_metadata := (se_metadata ev) \<lparr> em_content_token_len :=
             (if em_content_token_len (se_metadata ev) > 0 then em_content_token_len (se_metadata ev)
              else ct (se_content ev)) \<rparr>,
           se_sequence := n \<rparr>)"

lemma event_of_row_of_event:
  assumes "codec_reads cd ev" "parse_session_key_str (se_session_key ev) = (c, i)"
  shows "event_of_row cd now (row_of_event cd ct ev c i n) = Inr (stored_event ct ev n)"
proof -
  let ?row = "row_of_event cd ct ev c i n"
  have "row_event_type cd ?row = Inr (se_event_type ev)"
    using assms(1) by (cases "se_event_type ev")
      (simp_all add: row_event_type_def row_of_event_def codec_reads_def serde_def)
  moreover have "(case er_token_usage ?row of None \<Rightarrow> Inr None
      | Some u \<Rightarrow> bind_res (serde (cd_usage_parse cd u)) (\<lambda>x. Inr (Some x))) = Inr (em_token_usage (se_metadata ev))"
    using assms(1) by (cases "em_token_usage (se_metadata ev)") (simp_all add: row_of_event_def codec_reads_def serde_def)
  ultimately show ?thesis
    using assms by (simp add: event_of_row_def row_of_event_def codec_reads_def serde_def stored_event_def Let_def)
qed

lemma session_rows_append:
  assumes "log_inv db" "append_event cd ct io now ev db = (Inr seq, db', out)"
    and "parse_session_key_str (se_session_key ev) = (c, i)"
  shows "session_rows k db' = session_rows k db
    @ (if c = key_channel k \<and> i = sk_chat_id k then [row_of_event cd ct ev c i seq] else [])"
proof -
  have "log_inv db'" using log_inv_append [OF assms(1), of cd ct io now ev] assms(2) by simp
  then show ?thesis
    unfolding session_rows_filter [OF assms(1)] session_rows_filter [OF \<open>log_inv db'\<close>]
    using append_event_ok(4) [OF assms(2, 3)] by (simp add: in_session_def row_of_event_def)
qed

text \<open>C15: what is appended is what is read.  In every state the log reaches by appends, clears
  and garbage collection, a successful append to a session makes its history the old
  history followed by exactly the new event, unchanged but for its number, its token
  count and its normalised session key; the number is larger than every number already
  in the session, so order is never lost, and no other session's history changes.\<close>

theorem append_then_read:
  assumes reach: "log_reach cd ct db" and ok: "codec_reads cd ev"
    and app: "append_event cd ct io now ev db = (Inr seq, db', out)"
    and key: "parse_session_key_str (se_session_key ev) = (key_channel k, sk_chat_id k)"
    and old: "get_session_history cd t k db = Inr evs"
  shows "get_session_history cd t k db' = Inr (evs @ [stored_event ct ev seq])
    \<and> list_all (\<lambda>e. se_sequence e < seq) evs
    \<and> (\<forall>k'. get_session_history cd t k' db' =
         (if (key_channel k', sk_chat_id k') = (key_channel k, sk_chat_id k)
          then Inr (evs @ [stored_event ct ev seq]) else get_session_history cd t k' db))"
proof -
  have inv: "log_inv db" using reach by (rule log_reach_inv)
  note rows = session_rows_append [OF inv app key]
  have hist: "get_session_history cd t k db' = Inr (evs @ [stored_event ct ev seq])"
    using old event_of_row_of_event [OF ok key, of t ct seq]
    by (simp add: get_session_history_def events_of_rows_def rows collect_res_append)
  have "k' = k" if "(key_channel k', sk_chat_id k') = (key_channel k, sk_chat_id k)"
      "session_rows k' db' \<noteq> session_rows k db'" for k'
    using that by (simp add: session_rows_def)
  then have same: "get_session_history cd t k' db' = get_session_history cd t k db'"
    if "(key_channel k', sk_chat_id k') = (key_channel k, sk_chat_id k)" for k'
    using that unfolding get_session_history_def by metis
  have other: "get_session_history cd t k' db' = get_session_history cd t k' db"
    if "(key_channel k', sk_chat_id k') \<noteq> (key_channel k, sk_chat_id k)" for k'
    using that by (auto simp: get_session_history_def rows)
  have seqs: "\<forall>r \<in> set (session_rows k db). er_sequence r < seq"
    using inv append_event_ok(2) [OF app key]
    by (auto simp: session_rows_filter [OF inv] log_inv_def in_session_def)
  have "list_all (\<lambda>e. se_sequence e < seq) evs"
  proof -
    have "collect_res (map (event_of_row cd t) rows) = Inr es \<Longrightarrow> map se_sequence es = map er_sequence rows"
      for rows and es :: "'a session_event list"
    proof (induction rows arbitrary: es)
      case (Cons r rows)
      then obtain e where e: "event_of_row cd t r = Inr e" by (cases "event_of_row cd t r") auto
      then have "se_sequence e = er_sequence r"
        by (auto simp: event_of_row_def bind_res_Inr_iff Let_def split: option.splits)
      then show ?case using Cons e by (auto simp: bind_res_Inr_iff)
    qed simp
    from this [of "session_rows k db" evs] old
    have "map se_sequence evs = map er_sequence (session_rows k db)"
      by (simp add: get_session_history_def events_of_rows_def)
    then have "\<forall>n \<in> set (map se_sequence evs). n < seq" using seqs by simp
    then show ?thesis by (simp add: list_all_iff)
  qed
  moreover have "get_session_history cd t k' db' =
      (if (key_channel k', sk_chat_id k') = (key_channel k, sk_chat_id k)
       then Inr (evs @ [stored_event ct ev seq]) else get_session_history cd t k' db)" for k'
  proof (cases "(key_channel k', sk_chat_id k') = (key_channel k, sk_chat_id k)")
    case True
    show ?thesis unfolding if_P [OF True] using same [OF True] hist by simp
  next
    case False
    show ?thesis unfolding if_not_P [OF False] by (rule other [OF False])
  qed
  ultimately show ?thesis using hist by blast
qed

text \<open>A concrete codec for the examples: identifiers and times in unary, the texts of empty
  metadata.\<close>

definition demo_codec :: "unit codec" where
  "demo_codec = \<lparr> cd_uuid_show = (\<lambda>i. replicate (unat i) CHR ''u''), cd_uuid_parse = (\<lambda>s. Some (of_nat (length s))),
     cd_type_show = (\<lambda>_. []), cd_type_parse = (\<lambda>_. Inl ''no''),
     cd_tools_show = (\<lambda>_. ''[]''), cd_tools_parse = (\<lambda>_. Inr []),
     cd_usage_show = (\<lambda>_. []), cd_usage_parse = (\<lambda>_. Inl ''no''),
     cd_extra_show = (\<lambda>_. ''{}''), cd_extra_parse = (\<lambda>_. Inr []),
     cd_time_show = (\<lambda>t. replicate (nat t) CHR ''t''), cd_time_parse = (\<lambda>s. Some (int (length s))) \<rparr>"

definition demo_event :: "nat \<Rightarrow> string \<Rightarrow> unit session_event" where
  "demo_event n body = \<lparr> se_id = of_nat n, se_session_key = ''cli:a'', se_event_type = UserMessage, se_content = body,
     se_metadata = default_metadata, se_created_at = int n, se_sequence = 0 \<rparr>"

definition demo_log :: event_db where
  "demo_log = fst (snd (append_event demo_codec length None 1 (demo_event 1 ''hi'')
     \<lparr> db_sessions = [], db_events = [] \<rparr>))"

lemma demo_parse_key: "parse_session_key_str ''cli:a'' = (''cli'', ''a'')"
  by (simp add: parse_session_key_str_def session_key_parse_def splitn2_def session_key_new_def
      channel_new_def to_lowercase_def ascii_lower_def)

lemma demo_codec_reads: "n < 1000 \<Longrightarrow> codec_reads demo_codec (demo_event n body)"
  by (simp add: codec_reads_def demo_codec_def demo_event_def default_metadata_def unat_of_nat)

theorem append_then_read_witness:
  "get_session_history demo_codec 0 (session_key_new Cli ''a'')
     (fst (snd (append_event demo_codec length None 2 (demo_event 2 ''there'') demo_log)))
   = Inr [stored_event length (demo_event 1 ''hi'') 0, stored_event length (demo_event 2 ''there'') 1]"
proof -
  let ?k = "session_key_new Cli ''a''"
  let ?row = "row_of_event demo_codec length (demo_event 1 ''hi'') ''cli'' ''a'' 0"
  have key: "parse_session_key_str (se_session_key (demo_event n body)) = (key_channel ?k, sk_chat_id ?k)" for n body
    by (simp add: demo_event_def demo_parse_key key_channel_def session_key_new_def)
  have log: "demo_log = \<lparr> db_sessions = [\<lparr> sv_key = ''cli:a'', sv_channel = ''cli'', sv_chat_id = ''a'',
        sv_created_at = ''t'', sv_updated_at = ''t'', sv_total_events = 1 \<rparr>], db_events = [?row] \<rparr>"
    by (simp add: demo_log_def append_event_def demo_parse_key Let_def demo_event_def insert_session_def
        next_sequence_def bump_session_def session_matches_def demo_codec_def)
  have reach: "log_reach demo_codec length demo_log"
    unfolding demo_log_def by (intro log_append log_new)
  have rows: "session_rows ?k demo_log = [?row]"
    by (simp add: session_rows_def log in_session_def row_of_event_def key_channel_def session_key_new_def)
  have old: "get_session_history demo_codec 0 ?k demo_log = Inr [stored_event length (demo_event 1 ''hi'') 0]"
    using event_of_row_of_event [OF demo_codec_reads [of 1 "''hi''"], of "''cli''" "''a''" 0 length 0]
    by (simp add: get_session_history_def events_of_rows_def rows demo_event_def demo_parse_key)
  obtain r db' out where app: "append_event demo_codec length None 2 (demo_event 2 ''there'') demo_log = (r, db', out)"
    by (metis prod.exhaust)
  have neq: "''u'' \<noteq> replicate 2 CHR ''u''" by (simp add: numeral_2_eq_2)
  have "r = Inr 1"
    using app neq by (auto simp: append_event_def log demo_parse_key Let_def demo_event_def insert_session_def
        next_sequence_def session_matches_def demo_codec_def row_of_event_def)
  from append_then_read [OF reach demo_codec_reads app [unfolded this] key old]
  show ?thesis using app by simp
qed

end
