(* ===== verification/Session_Store.thy ===== *)
theory Session_Store
  imports Event_Store
begin

text \<open>
  Summaries, checkpoints and compaction marks of the sessions
  (storage/src/session_store.rs).  The tables are maps on their primary keys:
  session_summaries on the session key, session_checkpoints on the session key and the
  target sequence, maintenance_state on the task and the target.  \<open>io\<close> is the database's
  error, if it refuses the statement.
\<close>

record summary_row =
  sm_content :: string
  sm_covered :: int
  sm_created_at :: string
  sm_in_progress :: bool
  sm_started_at :: "string option"

record session_db =
  sd_summaries :: "string \<Rightarrow> summary_row option"
  sd_checkpoints :: "(string \<times> int \<times> string) list"
  sd_maintenance :: "string \<times> string \<Rightarrow> int option"

definition session_db_new :: session_db where
  "session_db_new = \<lparr> sd_summaries = (\<lambda>_. None), sd_checkpoints = [], sd_maintenance = (\<lambda>_. None) \<rparr>"

text \<open>Columns the statement does not name take their defaults: the compaction mark is reset.\<close>

definition save_summary ::
  "string option \<Rightarrow> string \<Rightarrow> session_key \<Rightarrow> string \<Rightarrow> int \<Rightarrow> session_db \<Rightarrow> (string + unit) \<times> session_db" where
  "save_summary io now k content covered d = (case io of
       Some e \<Rightarrow> (Inl e, d)
     | None \<Rightarrow> (Inr (), d \<lparr> sd_summaries := (sd_summaries d)(session_key_display k \<mapsto>
         \<lparr> sm_content = content, sm_covered = covered, sm_created_at = now,
           sm_in_progress = False, sm_started_at = None \<rparr>) \<rparr>))"

definition load_summary :: "string option \<Rightarrow> session_key \<Rightarrow> session_db \<Rightarrow> string + (string \<times> int) option" where
  "load_summary io k d = (case io of
       Some e \<Rightarrow> Inl e
     | None \<Rightarrow> Inr (map_option (\<lambda>r. (sm_content r, sm_covered r)) (sd_summaries d (session_key_display k))))"

definition delete_summary :: "string option \<Rightarrow> session_key \<Rightarrow> session_db \<Rightarrow> (string + bool) \<times> session_db" where
  "delete_summary io k d = (case io of
       Some e \<Rightarrow> (Inl e, d)
     | None \<Rightarrow> (Inr (sd_summaries d (session_key_display k) \<noteq> None),
         d \<lparr> sd_summaries := (sd_summaries d)(session_key_display k := None) \<rparr>))"

text \<open>\<open>INSERT OR REPLACE\<close> under \<open>UNIQUE(session_key, target_sequence)\<close>.\<close>

definition save_checkpoint ::
  "string option \<Rightarrow> string \<Rightarrow> int \<Rightarrow> string \<Rightarrow> session_db \<Rightarrow> (string + unit) \<times> session_db" where
  "save_checkpoint io sk target summary d = (case io of
       Some e \<Rightarrow> (Inl e, d)
     | None \<Rightarrow> (Inr (), d \<lparr> sd_checkpoints :=
         filter (\<lambda>(k, t, s). \<not> (k = sk \<and> t = target)) (sd_checkpoints d) @ [(sk, target, summary)] \<rparr>))"

definition load_checkpoint ::
  "string option \<Rightarrow> string \<Rightarrow> int \<Rightarrow> session_db \<Rightarrow> string + (string \<times> int) option" where
  "load_checkpoint io sk target d = (case io of
       Some e \<Rightarrow> Inl e
     | None \<Rightarrow> Inr (case rev (sort_key (fst \<circ> snd)
           (filter (\<lambda>(k, t, s). k = sk \<and> t \<le> target) (sd_checkpoints d))) of
         [] \<Rightarrow> None
       | (k, t, s) # _ \<Rightarrow> Some (s, t)))"

definition I64_MAX :: int where "I64_MAX = 2 ^ 63 - 1"

text \<open>A failing checkpoint query reads as no checkpoint.\<close>

definition load_summary_with_checkpoint ::
  "string option \<Rightarrow> string option \<Rightarrow> session_key \<Rightarrow> session_db \<Rightarrow> string + (string \<times> string \<times> int)" where
  "load_summary_with_checkpoint io io' k d =
     bind_res (load_summary io k d) (\<lambda>row.
       let (summary, watermark) = (case row of Some (c, w) \<Rightarrow> (c, w) | None \<Rightarrow> ([], 0));
           checkpoint = (case load_checkpoint io' (session_key_display k) I64_MAX d of
             Inr (Some (s, t)) \<Rightarrow> s | _ \<Rightarrow> []) in
       Inr (summary, checkpoint, watermark))"

definition scan_active_sessions :: "event_db \<Rightarrow> (string \<times> int \<times> string) list" where
  "scan_active_sessions db = map (\<lambda>s. (sv_key s, sv_total_events s, sv_updated_at s))
     (filter (\<lambda>s. sv_total_events s > 0) (db_sessions db))"

definition get_sessions_needing_evolution ::
  "string \<Rightarrow> int \<Rightarrow> event_db \<Rightarrow> session_db \<Rightarrow> (string \<times> int \<times> int) list" where
  "get_sessions_needing_evolution task threshold db d =
     map (\<lambda>s. (sv_key s, sv_total_events s, case sd_maintenance d (task, sv_key s) of Some w \<Rightarrow> w | None \<Rightarrow> 0))
       (filter (\<lambda>s. sv_total_events s > 0 \<and>
          sv_total_events s - (case sd_maintenance d (task, sv_key s) of Some w \<Rightarrow> w | None \<Rightarrow> 0) \<ge> threshold)
         (db_sessions db))"

definition mark_compaction_started ::
  "string option \<Rightarrow> string \<Rightarrow> session_key \<Rightarrow> session_db \<Rightarrow> (string + unit) \<times> session_db" where
  "mark_compaction_started io now k d = (case io of
       Some e \<Rightarrow> (Inl e, d)
     | None \<Rightarrow> (let old = sd_summaries d (session_key_display k) in
         (Inr (), d \<lparr> sd_summaries := (sd_summaries d)(session_key_display k \<mapsto>
           \<lparr> sm_content = (case old of Some r \<Rightarrow> sm_content r | None \<Rightarrow> []),
             sm_covered = (case old of Some r \<Rightarrow> sm_covered r | None \<Rightarrow> 0),
             sm_created_at = (case old of Some r \<Rightarrow> sm_created_at r | None \<Rightarrow> now),
             sm_in_progress = True, sm_started_at = Some now \<rparr>) \<rparr>)))"

definition mark_compaction_finished :: "string option \<Rightarrow> session_key \<Rightarrow> session_db \<Rightarrow> (string + unit) \<times> session_db" where
  "mark_compaction_finished io k d = (case io of
       Some e \<Rightarrow> (Inl e, d)
     | None \<Rightarrow> (Inr (), d \<lparr> sd_summaries := (sd_summaries d)(session_key_display k :=
         map_option (\<lambda>r. r \<lparr> sm_in_progress := False, sm_started_at := None \<rparr>)
           (sd_summaries d (session_key_display k))) \<rparr>))"

definition is_compaction_in_progress :: "string option \<Rightarrow> session_key \<Rightarrow> session_db \<Rightarrow> string + bool" where
  "is_compaction_in_progress io k d = (case io of
       Some e \<Rightarrow> Inl e
     | None \<Rightarrow> Inr (case sd_summaries d (session_key_display k) of Some r \<Rightarrow> sm_in_progress r | None \<Rightarrow> False))"

section \<open>Lemmas\<close>

text \<open>What the read path sees of a session: summary text and watermark.\<close>

definition summary_of :: "session_key \<Rightarrow> session_db \<Rightarrow> string \<times> int" where
  "summary_of k d = (case sd_summaries d (session_key_display k) of
      Some r \<Rightarrow> (sm_content r, sm_covered r) | None \<Rightarrow> ([], 0))"

lemma summary_of_save [simp]:
  "summary_of k (snd (save_summary None now k content n d)) = (content, n)"
  by (simp add: summary_of_def save_summary_def)

lemma summary_of_marks [simp]:
  "summary_of k (snd (mark_compaction_started io now k d)) = summary_of k d"
  "summary_of k (snd (mark_compaction_finished io k d)) = summary_of k d"
  by (auto simp: summary_of_def mark_compaction_started_def mark_compaction_finished_def Let_def
      split: option.splits)

lemma load_summary_of:
  "load_summary None k d = Inr row \<Longrightarrow>
     summary_of k d = (case row of Some (c, w) \<Rightarrow> (c, w) | None \<Rightarrow> ([], 0))"
  by (auto simp: summary_of_def load_summary_def split: option.splits)

end
