(* ===== verification/Vault_Scanner.thy ===== *)
theory Vault_Scanner
  imports Prelude
begin

text \<open>
  Vault placeholders (engine/src/vault/core/scanner.rs) and log redaction
  (core/redaction.rs).  The scanner's cursor loop is a function of the text and the
  cursor; it is shown to find exactly the well-formed occurrences, and the
  replacement loop to be the substitution that reads the text from left to right.
\<close>

section \<open>Scanning\<close>

definition PREFIX :: string where
  "PREFIX = ''{{vault:''"

definition SUFFIX :: string where
  "SUFFIX = ''}}''"

record placeholder =
  ph_key :: string
  ph_full_match :: string
  ph_start :: nat
  ph_end :: nat

definition is_ascii_alnum :: "char \<Rightarrow> bool" where
  "is_ascii_alnum c = (let n = (of_char c :: nat) in
     (48 \<le> n \<and> n \<le> 57) \<or> (65 \<le> n \<and> n \<le> 90) \<or> (97 \<le> n \<and> n \<le> 122))"

definition is_key_char :: "char \<Rightarrow> bool" where
  "is_key_char c = (is_ascii_alnum c \<or> c = CHR ''_'')"

text \<open>The inner loop: the first index from \<open>i\<close> on that is not a key character.\<close>

definition key_end_from :: "string \<Rightarrow> nat \<Rightarrow> nat" where
  "key_end_from tx i = i + length (takeWhile is_key_char (drop i tx))"

lemma length_PREFIX [simp]: "length PREFIX = 8" by (simp add: PREFIX_def)
lemma length_SUFFIX [simp]: "length SUFFIX = 2" by (simp add: SUFFIX_def)

lemma key_end_from_ge: "i \<le> key_end_from tx i"
  by (simp add: key_end_from_def)

function scan_from :: "string \<Rightarrow> nat \<Rightarrow> placeholder list" where
  "scan_from tx cursor =
     (if cursor < length tx then
        (case str_find (drop cursor tx) PREFIX of
           None \<Rightarrow> []
         | Some offset \<Rightarrow>
             (let start = cursor + offset;
                  key_start = start + length PREFIX;
                  key_end = key_end_from tx key_start in
              if key_end > key_start \<and> starts_with (drop key_end tx) SUFFIX
              then \<lparr> ph_key = take (key_end - key_start) (drop key_start tx),
                     ph_full_match = take (key_end + length SUFFIX - start) (drop start tx),
                     ph_start = start, ph_end = key_end + length SUFFIX \<rparr>
                   # scan_from tx (key_end + length SUFFIX)
              else scan_from tx key_start))
      else [])"
  by pat_completeness auto
termination
  by (relation "measure (\<lambda>(tx, cursor). length tx - cursor)") (auto simp: key_end_from_def)

declare scan_from.simps [simp del]

definition scan_placeholders :: "string \<Rightarrow> placeholder list" where
  "scan_placeholders tx = scan_from tx 0"

definition extract_keys :: "string \<Rightarrow> string set" where
  "extract_keys tx = set (map ph_key (scan_placeholders tx))"

fun splice :: "string \<Rightarrow> (string \<rightharpoonup> string) \<Rightarrow> placeholder list \<Rightarrow> nat \<Rightarrow> string" where
  "splice tx rep [] last_end = drop last_end tx"
| "splice tx rep (p # ps) last_end =
     take (ph_start p - last_end) (drop last_end tx)
     @ (case rep (ph_key p) of Some v \<Rightarrow> v | None \<Rightarrow> ph_full_match p)
     @ splice tx rep ps (ph_end p)"

definition replace_placeholders :: "string \<Rightarrow> (string \<rightharpoonup> string) \<Rightarrow> string" where
  "replace_placeholders tx rep =
     (let ps = scan_placeholders tx in if ps = [] then tx else splice tx rep ps 0)"

function contains_from :: "string \<Rightarrow> nat \<Rightarrow> bool" where
  "contains_from tx cursor =
     (if cursor < length tx then
        (case str_find (drop cursor tx) PREFIX of
           None \<Rightarrow> False
         | Some offset \<Rightarrow>
             (let key_start = cursor + offset + length PREFIX;
                  key_end = key_end_from tx key_start in
              if key_end > key_start \<and> starts_with (drop key_end tx) SUFFIX then True
              else contains_from tx key_start))
      else False)"
  by pat_completeness auto
termination
  by (relation "measure (\<lambda>(tx, cursor). length tx - cursor)") auto

declare contains_from.simps [simp del]

definition contains_placeholders :: "string \<Rightarrow> bool" where
  "contains_placeholders tx = contains_from tx 0"

section \<open>Specification: a placeholder at the head of a text\<close>

definition placeholder_of :: "string \<Rightarrow> string" where
  "placeholder_of k = PREFIX @ k @ SUFFIX"

definition head_key :: "string \<Rightarrow> string option" where
  "head_key s = (if prefix PREFIX s then
      (let k = takeWhile is_key_char (drop 8 s) in
       if k \<noteq> [] \<and> prefix SUFFIX (drop (8 + length k) s) then Some k else None) else None)"

function subst_text :: "(string \<rightharpoonup> string) \<Rightarrow> string \<Rightarrow> string" where
  "subst_text rep s = (case s of [] \<Rightarrow> []
     | c # cs \<Rightarrow> (case head_key s of
          Some k \<Rightarrow> (case rep k of Some v \<Rightarrow> v | None \<Rightarrow> placeholder_of k)
                    @ subst_text rep (drop (length k + 10) s)
        | None \<Rightarrow> c # subst_text rep cs))"
  by pat_completeness auto
termination
  by (relation "measure (\<lambda>(rep, s). length s)") auto

declare subst_text.simps [simp del]

lemma key_char_not_brace [simp]: "\<not> is_key_char (CHR 0x7D)" "\<not> is_key_char (CHR 0x7B)"
  by (simp_all add: is_key_char_def is_ascii_alnum_def)

lemma head_key_Some:
  "head_key s = Some k \<longleftrightarrow> k \<noteq> [] \<and> list_all is_key_char k \<and> prefix (placeholder_of k) s"
proof
  assume "head_key s = Some k"
  then have p: "prefix PREFIX s" and k: "k = takeWhile is_key_char (drop 8 s)" "k \<noteq> []"
    and suf: "prefix SUFFIX (drop (8 + length k) s)"
    by (auto simp: head_key_def Let_def split: if_splits)
  obtain t where t: "s = PREFIX @ t" using p by (auto simp: prefix_def)
  have kt: "k = takeWhile is_key_char t" using k t by simp
  obtain u where u: "t = k @ u"
    using kt by (metis takeWhile_dropWhile_id)
  have "list_all is_key_char k" using kt by (auto simp: list_all_iff dest: set_takeWhileD)
  moreover have "prefix (placeholder_of k) s"
    using suf t u by (simp add: placeholder_of_def)
  ultimately show "k \<noteq> [] \<and> list_all is_key_char k \<and> prefix (placeholder_of k) s" using k(2) by blast
next
  assume *: "k \<noteq> [] \<and> list_all is_key_char k \<and> prefix (placeholder_of k) s"
  then obtain r where r: "s = PREFIX @ k @ SUFFIX @ r"
    by (auto simp: placeholder_of_def prefix_def)
  have "takeWhile is_key_char (k @ SUFFIX @ r) = k"
    using * by (subst takeWhile_append2) (auto simp: list_all_iff SUFFIX_def)
  then show "head_key s = Some k" using * r by (simp add: head_key_def)
qed

lemma prefix_no_overlap:
  assumes "prefix PREFIX s" "0 < j" "j < 8"
  shows "\<not> prefix PREFIX (drop j s)"
proof -
  obtain t where s: "s = PREFIX @ t" using assms(1) by (auto simp: prefix_def)
  have "j \<in> {1, 2, 3, 4, 5, 6, 7}" using assms(2,3) by auto
  then show ?thesis unfolding s PREFIX_def by auto
qed

lemma head_key_prefix: "head_key s = Some k \<Longrightarrow> prefix PREFIX s"
  by (auto simp: head_key_def split: if_splits)

lemma no_brace_inside:
  assumes "head_key s = Some k" "0 < j" "j < length k + 10"
  shows "head_key (drop j s) = None"
proof (rule ccontr)
  assume "head_key (drop j s) \<noteq> None"
  then have pj: "prefix PREFIX (drop j s)" using head_key_prefix by blast
  have ps: "prefix PREFIX s" using assms(1) by (rule head_key_prefix)
  obtain r where r: "s = PREFIX @ k @ SUFFIX @ r" and k: "list_all is_key_char k"
    using assms(1) by (auto simp: head_key_Some placeholder_of_def prefix_def)
  have "8 \<le> j" using prefix_no_overlap [OF ps assms(2)] pj by force
  let ?x = "k @ SUFFIX @ r"
  have js: "drop j s = drop (j - 8) ?x" using r \<open>8 \<le> j\<close> by simp
  have "?x ! (j - 8) \<noteq> CHR 0x7B"
  proof (cases "j - 8 < length k")
    case True
    then show ?thesis using k by (auto simp: nth_append list_all_length dest: spec [of _ "j - 8"])
  next
    case False
    then have "j - 8 - length k \<in> {0, 1}" using assms(3) \<open>8 \<le> j\<close> by auto
    then show ?thesis using False by (auto simp: nth_append SUFFIX_def)
  qed
  moreover have "drop (j - 8) ?x = CHR 0x7B # tl (drop (j - 8) ?x)"
    using pj unfolding js by (auto simp: prefix_def PREFIX_def)
  then have "?x ! (j - 8) = CHR 0x7B"
    by (metis drop_eq_Nil2 hd_drop_conv_nth linorder_not_less list.distinct(1) list.sel(1))
  ultimately show False by blast
qed

definition mk_ph :: "nat \<Rightarrow> string \<Rightarrow> placeholder" where
  "mk_ph i k = \<lparr> ph_key = k, ph_full_match = placeholder_of k, ph_start = i, ph_end = i + length k + 10 \<rparr>"

lemma head_key_length: "head_key s = Some k \<Longrightarrow> length k + 10 \<le> length s"
  by (auto simp: head_key_Some placeholder_of_def prefix_def)

lemma head_key_take: "head_key s = Some k \<Longrightarrow> take (length k + 10) s = placeholder_of k"
  by (auto simp: head_key_Some placeholder_of_def prefix_def)

text \<open>One turn of the scanning loops, in terms of the placeholder at the found prefix.\<close>

lemma key_end_head:
  assumes "prefix PREFIX (drop i tx)"
  shows "(key_end_from tx (i + 8) > i + 8 \<and> starts_with (drop (key_end_from tx (i + 8)) tx) SUFFIX)
      \<longleftrightarrow> head_key (drop i tx) \<noteq> None"
    "head_key (drop i tx) = Some k \<Longrightarrow> key_end_from tx (i + 8) = i + 8 + length k
      \<and> take (length k) (drop (i + 8) tx) = k"
proof -
  let ?k = "takeWhile is_key_char (drop (i + 8) tx)"
  have d: "drop 8 (drop i tx) = drop (i + 8) tx" by (simp add: add.commute)
  have d2: "drop (8 + length ?k) (drop i tx) = drop (i + 8 + length ?k) tx"
    by (simp add: ac_simps)
  have hk: "head_key (drop i tx)
      = (if ?k \<noteq> [] \<and> prefix SUFFIX (drop (i + 8 + length ?k) tx) then Some ?k else None)"
    by (simp only: head_key_def assms d d2 Let_def if_True)
  show "(key_end_from tx (i + 8) > i + 8 \<and> starts_with (drop (key_end_from tx (i + 8)) tx) SUFFIX)
      \<longleftrightarrow> head_key (drop i tx) \<noteq> None"
    by (simp add: hk key_end_from_def starts_with_def)
  assume "head_key (drop i tx) = Some k"
  then have "k = ?k" by (simp add: hk split: if_splits)
  then show "key_end_from tx (i + 8) = i + 8 + length k \<and> take (length k) (drop (i + 8) tx) = k"
    by (simp add: key_end_from_def) (metis takeWhile_eq_take)
qed

lemma scan_from_unfold:
  "scan_from tx c = (if c < length tx then
      (case str_find (drop c tx) PREFIX of None \<Rightarrow> []
       | Some off \<Rightarrow> (case head_key (drop (c + off) tx) of
            Some k \<Rightarrow> mk_ph (c + off) k # scan_from tx (c + off + length k + 10)
          | None \<Rightarrow> scan_from tx (c + off + 8)))
     else [])"
proof (cases "str_find (drop c tx) PREFIX")
  case None
  then show ?thesis by (subst scan_from.simps) simp
next
  case (Some off)
  let ?i = "c + off"
  have pre: "prefix PREFIX (drop ?i tx)"
    using prefix_drop_find [OF Some] by (simp add: add.commute)
  show ?thesis
  proof (cases "head_key (drop ?i tx)")
    case None
    then have "\<not> (key_end_from tx (?i + 8) > ?i + 8 \<and> starts_with (drop (key_end_from tx (?i + 8)) tx) SUFFIX)"
      using key_end_head(1) [OF pre] by simp
    then show ?thesis using Some None by (subst scan_from.simps) (auto simp: Let_def)
  next
    case k: (Some k)
    then have c: "key_end_from tx (?i + 8) > ?i + 8 \<and> starts_with (drop (key_end_from tx (?i + 8)) tx) SUFFIX"
      using key_end_head(1) [OF pre] by simp
    have e: "key_end_from tx (?i + 8) = ?i + 8 + length k" "take (length k) (drop (?i + 8) tx) = k"
      using key_end_head(2) [OF pre k] by simp_all
    have full: "take (length k + 10) (drop ?i tx) = placeholder_of k" using k by (rule head_key_take)
    have "\<lparr> ph_key = take (key_end_from tx (?i + 8) - (?i + 8)) (drop (?i + 8) tx),
        ph_full_match = take (key_end_from tx (?i + 8) + 2 - ?i) (drop ?i tx),
        ph_start = ?i, ph_end = key_end_from tx (?i + 8) + 2 \<rparr> = mk_ph ?i k"
      using e full by (simp add: mk_ph_def add.commute)
    then show ?thesis using Some k c e(1) by (subst scan_from.simps) (simp add: Let_def ac_simps)
  qed
qed

lemma contains_from_scan: "contains_from tx c \<longleftrightarrow> scan_from tx c \<noteq> []"
proof (induction tx c rule: contains_from.induct)
  case (1 tx c)
  show ?case
  proof (cases "str_find (drop c tx) PREFIX")
    case None
    then show ?thesis by (subst contains_from.simps, subst scan_from.simps) simp
  next
    case (Some off)
    then show ?thesis
      using "1.IH" [of off] by (subst contains_from.simps, subst scan_from.simps) (auto simp: Let_def)
  qed
qed

text \<open>Between the cursor and the next placeholder found there is none.\<close>

lemma no_head_before:
  assumes "str_find (drop c tx) PREFIX = Some off" "c \<le> i" "i < c + off"
  shows "head_key (drop i tx) = None"
proof (rule ccontr)
  assume "head_key (drop i tx) \<noteq> None"
  then have "prefix PREFIX (drop (i - c) (drop c tx))"
    using head_key_prefix assms(2) by auto
  moreover have "i - c < off" using assms by auto
  ultimately show False using str_find_Some(3) [OF assms(1)] by blast
qed

lemma no_head_at_all:
  assumes "str_find (drop c tx) PREFIX = None" "c \<le> i"
  shows "head_key (drop i tx) = None"
proof (rule ccontr)
  assume "head_key (drop i tx) \<noteq> None"
  then have "prefix PREFIX (drop (i - c) (drop c tx))"
    using head_key_prefix assms(2) by auto
  then have "sublist PREFIX (drop c tx)"
    by (meson prefix_imp_sublist sublist_drop sublist_order.order.trans)
  then show False using assms(1) by (simp add: str_find_None)
qed

lemma no_head_after_invalid:
  assumes "prefix PREFIX (drop i tx)" "head_key (drop i tx) = None" "i \<le> j" "j < i + 8"
  shows "head_key (drop j tx) = None"
proof (cases "j = i")
  case False
  then have "\<not> prefix PREFIX (drop (j - i) (drop i tx))"
    using prefix_no_overlap [OF assms(1), of "j - i"] assms(3,4) by simp
  then show ?thesis using assms(3) head_key_prefix by (cases "head_key (drop j tx)") fastforce+
qed (use assms in simp)

lemma no_head_inside:
  assumes "head_key (drop i tx) = Some k" "i < j" "j < i + length k + 10"
  shows "head_key (drop j tx) = None"
  using no_brace_inside [OF assms(1), of "j - i"] assms(2,3) by simp

section \<open>The scanner finds exactly the placeholders\<close>

lemma scan_from_set:
  "p \<in> set (scan_from tx c) \<longleftrightarrow> (\<exists>i k. c \<le> i \<and> head_key (drop i tx) = Some k \<and> p = mk_ph i k)"
proof (induction tx c rule: scan_from.induct)
  case (1 tx c)
  show ?case
  proof (cases "c < length tx")
    case False
    then show ?thesis by (subst scan_from.simps) (auto simp: head_key_def PREFIX_def)
  next
    case len: True
    show ?thesis
    proof (cases "str_find (drop c tx) PREFIX")
      case None
      have "scan_from tx c = []" using None by (simp add: scan_from_unfold [of tx c])
      moreover have "head_key (drop i tx) \<noteq> Some k" if "c \<le> i" for i k
        using no_head_at_all [OF None that] by simp
      ultimately show ?thesis by auto
    next
      case (Some off)
      let ?i = "c + off"
      have pre: "prefix PREFIX (drop ?i tx)"
        using prefix_drop_find [OF Some] by (simp add: add.commute)
      show ?thesis
      proof (cases "head_key (drop ?i tx)")
        case None
        then have nc: "\<not> (key_end_from tx (?i + 8) > ?i + 8 \<and> starts_with (drop (key_end_from tx (?i + 8)) tx) SUFFIX)"
          using key_end_head(1) [OF pre] by simp
        have ih: "p \<in> set (scan_from tx (?i + 8))
          \<longleftrightarrow> (\<exists>i k. ?i + 8 \<le> i \<and> head_key (drop i tx) = Some k \<and> p = mk_ph i k)"
          using "1.IH"(2) [OF len Some refl refl] nc by simp
        have skip: "head_key (drop j tx) = None" if "c \<le> j" "j < ?i + 8" for j
          using no_head_before [OF Some that(1)] no_head_after_invalid [OF pre None, of j] that
          by (cases "j < ?i") auto
        have eq: "scan_from tx c = scan_from tx (?i + 8)"
          using len Some None by (simp add: scan_from_unfold [of tx c])
        have "c \<le> i \<longleftrightarrow> ?i + 8 \<le> i" if "head_key (drop i tx) = Some k" for i k
          using skip [of i] that by (cases "i < ?i + 8") auto
        then show ?thesis using ih unfolding eq by blast
      next
        case k: (Some k)
        then have c: "key_end_from tx (?i + 8) > ?i + 8 \<and> starts_with (drop (key_end_from tx (?i + 8)) tx) SUFFIX"
          using key_end_head(1) [OF pre] by simp
        have e: "key_end_from tx (?i + 8) = ?i + 8 + length k"
          using key_end_head(2) [OF pre k] by simp
        have ih: "p \<in> set (scan_from tx (?i + length k + 10))
          \<longleftrightarrow> (\<exists>i k'. ?i + length k + 10 \<le> i \<and> head_key (drop i tx) = Some k' \<and> p = mk_ph i k')"
          using "1.IH"(1) [OF len Some refl refl] c e by (simp add: ac_simps)
        have skip: "head_key (drop j tx) = None" if "c \<le> j" "j < ?i + length k + 10" "j \<noteq> ?i" for j
          using no_head_before [OF Some that(1)] no_head_inside [OF k, of j] that
          by (cases "j < ?i") auto
        have eq: "scan_from tx c = mk_ph ?i k # scan_from tx (?i + length k + 10)"
          using len Some k by (simp add: scan_from_unfold [of tx c])
        have "c \<le> i \<longleftrightarrow> i = ?i \<or> ?i + length k + 10 \<le> i" if "head_key (drop i tx) = Some k'" for i k'
          using skip [of i] that by (cases "i < ?i + length k + 10"; cases "i = ?i") auto
        then have "(\<exists>i k'. c \<le> i \<and> head_key (drop i tx) = Some k' \<and> p = mk_ph i k') \<longleftrightarrow> p = mk_ph ?i k
            \<or> (\<exists>i k'. ?i + length k + 10 \<le> i \<and> head_key (drop i tx) = Some k' \<and> p = mk_ph i k')"
          using k by (metis option.inject)
        then show ?thesis using ih by (simp add: eq)
      qed
    qed
  qed
qed

lemma scan_from_sorted:
  "sorted_wrt (\<lambda>p q. ph_end p \<le> ph_start q) (scan_from tx c)"
proof (induction tx c rule: scan_from.induct)
  case (1 tx c)
  show ?case
  proof (cases "c < length tx \<and> str_find (drop c tx) PREFIX \<noteq> None")
    case True
    then obtain off where off: "str_find (drop c tx) PREFIX = Some off" and len: "c < length tx" by auto
    let ?i = "c + off"
    have pre: "prefix PREFIX (drop ?i tx)"
      using prefix_drop_find [OF off] by (simp add: add.commute)
    show ?thesis
    proof (cases "head_key (drop ?i tx)")
      case None
      then have "sorted_wrt (\<lambda>p q. ph_end p \<le> ph_start q) (scan_from tx (?i + 8))"
        using "1.IH"(2) [OF len off refl refl] key_end_head(1) [OF pre] by simp
      then show ?thesis using len off None by (subst scan_from_unfold) simp
    next
      case (Some k)
      then have "sorted_wrt (\<lambda>p q. ph_end p \<le> ph_start q) (scan_from tx (?i + length k + 10))"
        using "1.IH"(1) [OF len off refl refl] key_end_head(1) [OF pre] key_end_head(2) [OF pre Some] by (simp add: ac_simps)
      then show ?thesis
        using len off Some by (subst scan_from_unfold) (auto simp: scan_from_set mk_ph_def)
    qed
  qed (auto simp: scan_from_unfold [of tx c] split: option.splits)
qed

text \<open>The scanner finds every placeholder and nothing else.  The scanned list is in
  text order without overlaps, and it holds exactly the occurrences of the prefix, a
  non-empty run of ASCII letters, digits and underscores, and the suffix, each with its
  key, its full text and its two positions.\<close>

theorem scan_placeholders_exact:
  "sorted_wrt (\<lambda>p q. ph_end p \<le> ph_start q) (scan_placeholders tx)
   \<and> set (scan_placeholders tx) =
      {\<lparr> ph_key = k, ph_full_match = placeholder_of k, ph_start = i, ph_end = i + length (placeholder_of k) \<rparr>
       | i k. k \<noteq> [] \<and> list_all is_key_char k \<and> take (length (placeholder_of k)) (drop i tx) = placeholder_of k}"
proof -
  have len: "length (placeholder_of k) = length k + 10" for k by (simp add: placeholder_of_def)
  have hk: "head_key (drop i tx) = Some k \<longleftrightarrow> k \<noteq> [] \<and> list_all is_key_char k
      \<and> take (length (placeholder_of k)) (drop i tx) = placeholder_of k" for i k
    by (auto simp: head_key_Some prefix_def) (metis append_take_drop_id)
  have "set (scan_placeholders tx) = {mk_ph i k | i k. head_key (drop i tx) = Some k}"
    unfolding set_eq_iff scan_placeholders_def scan_from_set mem_Collect_eq by blast
  then show ?thesis
    using scan_from_sorted [of tx 0] by (auto simp: scan_placeholders_def mk_ph_def hk len)
qed

text \<open>The cheap containment test agrees with the scanner: it answers yes exactly when
  the scanner returns at least one placeholder.\<close>

theorem contains_placeholders_iff:
  "contains_placeholders tx \<longleftrightarrow> scan_placeholders tx \<noteq> []"
  by (simp add: contains_placeholders_def scan_placeholders_def contains_from_scan)

section \<open>Replacement is substitution\<close>

lemma subst_text_skip:
  assumes "\<And>j. j < n \<Longrightarrow> head_key (drop j s) = None" "n \<le> length s"
  shows "subst_text rep s = take n s @ subst_text rep (drop n s)"
  using assms
proof (induction n arbitrary: s)
  case (Suc n)
  then obtain c cs where s: "s = c # cs" by (cases s) auto
  have "head_key s = None" using Suc.prems(1) [of 0] by simp
  then have "subst_text rep s = c # subst_text rep cs" by (subst subst_text.simps) (simp add: s)
  moreover have "head_key (drop j cs) = None" if "j < n" for j
    using Suc.prems(1) [of "Suc j"] that s by simp
  then have "subst_text rep cs = take n cs @ subst_text rep (drop n cs)"
    using Suc.IH [of cs] Suc.prems(2) s by simp
  ultimately show ?case by (simp add: s)
qed simp

lemma subst_text_skip_at:
  assumes "\<And>j. c \<le> j \<Longrightarrow> j < d \<Longrightarrow> head_key (drop j tx) = None" "c \<le> d" "d \<le> length tx"
  shows "subst_text rep (drop c tx) = take (d - c) (drop c tx) @ subst_text rep (drop d tx)"
proof -
  have "subst_text rep (drop c tx)
      = take (d - c) (drop c tx) @ subst_text rep (drop (d - c) (drop c tx))"
  proof (rule subst_text_skip)
    fix j assume "j < d - c"
    then show "head_key (drop j (drop c tx)) = None"
      using assms(1) [of "c + j"] by (simp add: add.commute)
  qed (use assms in simp)
  then show ?thesis using assms(2) by simp
qed

lemma subst_text_head:
  assumes "head_key s = Some k"
  shows "subst_text rep s = (case rep k of Some v \<Rightarrow> v | None \<Rightarrow> placeholder_of k)
    @ subst_text rep (drop (length k + 10) s)"
  using assms head_key_length [OF assms] by (subst subst_text.simps) (cases s, auto)

lemma take_drop_join:
  assumes "e \<le> c" "c \<le> d"
  shows "take (c - e) (drop e xs) @ take (d - c) (drop c xs) = take (d - e) (drop e xs)"
proof -
  have "take ((c - e) + (d - c)) (drop e xs) = take (c - e) (drop e xs) @ take (d - c) (drop (c - e) (drop e xs))"
    by (rule take_add)
  then show ?thesis using assms by simp
qed

lemma splice_scan:
  assumes "e \<le> c" "c \<le> length tx"
  shows "splice tx rep (scan_from tx c) e = take (c - e) (drop e tx) @ subst_text rep (drop c tx)"
  using assms
proof (induction tx c arbitrary: e rule: scan_from.induct)
  case (1 tx c)
  show ?case
  proof (cases "str_find (drop c tx) PREFIX")
    case None
    then have "scan_from tx c = []" by (simp add: scan_from_unfold [of tx c])
    moreover have "subst_text rep (drop c tx) = take (length tx - c) (drop c tx) @ subst_text rep (drop (length tx) tx)"
      by (rule subst_text_skip_at) (use no_head_at_all [OF None] "1.prems" in auto)
    moreover have "subst_text rep [] = []" by (subst subst_text.simps) simp
    ultimately show ?thesis
      using take_drop_join [of e c "length tx" tx] "1.prems" by simp
  next
    case (Some off)
    then have len: "c < length tx" using str_find_Some(1) [OF Some] by simp
    let ?i = "c + off"
    have pre: "prefix PREFIX (drop ?i tx)"
      using prefix_drop_find [OF Some] by (simp add: add.commute)
    have i8: "?i + 8 \<le> length tx" using str_find_Some(1) [OF Some] by simp
    show ?thesis
    proof (cases "head_key (drop ?i tx)")
      case None
      have "splice tx rep (scan_from tx (?i + 8)) e
          = take (?i + 8 - e) (drop e tx) @ subst_text rep (drop (?i + 8) tx)"
        using "1.IH"(2) [OF len Some refl refl] key_end_head(1) [OF pre] None i8 "1.prems" by simp
      moreover have "subst_text rep (drop c tx)
          = take (?i + 8 - c) (drop c tx) @ subst_text rep (drop (?i + 8) tx)"
      proof (rule subst_text_skip_at)
        fix j assume "c \<le> j" "j < ?i + 8"
        then show "head_key (drop j tx) = None"
          using no_head_before [OF Some] no_head_after_invalid [OF pre None, of j]
          by (cases "j < ?i") auto
      qed (use i8 in auto)
      ultimately show ?thesis
        using take_drop_join [of e c "?i + 8" tx] "1.prems" len Some None
        by (simp add: scan_from_unfold [of tx c])
    next
      case k: (Some k)
      have fin: "?i + length k + 10 \<le> length tx" using head_key_length [OF k] i8 by simp
      have cond: "key_end_from tx (?i + length PREFIX) > ?i + length PREFIX
          \<and> starts_with (drop (key_end_from tx (?i + length PREFIX)) tx) SUFFIX"
        using key_end_head(1) [OF pre] k by simp
      have ke: "key_end_from tx (?i + length PREFIX) + length SUFFIX = ?i + length k + 10"
        using key_end_head(2) [OF pre k] by simp
      have ih: "splice tx rep (scan_from tx (?i + length k + 10)) (?i + length k + 10)
          = subst_text rep (drop (?i + length k + 10) tx)"
        using "1.IH"(1) [OF len Some refl refl refl cond, unfolded ke, OF order_refl fin] by simp
      have "subst_text rep (drop c tx) = take (?i - c) (drop c tx) @ subst_text rep (drop ?i tx)"
        by (rule subst_text_skip_at) (use no_head_before [OF Some] i8 in auto)
      moreover have "drop (length k + 10) (drop ?i tx) = drop (?i + length k + 10) tx"
        by (simp add: ac_simps)
      ultimately show ?thesis
        using take_drop_join [of e c ?i tx, symmetric] "1.prems" len Some k ih subst_text_head [OF k, of rep]
        by (cases "rep k") (simp_all add: scan_from_unfold [of tx c] mk_ph_def)
    qed
  qed
qed

lemma replace_splice: "replace_placeholders tx rep = splice tx rep (scan_placeholders tx) 0"
  by (simp add: replace_placeholders_def Let_def)

text \<open>Replacement is the left-to-right substitution.  The replacing loop, with its list
  of placeholders and copied slices, computes what reading the text once from the left
  gives: a placeholder becomes its value, or itself when the key has none, everything
  else is copied, and inserted values are never scanned again.\<close>

theorem replace_placeholders_subst:
  "replace_placeholders tx rep = subst_text rep tx"
  using splice_scan [of 0 0 tx rep] by (simp add: replace_splice scan_placeholders_def)

lemma subst_text_empty: "subst_text Map.empty s = s"
proof (induction s rule: length_induct)
  case (1 s)
  show ?case
  proof (cases "head_key s")
    case None
    then show ?thesis using 1 by (subst subst_text.simps) (auto split: list.split)
  next
    case (Some k)
    then have "length (drop (length k + 10) s) < length s" using head_key_length [OF Some] by simp
    then show ?thesis
      using 1 Some head_key_take [OF Some] subst_text_head [OF Some, of Map.empty]
      by (metis append_take_drop_id option.simps(4))
  qed
qed

end
