(* ===== verification/Vault_Store.thy ===== *)
theory Vault_Store
  imports Vault_Scanner "HOL-Library.AList"
begin

text \<open>
  The encrypted vault (engine/src/vault/core/store.rs, core/error.rs, the parameter
  record of core/crypto.rs) and the injector of secrets into chat messages
  (injector.rs).  Argon2 and XChaCha20-Poly1305 are the operations of the record
  \<open>crypto_ops\<close>; serde_json is the pair \<open>ser\<close>, \<open>de\<close>.  The entries of the HashMap are
  an association list with distinct keys, in its iteration order; the file is its
  content; random salts and nonces, the clock and the faults of a file write are
  arguments.
\<close>

section \<open>Errors, timestamps, entries\<close>

datatype vault_error =
    NotFound string
  | AlreadyExists string
  | InvalidKey string
  | VaultIo string
  | VaultSerialization string
  | Encryption string
  | LockError string
  | Locked
  | InvalidPassword
  | Migration string
  | Corrupted string

text \<open>Unix seconds; 0 stands for "never".\<close>

type_synonym atomic_timestamp = int

definition ts_none :: atomic_timestamp where
  "ts_none = 0"

definition ts_from_option :: "int option \<Rightarrow> atomic_timestamp" where
  "ts_from_option t = (case t of None \<Rightarrow> 0 | Some s \<Rightarrow> s)"

definition ts_touch :: "int \<Rightarrow> atomic_timestamp" where
  "ts_touch now = now"

definition ts_get :: "atomic_timestamp \<Rightarrow> int option" where
  "ts_get t = (if t = 0 then None else Some t)"

record vault_metadata =
  vm_key :: string
  vm_description :: "string option"
  vm_created_at :: int
  vm_last_used :: "int option"

record vault_entry =
  ve_key :: string
  ve_encrypted_value :: string
  ve_nonce :: string
  ve_description :: "string option"
  ve_created_at :: int
  ve_last_used :: atomic_timestamp

definition metadata_of :: "vault_entry \<Rightarrow> vault_metadata" where
  "metadata_of e = \<lparr> vm_key = ve_key e, vm_description = ve_description e,
     vm_created_at = ve_created_at e, vm_last_used = ts_get (ve_last_used e) \<rparr>"

record kdf_params =
  kdf_algorithm :: string
  kdf_salt :: string
  kdf_memory_cost :: u32
  kdf_time_cost :: u32
  kdf_parallelism :: u32

definition kdf_with_salt :: "string \<Rightarrow> kdf_params" where
  "kdf_with_salt salt = \<lparr> kdf_algorithm = ''argon2id'', kdf_salt = salt, kdf_memory_cost = 65536,
     kdf_time_cost = 3, kdf_parallelism = 4 \<rparr>"

record vault_file =
  vf_version :: u32
  vf_kdf :: kdf_params
  vf_entries :: "(string \<times> vault_entry) list"

definition VAULT_VERSION :: u32 where
  "VAULT_VERSION = 2"

record 'k crypto_ops =
  co_derive :: "string \<Rightarrow> kdf_params \<Rightarrow> vault_error + 'k"
  co_encrypt :: "'k \<Rightarrow> string \<Rightarrow> string \<Rightarrow> vault_error + string \<times> string"
  co_decrypt :: "'k \<Rightarrow> string \<Rightarrow> string \<Rightarrow> vault_error + string"

section \<open>The store\<close>

record 'k vault_store =
  vs_in_memory :: bool
  vs_file :: "string option"
  vs_entries :: "(string \<times> vault_entry) list"
  vs_crypto :: "'k option"
  vs_kdf_params :: "kdf_params option"

type_synonym write_fault = "(string \<times> string option) option"

definition vault_new_in_memory :: "'k vault_store" where
  "vault_new_in_memory = \<lparr> vs_in_memory = True, vs_file = None, vs_entries = [],
     vs_crypto = None, vs_kdf_params = None \<rparr>"

definition is_locked :: "'k vault_store \<Rightarrow> bool" where
  "is_locked s = (vs_crypto s = None)"

definition validate_key :: "string \<Rightarrow> vault_error + unit" where
  "validate_key key =
     (if key = [] then Inl (InvalidKey ''Key cannot be empty'')
      else if \<not> list_all (\<lambda>c. is_ascii_alnum c \<or> c = CHR ''_'') key
      then Inl (InvalidKey ''Key must contain only alphanumeric characters and underscores'')
      else Inr ())"

definition write_vault_file ::
  "(vault_file \<Rightarrow> string + string) \<Rightarrow> write_fault \<Rightarrow> vault_file \<Rightarrow> 'k vault_store
   \<Rightarrow> (vault_error + unit) \<times> 'k vault_store" where
  "write_vault_file ser io file s =
     (case ser file of
        Inl e \<Rightarrow> (Inl (VaultSerialization e), s)
      | Inr content \<Rightarrow>
          (case io of
             Some (e, left) \<Rightarrow> (Inl (VaultIo e), s \<lparr> vs_file := left \<rparr>)
           | None \<Rightarrow> (Inr (), s \<lparr> vs_file := Some content \<rparr>)))"

definition persist where
  "persist ser io s =
     (if vs_in_memory s then (Inr (), s)
      else case vs_kdf_params s of
        None \<Rightarrow> (Inl (Migration ''KDF params not set''), s)
      | Some params \<Rightarrow>
          write_vault_file ser io \<lparr> vf_version = VAULT_VERSION, vf_kdf = params, vf_entries = vs_entries s \<rparr> s)"

definition persist_header where
  "persist_header ser io params s =
     (if vs_in_memory s then (Inr (), s)
      else write_vault_file ser io \<lparr> vf_version = VAULT_VERSION, vf_kdf = params, vf_entries = [] \<rparr> s)"

definition vault_load ::
  "(string \<Rightarrow> string + vault_file) \<Rightarrow> string option \<Rightarrow> 'k vault_store
   \<Rightarrow> (vault_error + unit) \<times> 'k vault_store" where
  "vault_load de read_error s =
     (if vs_in_memory s then (Inr (), s)
      else case vs_file s of
        None \<Rightarrow> (Inr (), s)
      | Some content \<Rightarrow>
          (case read_error of
             Some e \<Rightarrow> (Inl (VaultIo e), s)
           | None \<Rightarrow>
               if trim content = [] then (Inr (), s)
               else (case de content of
                       Inl e \<Rightarrow> (Inl (VaultIo e), s)
                     | Inr file \<Rightarrow>
                         if vf_version file \<noteq> VAULT_VERSION
                         then (Inl (VaultIo (''Unsupported vault version: '' @ show_nat (unat (vf_version file)))), s)
                         else (Inr (), s \<lparr> vs_entries := vf_entries file, vs_kdf_params := Some (vf_kdf file) \<rparr>))))"

text \<open>\<open>content\<close>: what the vault path holds; \<open>mkdir_error\<close>: creating its directory fails.\<close>

definition vault_with_path where
  "vault_with_path de mkdir_error read_error content =
     (case mkdir_error of
        Some e \<Rightarrow> Inl (VaultIo e)
      | None \<Rightarrow>
          (case vault_load de read_error \<lparr> vs_in_memory = False, vs_file = content, vs_entries = [],
                  vs_crypto = None, vs_kdf_params = None \<rparr> of
             (Inl e, _) \<Rightarrow> Inl e
           | (Inr _, s) \<Rightarrow> Inr s))"

definition unlock ::
  "'k crypto_ops \<Rightarrow> (vault_file \<Rightarrow> string + string) \<Rightarrow> write_fault \<Rightarrow> string \<Rightarrow> string
   \<Rightarrow> 'k vault_store \<Rightarrow> (vault_error + unit) \<times> 'k vault_store" where
  "unlock ops ser io salt password s =
     (case vs_kdf_params s of
        Some params \<Rightarrow>
          (case co_derive ops password params of
             Inl e \<Rightarrow> (Inl e, s)
           | Inr k \<Rightarrow> (Inr (), s \<lparr> vs_crypto := Some k \<rparr>))
      | None \<Rightarrow>
          (let params = kdf_with_salt salt in
           case co_derive ops password params of
             Inl e \<Rightarrow> (Inl e, s)
           | Inr k \<Rightarrow>
               (case persist_header ser io params (s \<lparr> vs_crypto := Some k \<rparr>) of
                  (Inl e, s1) \<Rightarrow> (Inl e, s1)
                | (Inr _, s1) \<Rightarrow> (Inr (), s1 \<lparr> vs_kdf_params := Some params \<rparr>))))"

definition vault_get ::
  "'k crypto_ops \<Rightarrow> int \<Rightarrow> string \<Rightarrow> 'k vault_store \<Rightarrow> string option \<times> 'k vault_store" where
  "vault_get ops now key s =
     (case vs_crypto s of
        None \<Rightarrow> (None, s)
      | Some k \<Rightarrow>
          (case map_of (vs_entries s) key of
             None \<Rightarrow> (None, s)
           | Some e \<Rightarrow>
               (case co_decrypt ops k (ve_encrypted_value e) (ve_nonce e) of
                  Inr v \<Rightarrow> (Some v, s \<lparr> vs_entries :=
                     AList.update key (e \<lparr> ve_last_used := ts_touch now \<rparr>) (vs_entries s) \<rparr>)
                | Inl _ \<Rightarrow> (None, s))))"

text \<open>The resolving loop: the first placeholder without a value ends it.\<close>

fun collect_values ::
  "'k crypto_ops \<Rightarrow> int \<Rightarrow> placeholder list \<Rightarrow> (string \<rightharpoonup> string) \<Rightarrow> 'k vault_store
   \<Rightarrow> (vault_error + (string \<rightharpoonup> string)) \<times> 'k vault_store" where
  "collect_values ops now [] rep s = (Inr rep, s)"
| "collect_values ops now (p # ps) rep s =
     (case vault_get ops now (ph_key p) s of
        (Some v, s1) \<Rightarrow> collect_values ops now ps (rep(ph_key p \<mapsto> v)) s1
      | (None, s1) \<Rightarrow> (Inl (NotFound (ph_key p)), s1))"

definition resolve_text ::
  "'k crypto_ops \<Rightarrow> int \<Rightarrow> string \<Rightarrow> 'k vault_store \<Rightarrow> (vault_error + string) \<times> 'k vault_store" where
  "resolve_text ops now tx s =
     (if \<not> contains_placeholders tx then (Inr tx, s)
      else if is_locked s then (Inl Locked, s)
      else case collect_values ops now (scan_placeholders tx) Map.empty s of
        (Inl e, s1) \<Rightarrow> (Inl e, s1)
      | (Inr rep, s1) \<Rightarrow> (Inr (replace_placeholders tx rep), s1))"

definition vault_set ::
  "'k crypto_ops \<Rightarrow> (vault_file \<Rightarrow> string + string) \<Rightarrow> write_fault \<Rightarrow> int \<Rightarrow> string
   \<Rightarrow> string \<Rightarrow> string \<Rightarrow> string option \<Rightarrow> 'k vault_store
   \<Rightarrow> (vault_error + unit) \<times> 'k vault_store" where
  "vault_set ops ser io now nonce key v description s =
     (case validate_key key of
        Inl e \<Rightarrow> (Inl e, s)
      | Inr _ \<Rightarrow>
          (case vs_crypto s of
             None \<Rightarrow> (Inl Locked, s)
           | Some k \<Rightarrow>
               (case co_encrypt ops k nonce v of
                  Inl e \<Rightarrow> (Inl e, s)
                | Inr (ct, n) \<Rightarrow>
                    (let created = (case map_of (vs_entries s) key of Some e \<Rightarrow> ve_created_at e | None \<Rightarrow> now);
                         entry = \<lparr> ve_key = key, ve_encrypted_value = ct, ve_nonce = n,
                                   ve_description = description, ve_created_at = created,
                                   ve_last_used = ts_none \<rparr>
                     in persist ser io (s \<lparr> vs_entries := AList.update key entry (vs_entries s) \<rparr>)))))"

definition list_keys :: "'k vault_store \<Rightarrow> vault_metadata list" where
  "list_keys s = map (metadata_of \<circ> snd) (vs_entries s)"

definition vault_delete ::
  "(vault_file \<Rightarrow> string + string) \<Rightarrow> write_fault \<Rightarrow> string \<Rightarrow> 'k vault_store
   \<Rightarrow> (vault_error + bool) \<times> 'k vault_store" where
  "vault_delete ser io key s =
     (case map_of (vs_entries s) key of
        None \<Rightarrow> (Inr False, s)
      | Some _ \<Rightarrow>
          (case persist ser io (s \<lparr> vs_entries := AList.delete key (vs_entries s) \<rparr>) of
             (Inl e, s1) \<Rightarrow> (Inl e, s1)
           | (Inr _, s1) \<Rightarrow> (Inr True, s1)))"

definition vault_exists :: "string \<Rightarrow> 'k vault_store \<Rightarrow> bool" where
  "vault_exists key s = (map_of (vs_entries s) key \<noteq> None)"

definition vault_len :: "'k vault_store \<Rightarrow> nat" where
  "vault_len s = length (vs_entries s)"

definition vault_version :: "'k vault_store \<Rightarrow> nat" where
  "vault_version s = (if vs_kdf_params s \<noteq> None then 2 else 0)"

section \<open>Changing the master password\<close>

fun decrypt_all ::
  "'k crypto_ops \<Rightarrow> 'k \<Rightarrow> (string \<times> vault_entry) list \<Rightarrow> vault_error + (string \<times> string \<times> vault_entry) list" where
  "decrypt_all ops k [] = Inr []"
| "decrypt_all ops k ((key, e) # es) =
     (case co_decrypt ops k (ve_encrypted_value e) (ve_nonce e) of
        Inl err \<Rightarrow> Inl err
      | Inr v \<Rightarrow> bind_res (decrypt_all ops k es) (\<lambda>vs. Inr ((key, v, e) # vs)))"

fun encrypt_all ::
  "'k crypto_ops \<Rightarrow> 'k \<Rightarrow> string list \<Rightarrow> (string \<times> string \<times> vault_entry) list
   \<Rightarrow> vault_error + (string \<times> vault_entry) list" where
  "encrypt_all ops k nonces [] = Inr []"
| "encrypt_all ops k nonces ((key, v, e) # vs) =
     (case co_encrypt ops k (case nonces of n # _ \<Rightarrow> n | [] \<Rightarrow> []) v of
        Inl err \<Rightarrow> Inl err
      | Inr (ct, n) \<Rightarrow> bind_res (encrypt_all ops k (tl nonces) vs)
          (\<lambda>es. Inr ((key, \<lparr> ve_key = key, ve_encrypted_value = ct, ve_nonce = n,
              ve_description = ve_description e, ve_created_at = ve_created_at e,
              ve_last_used = ts_none \<rparr>) # es)))"

text \<open>\<open>salt\<close>, \<open>salt'\<close>: the salts drawn by unlock and by step 3; \<open>nonces\<close>: one per entry.\<close>

definition rekey where
  "rekey ops ser io io' salt salt' nonces old_password new_password s =
     (case unlock ops ser io salt old_password s of
        (Inl e, s1) \<Rightarrow> (Inl e, s1)
      | (Inr _, s1) \<Rightarrow>
          (case vs_crypto s1 of
             None \<Rightarrow> (Inl Locked, s1)
           | Some k \<Rightarrow>
               (case decrypt_all ops k (vs_entries s1) of
                  Inl e \<Rightarrow> (Inl e, s1)
                | Inr plain \<Rightarrow>
                    (case co_derive ops new_password (kdf_with_salt salt') of
                       Inl e \<Rightarrow> (Inl e, s1)
                     | Inr k' \<Rightarrow>
                         (case encrypt_all ops k' nonces plain of
                            Inl e \<Rightarrow> (Inl e, s1)
                          | Inr es \<Rightarrow> persist ser io' (s1 \<lparr> vs_entries := es,
                              vs_kdf_params := Some (kdf_with_salt salt'), vs_crypto := Some k' \<rparr>))))))"

section \<open>Injection into messages\<close>

record injection_report =
  ir_messages_modified :: nat
  ir_keys_used :: "string list"
  ir_missing_keys :: "string list"
  ir_injected_values :: "string list"

definition empty_report :: injection_report where
  "empty_report = \<lparr> ir_messages_modified = 0, ir_keys_used = [], ir_missing_keys = [], ir_injected_values = [] \<rparr>"

text \<open>A chat message is its optional content here; the HashSet of keys iterates in
  the order \<open>order\<close> gives.\<close>

definition needed_keys :: "string option list \<Rightarrow> string list" where
  "needed_keys msgs = remdups (concat (map (\<lambda>m. case m of None \<Rightarrow> []
     | Some c \<Rightarrow> map ph_key (scan_placeholders c)) msgs))"

fun look_up_keys ::
  "'k crypto_ops \<Rightarrow> int \<Rightarrow> string list \<Rightarrow> (string \<rightharpoonup> string) \<Rightarrow> injection_report \<Rightarrow> 'k vault_store
   \<Rightarrow> (string \<rightharpoonup> string) \<times> injection_report \<times> 'k vault_store" where
  "look_up_keys ops now [] rep r s = (rep, r, s)"
| "look_up_keys ops now (key # keys) rep r s =
     (case vault_get ops now key s of
        (Some v, s1) \<Rightarrow> look_up_keys ops now keys (rep(key \<mapsto> v))
           (r \<lparr> ir_keys_used := ir_keys_used r @ [key], ir_injected_values := ir_injected_values r @ [v] \<rparr>) s1
      | (None, s1) \<Rightarrow> look_up_keys ops now keys rep
           (r \<lparr> ir_missing_keys := ir_missing_keys r @ [key] \<rparr>) s1)"

fun replace_messages :: "(string \<rightharpoonup> string) \<Rightarrow> string option list \<Rightarrow> string option list \<times> nat" where
  "replace_messages rep [] = ([], 0)"
| "replace_messages rep (m # ms) =
     (let (ms', n) = replace_messages rep ms in
      case m of None \<Rightarrow> (None # ms', n)
      | Some c \<Rightarrow> (let c' = replace_placeholders c rep in
          if c' \<noteq> c then (Some c' # ms', Suc n) else (Some c # ms', n)))"

definition inject where
  "inject ops now order msgs s =
     (let keys = order (needed_keys msgs) in
      if keys = [] then (empty_report, msgs, s)
      else (let (rep, r, s1) = look_up_keys ops now keys Map.empty empty_report s;
                (msgs', n) = replace_messages rep msgs
            in (r \<lparr> ir_messages_modified := n \<rparr>, msgs', s1)))"

definition inject_scan :: "string option list \<Rightarrow> string set" where
  "inject_scan msgs = set (needed_keys msgs)"

definition has_placeholders :: "string option list \<Rightarrow> bool" where
  "has_placeholders msgs = list_ex (\<lambda>m. case m of None \<Rightarrow> False
     | Some c \<Rightarrow> scan_placeholders c \<noteq> []) msgs"

section \<open>Entries are a keyed map\<close>

definition entry_of :: "'k vault_store \<Rightarrow> string \<Rightarrow> vault_entry option" where
  "entry_of s key = map_of (vs_entries s) key"

definition put_entry :: "string \<Rightarrow> vault_entry \<Rightarrow> 'k vault_store \<Rightarrow> 'k vault_store" where
  "put_entry key e s = s \<lparr> vs_entries := AList.update key e (vs_entries s) \<rparr>"

definition remove_entry :: "string \<Rightarrow> 'k vault_store \<Rightarrow> 'k vault_store" where
  "remove_entry key s = s \<lparr> vs_entries := AList.delete key (vs_entries s) \<rparr>"

interpretation vault_entries: keyed_map entry_of put_entry remove_entry
  by unfold_locales (simp_all add: entry_of_def put_entry_def remove_entry_def update_conv' delete_conv')

text \<open>What a lookup returns, without its effect on the time stamp.\<close>

definition get_value :: "'k crypto_ops \<Rightarrow> 'k vault_store \<Rightarrow> string \<Rightarrow> string option" where
  "get_value ops s key = fst (vault_get ops 0 key s)"

definition entry_value :: "'k crypto_ops \<Rightarrow> 'k \<Rightarrow> vault_entry \<Rightarrow> string option" where
  "entry_value ops k e = (case co_decrypt ops k (ve_encrypted_value e) (ve_nonce e) of
     Inr v \<Rightarrow> Some v | Inl _ \<Rightarrow> None)"

lemma fst_vault_get: "fst (vault_get ops now key s) = get_value ops s key"
  by (auto simp: get_value_def vault_get_def split: option.splits sum.splits)

lemma get_value_eq: "get_value ops s key = (case vs_crypto s of None \<Rightarrow> None
    | Some k \<Rightarrow> (case entry_of s key of None \<Rightarrow> None | Some e \<Rightarrow> entry_value ops k e))"
  by (auto simp: get_value_def vault_get_def entry_of_def entry_value_def split: option.splits sum.splits)

lemma get_value_touch [simp]:
  "get_value ops (snd (vault_get ops now key s)) key' = get_value ops s key'"
  by (auto simp: get_value_eq vault_get_def entry_of_def entry_value_def update_conv'
      split: option.splits sum.splits)

lemma is_locked_touch [simp]: "is_locked (snd (vault_get ops now key s)) = is_locked s"
  by (auto simp: is_locked_def vault_get_def split: option.splits sum.splits)

section \<open>Resolving placeholders\<close>

lemma splice_cong:
  "(\<And>p. p \<in> set ps \<Longrightarrow> rep (ph_key p) = rep' (ph_key p)) \<Longrightarrow> splice tx rep ps e = splice tx rep' ps e"
  by (induction ps arbitrary: e) auto

lemma subst_text_cong:
  "(\<And>p. p \<in> set (scan_placeholders tx) \<Longrightarrow> rep (ph_key p) = rep' (ph_key p))
     \<Longrightarrow> replace_placeholders tx rep = replace_placeholders tx rep'"
  unfolding replace_splice by (rule splice_cong)

lemma collect_values_result:
  "fst (collect_values ops now ps rep s) =
     (case find (\<lambda>p. get_value ops s (ph_key p) = None) ps of
        Some p \<Rightarrow> Inl (NotFound (ph_key p))
      | None \<Rightarrow> Inr (\<lambda>k. if k \<in> ph_key ` set ps then get_value ops s k else rep k))"
proof (induction ps arbitrary: rep s)
  case (Cons p ps)
  obtain r s1 where r: "vault_get ops now (ph_key p) s = (r, s1)" by fastforce
  then have rv: "r = get_value ops s (ph_key p)" and s1: "get_value ops s1 k = get_value ops s k" for k
    using fst_vault_get [of ops now "ph_key p" s] get_value_touch [of ops now "ph_key p" s k] by simp_all
  show ?case
  proof (cases r)
    case None
    then show ?thesis using r rv by simp
  next
    case (Some v)
    have gv: "get_value ops s (ph_key p) = Some v" using Some rv by simp
    have fnd: "find (\<lambda>q. get_value ops s (ph_key q) = None) ps
        = find (\<lambda>q. get_value ops s (ph_key q) = None) (p # ps)"
      by (simp add: gv)
    have vals: "(\<lambda>k. if k \<in> ph_key ` set ps then get_value ops s k else (rep(ph_key p \<mapsto> v)) k)
        = (\<lambda>k. if k \<in> ph_key ` set (p # ps) then get_value ops s k else rep k)"
      using gv by (auto simp: fun_eq_iff)
    have "fst (collect_values ops now (p # ps) rep s)
        = fst (collect_values ops now ps (rep(ph_key p \<mapsto> v)) s1)"
      using r Some by simp
    also have "\<dots> = (case find (\<lambda>q. get_value ops s (ph_key q) = None) ps of
          Some p \<Rightarrow> Inl (NotFound (ph_key p))
        | None \<Rightarrow> Inr (\<lambda>k. if k \<in> ph_key ` set ps then get_value ops s k else (rep(ph_key p \<mapsto> v)) k))"
      unfolding Cons [of "rep(ph_key p \<mapsto> v)" s1] s1 ..
    finally show ?thesis unfolding fnd vals .
  qed
qed simp

text \<open>Resolving a text for execution is all or nothing.  Text without placeholders is
  returned as it is, without touching the vault; otherwise a locked vault refuses, the
  first placeholder that has no value (unknown key or failed decryption) is reported by
  name, and else every placeholder is substituted by its decrypted value.\<close>

theorem resolve_text_spec:
  "fst (resolve_text ops now tx s) =
     (if scan_placeholders tx = [] then Inr tx
      else if is_locked s then Inl Locked
      else case find (\<lambda>p. get_value ops s (ph_key p) = None) (scan_placeholders tx) of
             Some p \<Rightarrow> Inl (NotFound (ph_key p))
           | None \<Rightarrow> Inr (subst_text (get_value ops s) tx))"
proof -
  let ?rep = "\<lambda>k. if k \<in> ph_key ` set (scan_placeholders tx) then get_value ops s k else None"
  have "replace_placeholders tx ?rep = replace_placeholders tx (get_value ops s)"
    by (rule subst_text_cong) simp
  then have "replace_placeholders tx ?rep = subst_text (get_value ops s) tx"
    using replace_splice splice_scan [of 0 0 tx "get_value ops s"] by (simp add: scan_placeholders_def)
  moreover have "contains_placeholders tx \<longleftrightarrow> scan_placeholders tx \<noteq> []"
    by (simp add: contains_placeholders_def scan_placeholders_def contains_from_scan)
  ultimately show ?thesis
    using collect_values_result [of ops now "scan_placeholders tx" Map.empty s]
    by (auto simp: resolve_text_def split: prod.splits option.splits sum.splits)
qed

section \<open>Storing and reading back\<close>

text \<open>Documented of the AEAD: decryption with the key of the encryption gives the text.\<close>

definition decrypts_own :: "'k crypto_ops \<Rightarrow> 'k \<Rightarrow> string \<Rightarrow> bool" where
  "decrypts_own ops k v = (\<forall>nonce ct n. co_encrypt ops k nonce v = Inr (ct, n) \<longrightarrow> co_decrypt ops k ct n = Inr v)"

lemma persist_same [simp]:
  "vs_entries (snd (persist ser io s)) = vs_entries s"
  "vs_crypto (snd (persist ser io s)) = vs_crypto s"
  "vs_kdf_params (snd (persist ser io s)) = vs_kdf_params s"
  "vs_in_memory (snd (persist ser io s)) = vs_in_memory s"
  by (auto simp: persist_def write_vault_file_def split: option.splits sum.splits)

lemma get_value_persist [simp]: "get_value ops (snd (persist ser io s)) key = get_value ops s key"
  by (simp add: get_value_eq entry_of_def split: option.splits)

lemma get_value_put: "vs_crypto s = Some k \<Longrightarrow> get_value ops (put_entry key e s) key' =
    (if key' = key then entry_value ops k e else get_value ops s key')"
proof -
  assume "vs_crypto s = Some k"
  then have "vs_crypto (put_entry key e s) = Some k" by (simp add: put_entry_def)
  with \<open>vs_crypto s = Some k\<close> show ?thesis by (simp add: get_value_eq vault_entries.look_put)
qed

lemma vault_set_state:
  assumes "fst (vault_set ops ser io now nonce key v d s) = Inr ()"
  obtains k ct n e where "vs_crypto s = Some k" "co_encrypt ops k nonce v = Inr (ct, n)"
    "ve_encrypted_value e = ct" "ve_nonce e = n" "validate_key key = Inr ()"
    "vault_set ops ser io now nonce key v d s = persist ser io (put_entry key e s)"
proof -
  obtain k ct n where *: "validate_key key = Inr ()" "vs_crypto s = Some k"
    "co_encrypt ops k nonce v = Inr (ct, n)"
    using assms by (auto simp: vault_set_def split: sum.splits option.splits)
  show thesis
    by (rule that [OF *(2,3), of "\<lparr> ve_key = key, ve_encrypted_value = ct, ve_nonce = n, ve_description = d,
          ve_created_at = (case map_of (vs_entries s) key of Some e \<Rightarrow> ve_created_at e | None \<Rightarrow> now),
          ve_last_used = ts_none \<rparr>"])
      (simp_all add: * vault_set_def put_entry_def Let_def)
qed

text \<open>A stored secret reads back.  After a successful set, a get of that key returns
  the stored value and a get of any other key returns what it returned before.\<close>

theorem vault_set_get:
  assumes "fst (vault_set ops ser io now nonce key v d s) = Inr ()"
    and "decrypts_own ops (the (vs_crypto s)) v"
  shows "fst (vault_get ops later key' (snd (vault_set ops ser io now nonce key v d s)))
    = (if key' = key then Some v else fst (vault_get ops later key' s))"
proof -
  obtain k ct n e where *: "vs_crypto s = Some k" "co_encrypt ops k nonce v = Inr (ct, n)"
    "ve_encrypted_value e = ct" "ve_nonce e = n"
    "vault_set ops ser io now nonce key v d s = persist ser io (put_entry key e s)"
    by (rule vault_set_state [OF assms(1)])
  then have "entry_value ops k e = Some v" using assms(2) by (simp add: entry_value_def decrypts_own_def)
  then show ?thesis using * by (simp add: fst_vault_get get_value_put)
qed

definition plain_ops :: "string crypto_ops" where
  "plain_ops = \<lparr> co_derive = (\<lambda>pw _. Inr pw), co_encrypt = (\<lambda>k n v. Inr (k @ v, n)),
     co_decrypt = (\<lambda>k c n. if prefix k c then Inr (drop (length k) c) else Inl (Encryption ''tag mismatch'')) \<rparr>"

definition open_vault :: "string vault_store" where
  "open_vault = vault_new_in_memory \<lparr> vs_crypto := Some ''pw'', vs_kdf_params := Some (kdf_with_salt []) \<rparr>"

theorem vault_set_get_witness:
  "fst (vault_get plain_ops 9 ''a'' (snd (vault_set plain_ops (\<lambda>_. Inr []) None 1 ''n'' ''a'' ''secret'' None open_vault)))
    = (if ''a'' = ''a'' then Some ''secret'' else fst (vault_get plain_ops 9 ''a'' open_vault))"
  by (rule vault_set_get)
    (simp_all add: open_vault_def vault_new_in_memory_def plain_ops_def vault_set_def validate_key_def
      is_ascii_alnum_def persist_def decrypts_own_def Let_def)

section \<open>Changing the password\<close>

lemma decrypt_all_values:
  "decrypt_all ops k es = Inr plain \<Longrightarrow>
     map_option fst (map_of plain key) = (case map_of es key of None \<Rightarrow> None | Some e \<Rightarrow> entry_value ops k e)"
  by (induction ops k es arbitrary: plain rule: decrypt_all.induct)
    (auto simp: entry_value_def bind_res_Inr_iff split: sum.splits)

lemma encrypt_all_values:
  "encrypt_all ops k nonces plain = Inr es \<Longrightarrow> \<forall>v. decrypts_own ops k v \<Longrightarrow>
     (case map_of es key of None \<Rightarrow> None | Some e \<Rightarrow> entry_value ops k e) = map_option fst (map_of plain key)"
proof (induction ops k nonces plain arbitrary: es rule: encrypt_all.induct)
  case (2 ops k nonces key' v e vs)
  then obtain ct n es' where "co_encrypt ops k (case nonces of n # _ \<Rightarrow> n | [] \<Rightarrow> []) v = Inr (ct, n)"
    and rest: "encrypt_all ops k (tl nonces) vs = Inr es'"
    and es: "es = (key', \<lparr> ve_key = key', ve_encrypted_value = ct, ve_nonce = n,
        ve_description = ve_description e, ve_created_at = ve_created_at e, ve_last_used = ts_none \<rparr>) # es'"
    by (auto simp: bind_res_Inr_iff split: sum.splits)
  then have "co_decrypt ops k ct n = Inr v" using "2.prems"(2) unfolding decrypts_own_def by blast
  moreover have "(case map_of es' key of None \<Rightarrow> None | Some e \<Rightarrow> entry_value ops k e)
      = map_option fst (map_of vs key)"
    using "2.IH" [OF \<open>co_encrypt ops k _ v = _\<close> refl rest "2.prems"(2)] .
  ultimately show ?case by (simp add: es entry_value_def)
qed simp

lemma unlock_entries [simp]: "vs_entries (snd (unlock ops ser io salt pw s)) = vs_entries s"
  by (auto simp: unlock_def persist_header_def write_vault_file_def Let_def
      split: option.splits sum.splits)

lemma rekey_success:
  assumes "fst (rekey ops ser io io' salt salt' nonces old new s) = Inr ()"
  obtains k k' plain es s1 where "unlock ops ser io salt old s = (Inr (), s1)" "vs_crypto s1 = Some k"
    "decrypt_all ops k (vs_entries s1) = Inr plain" "co_derive ops new (kdf_with_salt salt') = Inr k'"
    "encrypt_all ops k' nonces plain = Inr es"
    "snd (rekey ops ser io io' salt salt' nonces old new s) = snd (persist ser io'
       (s1 \<lparr> vs_entries := es, vs_kdf_params := Some (kdf_with_salt salt'), vs_crypto := Some k' \<rparr>))"
  using assms by (auto simp: rekey_def split: prod.splits sum.splits option.splits)

text \<open>C34: changing the password keeps every secret.  After a successful rekey each key reads
  exactly as it did once the vault was unlocked with the old password, now under the key
  derived from the new password, and no entry appears or disappears.\<close>

theorem rekey_keeps_values:
  assumes "fst (rekey ops ser io io' salt salt' nonces old new s) = Inr ()"
    and "\<forall>v. decrypts_own ops (the (vs_crypto (snd (rekey ops ser io io' salt salt' nonces old new s)))) v"
  shows "fst (vault_get ops now key (snd (rekey ops ser io io' salt salt' nonces old new s)))
      = fst (vault_get ops now key (snd (unlock ops ser io salt old s)))
    \<and> co_derive ops new (kdf_with_salt salt') = Inr (the (vs_crypto (snd (rekey ops ser io io' salt salt' nonces old new s))))"
proof -
  obtain k k' plain es s1 where *: "unlock ops ser io salt old s = (Inr (), s1)" "vs_crypto s1 = Some k"
    "decrypt_all ops k (vs_entries s1) = Inr plain" "co_derive ops new (kdf_with_salt salt') = Inr k'"
    "encrypt_all ops k' nonces plain = Inr es"
    "snd (rekey ops ser io io' salt salt' nonces old new s) = snd (persist ser io'
       (s1 \<lparr> vs_entries := es, vs_kdf_params := Some (kdf_with_salt salt'), vs_crypto := Some k' \<rparr>))"
    by (rule rekey_success [OF assms(1)])
  have "(case map_of es key of None \<Rightarrow> None | Some e \<Rightarrow> entry_value ops k' e) = map_option fst (map_of plain key)"
    using encrypt_all_values [OF *(5)] assms(2) * by simp
  moreover have "map_option fst (map_of plain key)
      = (case map_of (vs_entries s1) key of None \<Rightarrow> None | Some e \<Rightarrow> entry_value ops k e)"
    by (rule decrypt_all_values [OF *(3)])
  ultimately show ?thesis using * by (simp add: fst_vault_get get_value_eq entry_of_def)
qed

definition filled_vault :: "string vault_store" where
  "filled_vault = snd (vault_set plain_ops (\<lambda>_. Inr []) None 1 ''n'' ''a'' ''secret'' None open_vault)"

lemma rekey_filled:
  "rekey plain_ops (\<lambda>_. Inr []) None None [] ''s'' [''m''] ''pw'' ''new'' filled_vault
    = (Inr (), \<lparr> vs_in_memory = True, vs_file = None,
        vs_entries = [(''a'', \<lparr> ve_key = ''a'', ve_encrypted_value = ''newsecret'', ve_nonce = ''m'',
          ve_description = None, ve_created_at = 1, ve_last_used = ts_none \<rparr>)],
        vs_crypto = Some ''new'', vs_kdf_params = Some (kdf_with_salt ''s'') \<rparr>)"
  by (simp add: rekey_def filled_vault_def vault_set_def open_vault_def vault_new_in_memory_def plain_ops_def
      validate_key_def is_ascii_alnum_def persist_def unlock_def Let_def)

theorem rekey_keeps_values_witness:
  "fst (vault_get plain_ops 5 ''a'' (snd (rekey plain_ops (\<lambda>_. Inr []) None None [] ''s'' [''m''] ''pw'' ''new'' filled_vault)))
      = fst (vault_get plain_ops 5 ''a'' (snd (unlock plain_ops (\<lambda>_. Inr []) None [] ''pw'' filled_vault)))
    \<and> co_derive plain_ops ''new'' (kdf_with_salt ''s'') = Inr (the (vs_crypto (snd (rekey plain_ops (\<lambda>_. Inr [])
        None None [] ''s'' [''m''] ''pw'' ''new'' filled_vault))))"
  by (rule rekey_keeps_values) (simp_all add: rekey_filled, simp add: decrypts_own_def plain_ops_def)

text \<open>A failed rekey swaps the key.  Unlocking checks nothing beyond key derivation, so a
  rekey with a wrong old password has already replaced the key of an unlocked vault when
  decryption fails: it returns the error and leaves the entries under a key that cannot
  read them.  On a vault without entries any old password is accepted.\<close>

theorem rekey_wrong_password:
  assumes "vs_kdf_params s = Some params" "co_derive ops old params = Inr k"
  shows "(decrypt_all ops k (vs_entries s) = Inl e \<longrightarrow>
      rekey ops ser io io' salt salt' nonces old new s = (Inl e, s \<lparr> vs_crypto := Some k \<rparr>))
    \<and> (vs_entries s = [] \<and> co_derive ops new (kdf_with_salt salt') = Inr k' \<and> vs_in_memory s \<longrightarrow>
      fst (rekey ops ser io io' salt salt' nonces old new s) = Inr ())"
  using assms by (auto simp: rekey_def unlock_def persist_def)

theorem rekey_wrong_password_witness:
  "rekey plain_ops (\<lambda>_. Inr []) None None [] ''s'' [''m''] ''bad'' ''new'' filled_vault
     = (Inl (Encryption ''tag mismatch''), filled_vault \<lparr> vs_crypto := Some ''bad'' \<rparr>)"
proof -
  have "decrypt_all plain_ops ''bad'' (vs_entries filled_vault) = Inl (Encryption ''tag mismatch'')"
    by (simp add: filled_vault_def vault_set_def open_vault_def vault_new_in_memory_def plain_ops_def
      validate_key_def is_ascii_alnum_def persist_def Let_def)
  moreover have "vs_kdf_params filled_vault = Some (kdf_with_salt [])"
    "co_derive plain_ops ''bad'' (kdf_with_salt []) = Inr ''bad''"
    by (simp_all add: filled_vault_def vault_set_def open_vault_def vault_new_in_memory_def plain_ops_def
      validate_key_def is_ascii_alnum_def persist_def Let_def)
  ultimately show ?thesis
    using rekey_wrong_password [where k = "''bad''" and params = "kdf_with_salt []"] by blast
qed

section \<open>Injection\<close>

lemma look_up_keys_result:
  "look_up_keys ops now keys rep r s = (rep', r', s') \<Longrightarrow>
     rep' = (\<lambda>k. if k \<in> set keys \<and> get_value ops s k \<noteq> None then get_value ops s k else rep k)
   \<and> ir_keys_used r' = ir_keys_used r @ filter (\<lambda>k. get_value ops s k \<noteq> None) keys
   \<and> ir_missing_keys r' = ir_missing_keys r @ filter (\<lambda>k. get_value ops s k = None) keys
   \<and> ir_injected_values r' = ir_injected_values r @ List.map_filter (get_value ops s) keys"
proof (induction keys arbitrary: rep r s)
  case (Cons key keys)
  obtain v s1 where v: "vault_get ops now key s = (v, s1)" by fastforce
  then have gv: "v = get_value ops s key" and s1: "get_value ops s1 = get_value ops s"
    using fst_vault_get [of ops now key s] get_value_touch [of ops now key s] by (auto simp: fun_eq_iff)
  show ?case
  proof (cases v)
    case None
    then have "look_up_keys ops now keys rep (r \<lparr> ir_missing_keys := ir_missing_keys r @ [key] \<rparr>) s1 = (rep', r', s')"
      using Cons.prems v by simp
    from Cons.IH [OF this] show ?thesis
      using None gv by (auto simp: s1 fun_eq_iff map_filter_simps)
  next
    case (Some w)
    then have "look_up_keys ops now keys (rep(key \<mapsto> w))
        (r \<lparr> ir_keys_used := ir_keys_used r @ [key], ir_injected_values := ir_injected_values r @ [w] \<rparr>) s1
        = (rep', r', s')"
      using Cons.prems v by simp
    from Cons.IH [OF this] show ?thesis
      using Some gv by (auto simp: s1 fun_eq_iff map_filter_simps)
  qed
qed (simp add: map_filter_simps)

lemma replace_messages_map:
  "fst (replace_messages rep msgs) = map (map_option (\<lambda>c. replace_placeholders c rep)) msgs"
  by (induction msgs) (auto simp: Let_def split: prod.splits option.splits)

lemma needed_keys_set: "k \<in> set (needed_keys msgs) \<longleftrightarrow>
    (\<exists>c. Some c \<in> set msgs \<and> k \<in> ph_key ` set (scan_placeholders c))"
  by (force simp: needed_keys_def split: option.splits)

lemma replace_no_placeholders: "scan_placeholders c = [] \<Longrightarrow> replace_placeholders c rep = c"
  by (simp add: replace_placeholders_def)

text \<open>Injection.  Every message content is replaced by its substitution with the
  decrypted values, placeholders without a value stay as they are, and the report lists
  each needed key once: as used, with its value recorded for redaction, or as missing.\<close>

theorem inject_spec:
  assumes "\<And>xs. set (order xs) = set xs"
  shows "case inject ops now order msgs s of (r, msgs', s') \<Rightarrow>
     msgs' = map (map_option (\<lambda>c. replace_placeholders c (get_value ops s))) msgs
   \<and> set (ir_keys_used r) = {k \<in> set (needed_keys msgs). get_value ops s k \<noteq> None}
   \<and> set (ir_missing_keys r) = {k \<in> set (needed_keys msgs). get_value ops s k = None}
   \<and> ir_injected_values r = List.map_filter (get_value ops s) (ir_keys_used r)"
proof (cases "order (needed_keys msgs) = []")
  case True
  then have no: "set (needed_keys msgs) = {}" using assms [of "needed_keys msgs"] by simp
  have "scan_placeholders c = []" if "Some c \<in> set msgs" for c
  proof (rule ccontr)
    assume "scan_placeholders c \<noteq> []"
    then have "ph_key (hd (scan_placeholders c)) \<in> set (needed_keys msgs)"
      using that needed_keys_set by fastforce
    then show False using no by simp
  qed
  then have "map_option (\<lambda>c. replace_placeholders c (get_value ops s)) m = m" if "m \<in> set msgs" for m
    using that by (cases m) (auto simp: replace_no_placeholders)
  then have "msgs = map (map_option (\<lambda>c. replace_placeholders c (get_value ops s))) msgs"
    by (simp add: map_idI)
  then show ?thesis
    using True no by (simp add: inject_def Let_def empty_report_def map_filter_simps)
next
  case False
  obtain rep r s1 where l: "look_up_keys ops now (order (needed_keys msgs)) Map.empty empty_report s = (rep, r, s1)"
    by (metis prod_cases3)
  note res = look_up_keys_result [OF l]
  have "replace_placeholders c rep = replace_placeholders c (get_value ops s)" if "Some c \<in> set msgs" for c
  proof (rule subst_text_cong)
    fix p assume "p \<in> set (scan_placeholders c)"
    then have "ph_key p \<in> set (order (needed_keys msgs))"
      using that needed_keys_set assms by fastforce
    then show "rep (ph_key p) = get_value ops s (ph_key p)" using res by auto
  qed
  then have "map (map_option (\<lambda>c. replace_placeholders c rep)) msgs
      = map (map_option (\<lambda>c. replace_placeholders c (get_value ops s))) msgs"
    by (auto simp: map_eq_conv intro: option.map_cong)
  moreover have "List.map_filter (get_value ops s) (order (needed_keys msgs))
      = List.map_filter (get_value ops s) (filter (\<lambda>k. get_value ops s k \<noteq> None) (order (needed_keys msgs)))"
    by (simp add: List.map_filter_def)
  ultimately show ?thesis
    using False res assms [of "needed_keys msgs"] l replace_messages_map [of rep msgs]
    by (auto simp: inject_def Let_def empty_report_def split: prod.splits)
qed

theorem inject_spec_witness:
  "case inject plain_ops 5 (\<lambda>xs. xs) [Some ''k={{vault:a}}'', None] filled_vault of (r, msgs', s') \<Rightarrow>
     msgs' = map (map_option (\<lambda>c. replace_placeholders c (get_value plain_ops filled_vault)))
        [Some ''k={{vault:a}}'', None]
   \<and> set (ir_keys_used r) = {k \<in> set (needed_keys [Some ''k={{vault:a}}'', None]).
        get_value plain_ops filled_vault k \<noteq> None}
   \<and> set (ir_missing_keys r) = {k \<in> set (needed_keys [Some ''k={{vault:a}}'', None]).
        get_value plain_ops filled_vault k = None}
   \<and> ir_injected_values r = List.map_filter (get_value plain_ops filled_vault) (ir_keys_used r)"
  by (rule inject_spec) simp

section \<open>What is on disk\<close>

definition file_image :: "'k vault_store \<Rightarrow> vault_file" where
  "file_image s = \<lparr> vf_version = VAULT_VERSION, vf_kdf = the (vs_kdf_params s), vf_entries = vs_entries s \<rparr>"

lemma persist_file:
  assumes "fst (persist ser io s) = Inr ()" "\<not> vs_in_memory s"
  obtains c where "ser (file_image s) = Inr c" "vs_file (snd (persist ser io s)) = Some c" "vs_kdf_params s \<noteq> None"
  using assms by (auto simp: persist_def write_vault_file_def file_image_def split: option.splits sum.splits)

text \<open>What set acknowledged is on disk.  If serde_json round-trips the file written by a
  successful set on a vault with a path, then opening the vault from that file gives a
  locked store with exactly the entries and key parameters of the one that was written.\<close>

theorem vault_set_durable:
  assumes "fst (vault_set ops ser io now nonce key v d s) = Inr ()" "\<not> vs_in_memory s"
    and "\<And>c. ser (file_image (snd (vault_set ops ser io now nonce key v d s))) = Inr c \<Longrightarrow>
      trim c \<noteq> [] \<and> de c = Inr (file_image (snd (vault_set ops ser io now nonce key v d s)))"
  shows "vault_with_path de None None (vs_file (snd (vault_set ops ser io now nonce key v d s)))
    = Inr (snd (vault_set ops ser io now nonce key v d s) \<lparr> vs_crypto := None \<rparr>)"
proof -
  let ?s' = "snd (vault_set ops ser io now nonce key v d s)"
  obtain e where set: "vault_set ops ser io now nonce key v d s = persist ser io (put_entry key e s)"
    by (rule vault_set_state [OF assms(1)]) blast
  have "\<not> vs_in_memory (put_entry key e s)" using assms(2) by (simp add: put_entry_def)
  then obtain c where c: "ser (file_image (put_entry key e s)) = Inr c" "vs_file ?s' = Some c"
      "vs_kdf_params (put_entry key e s) \<noteq> None"
    using persist_file [of ser io "put_entry key e s"] assms(1) set by metis
  have img: "file_image (put_entry key e s) = file_image ?s'" by (simp add: set file_image_def)
  then have "trim c \<noteq> []" "de c = Inr (file_image ?s')" using assms(3) [of c] c(1) by auto
  moreover have "vs_in_memory ?s' = False" "vs_kdf_params ?s' \<noteq> None"
    using assms(2) c(3) by (simp_all add: set) (simp add: put_entry_def)
  ultimately show ?thesis
    using c(2) by (cases ?s') (auto simp: vault_with_path_def vault_load_def file_image_def)
qed

definition file_vault :: "string vault_store" where
  "file_vault = open_vault \<lparr> vs_in_memory := False \<rparr>"

theorem vault_set_durable_witness:
  "vault_with_path (\<lambda>_. Inr (file_image (snd (vault_set plain_ops (\<lambda>_. Inr ''x'') None 1 ''n'' ''a'' ''b'' None file_vault))))
      None None (vs_file (snd (vault_set plain_ops (\<lambda>_. Inr ''x'') None 1 ''n'' ''a'' ''b'' None file_vault)))
    = Inr (snd (vault_set plain_ops (\<lambda>_. Inr ''x'') None 1 ''n'' ''a'' ''b'' None file_vault) \<lparr> vs_crypto := None \<rparr>)"
  by (rule vault_set_durable)
    (simp_all add: file_vault_def open_vault_def vault_new_in_memory_def plain_ops_def vault_set_def validate_key_def
      is_ascii_alnum_def persist_def write_vault_file_def trim_def trim_start_def trim_end_def is_ws_def Let_def)

end
