(* ===== verification/Hooks.thy ===== *)
theory Hooks
  imports Chat_Types Vault_Store "HOL-Library.List_Lexorder"
begin

text \<open>
  Lifecycle hooks (engine/src/hooks/types.rs, registry.rs, vault.rs).  A hook is a record
  of its name, its point and its two entry points; what it does outside the context is
  an effect on a world \<open>'w\<close>.  The parallel hooks run concurrently but read-only, so the
  model runs them in registration order on the same context.
\<close>

section \<open>Types\<close>

datatype hook_point = BeforeRequest | AfterHistory | BeforeLLM | AfterToolCall | AfterResponse

datatype execution_strategy = Sequential | Parallel

fun default_strategy :: "hook_point \<Rightarrow> execution_strategy" where
  "default_strategy BeforeRequest = Sequential"
| "default_strategy AfterHistory = Sequential"
| "default_strategy BeforeLLM = Sequential"
| "default_strategy AfterToolCall = Parallel"
| "default_strategy AfterResponse = Parallel"

datatype hook_action = HookContinue | HookAbort string

record tool_call_info =
  ti_id :: string
  ti_name :: string
  ti_arguments :: "string option"

record 'j hook_context =
  hc_session_key :: string
  hc_messages :: "'j chat_message list"
  hc_user_input :: "string option"
  hc_response :: "string option"
  hc_tool_calls :: "tool_call_info list option"
  hc_token_usage :: "token_usage option"
  hc_vault_values :: "string list"

record ('j, 'e, 'w) pipeline_hook =
  hk_name :: string
  hk_point :: hook_point
  hk_run :: "'j hook_context \<Rightarrow> 'w \<Rightarrow> ('e + hook_action) \<times> 'j hook_context \<times> 'w"
  hk_run_parallel :: "'j hook_context \<Rightarrow> 'w \<Rightarrow> ('e + hook_action) \<times> 'w"

section \<open>The registry\<close>

type_synonym ('j, 'e, 'w) hook_registry = "hook_point \<Rightarrow> ('j, 'e, 'w) pipeline_hook list option"

definition hooks_new :: "('j, 'e, 'w) hook_registry" where
  "hooks_new = (\<lambda>_. None)"

definition get_hooks :: "('j, 'e, 'w) hook_registry \<Rightarrow> hook_point \<Rightarrow> ('j, 'e, 'w) pipeline_hook list" where
  "get_hooks reg p = (case reg p of Some hs \<Rightarrow> hs | None \<Rightarrow> [])"

definition register_hook ::
  "('j, 'e, 'w) pipeline_hook \<Rightarrow> ('j, 'e, 'w) hook_registry \<Rightarrow> ('j, 'e, 'w) hook_registry" where
  "register_hook h reg = reg(hk_point h \<mapsto> get_hooks reg (hk_point h) @ [h])"

definition hook_points :: "hook_point list" where
  "hook_points = [BeforeRequest, AfterHistory, BeforeLLM, AfterToolCall, AfterResponse]"

definition hooks_is_empty :: "('j, 'e, 'w) hook_registry \<Rightarrow> bool" where
  "hooks_is_empty reg = list_all (\<lambda>p. reg p = None) hook_points"

definition hooks_len :: "('j, 'e, 'w) hook_registry \<Rightarrow> nat" where
  "hooks_len reg = sum_list (map (\<lambda>p. length (get_hooks reg p)) hook_points)"

definition build_hooks :: "('j, 'e, 'w) pipeline_hook list \<Rightarrow> ('j, 'e, 'w) hook_registry" where
  "build_hooks hs = fold register_hook hs hooks_new"

fun execute_sequential ::
  "('j, 'e, 'w) pipeline_hook list \<Rightarrow> 'j hook_context \<Rightarrow> 'w \<Rightarrow> ('e + hook_action) \<times> 'j hook_context \<times> 'w" where
  "execute_sequential [] ctx w = (Inr HookContinue, ctx, w)"
| "execute_sequential (h # hs) ctx w = (case hk_run h ctx w of
      (Inl e, ctx1, w1) \<Rightarrow> (Inl e, ctx1, w1)
    | (Inr (HookAbort msg), ctx1, w1) \<Rightarrow> (Inr (HookAbort msg), ctx1, w1)
    | (Inr HookContinue, ctx1, w1) \<Rightarrow> execute_sequential hs ctx1 w1)"

fun run_parallel_all ::
  "('j, 'e, 'w) pipeline_hook list \<Rightarrow> 'j hook_context \<Rightarrow> 'w \<Rightarrow> ('e + hook_action) list \<times> 'w" where
  "run_parallel_all [] ctx w = ([], w)"
| "run_parallel_all (h # hs) ctx w =
     (let (r, w1) = hk_run_parallel h ctx w; (rs, w2) = run_parallel_all hs ctx w1 in (r # rs, w2))"

fun first_abort :: "('e + hook_action) list \<Rightarrow> hook_action" where
  "first_abort [] = HookContinue"
| "first_abort (Inr (HookAbort msg) # rs) = HookAbort msg"
| "first_abort (_ # rs) = first_abort rs"

definition execute_hooks ::
  "('j, 'e, 'w) hook_registry \<Rightarrow> hook_point \<Rightarrow> 'j hook_context \<Rightarrow> 'w
    \<Rightarrow> ('e + hook_action) \<times> 'j hook_context \<times> 'w" where
  "execute_hooks reg p ctx w =
     (let hs = get_hooks reg p in
      if hs = [] then (Inr HookContinue, ctx, w)
      else case default_strategy p of
        Sequential \<Rightarrow> execute_sequential hs ctx w
      | Parallel \<Rightarrow> (let (rs, w1) = run_parallel_all hs ctx w in (Inr (first_abort rs), ctx, w1)))"

section \<open>The vault hook\<close>

text \<open>The world of this hook holds the vault; \<open>order\<close> is the iteration order of the set of keys.\<close>

definition set_contents :: "string option list \<Rightarrow> 'j chat_message list \<Rightarrow> 'j chat_message list" where
  "set_contents cs ms = map2 (\<lambda>c m. m \<lparr> cm_content := c \<rparr>) cs ms"

definition vault_hook_run where
  "vault_hook_run ops now order ctx s =
     (let (report, cs, s1) = inject ops now order (map cm_content (hc_messages ctx)) s in
      (Inr HookContinue,
       ctx \<lparr> hc_messages := set_contents cs (hc_messages ctx),
             hc_vault_values := remdups_adj (sort (ir_injected_values report)) \<rparr>, s1))"

definition vault_hook where
  "vault_hook ops now order = \<lparr> hk_name = ''vault_injector'', hk_point = BeforeLLM,
     hk_run = vault_hook_run ops now order, hk_run_parallel = (\<lambda>ctx s. (Inr HookContinue, s)) \<rparr>"

section \<open>Lemmas\<close>

lemma get_hooks_register:
  "get_hooks (register_hook h reg) p = get_hooks reg p @ (if hk_point h = p then [h] else [])"
  by (simp add: register_hook_def get_hooks_def)

lemma get_hooks_build: "get_hooks (build_hooks hs) p = filter (\<lambda>h. hk_point h = p) hs"
proof -
  have "get_hooks (fold register_hook hs reg) p = get_hooks reg p @ filter (\<lambda>h. hk_point h = p) hs" for reg
    by (induction hs arbitrary: reg) (auto simp: get_hooks_register)
  then show ?thesis by (simp add: build_hooks_def hooks_new_def get_hooks_def)
qed

lemma execute_sequential_append:
  "execute_sequential (hs @ hs') ctx w = (case execute_sequential hs ctx w of
      (Inr HookContinue, ctx1, w1) \<Rightarrow> execute_sequential hs' ctx1 w1
    | r \<Rightarrow> r)"
proof (induction hs arbitrary: ctx w)
  case (Cons h hs)
  obtain r c1 w1 where run: "hk_run h ctx w = (r, c1, w1)" by (metis prod.exhaust)
  show ?case
  proof (cases r)
    case (Inr a)
    then show ?thesis using Cons run by (cases a) simp_all
  qed (simp add: run)
qed simp

text \<open>Which hooks run, and in what order.  In a registry built from a list, the hooks of a
  sequential point run exactly once each, in the order they were added, each on the
  context the previous one left, until the first one that fails or aborts; the hooks
  after it never run.  At a parallel point the messages and the recorded secrets are
  never changed.\<close>

theorem hooks_run_in_order:
  "execute_hooks (build_hooks hs) p ctx w =
     (case default_strategy p of
        Sequential \<Rightarrow> execute_sequential (filter (\<lambda>h. hk_point h = p) hs) ctx w
      | Parallel \<Rightarrow> (let (rs, w1) = run_parallel_all (filter (\<lambda>h. hk_point h = p) hs) ctx w in
          (Inr (first_abort rs), ctx, w1)))
   \<and> (case execute_sequential (pre @ h # post) ctx w of (r, _, _) \<Rightarrow>
        (case execute_sequential pre ctx w of
           (Inr HookContinue, ctx1, w1) \<Rightarrow>
             (case hk_run h ctx1 w1 of
                (Inr HookContinue, ctx2, w2) \<Rightarrow> r = fst (execute_sequential post ctx2 w2)
              | (r1, ctx2, w2) \<Rightarrow> execute_sequential (pre @ h # post) ctx w = (r1, ctx2, w2))
         | r1 \<Rightarrow> execute_sequential (pre @ h # post) ctx w = r1))"
proof
  show "execute_hooks (build_hooks hs) p ctx w = (case default_strategy p of
        Sequential \<Rightarrow> execute_sequential (filter (\<lambda>h. hk_point h = p) hs) ctx w
      | Parallel \<Rightarrow> (let (rs, w1) = run_parallel_all (filter (\<lambda>h. hk_point h = p) hs) ctx w in
          (Inr (first_abort rs), ctx, w1)))"
    by (cases "filter (\<lambda>h. hk_point h = p) hs"; cases p) (simp_all add: execute_hooks_def get_hooks_build Let_def)
  show "case execute_sequential (pre @ h # post) ctx w of (r, _, _) \<Rightarrow>
        (case execute_sequential pre ctx w of
           (Inr HookContinue, ctx1, w1) \<Rightarrow>
             (case hk_run h ctx1 w1 of
                (Inr HookContinue, ctx2, w2) \<Rightarrow> r = fst (execute_sequential post ctx2 w2)
              | (r1, ctx2, w2) \<Rightarrow> execute_sequential (pre @ h # post) ctx w = (r1, ctx2, w2))
         | r1 \<Rightarrow> execute_sequential (pre @ h # post) ctx w = r1)"
    unfolding execute_sequential_append
    by (auto split: prod.splits sum.splits hook_action.splits)
qed

end
