(* ===== verification/History.thy ===== *)
theory History
  imports Session_Store Hooks
begin

text \<open>
  From the stored session to the model's prompt: the trimming of the history
  (storage/src/processor.rs) and the context builder
  (engine/src/session/history/builder.rs).  Token counts are natural numbers;
  \<open>count_tokens\<close> is the tokenizer's.  \<open>get_reasoning\<close> is the lookup of the key
  reasoning_content in the metadata's JSON map.
\<close>

section \<open>Trimming\<close>

record history_config =
  hi_max_events :: nat
  hi_token_budget :: nat
  hi_recent_keep :: nat

definition default_history_config :: history_config where
  "default_history_config = \<lparr> hi_max_events = 50, hi_token_budget = 100000, hi_recent_keep = 10 \<rparr>"

record 'j processed_history =
  ph_events :: "'j session_event list"
  ph_estimated_tokens :: nat
  ph_filtered_count :: nat
  ph_evicted :: "'j session_event list"

definition token_len_or_count :: "(string \<Rightarrow> nat) \<Rightarrow> 'j session_event \<Rightarrow> nat" where
  "token_len_or_count ct ev = (let cached = em_content_token_len (se_metadata ev) in
     if cached > 0 then cached else ct (se_content ev))"

text \<open>The loop from the last index down; \<open>n\<close> is the number of events not visited yet.  The
  result is the split offset and the tokens of what is kept.\<close>

fun walk_back ::
  "(string \<Rightarrow> nat) \<Rightarrow> history_config \<Rightarrow> 'j session_event list \<Rightarrow> nat \<Rightarrow> nat \<Rightarrow> nat \<Rightarrow> nat \<times> nat" where
  "walk_back ct cfg relevant protected_start 0 tokens = (0, tokens)"
| "walk_back ct cfg relevant protected_start (Suc i) tokens =
     (let event_tokens = token_len_or_count ct (relevant ! i) in
      if i \<ge> protected_start then walk_back ct cfg relevant protected_start i (tokens + event_tokens)
      else if hi_token_budget cfg = 0 \<or> tokens + event_tokens \<le> hi_token_budget cfg
      then walk_back ct cfg relevant protected_start i (tokens + event_tokens)
      else (Suc i, tokens))"

definition process_history ::
  "(string \<Rightarrow> nat) \<Rightarrow> 'j session_event list \<Rightarrow> history_config \<Rightarrow> 'j processed_history" where
  "process_history ct history cfg =
     (let n = length history in
      if n = 0 then \<lparr> ph_events = [], ph_estimated_tokens = 0, ph_filtered_count = 0, ph_evicted = [] \<rparr>
      else let total = min n (hi_max_events cfg);
               relevant = drop (n - total) history;
               (split_offset, tokens) =
                 walk_back ct cfg relevant (total - hi_recent_keep cfg) (length relevant) 0;
               kept = drop split_offset relevant in
        \<lparr> ph_events = kept, ph_estimated_tokens = tokens, ph_filtered_count = n - length kept,
          ph_evicted = take split_offset relevant \<rparr>)"

section \<open>The prompt\<close>

definition SUMMARY_PREFIX :: string where
  "SUMMARY_PREFIX = ''[Conversation Summary]'' @ [NL]"

definition SUMMARY_SUFFIX :: string where
  "SUMMARY_SUFFIX = NL # ''[End of Summary]''"

definition event_message :: "((string \<times> 'j) list \<Rightarrow> string option) \<Rightarrow> 'j session_event \<Rightarrow> 'j chat_message list" where
  "event_message get_reasoning ev = (case se_event_type ev of
       UserMessage \<Rightarrow> [msg_user (se_content ev)]
     | AssistantMessage \<Rightarrow> [msg_assistant_with_tools (Some (se_content ev)) []
         (get_reasoning (em_extra (se_metadata ev)))]
     | _ \<Rightarrow> [])"

definition assemble_prompt ::
  "((string \<times> 'j) list \<Rightarrow> string option) \<Rightarrow> 'j session_event list \<Rightarrow> string \<Rightarrow> string list \<Rightarrow> string option
    \<Rightarrow> 'j chat_message list" where
  "assemble_prompt get_reasoning history current system_prompts summary =
     (let system_content = join [NL, NL] system_prompts in
      (if system_prompts \<noteq> [] \<and> system_content \<noteq> [] then [msg_system system_content] else [])
      @ (case summary of
           Some t \<Rightarrow> if t \<noteq> [] then [msg_system (SUMMARY_PREFIX @ t @ SUMMARY_SUFFIX)] else []
         | None \<Rightarrow> [])
      @ concat (map (event_message get_reasoning) history)
      @ [msg_user current])"

section \<open>The context builder\<close>

record 'j chat_build =
  cb_session_key :: string
  cb_user_content :: string
  cb_messages :: "'j chat_message list"
  cb_vault_values :: "string list"
  cb_estimated_tokens :: nat

datatype 'j build_outcome = Ready "'j chat_build" | Aborted string

datatype 'e agent_error = SessionError string | HookError 'e

record ('j, 'e, 'w) context_builder =
  bu_system_prompt :: string
  bu_skills_context :: "string option"
  bu_hooks :: "('j, 'e, 'w) hook_registry"
  bu_history_config :: history_config

text \<open>What a request depends on outside the code: codec, tokenizer, clock, the new event's
  identifier, and what the database answers to each of the five statements.\<close>

record 'j build_env =
  be_codec :: "'j codec"
  be_count_tokens :: "string \<Rightarrow> nat"
  be_get_reasoning :: "(string \<times> 'j) list \<Rightarrow> string option"
  be_now :: time
  be_event_id :: uuid
  be_io_summary :: "string option"
  be_io_checkpoint :: "string option"
  be_io_append :: "string option"
  be_io_load :: "string option"

definition hook_context_of :: "string \<Rightarrow> 'j chat_message list \<Rightarrow> string \<Rightarrow> 'j hook_context" where
  "hook_context_of key ms input = \<lparr> hc_session_key = key, hc_messages = ms, hc_user_input = Some input,
     hc_response = None, hc_tool_calls = None, hc_token_usage = None, hc_vault_values = [] \<rparr>"

definition user_content_of :: "string \<Rightarrow> 'j chat_message list \<Rightarrow> string" where
  "user_content_of content ms = (case find (\<lambda>m. cm_role m = UserRole) ms of
       Some m \<Rightarrow> (case cm_content m of Some c \<Rightarrow> c | None \<Rightarrow> content)
     | None \<Rightarrow> content)"

definition merge_checkpoint :: "string \<Rightarrow> string \<Rightarrow> string" where
  "merge_checkpoint summary checkpoint =
     (if checkpoint \<noteq> []
      then (if summary \<noteq> [] then summary @ [NL, NL] @ ''[Working Memory]'' @ [NL] else summary) @ checkpoint
      else summary)"

definition user_event :: "'j build_env \<Rightarrow> string \<Rightarrow> string \<Rightarrow> 'j session_event" where
  "user_event env key content = \<lparr> se_id = be_event_id env, se_session_key = key, se_event_type = UserMessage,
     se_content = content, se_metadata = default_metadata, se_created_at = be_now env, se_sequence = 0 \<rparr>"

text \<open>Step 4: with watermark 0 the whole history, otherwise what comes after it.\<close>

definition load_history ::
  "'j build_env \<Rightarrow> session_key \<Rightarrow> int \<Rightarrow> event_db \<Rightarrow> store_error + 'j session_event list" where
  "load_history env k watermark db = (case be_io_load env of
       Some e \<Rightarrow> Inl (DatabaseErr e)
     | None \<Rightarrow> if watermark = 0 then get_session_history (be_codec env) (be_now env) k db
              else get_events_after_sequence (be_codec env) (be_now env) k watermark db)"

definition system_prompts_of :: "('j, 'e, 'w) context_builder \<Rightarrow> string list" where
  "system_prompts_of b = (if bu_system_prompt b \<noteq> [] then [bu_system_prompt b] else [])
     @ (case bu_skills_context b of Some s \<Rightarrow> [s] | None \<Rightarrow> [])"

text \<open>The last hooks: an error fails the request, an abort is not looked at.\<close>

definition run_late_hooks ::
  "('j, 'e, 'w) hook_registry \<Rightarrow> 'j hook_context \<Rightarrow> 'w \<Rightarrow> ('e + 'j hook_context) \<times> 'w" where
  "run_late_hooks reg ctx w = (case execute_hooks reg AfterHistory ctx w of
       (Inl e, ctx1, w1) \<Rightarrow> (Inl e, w1)
     | (Inr _, ctx1, w1) \<Rightarrow> (case execute_hooks reg BeforeLLM ctx1 w1 of
         (Inl e, ctx2, w2) \<Rightarrow> (Inl e, w2)
       | (Inr _, ctx2, w2) \<Rightarrow> (Inr ctx2, w2)))"

definition build_request ::
  "'j build_env \<Rightarrow> ('j, 'e, 'w) context_builder \<Rightarrow> string \<Rightarrow> session_key \<Rightarrow> event_db \<Rightarrow> session_db \<Rightarrow> 'w
    \<Rightarrow> ('e agent_error + 'j build_outcome) \<times> event_db \<times> 'w" where
  "build_request env b content0 k db sd w =
     (let key = session_key_display k in
      case execute_hooks (bu_hooks b) BeforeRequest (hook_context_of key [msg_user content0] content0) w of
        (Inl e, ctx, w1) \<Rightarrow> (Inl (HookError e), db, w1)
      | (Inr (HookAbort msg), ctx, w1) \<Rightarrow> (Inr (Aborted msg), db, w1)
      | (Inr HookContinue, ctx, w1) \<Rightarrow>
          let content = user_content_of content0 (hc_messages ctx) in
          (case load_summary_with_checkpoint (be_io_summary env) (be_io_checkpoint env) k sd of
             Inl e \<Rightarrow> (Inl (SessionError (''Failed to load summary for '' @ key @ '': '' @ e)), db, w1)
           | Inr (summary, checkpoint, watermark) \<Rightarrow>
             (case append_event (be_codec env) (be_count_tokens env) (be_io_append env) (be_now env)
                     (user_event env key content) db of
                (Inl e, db1, _) \<Rightarrow>
                  (Inl (SessionError (''Failed to persist user event: '' @ store_error_to_str e)), db1, w1)
              | (Inr _, db1, _) \<Rightarrow>
                (case load_history env k watermark db1 of
                   Inl e \<Rightarrow> (Inl (SessionError (''Failed to load history for '' @ squoted key @ '': ''
                              @ store_error_to_str e)), db1, w1)
                 | Inr events \<Rightarrow>
                   (let processed = process_history (be_count_tokens env) events (bu_history_config b);
                        existing = merge_checkpoint summary checkpoint;
                        ms = assemble_prompt (be_get_reasoning env) (ph_events processed) content
                               (system_prompts_of b) (if existing = [] then None else Some existing) in
                    (case run_late_hooks (bu_hooks b) (hook_context_of key ms content) w1 of
                       (Inl e, w2) \<Rightarrow> (Inl (HookError e), db1, w2)
                     | (Inr ctx2, w2) \<Rightarrow> (Inr (Ready \<lparr> cb_session_key = key, cb_user_content = content,
                         cb_messages = hc_messages ctx2, cb_vault_values = hc_vault_values ctx2,
                         cb_estimated_tokens = ph_estimated_tokens processed \<rparr>), db1, w2)))))))"

section \<open>Lemmas on trimming\<close>

definition tokens_of :: "(string \<Rightarrow> nat) \<Rightarrow> 'j session_event list \<Rightarrow> nat" where
  "tokens_of ct evs = sum_list (map (token_len_or_count ct) evs)"

lemma tokens_of_simps [simp]:
  "tokens_of ct [] = 0" "tokens_of ct (e # es) = token_len_or_count ct e + tokens_of ct es"
  "tokens_of ct (xs @ ys) = tokens_of ct xs + tokens_of ct ys"
  by (simp_all add: tokens_of_def)

lemma drop_split: "i < length xs \<Longrightarrow> drop i xs = xs ! i # drop (Suc i) xs"
  by (simp add: Cons_nth_drop_Suc)

text \<open>The protected part is walked without a test.\<close>

lemma walk_protected:
  assumes "ps \<le> n" "n \<le> length rel" "tokens = tokens_of ct (drop n rel)"
  shows "walk_back ct cfg rel ps n tokens = walk_back ct cfg rel ps ps (tokens_of ct (drop ps rel))"
  using assms
proof (induction n arbitrary: tokens)
  case (Suc i)
  show ?case
  proof (cases "ps = Suc i")
    case False
    then have "ps \<le> i" using Suc.prems(1) by simp
    moreover have "tokens + token_len_or_count ct (rel ! i) = tokens_of ct (drop i rel)"
      using Suc.prems drop_split [of i rel] by simp
    ultimately show ?thesis using Suc by (simp add: Let_def)
  qed (use Suc.prems in simp)
qed simp

text \<open>Before it the budget decides, and the walk stops at the first event that does not fit.\<close>

lemma walk_budget:
  assumes "walk_back ct cfg rel ps n tokens = (off, tot)" "n \<le> ps" "n \<le> length rel"
    and "tokens = tokens_of ct (drop n rel)"
  shows "off \<le> n \<and> tot = tokens_of ct (drop off rel)
    \<and> (off < n \<longrightarrow> hi_token_budget cfg = 0 \<or> tot \<le> hi_token_budget cfg)
    \<and> (off > 0 \<longrightarrow> hi_token_budget cfg \<noteq> 0 \<and> hi_token_budget cfg < tokens_of ct (drop (off - 1) rel))"
  using assms
proof (induction n arbitrary: tokens)
  case (Suc i)
  have next_tokens: "tokens + token_len_or_count ct (rel ! i) = tokens_of ct (drop i rel)"
    using Suc.prems drop_split [of i rel] by simp
  have not_protected: "\<not> ps \<le> i" using Suc.prems(2) by simp
  show ?case
  proof (cases "hi_token_budget cfg = 0 \<or> tokens + token_len_or_count ct (rel ! i) \<le> hi_token_budget cfg")
    case True
    with Suc.prems not_protected
    have step: "walk_back ct cfg rel ps i (tokens + token_len_or_count ct (rel ! i)) = (off, tot)"
      by (simp add: Let_def)
    from Suc.IH [OF step] Suc.prems(2,3) next_tokens
    have ih: "off \<le> i \<and> tot = tokens_of ct (drop off rel)
      \<and> (off < i \<longrightarrow> hi_token_budget cfg = 0 \<or> tot \<le> hi_token_budget cfg)
      \<and> (off > 0 \<longrightarrow> hi_token_budget cfg \<noteq> 0 \<and> hi_token_budget cfg < tokens_of ct (drop (off - 1) rel))"
      by auto
    moreover have "hi_token_budget cfg = 0 \<or> tot \<le> hi_token_budget cfg"
      using ih True next_tokens by (cases "off < i") auto
    ultimately show ?thesis by simp
  next
    case False
    with Suc.prems(1) not_protected have e: "off = Suc i" "tot = tokens" by (auto simp: Let_def)
    show ?thesis unfolding e using Suc.prems(4) False next_tokens by simp
  qed
qed simp

lemma process_history_kept:
  "case process_history ct h cfg of p \<Rightarrow>
     (\<exists>old. h = old @ ph_evicted p @ ph_events p \<and> length old = length h - hi_max_events cfg)
   \<and> ph_filtered_count p + length (ph_events p) = length h
   \<and> ph_estimated_tokens p = tokens_of ct (ph_events p)
   \<and> length (ph_events p) \<le> hi_max_events cfg
   \<and> min (length h) (min (hi_max_events cfg) (hi_recent_keep cfg)) \<le> length (ph_events p)
   \<and> (if length (ph_events p) \<le> hi_recent_keep cfg \<or> hi_token_budget cfg = 0 then True
      else ph_estimated_tokens p \<le> hi_token_budget cfg)
   \<and> (if ph_evicted p = [] then True
      else hi_token_budget cfg < tokens_of ct (last (ph_evicted p) # ph_events p))"
proof (cases "h = []")
  case True
  then show ?thesis by (simp add: process_history_def)
next
  case False
  let ?n = "length h" and ?m = "min (length h) (hi_max_events cfg)"
  let ?ps = "?m - hi_recent_keep cfg"
  define rel where "rel = drop (?n - ?m) h"
  have len: "length rel = ?m" and split: "h = take (?n - ?m) h @ rel" by (simp_all add: rel_def)
  have psm: "?ps \<le> length rel" unfolding len by (rule diff_le_self)
  obtain off tot where w: "walk_back ct cfg rel ?ps (length rel) 0 = (off, tot)" by fastforce
  have "walk_back ct cfg rel ?ps (length rel) 0
      = walk_back ct cfg rel ?ps ?ps (tokens_of ct (drop ?ps rel))"
    by (rule walk_protected [OF psm le_refl]) simp
  with w have "walk_back ct cfg rel ?ps ?ps (tokens_of ct (drop ?ps rel)) = (off, tot)" by (rule trans [OF sym, rotated])
  note budget = walk_budget [OF this le_refl psm refl]
  have off: "off \<le> ?ps" "tot = tokens_of ct (drop off rel)"
    "off < ?ps \<longrightarrow> hi_token_budget cfg = 0 \<or> tot \<le> hi_token_budget cfg"
    "off > 0 \<longrightarrow> hi_token_budget cfg \<noteq> 0 \<and> hi_token_budget cfg < tokens_of ct (drop (off - 1) rel)"
    using budget by blast+
  define p where "p = process_history ct h cfg"
  have p: "p = \<lparr> ph_events = drop off rel, ph_estimated_tokens = tot,
      ph_filtered_count = ?n - length (drop off rel), ph_evicted = take off rel \<rparr>"
    using False w by (simp add: p_def process_history_def Let_def rel_def [symmetric] len del: drop_drop)
  have c1: "h = take (?n - ?m) h @ ph_evicted p @ ph_events p" "length (take (?n - ?m) h) = length h - hi_max_events cfg"
    using split by (simp_all add: p)
  have l: "length (ph_events p) = ?m - off" by (simp add: p len)
  have c2: "ph_filtered_count p + length (ph_events p) = length h" using l by (simp add: p)
  have c3: "ph_estimated_tokens p = tokens_of ct (ph_events p)" using off(2) by (simp add: p)
  have c4: "length (ph_events p) \<le> hi_max_events cfg" using l by linarith
  have c5: "min (length h) (min (hi_max_events cfg) (hi_recent_keep cfg)) \<le> length (ph_events p)"
    using l off(1) by linarith
  have c6: "hi_token_budget cfg = 0 \<or> tot \<le> hi_token_budget cfg" if "\<not> length (ph_events p) \<le> hi_recent_keep cfg"
    using off(3) l that by linarith
  have c7: "hi_token_budget cfg < tokens_of ct (last (ph_evicted p) # ph_events p)" if "ph_evicted p \<noteq> []"
  proof -
    have "off > 0" "off - 1 < length rel" using that off(1) len by (auto simp: p)
    then have "drop (off - 1) rel = rel ! (off - 1) # drop off rel"
      using drop_split [of "off - 1" rel] by simp
    moreover have "last (take off rel) = rel ! (off - 1)"
      using take_Suc_conv_app_nth [OF \<open>off - 1 < length rel\<close>] \<open>off > 0\<close> by simp
    ultimately show ?thesis using off(4) \<open>off > 0\<close> by (simp only: p processed_history.simps)
  qed
  have "ph_estimated_tokens p = tot" by (simp add: p)
  with c6 have c6': "if length (ph_events p) \<le> hi_recent_keep cfg \<or> hi_token_budget cfg = 0 then True
      else ph_estimated_tokens p \<le> hi_token_budget cfg" by auto
  have c7': "if ph_evicted p = [] then True
      else hi_token_budget cfg < tokens_of ct (last (ph_evicted p) # ph_events p)"
    using c7 by simp
  show ?thesis
    unfolding p_def [symmetric] using c1 c2 c3 c4 c5 c6' c7' by blast
qed

text \<open>What trimming keeps.  The kept events are the most recent ones, in order: the history
  is what exceeds the event limit, then the evicted events, then the kept ones.  The
  number kept is within the event limit and at least the protected number; the token
  estimate is the sum over exactly the kept events; beyond the protected events the
  budget is respected, and one more event would have exceeded it.\<close>

theorem process_history_spec:
  "case process_history ct h cfg of p \<Rightarrow>
     (\<exists>old. h = old @ ph_evicted p @ ph_events p \<and> length old = length h - hi_max_events cfg)
   \<and> ph_filtered_count p + length (ph_events p) = length h
   \<and> ph_estimated_tokens p = tokens_of ct (ph_events p)
   \<and> length (ph_events p) \<le> hi_max_events cfg
   \<and> min (length h) (min (hi_max_events cfg) (hi_recent_keep cfg)) \<le> length (ph_events p)
   \<and> (if length (ph_events p) \<le> hi_recent_keep cfg \<or> hi_token_budget cfg = 0 then True
      else ph_estimated_tokens p \<le> hi_token_budget cfg)
   \<and> (if ph_evicted p = [] then True
      else hi_token_budget cfg < tokens_of ct (last (ph_evicted p) # ph_events p))"
  by (rule process_history_kept)

section \<open>What the prompt contains\<close>

lemma last_kept:
  assumes "process_history ct (xs @ [e]) cfg = p" "hi_max_events cfg > 0" "hi_recent_keep cfg > 0"
  shows "\<exists>ys. ph_events p = ys @ [e]"
proof -
  from process_history_kept [where h = "xs @ [e]" and ct = ct and cfg = cfg]
  have "\<exists>old. xs @ [e] = old @ ph_evicted p @ ph_events p"
    and len: "min (length (xs @ [e])) (min (hi_max_events cfg) (hi_recent_keep cfg)) \<le> length (ph_events p)"
    unfolding assms(1) by blast+
  then obtain old where split: "xs @ [e] = (old @ ph_evicted p) @ ph_events p" by auto
  have "ph_events p \<noteq> []" using len assms(2,3) by auto
  then have "ph_events p = butlast (ph_events p) @ [last (ph_events p)]" by simp
  moreover have "last (ph_events p) = e" using split \<open>ph_events p \<noteq> []\<close> by (metis last_appendR last_snoc)
  ultimately show ?thesis by metis
qed

lemma late_hooks_none:
  assumes "get_hooks reg AfterHistory = []" "get_hooks reg BeforeLLM = []"
  shows "run_late_hooks reg ctx w = (Inr ctx, w)"
  using assms by (simp add: run_late_hooks_def execute_hooks_def)

lemma load_history_appended:
  assumes inv: "log_inv db" and ok: "codec_reads (be_codec env) ev"
    and app: "append_event (be_codec env) ct io now ev db = (Inr seq, db', out)"
    and key: "parse_session_key_str (se_session_key ev) = (key_channel k, sk_chat_id k)"
    and seen: "if watermark = 0 then True else watermark < seq"
    and load: "load_history env k watermark db' = Inr events"
  shows "\<exists>evs. events = evs @ [stored_event ct ev seq]"
proof -
  let ?cd = "be_codec env" and ?row = "row_of_event (be_codec env) ct ev (key_channel k) (sk_chat_id k) seq"
  note rows = session_rows_append [OF inv app key]
  have new: "event_of_row ?cd (be_now env) ?row = Inr (stored_event ct ev seq)"
    using ok key by (rule event_of_row_of_event)
  have "er_sequence ?row = seq" by (simp add: row_of_event_def)
  then have "\<exists>rs. events_of_rows ?cd (be_now env) (rs @ [?row]) = Inr events"
    using load seen rows
    by (auto simp: load_history_def get_session_history_def get_events_after_sequence_def
        split: option.splits if_splits)
  then obtain rs where "events_of_rows ?cd (be_now env) (rs @ [?row]) = Inr events" by blast
  then show ?thesis using new
    by (cases "collect_res (map (event_of_row ?cd (be_now env)) rs)")
      (auto simp: events_of_rows_def collect_res_append)
qed


definition demo_build_env :: "unit build_env" where
  "demo_build_env = \<lparr> be_codec = demo_codec, be_count_tokens = length, be_get_reasoning = (\<lambda>_. None),
     be_now = 1, be_event_id = 1, be_io_summary = None, be_io_checkpoint = None, be_io_append = None,
     be_io_load = None \<rparr>"

definition demo_builder :: "(unit, unit, unit) context_builder" where
  "demo_builder = \<lparr> bu_system_prompt = [], bu_skills_context = None, bu_hooks = hooks_new,
     bu_history_config = default_history_config \<rparr>"

definition empty_log :: event_db where
  "empty_log = \<lparr> db_sessions = [], db_events = [] \<rparr>"

lemma demo_user_content: "user_content_of c [msg_user c] = c"
  by (simp add: user_content_of_def msg_user_def)


end
