(* ===== verification/Vault_Redaction.thy ===== *)
theory Vault_Redaction
  imports Prelude
begin

text \<open>
  Log redaction (engine/src/vault/core/redaction.rs).  Secrets of at least four bytes
  are replaced, longest first, by a fixed marker.  The lemmas follow a bracket-free
  string through a replacement: the marker's brackets keep it from appearing anywhere
  it was not before.
\<close>

definition MIN_SECRET_LENGTH :: nat where
  "MIN_SECRET_LENGTH = 4"

definition REDACTED :: string where
  "REDACTED = ''[REDACTED]''"

definition redact_one :: "string \<Rightarrow> string \<Rightarrow> string" where
  "redact_one result secret =
     (if length secret < MIN_SECRET_LENGTH then result
      else if str_contains result secret then str_replace result secret REDACTED
      else result)"

text \<open>\<open>sort_by_key(Reverse(len))\<close> is stable, as \<open>sort_key\<close> is.\<close>

definition redact_secrets :: "string \<Rightarrow> string list \<Rightarrow> string" where
  "redact_secrets tx secrets =
     foldl redact_one tx (sort_key (\<lambda>s. - int (length s)) secrets)"

definition contains_secrets :: "string \<Rightarrow> string list \<Rightarrow> bool" where
  "contains_secrets tx secrets =
     list_ex (\<lambda>s. length s \<ge> MIN_SECRET_LENGTH \<and> str_contains tx s) secrets"

definition redact_message_secrets :: "string \<Rightarrow> string list \<Rightarrow> string" where
  "redact_message_secrets content secrets = redact_secrets content secrets"

section \<open>Bracket-free strings and replacement\<close>

definition bracket_free :: "string \<Rightarrow> bool" where
  "bracket_free q = (CHR ''['' \<notin> set q \<and> CHR '']'' \<notin> set q)"

lemma sublist_split_at:
  assumes "sublist q (a @ c # b)" "c \<notin> set q"
  shows "sublist q a \<or> sublist q b"
proof -
  obtain u v where uv: "a @ c # b = u @ q @ v" using assms(1) by (auto simp: sublist_def)
  then consider w where "u @ q = a @ w" | w where "a = (u @ q) @ w"
    by (metis append_assoc append_eq_append_conv2)
  then show ?thesis
  proof cases
    case 2
    then show ?thesis by (auto simp: sublist_def)
  next
    case (1 w)
    then have b: "c # b = w @ v" using uv by (metis append_assoc same_append_eq)
    consider x where "u = a @ x" "w = x @ q" | x where "a = u @ x" "q = x @ w"
      using 1 by (auto simp: append_eq_append_conv2)
    then show ?thesis
    proof cases
      case (1 x)
      then show ?thesis
      proof (cases x)
        case Nil
        then show ?thesis using 1 b assms(2) by (cases q) (auto simp: sublist_def)
      next
        case (Cons y ys)
        then have "b = ys @ q @ v" using 1 b by simp
        then show ?thesis by (auto simp: sublist_def)
      qed
    next
      case (2 x)
      then have "w = []" using b assms(2) by (cases w) auto
      then have "a = u @ q @ []" using 2 by simp
      then show ?thesis unfolding sublist_def by blast
    qed
  qed
qed

lemma sublist_marker:
  assumes "sublist q (REDACTED @ x)" "bracket_free q"
  shows "sublist q ''REDACTED'' \<or> sublist q x"
proof -
  have "sublist q ([] @ CHR ''['' # (''REDACTED'' @ CHR '']'' # x))"
    using assms(1) by (simp add: REDACTED_def)
  then have "sublist q [] \<or> sublist q (''REDACTED'' @ CHR '']'' # x)"
    using assms(2) unfolding bracket_free_def by (intro sublist_split_at) auto
  then consider "q = []" | "sublist q (''REDACTED'' @ CHR '']'' # x)" by auto
  then show ?thesis
  proof cases
    case 2
    then show ?thesis using assms(2) unfolding bracket_free_def by (intro sublist_split_at [of q "''REDACTED''" "CHR '']''"]) auto
  qed simp
qed

lemma str_replace_Nil: "p \<noteq> [] \<Longrightarrow> str_replace [] p r = []"
  by (subst str_replace.simps) simp

lemma str_replace_Cons:
  assumes "p \<noteq> []"
  shows "prefix p (c # cs) \<Longrightarrow> str_replace (c # cs) p r = r @ str_replace (drop (length p) (c # cs)) p r"
    "\<not> prefix p (c # cs) \<Longrightarrow> str_replace (c # cs) p r = c # str_replace cs p r"
  using assms by (subst str_replace.simps, simp)+

lemma prefix_replace:
  assumes "prefix q (str_replace s p REDACTED)" "bracket_free q" "p \<noteq> []"
  shows "prefix q s"
  using assms
proof (induction s arbitrary: q)
  case Nil
  then show ?case by (simp add: str_replace_Nil)
next
  case (Cons c cs)
  show ?case
  proof (cases "prefix p (c # cs)")
    case True
    then show ?thesis
      using Cons.prems str_replace_Cons(1) [OF Cons.prems(3) True, of REDACTED]
      by (cases q) (auto simp: REDACTED_def bracket_free_def)
  next
    case False
    then have "prefix q (c # str_replace cs p REDACTED)"
      using Cons.prems(1) str_replace_Cons(2) [OF Cons.prems(3) False, of REDACTED] by simp
    then show ?thesis
      using Cons.IH Cons.prems(2,3) by (cases q) (auto simp: bracket_free_def)
  qed
qed

lemma sublist_replace:
  assumes "sublist q (str_replace s p REDACTED)" "bracket_free q" "\<not> sublist q ''REDACTED''" "p \<noteq> []"
  shows "sublist q s"
  using assms(1)
proof (induction s rule: length_induct)
  case (1 s)
  show ?case
  proof (cases s)
    case Nil
    then show ?thesis using 1 assms(4) by (simp add: str_replace_Nil)
  next
    case (Cons c cs)
    show ?thesis
    proof (cases "prefix p s")
      case True
      then have "sublist q (REDACTED @ str_replace (drop (length p) s) p REDACTED)"
        using 1 Cons str_replace_Cons(1) [OF assms(4)] by simp
      then have "sublist q (str_replace (drop (length p) s) p REDACTED)"
        using sublist_marker assms(2,3) by blast
      moreover have "length (drop (length p) s) < length s" using assms(4) Cons by simp
      ultimately have "sublist q (drop (length p) s)" using 1 by blast
      then show ?thesis by (meson sublist_drop sublist_order.order.trans)
    next
      case False
      then have *: "str_replace s p REDACTED = c # str_replace cs p REDACTED"
        using Cons str_replace_Cons(2) [OF assms(4)] by simp
      then have "prefix q (str_replace s p REDACTED) \<or> sublist q (str_replace cs p REDACTED)"
        using 1(2) by (simp add: sublist_Cons_right)
      then show ?thesis
      proof
        assume "prefix q (str_replace s p REDACTED)"
        then show ?thesis using prefix_replace assms(2,4) prefix_imp_sublist by blast
      next
        assume "sublist q (str_replace cs p REDACTED)"
        then have "sublist q cs" using 1 Cons by simp
        then show ?thesis using Cons by (simp add: sublist_Cons_right)
      qed
    qed
  qed
qed

lemma replaced_gone:
  assumes "bracket_free p" "\<not> sublist p ''REDACTED''" "p \<noteq> []"
  shows "\<not> sublist p (str_replace s p REDACTED)"
proof (induction s rule: length_induct)
  case (1 s)
  show ?case
  proof (cases s)
    case Nil
    then show ?thesis using assms(3) by (simp add: str_replace_Nil)
  next
    case (Cons c cs)
    show ?thesis
    proof (cases "prefix p s")
      case True
      have "length (drop (length p) s) < length s" using assms(3) Cons by simp
      then have "\<not> sublist p (str_replace (drop (length p) s) p REDACTED)" using 1 by blast
      moreover have "str_replace s p REDACTED = REDACTED @ str_replace (drop (length p) s) p REDACTED"
        using True Cons str_replace_Cons(1) [OF assms(3)] by simp
      ultimately show ?thesis
        using sublist_marker [OF _ assms(1)] assms(2) by metis
    next
      case False
      then have "\<not> prefix p (str_replace s p REDACTED)" using prefix_replace assms by blast
      moreover have "\<not> sublist p (str_replace cs p REDACTED)" using 1 Cons by simp
      ultimately show ?thesis
        using False Cons str_replace_Cons(2) [OF assms(3)] by (simp add: sublist_Cons_right)
    qed
  qed
qed

lemma redact_one_keeps_out:
  assumes "bracket_free q" "\<not> sublist q ''REDACTED''" "\<not> sublist q r"
  shows "\<not> sublist q (redact_one r s)"
  using assms sublist_replace [of q r s]
  by (cases "s = []") (auto simp: redact_one_def MIN_SECRET_LENGTH_def)

lemma redact_one_removes:
  assumes "bracket_free s" "\<not> sublist s ''REDACTED''" "4 \<le> length s"
  shows "\<not> sublist s (redact_one r s)"
  using assms replaced_gone [of s r] by (auto simp: redact_one_def MIN_SECRET_LENGTH_def str_contains_def)

lemma redact_fold_keeps_out:
  assumes "bracket_free q" "\<not> sublist q ''REDACTED''" "\<not> sublist q r"
  shows "\<not> sublist q (foldl redact_one r ss)"
  using assms(3) by (induction ss arbitrary: r) (auto simp: redact_one_keeps_out assms(1,2))

lemma redact_removes:
  assumes "s \<in> set secrets" "4 \<le> length s" "bracket_free s" "\<not> str_contains ''REDACTED'' s"
  shows "\<not> str_contains (redact_secrets tx secrets) s"
proof -
  have "s \<in> set (sort_key (\<lambda>s. - int (length s)) secrets)" using assms(1) by simp
  then obtain xs ys where split: "sort_key (\<lambda>s. - int (length s)) secrets = xs @ s # ys"
    by (meson split_list)
  have "\<not> sublist s (redact_one (foldl redact_one tx xs) s)"
    using redact_one_removes assms(2-4) by (simp add: str_contains_def)
  then have "\<not> sublist s (foldl redact_one (redact_one (foldl redact_one tx xs) s) ys)"
    using redact_fold_keeps_out assms(3,4) by (simp add: str_contains_def)
  then show ?thesis by (simp add: redact_secrets_def split str_contains_def)
qed

text \<open>C33: no secret survives redaction.  Whatever the text and the other secrets are, a
  listed secret of at least four bytes that has no square bracket and is not a piece of
  the marker word itself does not occur in the redacted text.\<close>

theorem redacted_secret_gone:
  assumes "s \<in> set secrets" "4 \<le> length s" "bracket_free s" "\<not> str_contains ''REDACTED'' s"
  shows "\<not> str_contains (redact_secrets tx secrets) s"
  using redact_removes assms .

theorem redacted_secret_gone_witness:
  "\<not> str_contains (redact_secrets ''user password=hunter2 pass'' [''pass'', ''hunter2'']) ''hunter2''"
  by (rule redacted_secret_gone)
    (simp_all add: bracket_free_def str_contains_def sublist_Cons_right)

lemma redact_untouched: "\<not> contains_secrets tx secrets \<Longrightarrow> redact_secrets tx secrets = tx"
proof -
  assume "\<not> contains_secrets tx secrets"
  then have "\<forall>s \<in> set ss. redact_one tx s = tx" if "set ss \<subseteq> set secrets" for ss
    using that by (auto simp: contains_secrets_def redact_one_def list_ex_iff)
  then have "foldl redact_one tx ss = tx" if "set ss \<subseteq> set secrets" for ss
    using that by (induction ss) (auto, metis insert_iff list.set(2) subset_iff)
  then show "redact_secrets tx secrets = tx" by (simp add: redact_secrets_def)
qed

end
