(* ===== verification/Compactor.thy ===== *)
theory Compactor
  imports Session_Store Vault_Redaction
begin

text \<open>
  The context compactor (engine/src/session/compactor): its state machine, the pipeline
  that replaces old events by a summary, the usage statistics and the checkpoints.  A
  background task is a program counter; each await or lock of the code is one step, so
  other tasks, new requests and appended events interleave between any two of them.
  What the database and the model answer comes with the step.  \<open>threshold\<close> is the
  code's \<open>(budget as f32 * multiplier) as usize\<close>.
\<close>

section \<open>The state machine\<close>

datatype compactor_state = CIdle | Compressing bool | Cooldown time

record compactor =
  cp_model :: string
  cp_token_budget :: nat
  cp_threshold :: "nat \<Rightarrow> nat"
  cp_prompt :: string
  cp_cooldown_secs :: nat

definition DEFAULT_SUMMARIZATION_PROMPT :: string where
  "DEFAULT_SUMMARIZATION_PROMPT =
     ''Summarize the following conversation briefly, keeping key facts, decisions, and outcomes.''"

definition COMPACTION_COOLDOWN_SECS :: nat where "COMPACTION_COOLDOWN_SECS = 60"

definition compactor_new :: "(nat \<Rightarrow> nat) \<Rightarrow> string \<Rightarrow> nat \<Rightarrow> compactor" where
  "compactor_new default_threshold model budget = \<lparr> cp_model = model, cp_token_budget = budget,
     cp_threshold = default_threshold, cp_prompt = DEFAULT_SUMMARIZATION_PROMPT,
     cp_cooldown_secs = COMPACTION_COOLDOWN_SECS \<rparr>"

fun is_compressing :: "compactor_state \<Rightarrow> bool" where
  "is_compressing (Compressing p) = True"
| "is_compressing _ = False"

definition elapsed_secs :: "time \<Rightarrow> time \<Rightarrow> nat" where
  "elapsed_secs now t = nat ((now - t) div 1000000000)"

text \<open>\<open>True\<close>: a task is started.\<close>

definition force_compact_state :: "compactor_state \<Rightarrow> bool \<times> compactor_state" where
  "force_compact_state st = (if is_compressing st then (False, st) else (True, Compressing False))"

definition try_compact_state ::
  "compactor \<Rightarrow> time \<Rightarrow> nat \<Rightarrow> compactor_state \<Rightarrow> bool \<times> compactor_state" where
  "try_compact_state c now current_tokens st =
     (if current_tokens < cp_threshold c (cp_token_budget c) then (False, st)
      else case st of
        Compressing pending \<Rightarrow> (False, Compressing True)
      | Cooldown last_fail \<Rightarrow>
          if elapsed_secs now last_fail < cp_cooldown_secs c then (False, st)
          else (True, Compressing False)
      | CIdle \<Rightarrow> (True, Compressing False))"

fun guard_drop :: "compactor_state \<Rightarrow> compactor_state" where
  "guard_drop (Compressing p) = CIdle"
| "guard_drop st = st"

section \<open>The pipeline\<close>

definition build_context_text :: "string option \<Rightarrow> 'j session_event list \<Rightarrow> string" where
  "build_context_text existing events =
     join [NL] ((case existing of
         Some s \<Rightarrow> if s \<noteq> [] then [''Previous summary:'' @ [NL] @ s] else []
       | None \<Rightarrow> [])
     @ map (\<lambda>e. event_type_display (se_event_type e) @ '': '' @ se_content e) events)"

text \<open>\<open>t03\<close>, \<open>t02\<close>: the temperatures 0.3 and 0.2 as single-precision bits.\<close>

definition summarize_request :: "u32 \<Rightarrow> string \<Rightarrow> string \<Rightarrow> string \<Rightarrow> 'j chat_request" where
  "summarize_request t03 model prompt context_text = \<lparr> cr_model = model,
     cr_messages = [msg_system prompt, msg_user context_text], cr_tools = None,
     cr_temperature = Some t03, cr_max_tokens = Some 1024, cr_thinking = None \<rparr>"

definition summarize_with_llm :: "string + 'j chat_response \<Rightarrow> string + string" where
  "summarize_with_llm r = (case r of
       Inl e \<Rightarrow> Inl (''LLM summarization call failed: '' @ e)
     | Inr resp \<Rightarrow> Inr (case rs_content resp of Some c \<Rightarrow> c | None \<Rightarrow> []))"

definition summary_to_persist :: "string \<Rightarrow> string list \<Rightarrow> string" where
  "summary_to_persist summary vault_values =
     (if vault_values = [] then summary else redact_secrets summary vault_values)"

section \<open>Tasks\<close>

text \<open>Where a task stands.  The flag says whether it is the follow-up run.  \<open>PcLlm\<close> and
  \<open>PcSave\<close> also carry the identifiers of the events whose text is in the model's input
  and whether the previous summary is: the proofs follow them, no step looks at them.\<close>

datatype task_pc =
    PcMarkStarted
  | PcTarget bool
  | PcSummary bool int
  | PcEvents bool int "string option" "string set"
  | PcLlm bool int string "string set"
  | PcSave bool int string "string set"
  | PcIds bool int
  | PcDelete bool int "string list"
  | PcSettle bool "string + unit"
  | PcFollow
  | PcMarkFinished
  | PcDrop
  | PcEnd

record task =
  tk_session :: session_key
  tk_vault :: "string list"
  tk_blocking :: bool
  tk_pc :: task_pc

record world =
  cw_events :: event_db
  cw_sessions :: session_db
  cw_state :: compactor_state
  cw_tasks :: "task list"
  cw_notified :: "string list list"
  cw_appended :: "string \<Rightarrow> string set"
  cw_covered :: "string \<Rightarrow> string set"

text \<open>\<open>cw_appended\<close> and \<open>cw_covered\<close> are history variables: the identifiers of the events
  appended to a session, and of those whose text went into its stored summary.\<close>

text \<open>What a step of a task finds outside: the database's answer, the model's, the clock and
  the text the clock is stored as.\<close>

record 'j outcome =
  oc_io :: "string option"
  oc_llm :: "string + 'j chat_response"
  oc_now :: time
  oc_stamp :: string

definition new_task :: "session_key \<Rightarrow> string list \<Rightarrow> bool \<Rightarrow> task" where
  "new_task k vault blocking = \<lparr> tk_session = k, tk_vault = vault, tk_blocking = blocking,
     tk_pc = PcMarkStarted \<rparr>"

text \<open>\<open>run_compaction\<close>, one await after the other.\<close>

definition step_target :: "'j outcome \<Rightarrow> session_key \<Rightarrow> bool \<Rightarrow> world \<Rightarrow> task_pc \<times> world" where
  "step_target oc k f w =
     (PcSummary f (if oc_io oc = None then get_max_sequence k (cw_events w) else 0), w)"

definition step_summary :: "'j outcome \<Rightarrow> session_key \<Rightarrow> bool \<Rightarrow> int \<Rightarrow> world \<Rightarrow> task_pc \<times> world" where
  "step_summary oc k f target w = (case load_summary (oc_io oc) k (cw_sessions w) of
       Inl e \<Rightarrow> (PcSettle f (Inl (''Failed to load summary for '' @ session_key_display k @ '': '' @ e)), w)
     | Inr row \<Rightarrow> (PcEvents f target (map_option fst row)
         (case row of Some (c, _) \<Rightarrow> if c \<noteq> [] then cw_covered w (session_key_display k) else {} | None \<Rightarrow> {}), w))"

definition step_events ::
  "'j codec \<Rightarrow> 'j outcome \<Rightarrow> session_key \<Rightarrow> bool \<Rightarrow> int \<Rightarrow> string option \<Rightarrow> string set \<Rightarrow> world \<Rightarrow> task_pc \<times> world" where
  "step_events cd oc k f target existing cov w =
     (case (case oc_io oc of Some e \<Rightarrow> Inl (DatabaseErr e)
            | None \<Rightarrow> get_events_up_to_sequence cd (oc_now oc) k target (cw_events w)) of
        Inl e \<Rightarrow> (PcSettle f (Inl (''Failed to load events for '' @ session_key_display k @ '': ''
          @ store_error_to_str e)), w)
      | Inr [] \<Rightarrow> (PcSettle f (Inr ()), w)
      | Inr events \<Rightarrow> (PcLlm f target (build_context_text existing events)
          (cov \<union> (\<lambda>e. cd_uuid_show cd (se_id e)) ` set events), w))"

definition step_llm :: "'j outcome \<Rightarrow> session_key \<Rightarrow> bool \<Rightarrow> int \<Rightarrow> string set \<Rightarrow> world \<Rightarrow> task_pc \<times> world" where
  "step_llm oc k f target cov w = (case summarize_with_llm (oc_llm oc) of
       Inl e \<Rightarrow> (PcSettle f (Inl e), w)
     | Inr answer \<Rightarrow> (let summary = trim answer in
         if summary = [] then (PcSettle f (Inl (''LLM returned empty summary for '' @ session_key_display k)), w)
         else (PcSave f target summary cov, w)))"

text \<open>\<open>persist_and_gc\<close>.\<close>

definition step_save ::
  "'j outcome \<Rightarrow> session_key \<Rightarrow> string list \<Rightarrow> bool \<Rightarrow> int \<Rightarrow> string \<Rightarrow> string set \<Rightarrow> world \<Rightarrow> task_pc \<times> world" where
  "step_save oc k vault f target summary cov w =
     (case save_summary (oc_io oc) (oc_stamp oc) k (summary_to_persist summary vault) target (cw_sessions w) of
        (Inl e, sd) \<Rightarrow> (PcSettle f (Inl (''Failed to save summary for '' @ session_key_display k @ '': '' @ e)), w)
      | (Inr _, sd) \<Rightarrow> (PcIds f target, w \<lparr> cw_sessions := sd,
          cw_covered := (cw_covered w)(session_key_display k := cov) \<rparr>))"

definition step_ids :: "'j outcome \<Rightarrow> session_key \<Rightarrow> bool \<Rightarrow> int \<Rightarrow> world \<Rightarrow> task_pc \<times> world" where
  "step_ids oc k f target w =
     (PcDelete f target (if oc_io oc = None then get_event_ids_up_to k target (cw_events w) else []), w)"

definition step_delete :: "'j outcome \<Rightarrow> session_key \<Rightarrow> bool \<Rightarrow> int \<Rightarrow> string list \<Rightarrow> world \<Rightarrow> task_pc \<times> world" where
  "step_delete oc k f target ids w = (case delete_events_upto (oc_io oc) k target (cw_events w) of
       (Inr n, db) \<Rightarrow> (PcSettle f (Inr ()), w \<lparr> cw_events := db,
          cw_notified := (if ids = [] then cw_notified w else ids # cw_notified w) \<rparr>)
     | (Inl e, db) \<Rightarrow> (PcSettle f (Inr ()), w))"

text \<open>After a run: a failure starts the cooldown; after the first run of a background task a
  pending request starts a second one.\<close>

definition step_settle :: "'j outcome \<Rightarrow> bool \<Rightarrow> bool \<Rightarrow> string + unit \<Rightarrow> world \<Rightarrow> task_pc \<times> world" where
  "step_settle oc blocking f r w =
     (if blocking then (PcMarkFinished, w)
      else case r of
        Inl e \<Rightarrow> (PcMarkFinished, w \<lparr> cw_state := Cooldown (oc_now oc) \<rparr>)
      | Inr _ \<Rightarrow> if \<not> f \<and> cw_state w = Compressing True then (PcFollow, w) else (PcMarkFinished, w))"

definition task_step :: "'j codec \<Rightarrow> 'j outcome \<Rightarrow> task \<Rightarrow> world \<Rightarrow> task_pc \<times> world" where
  "task_step cd oc t w = (let k = tk_session t in case tk_pc t of
       PcMarkStarted \<Rightarrow> (PcTarget False,
         w \<lparr> cw_sessions := snd (mark_compaction_started (oc_io oc) (oc_stamp oc) k (cw_sessions w)) \<rparr>)
     | PcTarget f \<Rightarrow> step_target oc k f w
     | PcSummary f target \<Rightarrow> step_summary oc k f target w
     | PcEvents f target existing cov \<Rightarrow> step_events cd oc k f target existing cov w
     | PcLlm f target context_text cov \<Rightarrow> step_llm oc k f target cov w
     | PcSave f target summary cov \<Rightarrow> step_save oc k (tk_vault t) f target summary cov w
     | PcIds f target \<Rightarrow> step_ids oc k f target w
     | PcDelete f target ids \<Rightarrow> step_delete oc k f target ids w
     | PcSettle f r \<Rightarrow> step_settle oc (tk_blocking t) f r w
     | PcFollow \<Rightarrow> (PcTarget True, w \<lparr> cw_state := Compressing False \<rparr>)
     | PcMarkFinished \<Rightarrow> (PcDrop,
         w \<lparr> cw_sessions := snd (mark_compaction_finished (oc_io oc) k (cw_sessions w)) \<rparr>)
     | PcDrop \<Rightarrow> (PcEnd, w \<lparr> cw_state := guard_drop (cw_state w) \<rparr>)
     | PcEnd \<Rightarrow> (PcEnd, w))"

section \<open>Runs\<close>

datatype 'j caction =
    AppendEv "'j session_event" time "string option"
  | TryCompact session_key nat "string list" time
  | ForceCompact session_key "string list" bool
  | TaskStep nat "'j outcome"

definition start_task :: "bool \<times> compactor_state \<Rightarrow> task \<Rightarrow> world \<Rightarrow> world" where
  "start_task r t w = (case r of (started, st) \<Rightarrow>
     w \<lparr> cw_state := st, cw_tasks := (if started then cw_tasks w @ [t] else cw_tasks w) \<rparr>)"

fun caction_step :: "'j codec \<Rightarrow> (string \<Rightarrow> nat) \<Rightarrow> compactor \<Rightarrow> 'j caction \<Rightarrow> world \<Rightarrow> world" where
  "caction_step cd ct c (AppendEv ev now io) w =
     (case append_event cd ct io now ev (cw_events w) of
        (Inl e, db, _) \<Rightarrow> w
      | (Inr seq, db, _) \<Rightarrow> (let (ch, i) = parse_session_key_str (se_session_key ev) in
          w \<lparr> cw_events := db, cw_appended := (cw_appended w)(ch @ '':'' @ i :=
            insert (cd_uuid_show cd (se_id ev)) (cw_appended w (ch @ '':'' @ i))) \<rparr>))"
| "caction_step cd ct c (TryCompact k tokens vault now) w =
     start_task (try_compact_state c now tokens (cw_state w)) (new_task k vault False) w"
| "caction_step cd ct c (ForceCompact k vault blocking) w =
     start_task (force_compact_state (cw_state w)) (new_task k vault blocking) w"
| "caction_step cd ct c (TaskStep n oc) w =
     (if n < length (cw_tasks w)
      then let t = cw_tasks w ! n; (pc, w1) = task_step cd oc t w in
        w1 \<lparr> cw_tasks := (cw_tasks w)[n := t \<lparr> tk_pc := pc \<rparr>] \<rparr>
      else w)"

definition world_new :: world where
  "world_new = \<lparr> cw_events = \<lparr> db_sessions = [], db_events = [] \<rparr>, cw_sessions = session_db_new,
     cw_state = CIdle, cw_tasks = [], cw_notified = [], cw_appended = (\<lambda>_. {}), cw_covered = (\<lambda>_. {}) \<rparr>"

definition run_actions :: "'j codec \<Rightarrow> (string \<Rightarrow> nat) \<Rightarrow> compactor \<Rightarrow> 'j caction list \<Rightarrow> world \<Rightarrow> world" where
  "run_actions cd ct c acts w = fold (caction_step cd ct c) acts w"

section \<open>What the read path sees\<close>

definition visible_ids :: "session_key \<Rightarrow> world \<Rightarrow> string set" where
  "visible_ids k w = er_id ` {r \<in> set (db_events (cw_events w)).
     in_session (key_channel k) (sk_chat_id k) r
     \<and> (snd (summary_of k (cw_sessions w)) = 0 \<or> snd (summary_of k (cw_sessions w)) < er_sequence r)}"

definition nothing_lost :: "session_key \<Rightarrow> world \<Rightarrow> bool" where
  "nothing_lost k w \<longleftrightarrow> cw_appended w (session_key_display k)
     \<subseteq> visible_ids k w \<union> cw_covered w (session_key_display k)"

section \<open>Statistics and checkpoints\<close>

definition load_summary_with_watermark :: "string option \<Rightarrow> session_key \<Rightarrow> session_db \<Rightarrow> string \<times> int" where
  "load_summary_with_watermark io k sd = (case load_summary io k sd of
       Inr (Some (c, wm)) \<Rightarrow> (c, wm) | Inr None \<Rightarrow> ([], 0) | Inl e \<Rightarrow> ([], 0))"

definition anyhow :: "string \<Rightarrow> store_error + 'a \<Rightarrow> string + 'a" where
  "anyhow what r = (case r of Inl e \<Rightarrow> Inl (what @ store_error_to_str e) | Inr x \<Rightarrow> Inr x)"

record usage_stats =
  ug_token_budget :: nat
  ug_threshold_tokens :: nat
  ug_current_tokens :: nat
  ug_summary_tokens :: nat
  ug_uncompacted_events :: nat
  ug_event_tokens :: nat
  ug_is_compressing :: bool

definition get_usage_stats ::
  "'j codec \<Rightarrow> (string \<Rightarrow> nat) \<Rightarrow> compactor \<Rightarrow> string option \<Rightarrow> time \<Rightarrow> session_key \<Rightarrow> world \<Rightarrow> string + usage_stats" where
  "get_usage_stats cd ct c io now k w =
     (let (summary, wm) = load_summary_with_watermark io k (cw_sessions w);
          summary_tokens = (if summary = [] then 0 else ct summary) in
      bind_res (anyhow ''Failed to load events: '' (get_events_after_sequence cd now k wm (cw_events w))) (\<lambda>events.
        let event_tokens = sum_list (map (\<lambda>e. ct (se_content e)) events) in
        Inr \<lparr> ug_token_budget = cp_token_budget c, ug_threshold_tokens = cp_threshold c (cp_token_budget c),
          ug_current_tokens = summary_tokens + event_tokens, ug_summary_tokens = summary_tokens,
          ug_uncompacted_events = length events, ug_event_tokens = event_tokens,
          ug_is_compressing = is_compressing (cw_state w) \<rparr>))"

record watermark_info =
  wi_watermark :: int
  wi_max_sequence :: int
  wi_uncompacted_count :: nat

definition get_watermark_info ::
  "'j codec \<Rightarrow> string option \<Rightarrow> time \<Rightarrow> session_key \<Rightarrow> world \<Rightarrow> string + watermark_info" where
  "get_watermark_info cd io now k w =
     (let (_, wm) = load_summary_with_watermark io k (cw_sessions w) in
      bind_res (anyhow ''Failed to count uncompacted events: '' (get_events_after_sequence cd now k wm (cw_events w)))
        (\<lambda>events. Inr \<lparr> wi_watermark = wm, wi_max_sequence = get_max_sequence k (cw_events w),
          wi_uncompacted_count = length events \<rparr>))"

record checkpoint_config =
  cc_interval_turns :: nat
  cc_prompt :: string
  cc_timeout_secs :: nat

definition checkpoint_due :: "checkpoint_config \<Rightarrow> int \<Rightarrow> bool" where
  "checkpoint_due cfg max_seq =
     (if cc_interval_turns cfg = 0 \<or> max_seq = 0 \<or> max_seq mod int (cc_interval_turns cfg) \<noteq> 0 then False else True)"

definition checkpoint_request :: "u32 \<Rightarrow> string \<Rightarrow> string \<Rightarrow> 'j chat_request" where
  "checkpoint_request t02 model prompt = \<lparr> cr_model = model,
     cr_messages = [msg_system ''You are a state summarizer.'', msg_user prompt], cr_tools = None,
     cr_temperature = Some t02, cr_max_tokens = Some 512, cr_thinking = None \<rparr>"

text \<open>\<open>chat\<close>: the provider under the timeout, \<open>None\<close> when it fires.\<close>

definition checkpoint ::
  "'j codec \<Rightarrow> u32 \<Rightarrow> string \<Rightarrow> checkpoint_config \<Rightarrow> ('j chat_request \<Rightarrow> (string + 'j chat_response) option)
    \<Rightarrow> string option \<Rightarrow> string option \<Rightarrow> time \<Rightarrow> session_key \<Rightarrow> int \<Rightarrow> event_db \<Rightarrow> session_db
    \<Rightarrow> (string + string option) \<times> session_db" where
  "checkpoint cd t02 model cfg chat io io' now k max_seq db sd =
     (if \<not> checkpoint_due cfg max_seq then (Inr None, sd)
      else let events = (case (case io of Some e \<Rightarrow> Inl (DatabaseErr e)
                 | None \<Rightarrow> get_events_after_sequence cd now k (max_seq - int (cc_interval_turns cfg)) db) of
               Inr es \<Rightarrow> es | Inl e \<Rightarrow> []);
             events_text = join [NL] (map (\<lambda>e. event_type_display (se_event_type e) @ '': '' @ se_content e) events);
             prompt = cc_prompt cfg @ [NL, NL] @ ''Recent events:'' @ [NL] @ events_text in
        case chat (checkpoint_request t02 model prompt) of
          None \<Rightarrow> (Inr None, sd)
        | Some (Inl e) \<Rightarrow> (Inr None, sd)
        | Some (Inr resp) \<Rightarrow>
            (let summary = trim (case rs_content resp of Some s \<Rightarrow> s | None \<Rightarrow> []) in
             if summary = [] then (Inr None, sd)
             else case save_checkpoint io' (session_key_display k) max_seq summary sd of
               (Inl e, sd1) \<Rightarrow> (Inl e, sd1)
             | (Inr _, sd1) \<Rightarrow> (Inr (Some summary), sd1)))"

definition ASK_CHECKPOINT_MAX_MESSAGES :: nat where "ASK_CHECKPOINT_MAX_MESSAGES = 20"

definition take_last :: "nat \<Rightarrow> 'a list \<Rightarrow> 'a list" where
  "take_last n xs = drop (length xs - n) xs"

definition ask_prompt :: "string \<Rightarrow> string \<Rightarrow> string" where
  "ask_prompt question transcript =
     ''Summarize the current task state for working memory recovery.''
     @ ''The agent has just asked the user a question and is now waiting.''
     @ [NL, NL] @ ''Pending question: '' @ question
     @ [NL, NL] @ ''Recent conversation context:'' @ [NL] @ transcript
     @ [NL, NL] @ ''Output ONLY in this format:'' @ [NL]
     @ ''<key_info>'' @ [NL]
     @ ''- Current goal: [one sentence]'' @ [NL]
     @ ''- Completed: [list]'' @ [NL]
     @ ''- Blocked on: [the pending question]'' @ [NL]
     @ ''- Next step: [one sentence]'' @ [NL]
     @ ''- Key facts learned: [list]'' @ [NL]
     @ ''</key_info>'' @ [NL, NL]
     @ ''Be concise.''"

text \<open>The lower-cased \<open>Debug\<close> text of a role is its name.\<close>

definition save_ask_checkpoint ::
  "u32 \<Rightarrow> string \<Rightarrow> ('j chat_request \<Rightarrow> (string + 'j chat_response) option) \<Rightarrow> string option \<Rightarrow> session_key
    \<Rightarrow> 'j chat_message list \<Rightarrow> string \<Rightarrow> session_db \<Rightarrow> (string + unit) \<times> session_db" where
  "save_ask_checkpoint t02 model chat io k messages question sd =
     (let transcript = join [NL] (map (\<lambda>m. role_as_str (cm_role m) @ '': ''
              @ (case cm_content m of Some s \<Rightarrow> s | None \<Rightarrow> [])) (take_last ASK_CHECKPOINT_MAX_MESSAGES messages)) in
      case chat (checkpoint_request t02 model (ask_prompt question transcript)) of
        None \<Rightarrow> (Inr (), sd)
      | Some (Inl e) \<Rightarrow> (Inr (), sd)
      | Some (Inr resp) \<Rightarrow>
          (let summary = trim (case rs_content resp of Some s \<Rightarrow> s | None \<Rightarrow> []) in
           if summary = [] then (Inr (), sd)
           else save_checkpoint io (session_key_display k) 0 summary sd))"

end
