(* ===== verification/Pending_Ask.thy ===== *)
theory Pending_Ask
  imports Tool_Registry
begin

text \<open>
  Questions to the user: the registry of pending asks (types/src/pending_ask.rs,
  engine/src/session/pending_ask.rs), the ask_user tool that waits on it
  (engine/src/tools/ask_user.rs) and the inbound entry that answers it
  (AgentSession::handle_inbound).  Every operation holds the registry's mutex, so a run
  is a sequence of operations.  The oneshot channels are tokio's: a channel is a number,
  the model records what the code does to its sender (an answer sent, or the sender
  dropped), and \<open>closed\<close> is what \<open>Sender::is_closed\<close> reports at the time of the call.
\<close>

section \<open>Data\<close>

record ask_answer =
  an_content :: string
  an_sender_id :: string
  an_channel :: channel_type
  an_timestamp :: time
  an_media :: "media_attachment list option"

definition answer_from_inbound :: "inbound_message \<Rightarrow> ask_answer" where
  "answer_from_inbound msg = \<lparr> an_content = im_content msg, an_sender_id = im_sender_id msg,
     an_channel = im_channel msg, an_timestamp = im_timestamp msg, an_media = im_media msg \<rparr>"

definition answer_synthesize :: "time \<Rightarrow> string \<Rightarrow> session_key \<Rightarrow> ask_answer" where
  "answer_synthesize now content key = \<lparr> an_content = content, an_sender_id = sk_chat_id key,
     an_channel = sk_channel key, an_timestamp = now, an_media = None \<rparr>"

datatype ask_error = AlreadyPending session_key | AskTimeout nat | AskCancelled

fun ask_error_to_str :: "ask_error \<Rightarrow> string" where
  "ask_error_to_str (AlreadyPending k) =
     ''session '' @ session_key_display k @ '' already has a pending ask''"
| "ask_error_to_str (AskTimeout secs) = ''ask timed out after '' @ show_nat secs @ ''s''"
| "ask_error_to_str AskCancelled = ''ask cancelled: session shutting down''"

record ask_slot =
  sl_ask_id :: uuid
  sl_answer_tx :: nat
  sl_prompt :: string
  sl_deadline :: time

definition slot_expired :: "time \<Rightarrow> ask_slot \<Rightarrow> bool" where
  "slot_expired now s = (now > sl_deadline s)"

datatype 'a tx_outcome = Sent 'a | SenderDropped

text \<open>\<open>pa_outcomes\<close> records the end of each sender, \<open>pa_next\<close> numbers the next channel.\<close>

record pending_asks =
  pa_inner :: "session_key \<Rightarrow> ask_slot option"
  pa_outcomes :: "(nat \<times> ask_answer tx_outcome) list"
  pa_next :: nat

definition pending_asks_new :: pending_asks where
  "pending_asks_new = \<lparr> pa_inner = (\<lambda>_. None), pa_outcomes = [], pa_next = 0 \<rparr>"

record ask_registration =
  reg_ask_id :: uuid
  reg_answer_rx :: nat

section \<open>Registry operations\<close>

text \<open>Taking a slot out of the map, with what becomes of its sender.\<close>

definition settle :: "session_key \<Rightarrow> ask_slot \<Rightarrow> ask_answer tx_outcome \<Rightarrow> pending_asks \<Rightarrow> pending_asks" where
  "settle key s oc st = st \<lparr> pa_inner := (pa_inner st)(key := None),
     pa_outcomes := (sl_answer_tx s, oc) # pa_outcomes st \<rparr>"

definition slot_stale :: "(nat \<Rightarrow> bool) \<Rightarrow> time \<Rightarrow> ask_slot \<Rightarrow> bool" where
  "slot_stale closed now s = (closed (sl_answer_tx s) \<or> slot_expired now s)"

definition evict_stale :: "(nat \<Rightarrow> bool) \<Rightarrow> time \<Rightarrow> session_key \<Rightarrow> pending_asks \<Rightarrow> pending_asks" where
  "evict_stale closed now key st = (case pa_inner st key of
       Some existing \<Rightarrow> if slot_stale closed now existing
                        then settle key existing SenderDropped st else st
     | None \<Rightarrow> st)"

definition ask_register ::
  "(nat \<Rightarrow> bool) \<Rightarrow> time \<Rightarrow> uuid \<Rightarrow> session_key \<Rightarrow> string \<Rightarrow> time \<Rightarrow> pending_asks
    \<Rightarrow> (ask_error + ask_registration) \<times> pending_asks" where
  "ask_register closed now new_id key prompt deadline st =
     (let st1 = evict_stale closed now key st in
      if pa_inner st1 key \<noteq> None then (Inl (AlreadyPending key), st1)
      else let tx = pa_next st1 in
        (Inr \<lparr> reg_ask_id = new_id, reg_answer_rx = tx \<rparr>,
         st1 \<lparr> pa_inner := (pa_inner st1)(key \<mapsto> \<lparr> sl_ask_id = new_id, sl_answer_tx = tx,
                 sl_prompt = prompt, sl_deadline = deadline \<rparr>),
               pa_next := Suc tx \<rparr>))"

definition ask_cancel :: "session_key \<Rightarrow> uuid \<Rightarrow> pending_asks \<Rightarrow> pending_asks" where
  "ask_cancel key ask_id st = (case pa_inner st key of
       Some s \<Rightarrow> if sl_ask_id s = ask_id then settle key s SenderDropped st else st
     | None \<Rightarrow> st)"

definition try_fulfill ::
  "(nat \<Rightarrow> bool) \<Rightarrow> time \<Rightarrow> session_key \<Rightarrow> inbound_message \<Rightarrow> pending_asks
    \<Rightarrow> (inbound_message + unit) \<times> pending_asks" where
  "try_fulfill closed now key msg st = (case pa_inner st key of
       None \<Rightarrow> (Inl msg, st)
     | Some s \<Rightarrow>
         if slot_stale closed now s then (Inl msg, settle key s SenderDropped st)
         else (Inr (), settle key s (Sent (answer_from_inbound msg)) st))"

section \<open>The tool\<close>

definition MAX_TIMEOUT_SECS :: u64 where "MAX_TIMEOUT_SECS = 86400"

text \<open>A seconds count as nanoseconds on the model's clock.\<close>

definition secs :: "u64 \<Rightarrow> time" where
  "secs s = 1000000000 * int (unat s)"

record ask_args =
  aa_prompt :: string
  aa_timeout_secs :: u64

definition parse_ask_args ::
  "('j \<Rightarrow> string \<Rightarrow> string option) \<Rightarrow> ('j \<Rightarrow> string \<Rightarrow> u64 option) \<Rightarrow> 'j \<Rightarrow> tool_error + ask_args" where
  "parse_ask_args get_str get_u64 args = (case get_str args ''prompt'' of
       None \<Rightarrow> Inl (InvalidArguments (''missing '' @ squoted ''prompt''))
     | Some prompt \<Rightarrow> (case get_u64 args ''timeout_secs'' of
         None \<Rightarrow> Inl (InvalidArguments (''missing/invalid '' @ squoted ''timeout_secs''))
       | Some t \<Rightarrow>
           if 1 \<le> t \<and> t \<le> MAX_TIMEOUT_SECS then Inr \<lparr> aa_prompt = prompt, aa_timeout_secs = t \<rparr>
           else Inl (InvalidArguments (squoted ''timeout_secs'' @ '' must be in [1, '' @ show_word MAX_TIMEOUT_SECS
                  @ ''], got '' @ show_word t))))"

text \<open>The first half of \<open>execute\<close>, up to the wait: the registration and the prompt.  \<open>send\<close>
  is what the outbound channel returns for a message.\<close>

definition ask_begin ::
  "(nat \<Rightarrow> bool) \<Rightarrow> time \<Rightarrow> uuid \<Rightarrow> ('ws outbound_message \<Rightarrow> string + unit) \<Rightarrow> 'h tool_context \<Rightarrow> ask_args
    \<Rightarrow> pending_asks \<Rightarrow> (tool_error + ask_registration) \<times> 'ws outbound_message list \<times> pending_asks" where
  "ask_begin closed now new_id send ctx a st =
     (if tx_pending_asks ctx = None
      then (Inl (ExecutionError (''ask_user requires a PendingAskRegistry in ToolContext; this ''
              @ ''context does not support user prompting'')), [], st)
      else case ask_register closed now new_id (tx_session_key ctx) (aa_prompt a)
                  (now + secs (aa_timeout_secs a)) st of
        (Inl e, st1) \<Rightarrow> (Inl (ExecutionError (ask_error_to_str e)), [], st1)
      | (Inr reg, st1) \<Rightarrow>
          if supports_streaming (sk_channel (tx_session_key ctx)) then (Inr reg, [], st1)
          else let msg = outbound_new (sk_channel (tx_session_key ctx)) (sk_chat_id (tx_session_key ctx))
                           (aa_prompt a) in
            (case send msg of
               Inl e \<Rightarrow> (Inl (ExecutionError (''failed to send prompt: '' @ e)), [],
                         ask_cancel (tx_session_key ctx) (reg_ask_id reg) st1)
             | Inr _ \<Rightarrow> (Inr reg, [msg], st1)))"

text \<open>The second half: what ends the wait.  The receiver is looked at first (\<open>biased\<close>), so
  an answer that is there wins over an elapsed timer; \<open>None\<close> while neither is the case.\<close>

definition ask_wait ::
  "'h tool_context \<Rightarrow> ask_args \<Rightarrow> time \<Rightarrow> time \<Rightarrow> ask_registration \<Rightarrow> pending_asks
    \<Rightarrow> (ask_error + ask_answer) option \<times> pending_asks" where
  "ask_wait ctx a started now reg st =
     (case map_of (pa_outcomes st) (reg_answer_rx reg) of
        Some (Sent ans) \<Rightarrow> (Some (Inr ans), st)
      | Some SenderDropped \<Rightarrow> (Some (Inl AskCancelled), st)
      | None \<Rightarrow>
          if started + secs (aa_timeout_secs a) \<le> now
          then (Some (Inl (AskTimeout (unat (aa_timeout_secs a)))),
                ask_cancel (tx_session_key ctx) (reg_ask_id reg) st)
          else (None, st))"

definition ask_result :: "(ask_answer \<Rightarrow> string + string) \<Rightarrow> ask_error + ask_answer \<Rightarrow> tool_error + string" where
  "ask_result ser r = (case r of
       Inr a \<Rightarrow> (case ser a of
           Inl e \<Rightarrow> Inl (ExecutionError (''failed to serialize answer: '' @ e))
         | Inr s \<Rightarrow> Inr s)
     | Inl e \<Rightarrow> Inl (ExecutionError (ask_error_to_str e)))"

text \<open>\<open>AgentSession::handle_inbound\<close>: a pending ask takes the message, otherwise the turn runs.\<close>

datatype 'r handle_outcome = Consumed | Replied 'r

definition synthetic_inbound :: "time \<Rightarrow> string \<Rightarrow> session_key \<Rightarrow> inbound_message" where
  "synthetic_inbound now content key = \<lparr> im_channel = sk_channel key, im_sender_id = sk_chat_id key,
     im_chat_id = sk_chat_id key, im_content = content, im_media = None, im_metadata = None,
     im_timestamp = now, im_trace_id = None \<rparr>"

definition handle_inbound ::
  "(nat \<Rightarrow> bool) \<Rightarrow> time \<Rightarrow> (string \<Rightarrow> session_key \<Rightarrow> 'e + 'r) \<Rightarrow> string \<Rightarrow> session_key \<Rightarrow> pending_asks
    \<Rightarrow> ('e + 'r handle_outcome) \<times> pending_asks" where
  "handle_inbound closed now run_turn content key st =
     (case try_fulfill closed now key (synthetic_inbound now content key) st of
        (Inr _, st1) \<Rightarrow> (Inr Consumed, st1)
      | (Inl _, st1) \<Rightarrow> (case run_turn content key of
            Inl e \<Rightarrow> (Inl e, st1)
          | Inr r \<Rightarrow> (Inr (Replied r), st1)))"

section \<open>Runs\<close>

datatype ask_op =
    OpRegister uuid session_key string time
  | OpCancel session_key uuid
  | OpFulfill session_key inbound_message

fun ask_op_step :: "(nat \<Rightarrow> bool) \<Rightarrow> time \<Rightarrow> ask_op \<Rightarrow> pending_asks \<Rightarrow> pending_asks" where
  "ask_op_step closed now (OpRegister i key prompt deadline) st =
     snd (ask_register closed now i key prompt deadline st)"
| "ask_op_step closed now (OpCancel key i) st = ask_cancel key i st"
| "ask_op_step closed now (OpFulfill key msg) st = snd (try_fulfill closed now key msg st)"

text \<open>A run: each operation with the channels closed at its time and the clock.\<close>

type_synonym ask_trace = "((nat \<Rightarrow> bool) \<times> time \<times> ask_op) list"

definition run_asks :: "ask_trace \<Rightarrow> pending_asks \<Rightarrow> pending_asks" where
  "run_asks ops st = fold (\<lambda>(closed, now, oper). ask_op_step closed now oper) ops st"

inductive ask_reach :: "pending_asks \<Rightarrow> bool" where
  reach_new: "ask_reach pending_asks_new"
| reach_op: "ask_reach st \<Longrightarrow> ask_reach (ask_op_step closed now oper st)"

section \<open>Every registration ends once\<close>

definition ask_inv :: "pending_asks \<Rightarrow> bool" where
  "ask_inv st \<longleftrightarrow>
     (\<forall>k k' s s'. pa_inner st k = Some s \<longrightarrow> pa_inner st k' = Some s' \<longrightarrow>
        sl_answer_tx s = sl_answer_tx s' \<longrightarrow> k = k')
   \<and> distinct (map fst (pa_outcomes st))
   \<and> sl_answer_tx ` ran (pa_inner st) \<inter> fst ` set (pa_outcomes st) = {}
   \<and> sl_answer_tx ` ran (pa_inner st) \<union> fst ` set (pa_outcomes st) = {..<pa_next st}"

lemma ask_invI:
  assumes "\<And>k k' s s'. pa_inner st k = Some s \<Longrightarrow> pa_inner st k' = Some s' \<Longrightarrow>
      sl_answer_tx s = sl_answer_tx s' \<Longrightarrow> k = k'"
    and "distinct (map fst (pa_outcomes st))"
    and "sl_answer_tx ` ran (pa_inner st) \<inter> fst ` set (pa_outcomes st) = {}"
    and "sl_answer_tx ` ran (pa_inner st) \<union> fst ` set (pa_outcomes st) = {..<pa_next st}"
  shows "ask_inv st"
  unfolding ask_inv_def using assms by blast

lemma ran_remove: "m k = Some s \<Longrightarrow> ran m = insert s (ran (m(k := None)))"
  by (force simp: ran_def)

lemma ask_inv_new: "ask_inv pending_asks_new"
  by (auto simp: ask_inv_def pending_asks_new_def ran_def)

lemma ask_inv_settle:
  assumes inv: "ask_inv st" and s: "pa_inner st key = Some s"
  shows "ask_inv (settle key s oc st)"
proof -
  let ?m = "(pa_inner st)(key := None)"
  have in_old: "sl_answer_tx s \<in> sl_answer_tx ` ran (pa_inner st)" using s by (auto simp: ran_def)
  then have fresh: "sl_answer_tx s \<notin> fst ` set (pa_outcomes st)" using inv by (auto simp: ask_inv_def)
  have gone: "sl_answer_tx s \<notin> sl_answer_tx ` ran ?m"
  proof
    assume "sl_answer_tx s \<in> sl_answer_tx ` ran ?m"
    then obtain k' s' where "pa_inner st k' = Some s'" "k' \<noteq> key" "sl_answer_tx s' = sl_answer_tx s"
      by (auto simp: ran_def split: if_splits)
    then show False using inv s unfolding ask_inv_def by metis
  qed
  have inj: "\<forall>k k' t t'. ?m k = Some t \<longrightarrow> ?m k' = Some t' \<longrightarrow> sl_answer_tx t = sl_answer_tx t' \<longrightarrow> k = k'"
  proof (intro allI impI)
    fix k k' t t'
    assume "?m k = Some t" "?m k' = Some t'" "sl_answer_tx t = sl_answer_tx t'"
    then have "pa_inner st k = Some t" "pa_inner st k' = Some t'" by (auto split: if_splits)
    then show "k = k'" using inv \<open>sl_answer_tx t = sl_answer_tx t'\<close> unfolding ask_inv_def by metis
  qed
  have old: "sl_answer_tx ` ran (pa_inner st) = insert (sl_answer_tx s) (sl_answer_tx ` ran ?m)"
    using ran_remove [of "pa_inner st", OF s] by simp
  have parts: "distinct (map fst (pa_outcomes st))"
    "sl_answer_tx ` ran (pa_inner st) \<inter> fst ` set (pa_outcomes st) = {}"
    "sl_answer_tx ` ran (pa_inner st) \<union> fst ` set (pa_outcomes st) = {..<pa_next st}"
    using inv by (simp_all add: ask_inv_def)
  have "sl_answer_tx ` ran ?m \<inter> fst ` set ((sl_answer_tx s, oc) # pa_outcomes st) = {}"
    using parts(2) gone unfolding old by simp
  moreover have "sl_answer_tx ` ran ?m \<union> fst ` set ((sl_answer_tx s, oc) # pa_outcomes st) = {..<pa_next st}"
    using parts(3) unfolding old by simp
  moreover have "distinct (map fst ((sl_answer_tx s, oc) # pa_outcomes st))"
    using parts(1) fresh by simp
  ultimately show ?thesis
  proof (intro ask_invI)
    fix k k' t t'
    assume "pa_inner (settle key s oc st) k = Some t" "pa_inner (settle key s oc st) k' = Some t'"
      "sl_answer_tx t = sl_answer_tx t'"
    moreover have "pa_inner (settle key s oc st) = ?m" by (simp add: settle_def)
    ultimately show "k = k'" using inj by metis
  qed (simp_all add: settle_def del: fun_upd_apply)
qed

lemma ask_inv_evict: "ask_inv st \<Longrightarrow> ask_inv (evict_stale closed now key st)"
  by (auto simp: evict_stale_def ask_inv_settle split: option.splits)

lemma ask_inv_register:
  assumes "ask_inv st"
  shows "ask_inv (snd (ask_register closed now i key prompt deadline st))"
proof -
  let ?st = "evict_stale closed now key st"
  have inv: "ask_inv ?st" using assms by (rule ask_inv_evict)
  show ?thesis
  proof (cases "pa_inner ?st key")
    case None
    let ?tx = "pa_next ?st" and ?m = "pa_inner ?st"
    have sub: "sl_answer_tx ` ran ?m \<union> fst ` set (pa_outcomes ?st) = {..<?tx}"
      using inv by (simp add: ask_inv_def)
    have less: "sl_answer_tx s \<noteq> ?tx" if "?m k = Some s" for k s
    proof -
      have "s \<in> ran ?m" using that by (rule ranI)
      then have "sl_answer_tx s \<in> {..<?tx}" using sub by blast
      then show ?thesis by simp
    qed
    define s where "s = \<lparr> sl_ask_id = i, sl_answer_tx = ?tx, sl_prompt = prompt, sl_deadline = deadline \<rparr>"
    have ran: "sl_answer_tx ` ran (?m(key \<mapsto> s)) = insert ?tx (sl_answer_tx ` ran ?m)"
      using None by (simp add: ran_map_upd s_def)
    have step: "snd (ask_register closed now i key prompt deadline st)
        = ?st \<lparr> pa_inner := ?m(key \<mapsto> s), pa_next := Suc ?tx \<rparr>"
      using None by (simp add: ask_register_def Let_def s_def)
    have inj: "\<forall>k k' t t'. (?m(key \<mapsto> s)) k = Some t \<longrightarrow> (?m(key \<mapsto> s)) k' = Some t' \<longrightarrow>
        sl_answer_tx t = sl_answer_tx t' \<longrightarrow> k = k'"
    proof (intro allI impI)
      fix k k' t t'
      assume *: "(?m(key \<mapsto> s)) k = Some t" "(?m(key \<mapsto> s)) k' = Some t'" "sl_answer_tx t = sl_answer_tx t'"
      have tx: "sl_answer_tx s = ?tx" by (simp add: s_def)
      show "k = k'"
      proof (cases "k = key \<or> k' = key")
        case True
        then show ?thesis using * less tx by (metis fun_upd_apply option.inject)
      next
        case False
        then show ?thesis using * inv unfolding ask_inv_def by simp
      qed
    qed
    have "?tx \<notin> fst ` set (pa_outcomes ?st)" using sub by auto
    then have "insert ?tx (sl_answer_tx ` ran ?m) \<inter> fst ` set (pa_outcomes ?st) = {}"
      using inv by (simp add: ask_inv_def)
    moreover have "insert ?tx (sl_answer_tx ` ran ?m) \<union> fst ` set (pa_outcomes ?st) = {..<Suc ?tx}"
      using sub by (simp add: lessThan_Suc)
    ultimately show ?thesis
    proof (intro ask_invI)
      fix k k' t t'
      let ?st' = "snd (ask_register closed now i key prompt deadline st)"
      assume "pa_inner ?st' k = Some t" "pa_inner ?st' k' = Some t'" "sl_answer_tx t = sl_answer_tx t'"
      moreover have "pa_inner ?st' = ?m(key \<mapsto> s)" by (simp add: step)
      ultimately show "k = k'" using inj by metis
    next
      show "distinct (map fst (pa_outcomes (snd (ask_register closed now i key prompt deadline st))))"
        using inv by (simp add: step ask_inv_def)
    qed (simp_all add: step ran del: fun_upd_apply)
  qed (use inv in \<open>simp add: ask_register_def\<close>)
qed

lemma ask_inv_cancel: "ask_inv st \<Longrightarrow> ask_inv (ask_cancel key i st)"
  by (simp add: ask_cancel_def ask_inv_settle split: option.split)

lemma ask_inv_fulfill: "ask_inv st \<Longrightarrow> ask_inv (snd (try_fulfill closed now key msg st))"
  by (simp add: try_fulfill_def ask_inv_settle split: option.split)

lemma ask_inv_step: "ask_inv st \<Longrightarrow> ask_inv (ask_op_step closed now oper st)"
  by (cases oper) (simp_all add: ask_inv_register ask_inv_cancel ask_inv_fulfill)

lemma ask_reach_inv: "ask_reach st \<Longrightarrow> ask_inv st"
  by (induction rule: ask_reach.induct) (simp_all add: ask_inv_new ask_inv_step)

definition demo_key :: session_key where
  "demo_key = session_key_new Telegram ''42''"

definition demo_registered :: "(ask_error + ask_registration) \<times> pending_asks" where
  "demo_registered = ask_register (\<lambda>_. False) 0 7 demo_key ''Proceed?'' 10 pending_asks_new"



section \<open>The asker gets the reply\<close>

text \<open>Operations that leave a live slot in place: other sessions' operations, cancellations
  of other questions, and registrations on the same session while the slot is not stale.\<close>

fun leaves_alone :: "session_key \<Rightarrow> ask_slot \<Rightarrow> (nat \<Rightarrow> bool) \<times> time \<times> ask_op \<Rightarrow> bool" where
  "leaves_alone key s (closed, now, OpRegister i k prompt deadline) = (k = key \<longrightarrow> \<not> slot_stale closed now s)"
| "leaves_alone key s (closed, now, OpCancel k i) = (k = key \<longrightarrow> i \<noteq> sl_ask_id s)"
| "leaves_alone key s (closed, now, OpFulfill k msg) = (k \<noteq> key)"

lemma evict_other: "k \<noteq> key \<Longrightarrow> pa_inner (evict_stale closed now k st) key = pa_inner st key"
  by (simp add: evict_stale_def settle_def split: option.split)

lemma evict_live:
  "pa_inner st key = Some s \<Longrightarrow> \<not> slot_stale closed now s \<Longrightarrow> evict_stale closed now key st = st"
  by (simp add: evict_stale_def)

lemma step_keeps_slot:
  assumes "pa_inner st key = Some s" and "leaves_alone key s (closed, now, oper)"
  shows "pa_inner (ask_op_step closed now oper st) key = Some s"
proof (cases oper)
  case (OpRegister i k prompt deadline)
  then show ?thesis
    using assms evict_live [OF assms(1), of closed now] evict_other [of k key closed now st]
    by (cases "k = key") (auto simp: ask_register_def Let_def)
next
  case (OpCancel k i)
  then show ?thesis
    using assms by (cases "k = key") (auto simp: ask_cancel_def settle_def split: option.split)
next
  case (OpFulfill k msg)
  then show ?thesis
    using assms by (auto simp: try_fulfill_def settle_def split: option.split)
qed

lemma run_keeps_slot:
  "pa_inner st key = Some s \<Longrightarrow> list_all (leaves_alone key s) ops \<Longrightarrow> pa_inner (run_asks ops st) key = Some s"
  unfolding run_asks_def
  by (induction ops arbitrary: st) (auto simp: step_keeps_slot)

lemma ask_inv_run: "ask_inv st \<Longrightarrow> ask_inv (run_asks ops st)"
  unfolding run_asks_def by (induction ops arbitrary: st) (auto simp: ask_inv_step)

lemma settle_outcome:
  assumes "ask_inv st" "pa_inner st key = Some s" "map_of (pa_outcomes st) ch = Some oc"
  shows "map_of (pa_outcomes (settle key s oc' st)) ch = Some oc"
proof -
  have "sl_answer_tx s \<in> sl_answer_tx ` ran (pa_inner st)" using assms(2) by (auto simp: ran_def)
  moreover have "ch \<in> fst ` set (pa_outcomes st)" using map_of_SomeD [OF assms(3)] by force
  ultimately have "sl_answer_tx s \<noteq> ch" using assms(1) unfolding ask_inv_def by blast
  then show ?thesis using assms(3) by (simp add: settle_def)
qed

lemma step_outcome:
  assumes "ask_inv st" "map_of (pa_outcomes st) ch = Some oc"
  shows "map_of (pa_outcomes (ask_op_step closed now oper st)) ch = Some oc"
  using assms
  by (cases oper) (simp_all add: ask_register_def evict_stale_def Let_def ask_cancel_def
      try_fulfill_def settle_outcome split: option.split)

lemma run_outcome:
  "ask_inv st \<Longrightarrow> map_of (pa_outcomes st) ch = Some oc \<Longrightarrow> map_of (pa_outcomes (run_asks ops st)) ch = Some oc"
  unfolding run_asks_def
  by (induction ops arbitrary: st) (auto simp: step_outcome ask_inv_step)

lemma slot_no_outcome:
  assumes "ask_inv st" "pa_inner st key = Some s"
  shows "map_of (pa_outcomes st) (sl_answer_tx s) = None"
proof -
  have "sl_answer_tx s \<in> sl_answer_tx ` ran (pa_inner st)" using assms(2) by (auto simp: ran_def)
  then have "sl_answer_tx s \<notin> fst ` set (pa_outcomes st)" using assms(1) unfolding ask_inv_def by blast
  then show ?thesis by (simp add: map_of_eq_None_iff)
qed

definition slot_of :: "ask_registration \<Rightarrow> string \<Rightarrow> time \<Rightarrow> ask_slot" where
  "slot_of reg prompt deadline = \<lparr> sl_ask_id = reg_ask_id reg, sl_answer_tx = reg_answer_rx reg,
     sl_prompt = prompt, sl_deadline = deadline \<rparr>"

lemma ask_register_Inr:
  assumes "ask_register closed now i key prompt deadline st = (Inr reg, st1)"
  shows "pa_inner st1 key = Some (slot_of reg prompt deadline)"
  using assms by (auto simp: ask_register_def Let_def slot_of_def split: if_splits)

lemma ask_begin_Inr:
  assumes "ask_begin closed now i send ctx a st = (Inr reg, out, st1)"
  shows "ask_register closed now i (tx_session_key ctx) (aa_prompt a) (now + secs (aa_timeout_secs a)) st
    = (Inr reg, st1)"
  using assms by (auto simp: ask_begin_def Let_def split: if_splits prod.splits sum.splits)

lemma try_fulfill_live:
  assumes "pa_inner st key = Some s" "\<not> slot_stale closed now s"
  shows "try_fulfill closed now key msg st = (Inr (), settle key s (Sent (answer_from_inbound msg)) st)"
  using assms by (simp add: try_fulfill_def)

text \<open>The first reply on a session answers the question asked there.  Once ask_user has
  registered and sent its prompt, whatever other operations run in between (other
  sessions, cancellations of other questions, further questions on the session, which
  are refused while this one is live), the tool keeps waiting until its time is up, and
  a message that arrives on the session before the deadline is consumed as the answer:
  the tool returns it even if it is polled only after the time is up or after any later
  operations, and the session is free for the next question.\<close>

theorem asker_gets_reply:
  assumes reach: "ask_reach st"
    and beg: "ask_begin closed t i send ctx a st = (Inr reg, out, st1)"
    and alone: "list_all (leaves_alone (tx_session_key ctx)
        (slot_of reg (aa_prompt a) (t + secs (aa_timeout_secs a)))) ops"
    and live: "\<not> closed' (reg_answer_rx reg)" "now \<le> t + secs (aa_timeout_secs a)"
    and st2: "st2 = run_asks ops st1"
    and ful: "try_fulfill closed' now (tx_session_key ctx) msg st2 = (r, st3)"
  shows "(if now < t + secs (aa_timeout_secs a) then ask_wait ctx a t now reg st2 = (None, st2) else True)
    \<and> r = Inr ()
    \<and> fst (ask_wait ctx a t now' reg (run_asks ops' st3)) = Some (Inr (answer_from_inbound msg))
    \<and> pa_inner st3 (tx_session_key ctx) = None"
proof -
  let ?key = "tx_session_key ctx"
  let ?s = "slot_of reg (aa_prompt a) (t + secs (aa_timeout_secs a))"
  have reg: "ask_register closed t i ?key (aa_prompt a) (t + secs (aa_timeout_secs a)) st = (Inr reg, st1)"
    using beg by (rule ask_begin_Inr)
  have inv1: "ask_inv st1"
    using ask_inv_register [OF ask_reach_inv [OF reach], of closed t i ?key "aa_prompt a"
        "t + secs (aa_timeout_secs a)"] reg by simp
  then have inv2: "ask_inv st2" unfolding st2 by (rule ask_inv_run)
  have slot: "pa_inner st2 ?key = Some ?s"
    unfolding st2 using ask_register_Inr [OF reg] alone by (rule run_keeps_slot)
  have "\<not> slot_stale closed' now ?s"
    using live by (simp add: slot_stale_def slot_expired_def slot_of_def)
  then have f: "r = Inr ()" "st3 = settle ?key ?s (Sent (answer_from_inbound msg)) st2"
    using ful slot try_fulfill_live [of st2 ?key ?s] by auto
  have none: "map_of (pa_outcomes st2) (reg_answer_rx reg) = None"
    using slot_no_outcome [OF inv2 slot] by (simp add: slot_of_def)
  have inv3: "ask_inv st3" unfolding f by (rule ask_inv_settle [OF inv2 slot])
  have "map_of (pa_outcomes st3) (reg_answer_rx reg) = Some (Sent (answer_from_inbound msg))"
    unfolding f by (simp add: settle_def slot_of_def)
  then have "map_of (pa_outcomes (run_asks ops' st3)) (reg_answer_rx reg) = Some (Sent (answer_from_inbound msg))"
    by (rule run_outcome [OF inv3])
  then show ?thesis
    using f none by (auto simp: ask_wait_def settle_def)
qed

definition demo_ask_ctx :: "unit tool_context" where
  "demo_ask_ctx = (default_tool_context () ()) \<lparr> tx_session_key := demo_key, tx_pending_asks := Some () \<rparr>"

definition demo_ask_args :: ask_args where
  "demo_ask_args = \<lparr> aa_prompt = ''Proceed?'', aa_timeout_secs = 5 \<rparr>"

definition demo_reply :: inbound_message where
  "demo_reply = synthetic_inbound 3 ''yes'' demo_key"

definition demo_asked :: pending_asks where
  "demo_asked = snd (ask_register (\<lambda>_. False) 0 7 demo_key ''Proceed?'' 5000000000 pending_asks_new)"

theorem asker_gets_reply_witness:
  "fst (ask_wait demo_ask_ctx demo_ask_args 0 9000000000 \<lparr> reg_ask_id = 7, reg_answer_rx = 0 \<rparr>
      (run_asks [(\<lambda>_. False, 4, OpCancel demo_key 7)]
        (snd (try_fulfill (\<lambda>_. False) 3 demo_key demo_reply
          (run_asks [(\<lambda>_. False, 1, OpRegister 8 demo_key ''Again?'' 9)] demo_asked)))))
    = Some (Inr (answer_from_inbound demo_reply))"
proof -
  have key: "tx_session_key demo_ask_ctx = demo_key" by (simp add: demo_ask_ctx_def)
  have t: "secs (aa_timeout_secs demo_ask_args) = 5000000000" by (simp add: secs_def demo_ask_args_def)
  have beg: "ask_begin (\<lambda>_. False) 0 7 (\<lambda>_ :: unit outbound_message. Inr ()) demo_ask_ctx demo_ask_args pending_asks_new
      = (Inr \<lparr> reg_ask_id = 7, reg_answer_rx = 0 \<rparr>,
         [outbound_new Telegram ''42'' ''Proceed?''], demo_asked)"
    by (simp add: ask_begin_def t demo_ask_ctx_def demo_ask_args_def demo_asked_def demo_key_def
        session_key_new_def ask_register_def evict_stale_def pending_asks_new_def supports_streaming_def secs_def Let_def)
  have alone: "list_all (leaves_alone (tx_session_key demo_ask_ctx)
      (slot_of \<lparr> reg_ask_id = 7, reg_answer_rx = 0 \<rparr> (aa_prompt demo_ask_args) (0 + secs (aa_timeout_secs demo_ask_args))))
      [(\<lambda>_. False, 1, OpRegister 8 demo_key ''Again?'' 9)]"
    by (simp add: slot_stale_def slot_expired_def slot_of_def t)
  obtain r st3 where ful: "try_fulfill (\<lambda>_. False) 3 demo_key demo_reply
      (run_asks [(\<lambda>_. False, 1, OpRegister 8 demo_key ''Again?'' 9)] demo_asked) = (r, st3)"
    by fastforce
  show ?thesis
    using asker_gets_reply [OF reach_new beg alone, where closed' = "\<lambda>_. False" and now = 3
        and msg = demo_reply and r = r and ?st3.0 = st3 and now' = 9000000000
        and ops' = "[(\<lambda>_. False, 4, OpCancel demo_key 7)]"] ful
    by (simp add: key t)
qed

end
