(* ===== verification/Turn.thy ===== *)
theory Turn
  imports Kernel History Compactor Pending_Ask
begin

text \<open>
  One turn of a session (engine/src/session/mod.rs, pipeline.rs, finalizer.rs): the prompt
  is built, the kernel runs, the answer is redacted and stored, compaction is considered.
  The turn is modelled from end to end for one message; the forwarding of kernel events
  to the client is the kernel's event sink.  Prices and costs are floating-point
  numbers: \<open>cost_of\<close> computes the bits of a cost.
\<close>

section \<open>Sessions and responses\<close>

record agent_response =
  ag_content :: string
  ag_reasoning :: "string option"
  ag_tools_used :: "string list"
  ag_model :: "string option"
  ag_token_usage :: "token_usage option"
  ag_cost :: u64

definition response_from_execution :: "kernel_result \<Rightarrow> string option \<Rightarrow> agent_response" where
  "response_from_execution r model = \<lparr> ag_content = kr_content r, ag_reasoning = kr_reasoning r,
     ag_tools_used = kr_tools_used r, ag_model = model, ag_token_usage = kr_token_usage r, ag_cost = 0 \<rparr>"

record finalize_context =
  fx_session_key :: session_key
  fx_session_key_str :: string
  fx_content :: string
  fx_vault_values :: "string list"
  fx_estimated_tokens :: nat

definition finalize_context_new :: "session_key \<Rightarrow> string \<Rightarrow> finalize_context" where
  "finalize_context_new k content = \<lparr> fx_session_key = k, fx_session_key_str = session_key_display k,
     fx_content = content, fx_vault_values = [], fx_estimated_tokens = 0 \<rparr>"

definition finalize_from_request :: "'j chat_build \<Rightarrow> finalize_context" where
  "finalize_from_request r =
     (let k = (case session_key_parse (cb_session_key r) of Some k \<Rightarrow> k
               | None \<Rightarrow> session_key_new Cli (cb_session_key r)) in
      (finalize_context_new k (cb_user_content r))
        \<lparr> fx_vault_values := cb_vault_values r, fx_estimated_tokens := cb_estimated_tokens r \<rparr>)"

record ('j, 'h, 'e, 'w) agent_session =
  sn_runtime_ctx :: "('j, 'h, 'w) runtime_context"
  sn_active_model :: string
  sn_builder :: "('j, 'e, 'w) context_builder"
  sn_compactor :: "compactor option"

definition switch_model ::
  "string \<Rightarrow> ('j, 'h, 'e, 'w) agent_session \<Rightarrow> (string + model_switch_info) \<times> ('j, 'h, 'e, 'w) agent_session" where
  "switch_model model s = (Inr \<lparr> ms_previous = sn_active_model s, ms_current = model \<rparr>,
     s \<lparr> sn_active_model := model \<rparr>)"

text \<open>What a turn changes besides the world: the tables, the compactor's state, and the
  compaction tasks it starts.\<close>

record turn_state =
  tn_events :: event_db
  tn_sessions :: session_db
  tn_cstate :: compactor_state
  tn_started :: "task list"

text \<open>\<open>AgentSession::clear_session\<close>: a failure is only logged.\<close>

definition agent_clear_session :: "string option \<Rightarrow> session_key \<Rightarrow> turn_state \<Rightarrow> turn_state" where
  "agent_clear_session io k ts = ts \<lparr> tn_events := snd (clear_session_rows io k (tn_events ts)) \<rparr>"

text \<open>The tool clear_session_history, which deletes the summary as well.\<close>

definition clear_session_tool ::
  "string option \<Rightarrow> string option \<Rightarrow> session_key \<Rightarrow> turn_state \<Rightarrow> (tool_error + string) \<times> turn_state" where
  "clear_session_tool io io' k ts = (case clear_session_rows io k (tn_events ts) of
       (Inl e, db) \<Rightarrow> (Inl (ExecutionError (''Failed to clear session events: '' @ store_error_to_str e)), ts)
     | (Inr _, db) \<Rightarrow> (case delete_summary io' k (tn_sessions ts) of
         (Inl e, sd) \<Rightarrow> (Inl (ExecutionError (''Failed to delete session summary: '' @ e)), ts \<lparr> tn_events := db \<rparr>)
       | (Inr deleted, sd) \<Rightarrow>
           (Inr (''Cleared session `'' @ session_key_display k
               @ ''`. All events and the session record have been removed. Summary deleted: ''
               @ (if deleted then ''true'' else ''false'') @ ''.''),
            ts \<lparr> tn_events := db, tn_sessions := sd \<rparr>)))"

section \<open>Finalisation\<close>

record ('j, 'p) turn_env =
  te_build :: "'j build_env"
  te_answer_id :: uuid
  te_answer_now :: time
  te_answer_io :: "string option"
  te_json_string :: "string \<Rightarrow> 'j"
  te_pricing :: "'p option"
  te_cost_of :: "token_usage \<Rightarrow> 'p \<Rightarrow> u64"

definition assistant_event ::
  "('j, 'p) turn_env \<Rightarrow> kernel_result \<Rightarrow> finalize_context \<Rightarrow> 'j session_event" where
  "assistant_event te r fx = \<lparr> se_id = te_answer_id te, se_session_key = fx_session_key_str fx,
     se_event_type = AssistantMessage, se_content = redact_secrets (kr_content r) (fx_vault_values fx),
     se_metadata = default_metadata \<lparr> em_tools_used := kr_tools_used r,
       em_extra := (case kr_reasoning r of Some x \<Rightarrow> [(''reasoning_content'', te_json_string te x)] | None \<Rightarrow> []) \<rparr>,
     se_created_at = te_answer_now te, se_sequence = 0 \<rparr>"

definition save_assistant_event ::
  "('j, 'p) turn_env \<Rightarrow> kernel_result \<Rightarrow> finalize_context \<Rightarrow> turn_state \<Rightarrow> turn_state" where
  "save_assistant_event te r fx ts = ts \<lparr> tn_events :=
     fst (snd (append_event (be_codec (te_build te)) (be_count_tokens (te_build te)) (te_answer_io te)
       (te_answer_now te) (assistant_event te r fx) (tn_events ts))) \<rparr>"

definition trigger_compaction :: "compactor option \<Rightarrow> time \<Rightarrow> finalize_context \<Rightarrow> turn_state \<Rightarrow> turn_state" where
  "trigger_compaction oc now fx ts =
     (if fx_estimated_tokens fx > 0
      then (case oc of
          Some c \<Rightarrow> (let (started, st) = try_compact_state c now (fx_estimated_tokens fx) (tn_cstate ts) in
            ts \<lparr> tn_cstate := st,
                 tn_started := (if started
                   then tn_started ts @ [new_task (fx_session_key fx) (fx_vault_values fx) False]
                   else tn_started ts) \<rparr>)
        | None \<Rightarrow> ts)
      else ts)"

definition after_response_context :: "kernel_result \<Rightarrow> finalize_context \<Rightarrow> 'j hook_context" where
  "after_response_context r fx = \<lparr> hc_session_key = fx_session_key_str fx, hc_messages = [],
     hc_user_input = Some (fx_content fx), hc_response = Some (kr_content r),
     hc_tool_calls = Some (map (\<lambda>n. \<lparr> ti_id = [], ti_name = n, ti_arguments = None \<rparr>) (kr_tools_used r)),
     hc_token_usage = kr_token_usage r, hc_vault_values = [] \<rparr>"

definition turn_cost :: "('j, 'p) turn_env \<Rightarrow> token_usage option \<Rightarrow> u64" where
  "turn_cost te u = (case (u, te_pricing te) of (Some x, Some p) \<Rightarrow> te_cost_of te x p | _ \<Rightarrow> 0)"

definition finalize ::
  "('j, 'p) turn_env \<Rightarrow> ('j, 'h, 'e, 'w) agent_session \<Rightarrow> kernel_result \<Rightarrow> finalize_context \<Rightarrow> string
    \<Rightarrow> turn_state \<Rightarrow> 'w \<Rightarrow> agent_response \<times> turn_state \<times> 'w" where
  "finalize te s r fx model ts w =
     (let ts1 = save_assistant_event te r fx ts;
          ts2 = trigger_compaction (sn_compactor s) (te_answer_now te) fx ts1;
          w1 = snd (snd (execute_hooks (bu_hooks (sn_builder s)) AfterResponse (after_response_context r fx) w)) in
      (\<lparr> ag_content = kr_content r, ag_reasoning = kr_reasoning r, ag_tools_used = kr_tools_used r,
         ag_model = Some model, ag_token_usage = kr_token_usage r, ag_cost = turn_cost te (kr_token_usage r) \<rparr>,
       ts2, w1))"

section \<open>The turn\<close>

text \<open>\<open>RequestPipeline::execute\<close>: running out of iterations is an answer, not an error.\<close>

definition pipeline_execute ::
  "('j, 'h, 'w) kernel_env \<Rightarrow> ('j, 'h, 'w) runtime_context \<Rightarrow> 'j chat_message list \<Rightarrow> event_sink \<Rightarrow> 'w
    \<Rightarrow> (kernel_error + kernel_result) \<times> ('j, 'w) kernel_state" where
  "pipeline_execute kenv ctx msgs sink w = (case run_loop kenv ctx msgs sink w of
       (Inl (MaxIterations n), st) \<Rightarrow>
         (Inr \<lparr> kr_content = ''Maximum iterations ('' @ show_word n @ '') reached.'', kr_reasoning = None,
            kr_tools_used = [], kr_token_usage = None \<rparr>, st)
     | r \<Rightarrow> r)"

definition turn_context ::
  "('j, 'h, 'e, 'w) agent_session \<Rightarrow> session_key \<Rightarrow> ('j, 'w) checkpoint_callback \<Rightarrow> 'h session_refs
    \<Rightarrow> string list option \<Rightarrow> ('j, 'h, 'w) runtime_context" where
  "turn_context s k cb refs tool_filter =
     (sn_runtime_ctx s) \<lparr> rc_refs := refs \<lparr> sr_session_key := Some k \<rparr>,
       rc_checkpoint := (if sn_compactor s = None then rc_checkpoint (sn_runtime_ctx s) else Some cb),
       rc_config := (rc_config (sn_runtime_ctx s)) \<lparr> kc_tool_filter := tool_filter \<rparr> \<rparr>"

datatype 'e turn_error = TurnAgent "'e agent_error" | TurnKernel kernel_error

definition process_turn ::
  "('j, 'p) turn_env \<Rightarrow> ('j, 'h, 'w) kernel_env \<Rightarrow> ('j, 'w) checkpoint_callback \<Rightarrow> 'h session_refs
    \<Rightarrow> ('j, 'h, 'e, 'w) agent_session \<Rightarrow> string list option \<Rightarrow> event_sink \<Rightarrow> string \<Rightarrow> session_key
    \<Rightarrow> turn_state \<Rightarrow> 'w \<Rightarrow> ('e turn_error + agent_response) \<times> turn_state \<times> event_sink \<times> 'w" where
  "process_turn te kenv cb refs s tool_filter sink content k ts w =
     (case build_request (te_build te) (sn_builder s) content k (tn_events ts) (tn_sessions ts) w of
        (Inl e, db, w1) \<Rightarrow> (Inl (TurnAgent e), ts \<lparr> tn_events := db \<rparr>, sink, w1)
      | (Inr (Aborted msg), db, w1) \<Rightarrow>
          (Inr \<lparr> ag_content = msg, ag_reasoning = None, ag_tools_used = [], ag_model = Some (sn_active_model s),
             ag_token_usage = None, ag_cost = 0 \<rparr>, ts \<lparr> tn_events := db \<rparr>,
           snd (send_event (main_event Done) sink), w1)
      | (Inr (Ready req), db, w1) \<Rightarrow>
          (case pipeline_execute kenv (turn_context s k cb refs tool_filter) (cb_messages req) sink w1 of
             (Inl e, st) \<Rightarrow> (Inl (TurnKernel e), ts \<lparr> tn_events := db \<rparr>, ks_sink st, ks_world st)
           | (Inr r, st) \<Rightarrow>
               (let (resp, ts1, w2) = finalize te s r (finalize_from_request req) (sn_active_model s)
                      (ts \<lparr> tn_events := db \<rparr>) (ks_world st) in
                (Inr resp, ts1, ks_sink st, w2))))"

section \<open>Switching the model\<close>

text \<open>Switching the model changes the label, not the model.  For every message, state and
  environment, a turn of a session whose model has been switched makes exactly the requests
  of the unswitched session, with the same effects, events and stored history; the only
  difference is the model name written into the response.\<close>

theorem switch_model_only_relabels:
  "process_turn te kenv cb refs (snd (switch_model model s)) tool_filter sink content k ts w =
     (case process_turn te kenv cb refs s tool_filter sink content k ts w of
        (Inl e, ts', sink', w') \<Rightarrow> (Inl e, ts', sink', w')
      | (Inr resp, ts', sink', w') \<Rightarrow> (Inr (resp \<lparr> ag_model := Some model \<rparr>), ts', sink', w'))"
proof -
  have ctx: "turn_context (snd (switch_model model s)) k cb refs tool_filter = turn_context s k cb refs tool_filter"
    by (simp add: turn_context_def switch_model_def)
  have fin: "finalize te (snd (switch_model model s)) r fx model ts1 w1 =
      (case finalize te s r fx (sn_active_model s) ts1 w1 of (resp, x) \<Rightarrow> (resp \<lparr> ag_model := Some model \<rparr>, x))"
    for r fx ts1 w1
    by (simp add: finalize_def Let_def switch_model_def)
  have bld: "sn_builder (snd (switch_model model s)) = sn_builder s"
    "sn_active_model (snd (switch_model model s)) = model"
    by (simp_all add: switch_model_def)
  obtain out db w1 where b: "build_request (te_build te) (sn_builder s) content k (tn_events ts) (tn_sessions ts) w = (out, db, w1)"
    by (metis prod.exhaust)
  show ?thesis
  proof (cases out)
    case (Inl e)
    then show ?thesis by (simp add: process_turn_def bld b)
  next
    case (Inr o')
    show ?thesis
    proof (cases o')
      case (Ready req)
      obtain res st where ex: "pipeline_execute kenv (turn_context s k cb refs tool_filter) (cb_messages req) sink w1 = (res, st)"
        by fastforce
      then show ?thesis using Inr Ready
        by (cases res) (simp_all add: process_turn_def bld b ctx fin Let_def split: prod.split)
    next
      case (Aborted msg)
      then show ?thesis using Inr by (simp add: process_turn_def bld b)
    qed
  qed
qed

section \<open>When compaction starts by itself\<close>

text \<open>Automatic compaction waits for the protected tail.  The token count it is decided on is
  that of the trimmed history.  With the compactor on the history's own budget, as the
  session builder sets it up, and a threshold above the budget, a turn can start a
  compaction only if the most recent, always kept events alone reach the threshold: a
  long history that the trimming has cut back to the budget never starts one.\<close>

theorem auto_compaction_needs_recent_tail:
  assumes "p = process_history ct h cfg" "cp_token_budget c = hi_token_budget cfg" "hi_token_budget cfg > 0"
    and "hi_token_budget cfg < cp_threshold c (cp_token_budget c)"
    and "fx_estimated_tokens fx = ph_estimated_tokens p"
    and "tn_started (trigger_compaction (Some c) now fx ts) \<noteq> tn_started ts"
  shows "length (ph_events p) \<le> hi_recent_keep cfg
    \<and> cp_threshold c (cp_token_budget c) \<le> tokens_of ct (ph_events p)"
proof -
  have "cp_threshold c (cp_token_budget c) \<le> ph_estimated_tokens p"
    using assms(5,6) by (auto simp: trigger_compaction_def try_compact_state_def Let_def split: if_splits)
  moreover from process_history_kept [where ct = ct and h = h and cfg = cfg]
  have "ph_estimated_tokens p = tokens_of ct (ph_events p)"
    "if length (ph_events p) \<le> hi_recent_keep cfg \<or> hi_token_budget cfg = 0 then True
     else ph_estimated_tokens p \<le> hi_token_budget cfg"
    unfolding assms(1) by auto
  ultimately show ?thesis using assms(3,4) by (auto split: if_splits)
qed

definition tight_config :: history_config where
  "tight_config = \<lparr> hi_max_events = 50, hi_token_budget = 10, hi_recent_keep = 2 \<rparr>"

theorem auto_compaction_needs_recent_tail_witness:
  "length (ph_events (process_history length [demo_event 1 ''eight by'', demo_event 2 ''and eight''] tight_config)) \<le> 2
   \<and> 12 \<le> tokens_of length (ph_events (process_history length [demo_event 1 ''eight by'', demo_event 2 ''and eight'']
        tight_config))"
  using auto_compaction_needs_recent_tail
    [where ct = length and h = "[demo_event 1 ''eight by'', demo_event 2 ''and eight'']" and cfg = tight_config
      and c = "compactor_new (\<lambda>b. b + b div 5) ''m'' 10" and now = 0
      and fx = "finalize_context_new (session_key_new Cli ''a'') [] \<lparr> fx_estimated_tokens := 17 \<rparr>"
      and ts = "\<lparr> tn_events = empty_log, tn_sessions = session_db_new, tn_cstate = CIdle, tn_started = [] \<rparr>", OF refl]
  by (simp add: tight_config_def compactor_new_def finalize_context_new_def process_history_def numeral_2_eq_2
      token_len_or_count_def demo_event_def default_metadata_def trigger_compaction_def try_compact_state_def)

section \<open>Clearing a session\<close>

lemma cleared_rows:
  assumes "log_inv db" "clear_session_rows None k db = (Inr (), db1)"
  shows "session_rows k db1 = []" "next_sequence (key_channel k) (sk_chat_id k) (db_sessions db1) = 0"
proof -
  have db1: "db_events db1 = filter (\<lambda>r. \<not> in_session (key_channel k) (sk_chat_id k) r) (db_events db)"
    "db_sessions db1 = filter (\<lambda>s. \<not> session_matches (key_channel k) (sk_chat_id k) s) (db_sessions db)"
    using assms(2) by (auto simp: clear_session_rows_def)
  show "session_rows k db1 = []" by (simp add: session_rows_def db1)
  have "find (session_matches (key_channel k) (sk_chat_id k)) (db_sessions db1) = None"
    by (auto simp: db1 find_None_iff)
  then show "next_sequence (key_channel k) (sk_chat_id k) (db_sessions db1) = 0" by (simp add: next_sequence_def)
qed


definition summarised_state :: turn_state where
  "summarised_state = \<lparr> tn_events = demo_log,
     tn_sessions = snd (save_summary None [] (session_key_new Cli ''a'') ''old'' 7 session_db_new),
     tn_cstate = CIdle, tn_started = [] \<rparr>"


section \<open>What is stored of an answer\<close>

text \<open>Secrets the vault put into a prompt do not reach the log.  Whatever the model answers,
  the assistant event a turn stores contains none of the values recorded during the
  request, as long as a value has at least four bytes, no brackets, and is not part of
  the word REDACTED.\<close>

lemma stored_answer_redacted:
  assumes "v \<in> set (fx_vault_values fx)" "4 \<le> length v" "bracket_free v" "\<not> str_contains ''REDACTED'' v"
  shows "\<not> str_contains (se_content (assistant_event te r fx)) v"
  using redact_removes assms by (simp add: assistant_event_def)

end
