(* ===== verification/Subagents.thy ===== *)
theory Subagents
  imports Turn
begin

text \<open>
  Subagents (engine/src/subagents/, the formatting and gathering of their results in
  engine/src/tools/format.rs and spawn_common.rs): the worker task, the spawner's
  choices, the aggregator of parallel results, and the monitored runner, which drives the
  kernel step by step and listens to interventions.  The kernel is the one of Kernel.  What
  arrives from outside (how the wait for a worker ends, what interventions are there at
  the beginning of a turn) is an argument; progress messages and events are recorded in
  the order they are sent.
\<close>

section \<open>Tasks and results\<close>

record task_spec =
  ts_id :: string
  ts_task :: string
  ts_model :: "string option"
  ts_system_prompt :: "string option"
  ts_max_turns :: "u32 option"
  ts_thinking :: bool
  ts_tool_filter :: "string list option"

definition task_spec_new :: "string \<Rightarrow> string \<Rightarrow> task_spec" where
  "task_spec_new i t = \<lparr> ts_id = i, ts_task = t, ts_model = None, ts_system_prompt = None,
     ts_max_turns = None, ts_thinking = False, ts_tool_filter = None \<rparr>"

text \<open>The engine's and the tools' result type have the same fields.\<close>

record sub_result =
  sr_id :: string
  sr_task :: string
  sr_response :: agent_response
  sr_model :: "string option"

definition error_response :: "string option \<Rightarrow> string \<Rightarrow> agent_response" where
  "error_response model msg = \<lparr> ag_content = ''Error: '' @ msg, ag_reasoning = None, ag_tools_used = [],
     ag_model = model, ag_token_usage = None, ag_cost = 0 \<rparr>"

definition error_result_of :: "string \<Rightarrow> string \<Rightarrow> string option \<Rightarrow> string \<Rightarrow> sub_result" where
  "error_result_of i t model msg = \<lparr> sr_id = i, sr_task = t, sr_response = error_response model msg,
     sr_model = model \<rparr>"

definition spawner_error_result :: "string \<Rightarrow> string \<Rightarrow> string \<Rightarrow> sub_result" where
  "spawner_error_result i t msg = \<lparr> sr_id = i, sr_task = t, sr_response = error_response None msg, sr_model = None \<rparr>"

fun kernel_error_to_str :: "kernel_error \<Rightarrow> string" where
  "kernel_error_to_str (ProviderFailed s) = ''Provider request failed: '' @ s"
| "kernel_error_to_str (MaxIterations n) = ''Max iterations ('' @ show_nat (unat n) @ '') reached''"
| "kernel_error_to_str (ToolExecutionFailed s) = ''Tool execution failed: '' @ s"
| "kernel_error_to_str (StepTimeout n) = ''Step exceeded wall-clock budget of '' @ show_nat (unat n) @ ''s''"

definition format_subagent_response :: "sub_result \<Rightarrow> string" where
  "format_subagent_response r =
     (case ag_reasoning (sr_response r) of
        Some t \<Rightarrow> if t \<noteq> [] then ''**Thinking:**'' @ [NL] @ t @ [NL, NL] else []
      | None \<Rightarrow> [])
     @ ''**Model:** '' @ (case sr_model r of Some m \<Rightarrow> m | None \<Rightarrow> ''unknown'') @ [NL] @ ''**Task:** '' @ sr_task r
     @ [NL, NL] @ ''**Response:**'' @ [NL] @ ag_content (sr_response r)"

section \<open>The worker\<close>

text \<open>\<open>to_kernel_config\<close> of the default agent configuration with a model, a number of
  iterations and the thinking flag.\<close>

definition worker_config :: "string \<Rightarrow> u32 \<Rightarrow> bool \<Rightarrow> kernel_config" where
  "worker_config model iterations thinking = (kernel_config_new model)
     \<lparr> kc_max_iterations := iterations, kc_max_tokens := 100000, kc_thinking_enabled := thinking \<rparr>"

definition DEFAULT_MAX_ITERATIONS :: u32 where "DEFAULT_MAX_ITERATIONS = 100"

text \<open>\<open>tx\<close>: no event channel, or one whose reader leaves after some number of events.\<close>

definition execute_with_streaming ::
  "('j, 'h, 'w) kernel_env \<Rightarrow> ('j, 'h, 'w) runtime_context \<Rightarrow> 'j chat_message list \<Rightarrow> nat option option
    \<Rightarrow> string \<Rightarrow> 'w \<Rightarrow> (string + kernel_result) \<times> stream_event list \<times> 'w" where
  "execute_with_streaming env ctx msgs tx agent_id w =
     (case run_loop env ctx msgs \<lparr> es_sent = [], es_open = None \<rparr> w of (r, st) \<Rightarrow>
       (case r of Inl e \<Rightarrow> Inl (''Kernel error: '' @ kernel_error_to_str e) | Inr x \<Rightarrow> Inr x,
        (case tx of
           None \<Rightarrow> []
         | Some reader \<Rightarrow> map (with_agent_id agent_id)
             (case reader of None \<Rightarrow> es_sent (ks_sink st) | Some n \<Rightarrow> take n (es_sent (ks_sink st)))),
        ks_world st))"

text \<open>How the execution ends: by itself, by the timeout or by cancellation, the last two with
  the world they leave.\<close>

datatype 'w worker_end = RanToEnd | RanOutOfTime 'w | WasCancelled 'w

record 'w worker_outcome =
  wo_result :: sub_result
  wo_events :: "stream_event list"
  wo_usage :: "token_usage option"
  wo_world :: 'w

definition worker_failed ::
  "task_spec \<Rightarrow> string \<Rightarrow> stream_event list \<Rightarrow> 'w \<Rightarrow> 'w worker_outcome" where
  "worker_failed spec msg evs w = \<lparr> wo_result = error_result_of (ts_id spec) (ts_task spec) (ts_model spec) msg,
     wo_events = evs, wo_usage = None, wo_world = w \<rparr>"

text \<open>\<open>ctx0\<close> brings the provider, the worker tools and the session references;
  \<open>load_prompt\<close> is the reading of the bootstrap files.\<close>

definition spawn_subagent ::
  "('j, 'h, 'w) kernel_env \<Rightarrow> ('j, 'h, 'w) runtime_context \<Rightarrow> string \<Rightarrow> (string + string) \<Rightarrow> task_spec
    \<Rightarrow> nat option option \<Rightarrow> u64 \<Rightarrow> 'w worker_end \<Rightarrow> 'w \<Rightarrow> 'w worker_outcome" where
  "spawn_subagent env ctx0 default_model load_prompt spec tx timeout_secs how w =
     (case (case ts_system_prompt spec of Some p \<Rightarrow> Inr p | None \<Rightarrow> load_prompt) of
        Inl e \<Rightarrow> worker_failed spec (''Prompt load failed: '' @ e) [] w
      | Inr prompt \<Rightarrow>
          (let model = (case ts_model spec of Some m \<Rightarrow> m | None \<Rightarrow> default_model);
               cfg = (worker_config model DEFAULT_MAX_ITERATIONS (ts_thinking spec))
                       \<lparr> kc_tool_filter := ts_tool_filter spec \<rparr>;
               ctx = ctx0 \<lparr> rc_config := cfg, rc_role := Worker \<rparr> in
           case how of
             RanOutOfTime w1 \<Rightarrow> worker_failed spec (''Timed out after '' @ show_nat (unat timeout_secs) @ ''s'') [] w1
           | WasCancelled w1 \<Rightarrow> worker_failed spec ''Cancelled'' [] w1
           | RanToEnd \<Rightarrow>
               (case execute_with_streaming env ctx [msg_system prompt, msg_user (ts_task spec)] tx (ts_id spec) w of
                  (Inl e, evs, w1) \<Rightarrow> worker_failed spec e evs w1
                | (Inr r, evs, w1) \<Rightarrow> \<lparr>
                    wo_result = \<lparr> sr_id = ts_id spec, sr_task = ts_task spec,
                      sr_response = response_from_execution r (ts_model spec), sr_model = ts_model spec \<rparr>,
                    wo_events = evs, wo_usage = kr_token_usage r, wo_world = w1 \<rparr>)))"

section \<open>The spawner's choices\<close>

definition refs_for_subagent :: "'h option \<Rightarrow> 'h option \<Rightarrow> 'h tool_context \<Rightarrow> 'h session_refs" where
  "refs_for_subagent tracker asks ctx = \<lparr> sr_session_key = Some (tx_session_key ctx),
     sr_outbound_tx = Some (tx_outbound_tx ctx), sr_spawner = None, sr_token_tracker = tracker,
     sr_aggregator_cancel = None, sr_pending_asks = asks, sr_synthesis_callback = None \<rparr>"

text \<open>\<open>resolver\<close>: the model resolver, giving a provider and the model of its configuration.\<close>

definition resolve_provider_model ::
  "'p \<Rightarrow> (string \<Rightarrow> ('p \<times> string) option) option \<Rightarrow> string option \<Rightarrow> 'p \<times> string option" where
  "resolve_provider_model provider resolver model_id = (case (model_id, resolver) of
       (Some mid, Some resolve) \<Rightarrow> (case resolve mid of
           Some (p, m) \<Rightarrow> (p, Some m) | None \<Rightarrow> (provider, None))
     | _ \<Rightarrow> (provider, None))"

section \<open>Gathering results\<close>

definition result_summary :: "u64 \<Rightarrow> string \<Rightarrow> string" where
  "result_summary limit s = (if limit = 0 then s else if char_count s \<le> unat limit then s
     else take (char_start s (unat limit)) s)"

text \<open>What awaiting one result with its time limit gives.\<close>

datatype rx_outcome = RxResult sub_result | RxClosed | RxTimedOut

definition id_at :: "string list \<Rightarrow> nat \<Rightarrow> string" where
  "id_at ids i = (if i < length ids then ids ! i else ''unknown'')"

definition index_at :: "u32 list \<Rightarrow> nat \<Rightarrow> u32" where
  "index_at ixs i = (if i < length ixs then ixs ! i else 0)"

fun collect_results ::
  "u64 \<Rightarrow> string list \<Rightarrow> u32 list \<Rightarrow> nat \<Rightarrow> rx_outcome list \<Rightarrow> chat_event list \<times> sub_result list" where
  "collect_results limit ids ixs i [] = ([], [])"
| "collect_results limit ids ixs i (o' # os) =
     (case collect_results limit ids ixs (Suc i) os of (evs, rs) \<Rightarrow>
       (case o' of
          RxResult r \<Rightarrow> (SubagentCompleted (id_at ids i) (index_at ixs i) (result_summary limit (ag_content (sr_response r)))
              (of_nat (length (ag_tools_used (sr_response r)))) # evs, r # rs)
        | RxClosed \<Rightarrow> (SubagentError (id_at ids i) (index_at ixs i) ''Result channel closed'' # evs, rs)
        | RxTimedOut \<Rightarrow> (SubagentError (id_at ids i) (index_at ixs i) ''Subagent timed out'' # evs, rs)))"

text \<open>The aggregator: all results collected and synthesised, or cancelled after some of them.
  The cancelled tokens are the subagents'.\<close>

datatype aggregator_end = AllCollected "rx_outcome list" "string option" | CancelledAfter "rx_outcome list"

definition cancelled_events :: "string list \<Rightarrow> u32 list \<Rightarrow> chat_event list" where
  "cancelled_events ids ixs = map (\<lambda>i. SubagentError (ids ! i) (index_at ixs i) ''Cancelled'') [0 ..< length ids]"

fun run_aggregator ::
  "u64 \<Rightarrow> string list \<Rightarrow> u32 list \<Rightarrow> aggregator_end \<Rightarrow> chat_event list \<times> sub_result list option \<times> bool" where
  "run_aggregator limit ids ixs (CancelledAfter os) =
     (fst (collect_results limit ids ixs 0 os) @ cancelled_events ids ixs, None, True)"
| "run_aggregator limit ids ixs (AllCollected os synth) =
     (case collect_results limit ids ixs 0 os of (evs, rs) \<Rightarrow>
       (evs @ [SubagentSynthesizing] @ (case synth of None \<Rightarrow> []
          | Some e \<Rightarrow> [ErrorEv (''Synthesis failed: '' @ e), Done]), Some rs, False))"

definition startup_events :: "nat \<Rightarrow> (string \<times> string \<times> u32) list \<Rightarrow> chat_event list" where
  "startup_events n tasks = SubagentAllStarted (of_nat n) # map (\<lambda>(i, t, ix). SubagentStarted i t ix) tasks"

fun forwarded_event :: "string \<Rightarrow> chat_event \<Rightarrow> chat_event option" where
  "forwarded_event i (Thinking t) = Some (SubagentThinking i t)"
| "forwarded_event i (ToolStart n a) = Some (SubagentToolStart i n a)"
| "forwarded_event i (ToolEnd n out) = Some (SubagentToolEnd i n out)"
| "forwarded_event i (ContentEv t) = Some (SubagentContent i t)"
| "forwarded_event i _ = None"

definition forward_events :: "session_key \<Rightarrow> string \<Rightarrow> stream_event list \<Rightarrow> chat_event outbound_message list" where
  "forward_events k i evs = map (outbound_with_ws (sk_channel k) (sk_chat_id k))
     (List.map_filter (\<lambda>e. forwarded_event i (se_event e)) evs)"

section \<open>The spawn tools\<close>

definition NO_SPAWNER :: string where
  "NO_SPAWNER = ''Subagent spawning is not available in this context (no spawner configured)''"

text \<open>The arguments of \<open>spawn\<close>, after serde.\<close>

definition spawn_args_ok :: "string + string \<times> string option \<Rightarrow> bool \<Rightarrow> tool_error + string \<times> string option" where
  "spawn_args_ok parsed has_spawner = (case parsed of
       Inl e \<Rightarrow> Inl (InvalidArguments e)
     | Inr (task, model) \<Rightarrow>
         if trim task = [] then Inl (InvalidArguments ''Task description cannot be empty'')
         else if \<not> has_spawner then Inl (ExecutionError NO_SPAWNER)
         else Inr (task, model))"

text \<open>Without a synthesis callback: a subagent whose result is awaited, with the client told of its
  start and its completion (its own events come between or after).\<close>

definition blocking_subagent ::
  "u64 \<Rightarrow> string \<Rightarrow> string \<Rightarrow> u32 \<Rightarrow> string + sub_result \<Rightarrow> chat_event list \<times> (tool_error + sub_result)" where
  "blocking_subagent limit i t ix r = (case r of
       Inl e \<Rightarrow> ([SubagentStarted i t ix], Inl (ExecutionError (''Subagent result channel closed: '' @ e)))
     | Inr x \<Rightarrow> ([SubagentStarted i t ix,
           SubagentCompleted i ix (result_summary limit (ag_content (sr_response x)))
             (of_nat (length (ag_tools_used (sr_response x))))], Inr x))"

definition spawn_blocking ::
  "u64 \<Rightarrow> string \<Rightarrow> string \<Rightarrow> string + sub_result \<Rightarrow> chat_event list \<times> (tool_error + string)" where
  "spawn_blocking limit i t r = (case blocking_subagent limit i t 0 r of
     (evs, res) \<Rightarrow> (evs, bind_res res (\<lambda>x. Inr (format_subagent_response x))))"

datatype task_input =
    SimpleTasks "string list" | TasksWithModels "(string \<times> string option) list" | JsonTasks string

record task_parsers =
  tp_specs :: "string \<Rightarrow> (string \<times> string option) list option"
  tp_strings :: "string \<Rightarrow> string list option"

definition parse_tasks :: "task_parsers \<Rightarrow> task_input \<Rightarrow> tool_error + (string \<times> string option) list" where
  "parse_tasks tp input = (case input of
       SimpleTasks ts \<Rightarrow> Inr (map (\<lambda>t. (t, None)) ts)
     | TasksWithModels specs \<Rightarrow> Inr specs
     | JsonTasks s \<Rightarrow> (case tp_specs tp s of
           Some specs \<Rightarrow> Inr specs
         | None \<Rightarrow> (case tp_strings tp s of
             Some ts \<Rightarrow> Inr (map (\<lambda>t. (t, None)) ts)
           | None \<Rightarrow> Inl (InvalidArguments (''Failed to parse tasks JSON string. Expected array of strings or ''
               @ ''objects with '' @ squoted ''task'' @ '' field.'')))))"

definition MAX_PARALLEL :: nat where "MAX_PARALLEL = 10"

text \<open>\<open>raw\<close>: the length of the array under \<open>tasks\<close>, if it is an array; \<open>parsed\<close>: serde's result.\<close>

definition parallel_tasks ::
  "task_parsers \<Rightarrow> nat option \<Rightarrow> string + task_input \<Rightarrow> bool \<Rightarrow> tool_error + (string \<times> string option) list" where
  "parallel_tasks tp raw parsed has_spawner =
     (if (case raw of Some n \<Rightarrow> MAX_PARALLEL < n | None \<Rightarrow> False)
      then Inl (InvalidArguments ''Maximum 10 parallel tasks allowed'')
      else case parsed of
        Inl e \<Rightarrow> Inl (InvalidArguments e)
      | Inr input \<Rightarrow>
          if \<not> has_spawner then Inl (ExecutionError NO_SPAWNER)
          else bind_res (parse_tasks tp input) (\<lambda>specs.
            if specs = [] then Inl (InvalidArguments ''At least one task is required'')
            else if MAX_PARALLEL < length specs then Inl (InvalidArguments ''Maximum 10 parallel tasks allowed'')
            else Inr specs))"

fun numbered_results :: "nat \<Rightarrow> sub_result list \<Rightarrow> string" where
  "numbered_results i [] = []"
| "numbered_results i (r # rs) = ''## Task '' @ show_nat (Suc i) @ [NL] @ format_subagent_response r @ [NL, NL]
     @ numbered_results (Suc i) rs"

text \<open>The joined tasks in order; the first failure is the result.\<close>

definition parallel_result :: "(tool_error + sub_result) list \<Rightarrow> tool_error + string" where
  "parallel_result rs = bind_res (collect_res rs) (\<lambda>xs.
     Inr (''Completed '' @ show_nat (length xs) @ '' parallel tasks:'' @ [NL, NL] @ numbered_results 0 xs))"

end
