(* ===== verification/Kernel_Proofs.thy ===== *)
theory Kernel_Proofs
  imports Kernel "HOL-Library.Multiset"
begin

text \<open>
  What the agent kernel guarantees: tool results come back in call order whatever the
  concurrent schedule, so every request a provider sees answers its tool calls; a request
  is retried a bounded number of times; the loop ends after at most the configured number
  of turns and signals its end once, except after an error.
\<close>

section \<open>Schedules and the order of results\<close>

fun finished :: "sched_act list \<Rightarrow> nat list" where
  "finished [] = []"
| "finished (StartCall i # acts) = finished acts"
| "finished (FinishCall i # acts) = i # finished acts"

lemma valid_from_finished:
  "valid_from n nxt running acts \<Longrightarrow> nxt \<le> n \<Longrightarrow>
     mset (finished acts) = mset running + mset [nxt..<n]"
proof (induction n nxt running acts rule: valid_from.induct)
  case (2 n nxt running i acts)
  then show ?case by (auto simp: upt_conv_Cons)
qed auto

lemma map_nth_upt: "map (\<lambda>i. f (xs ! i)) [0..<length xs] = map f xs"
  by (rule nth_equalityI) simp_all

lemma valid_schedule_finished:
  "valid_schedule n acts \<Longrightarrow> mset (finished acts) = mset [0..<n]"
  using valid_from_finished [of n 0 "[]" acts] by (simp add: valid_schedule_def)

definition answers :: "'j tool_call list \<Rightarrow> (nat \<times> tool_call_result) list \<Rightarrow> bool" where
  "answers calls rs = (\<forall>(i, r) \<in> set rs. tcr_id r = tc_id (calls ! i)
     \<and> tcr_name r = fc_name (tc_function (calls ! i)))"

lemma execute_one_names:
  "tcr_id (fst (execute_one env ctx tc tctx w)) = tc_id tc"
  "tcr_name (fst (execute_one env ctx tc tctx w)) = fc_name (tc_function tc)"
  by (simp_all add: execute_one_def Let_def split: prod.splits)

lemma run_acts_results:
  "foldl (run_act env ctx calls tctx) (k, w, rs) acts = (k', w', rs') \<Longrightarrow> answers calls rs \<Longrightarrow>
     map fst rs' = map fst rs @ finished acts \<and> answers calls rs'"
proof (induction acts arbitrary: k w rs)
  case (Cons act acts)
  obtain k1 w1 rs1 where step: "run_act env ctx calls tctx (k, w, rs) act = (k1, w1, rs1)"
    by (metis prod_cases3)
  have "map fst rs1 = map fst rs @ finished [act] \<and> answers calls rs1"
  proof (cases act)
    case (StartCall i)
    then show ?thesis using step Cons.prems(2) by (simp add: Let_def)
  next
    case (FinishCall i)
    obtain r w2 where e: "execute_one env ctx (calls ! i) tctx w = (r, w2)" by fastforce
    then have "tcr_id r = tc_id (calls ! i)" "tcr_name r = fc_name (tc_function (calls ! i))"
      using execute_one_names [of env ctx "calls ! i" tctx w] by simp_all
    moreover have "rs1 = rs @ [(i, r)]" using step FinishCall e by (simp add: Let_def)
    ultimately show ?thesis using FinishCall Cons.prems(2) by (auto simp: answers_def)
  qed
  moreover have "finished (act # acts) = finished [act] @ finished acts" by (cases act) simp_all
  ultimately show ?case using Cons.IH [of k1 w1 rs1] Cons.prems(1) step by simp
qed simp

lemma sort_key_indices:
  assumes "mset (map fst rs) = mset [0..<n]"
  shows "map fst (sort_key fst rs) = [0..<n]"
proof -
  have "sorted (map fst (sort_key fst rs))" by simp
  moreover have "mset (map fst (sort_key fst rs)) = mset [0..<n]" using assms by simp
  ultimately show ?thesis by (metis properties_for_sort sorted_upt)
qed

lemma results_in_call_order:
  assumes "answers calls rs" "mset (map fst rs) = mset [0..<length calls]"
  shows "map tcr_id (map snd (sort_key fst rs)) = map tc_id calls"
    "map tcr_name (map snd (sort_key fst rs)) = map (fc_name \<circ> tc_function) calls"
proof -
  have *: "\<forall>(i, r) \<in> set (sort_key fst rs). tcr_id r = tc_id (calls ! i)
     \<and> tcr_name r = fc_name (tc_function (calls ! i))"
    using assms(1) by (simp add: answers_def)
  have "map tcr_id (map snd (sort_key fst rs)) = map (\<lambda>i. tc_id (calls ! i)) (map fst (sort_key fst rs))"
    "map tcr_name (map snd (sort_key fst rs)) = map (\<lambda>i. fc_name (tc_function (calls ! i))) (map fst (sort_key fst rs))"
    unfolding map_map by (intro map_cong refl; use * in force)+
  then show "map tcr_id (map snd (sort_key fst rs)) = map tc_id calls"
    "map tcr_name (map snd (sort_key fst rs)) = map (fc_name \<circ> tc_function) calls"
    unfolding sort_key_indices [OF assms(2)] 
    by (simp_all only: map_nth_upt map_nth_upt [of "\<lambda>tc. fc_name (tc_function tc)"] comp_def)
qed

text \<open>C36: tool results come back in the order of the calls.  However the concurrent calls of
  one response are scheduled, the step records exactly one result per call, in call
  order, with the call's identifier and tool name, and appends to the conversation the
  assistant's message followed by those results.\<close>

theorem tool_results_in_call_order:
  assumes "\<And>w. valid_schedule (length (rs_tool_calls r)) (ke_schedule env w (length (rs_tool_calls r)))"
  shows "case handle_tool_calls env ctx r st of (results, st') \<Rightarrow>
     map tcr_id results = map tc_id (rs_tool_calls r)
   \<and> map tcr_name results = map (fc_name \<circ> tc_function) (rs_tool_calls r)
   \<and> ks_messages st' = ks_messages st
       @ msg_assistant_with_tools (rs_content r) (rs_tool_calls r) (rs_reasoning r)
       # map (\<lambda>x. msg_tool_result (tcr_id x) (tcr_name x) (tcr_output x)) results"
proof -
  let ?calls = "rs_tool_calls r"
  let ?msgs = "ks_messages st @ [msg_assistant_with_tools (rs_content r) ?calls (rs_reasoning r)]"
  let ?w = "save_ask env ctx ?calls ?msgs (ks_world st)"
  let ?acts = "ke_schedule env ?w (length ?calls)"
  obtain k w rs where run: "foldl (run_act env ctx ?calls (build_tool_context env ctx)) (ks_sink st, ?w, []) ?acts = (k, w, rs)"
    by (metis prod_cases3)
  have "map fst rs = finished ?acts" "answers ?calls rs"
    using run_acts_results [OF run] by (simp_all add: answers_def)
  moreover have "mset (finished ?acts) = mset [0..<length ?calls]"
    by (rule valid_schedule_finished [OF assms])
  ultimately show ?thesis
    using results_in_call_order [of ?calls rs] run by (simp add: handle_tool_calls_def Let_def)
qed

definition sequential :: "nat \<Rightarrow> sched_act list" where
  "sequential n = concat (map (\<lambda>i. [StartCall i, FinishCall i]) [0..<n])"

lemma valid_sequential: "valid_schedule n (sequential n)"
proof -
  have "valid_from n k [] (concat (map (\<lambda>i. [StartCall i, FinishCall i]) [k..<n]))" if "k \<le> n" for k
    using that
  proof (induction "n - k" arbitrary: k)
    case (Suc m)
    then have "[k..<n] = k # [Suc k..<n]" by (simp add: upt_conv_Cons)
    then show ?case using Suc by (simp add: TOOL_CONCURRENCY_def)
  qed simp
  then show ?thesis by (simp add: valid_schedule_def sequential_def)
qed

definition demo_env :: "(string, unit, nat) kernel_env" where
  "demo_env = \<lparr> ke_json = demo_json, ke_new_id = \<lambda>w. (''1'', w), ke_default_tx = (), ke_default_tracker = (),
     ke_schedule = \<lambda>w n. sequential n, ke_count_tokens = length \<rparr>"

definition demo_ctx :: "(string, unit, nat) runtime_context" where
  "demo_ctx = runtime_context_new (\<lambda>r w. (Inr \<lparr> ls_items = [], ls_elapsed = None \<rparr>, w)) demo_registry
     (kernel_config_new ''m'') Orchestrator"

definition demo_state :: "(string, nat) kernel_state" where
  "demo_state = \<lparr> ks_messages = [msg_user ''hi''], ks_ledger = None,
     ks_sink = \<lparr> es_sent = [], es_open = None \<rparr>, ks_world = 0 \<rparr>"

definition demo_response :: "string chat_response" where
  "demo_response = \<lparr> rs_content = None, rs_tool_calls = [tool_call_new ''a'' ''rm'' ''x'', tool_call_new ''b'' ''ls'' ''y''],
     rs_reasoning = None, rs_usage = None \<rparr>"

theorem tool_results_in_call_order_witness:
  "case handle_tool_calls demo_env demo_ctx demo_response demo_state of (results, st') \<Rightarrow>
     map tcr_id results = map tc_id (rs_tool_calls demo_response)
   \<and> map tcr_name results = map (fc_name \<circ> tc_function) (rs_tool_calls demo_response)
   \<and> ks_messages st' = ks_messages demo_state
       @ msg_assistant_with_tools (rs_content demo_response) (rs_tool_calls demo_response) (rs_reasoning demo_response)
       # map (\<lambda>x. msg_tool_result (tcr_id x) (tcr_name x) (tcr_output x)) results"
  by (rule tool_results_in_call_order) (simp add: demo_env_def valid_sequential)

lemma handle_paired:
  assumes "\<And>w n. valid_schedule n (ke_schedule env w n)" "paired (ks_messages st)"
  shows "paired (ks_messages (snd (handle_tool_calls env ctx r st)))"
proof -
  let ?calls = "rs_tool_calls r"
  let ?msgs = "ks_messages st @ [msg_assistant_with_tools (rs_content r) ?calls (rs_reasoning r)]"
  let ?w = "save_ask env ctx ?calls ?msgs (ks_world st)"
  let ?acts = "ke_schedule env ?w (length ?calls)"
  obtain k w rs where run: "foldl (run_act env ctx ?calls (build_tool_context env ctx)) (ks_sink st, ?w, []) ?acts = (k, w, rs)"
    by (metis prod_cases3)
  let ?res = "map snd (sort_key fst rs)"
  have "map fst rs = finished ?acts" "answers ?calls rs"
    using run_acts_results [OF run] by (simp_all add: answers_def)
  moreover have "mset (finished ?acts) = mset [0..<length ?calls]"
    by (rule valid_schedule_finished [OF assms(1)])
  ultimately have ids: "map tcr_id ?res = map tc_id ?calls" using results_in_call_order(1) by metis
  have "paired_from (map tcr_id ?res) (map (\<lambda>x. msg_tool_result (tcr_id x) (tcr_name x) (tcr_output x)) ?res)"
    by (rule paired_from_answers)
  then have "paired (msg_assistant_with_tools (rs_content r) ?calls (rs_reasoning r)
      # map (\<lambda>x. msg_tool_result (tcr_id x) (tcr_name x) (tcr_output x)) ?res)"
    unfolding ids by (simp add: paired_def)
  then show ?thesis
    using run assms(2) by (simp add: handle_tool_calls_def Let_def paired_append)
qed

section \<open>Every request answers its tool calls\<close>

lemma inject_paired: "paired (ks_messages st) \<Longrightarrow> paired (ks_messages (inject_checkpoint ctx st))"
  by (auto simp: inject_checkpoint_def paired_append split: option.splits prod.splits)

lemma handle_paired_eq:
  "handle_tool_calls env ctx r st = (res, st') \<Longrightarrow> (\<And>w n. valid_schedule n (ke_schedule env w n)) \<Longrightarrow>
     paired (ks_messages st) \<Longrightarrow> paired (ks_messages st')"
  using handle_paired [of env st ctx r] by simp

lemma step_paired:
  assumes "\<And>w n. valid_schedule n (ke_schedule env w n)" "paired (ks_messages st)"
  shows "paired (ks_messages (snd (kernel_step env ctx st)))"
proof -
  have "paired (ks_messages (inject_checkpoint ctx st))" using assms(2) by (rule inject_paired)
  then show ?thesis
    by (auto simp: kernel_step_def Let_def paired_append split: prod.splits sum.splits option.splits
        dest: handle_paired_eq [OF _ assms(1)])
qed

text \<open>Two providers that differ only on conversations with unanswered tool calls.\<close>

definition agree_on_paired ::
  "('j chat_request \<Rightarrow> 'w \<Rightarrow> (provider_error + llm_stream) \<times> 'w) \<Rightarrow> ('j chat_request \<Rightarrow> 'w \<Rightarrow> (provider_error + llm_stream) \<times> 'w) \<Rightarrow> bool" where
  "agree_on_paired p q = (\<forall>req. paired (cr_messages req) \<longrightarrow> p req = q req)"

lemma send_retrying_cong: "p req = q req \<Longrightarrow> send_retrying p req m r w = send_retrying q req m r w"
proof (induction p req m r w rule: send_retrying.induct)
  case (1 chat req m r w)
  show ?case
    by (subst (1 2) send_retrying.simps) (use 1 in \<open>auto split: prod.splits sum.splits\<close>)
qed

abbreviation with_provider where
  "with_provider p ctx \<equiv> ctx \<lparr> rc_chat_stream := p \<rparr>"

lemma with_provider_same:
  "execute_one env (with_provider p ctx) = execute_one env ctx"
  "build_tool_context env (with_provider p ctx) = build_tool_context env ctx"
  "save_ask env (with_provider p ctx) = save_ask env ctx"
  "inject_checkpoint (with_provider p ctx) = inject_checkpoint ctx"
  "build_chat_request (with_provider p ctx) = build_chat_request ctx"
  by (simp_all add: fun_eq_iff execute_one_def build_tool_context_def save_ask_def inject_checkpoint_def
      build_chat_request_def Let_def cong: option.case_cong prod.case_cong)

lemma run_act_with_provider: "run_act env (with_provider p ctx) calls tctx c act = run_act env ctx calls tctx c act"
  by (cases act; cases c) (simp_all add: with_provider_same)

lemma handle_with_provider: "handle_tool_calls env (with_provider p ctx) r st = handle_tool_calls env ctx r st"
proof -
  have "run_act env (with_provider p ctx) calls tctx = run_act env ctx calls tctx" for calls tctx
    by (intro ext) (rule run_act_with_provider)
  then show ?thesis by (simp add: handle_tool_calls_def with_provider_same)
qed

lemma step_with_provider:
  assumes "agree_on_paired p q" "paired (ks_messages st)"
  shows "kernel_step env (with_provider p ctx) st = kernel_step env (with_provider q ctx) st"
proof -
  have "paired (cr_messages (build_chat_request ctx (ks_messages (inject_checkpoint ctx st))))"
    using inject_paired [OF assms(2)] by (simp add: build_chat_request_def Let_def)
  then have "send_with_retry (with_provider p ctx) (build_chat_request ctx (ks_messages (inject_checkpoint ctx st))) w
      = send_with_retry (with_provider q ctx) (build_chat_request ctx (ks_messages (inject_checkpoint ctx st))) w" for w
    using assms(1) by (simp add: send_with_retry_def agree_on_paired_def) (metis send_retrying_cong)
  then show ?thesis
    by (simp add: kernel_step_def with_provider_same handle_with_provider Let_def
        cong: prod.case_cong sum.case_cong option.case_cong if_cong)
qed

lemma with_provider_config: "rc_config (with_provider p ctx) = rc_config ctx"
  by simp

lemma loop_continue:
  "kernel_step env ctx st = (Inr r, st1) \<Longrightarrow> st_should_continue r \<Longrightarrow>
     loop_from env ctx (Suc n) used st = loop_from env ctx n (used @ map tcr_name (st_tool_results r)) st1"
  by (simp add: Let_def)

lemma loop_final:
  "kernel_step env ctx st = (Inr r, st1) \<Longrightarrow> \<not> st_should_continue r \<Longrightarrow>
     loop_from env ctx (Suc n) used st =
       (Inr (to_result (ke_count_tokens env) (ks_messages st1) (used @ map tcr_name (st_tool_results r))
          (case rs_content (st_response r) of Some c \<Rightarrow> c | None \<Rightarrow> DEFAULT_NO_RESPONSE)
          (rs_reasoning (st_response r)) (ks_ledger st1)), send_done st1)"
  by (simp add: Let_def send_done_def)

lemma loop_error:
  "kernel_step env ctx st = (Inl e, st1) \<Longrightarrow> loop_from env ctx (Suc n) used st = (Inl e, st1)"
  by simp

lemmas loop_cases = loop_continue loop_final loop_error

declare loop_from.simps(2) [simp del]

lemma loop_with_provider:
  assumes "\<And>w n. valid_schedule n (ke_schedule env w n)" "agree_on_paired p q"
  shows "paired (ks_messages st) \<Longrightarrow>
    loop_from env (with_provider p ctx) n used st = loop_from env (with_provider q ctx) n used st
    \<and> paired (ks_messages (snd (loop_from env (with_provider p ctx) n used st)))"
proof (induction n arbitrary: used st)
  case 0
  then show ?case by (simp add: send_done_def)
next
  case (Suc n)
  obtain res st1 where step: "kernel_step env (with_provider p ctx) st = (res, st1)" by fastforce
  then have step': "kernel_step env (with_provider q ctx) st = (res, st1)"
    using step_with_provider [OF assms(2) Suc.prems] by metis
  have "paired (ks_messages st1)"
    using step_paired [OF assms(1) Suc.prems, of "with_provider p ctx"] step by simp
  then have ih: "loop_from env (with_provider p ctx) n u st1 = loop_from env (with_provider q ctx) n u st1"
    "paired (ks_messages (snd (loop_from env (with_provider p ctx) n u st1)))" for u
    using Suc.IH [of st1 u] by blast+
  show ?case
  proof (cases res)
    case (Inl e)
    then show ?thesis
      using loop_error step step' \<open>paired (ks_messages st1)\<close> by (metis snd_conv)
  next
    case (Inr r)
    show ?thesis
    proof (cases "st_should_continue r")
      case True
      then show ?thesis using loop_continue step step' Inr ih by metis
    next
      case False
      have "paired (ks_messages (send_done st1))"
        using \<open>paired (ks_messages st1)\<close> by (simp add: send_done_def)
      then show ?thesis using loop_final [OF _ False] step step' Inr by (metis snd_conv)
    qed
  qed
qed

text \<open>C7: the provider only ever sees conversations whose tool calls are all answered.  If
  the conversation handed to the kernel has that property, a run cannot tell apart two
  providers that agree on such conversations, and the conversation it leaves has it too,
  whatever the schedules, errors, time-outs and retries on the way.\<close>

theorem requests_answer_tool_calls:
  assumes "paired msgs" "\<And>w n. valid_schedule n (ke_schedule env w n)" "agree_on_paired p q"
  shows "run_loop env (ctx \<lparr> rc_chat_stream := p \<rparr>) msgs k w = run_loop env (ctx \<lparr> rc_chat_stream := q \<rparr>) msgs k w
    \<and> paired (ks_messages (snd (run_loop env (ctx \<lparr> rc_chat_stream := p \<rparr>) msgs k w)))"
proof -
  let ?st = "\<lparr> ks_messages = msgs, ks_ledger = ledger_new, ks_sink = k, ks_world = w \<rparr>"
  let ?n = "unat (kc_max_iterations (rc_config ctx))"
  have "loop_from env (with_provider p ctx) ?n [] ?st = loop_from env (with_provider q ctx) ?n [] ?st
    \<and> paired (ks_messages (snd (loop_from env (with_provider p ctx) ?n [] ?st)))"
    by (rule loop_with_provider [OF assms(2,3)]) (simp add: assms(1))
  then show ?thesis unfolding run_loop_def with_provider_config .
qed

theorem requests_answer_tool_calls_witness:
  "run_loop demo_env (demo_ctx \<lparr> rc_chat_stream := rc_chat_stream demo_ctx \<rparr>) [msg_user ''hi''] (ks_sink demo_state) 0
     = run_loop demo_env (demo_ctx \<lparr> rc_chat_stream := (\<lambda>r w. (if paired (cr_messages r)
          then rc_chat_stream demo_ctx r w else (Inl (ProvOther []), w))) \<rparr>) [msg_user ''hi''] (ks_sink demo_state) 0
   \<and> paired (ks_messages (snd (run_loop demo_env (demo_ctx \<lparr> rc_chat_stream := rc_chat_stream demo_ctx \<rparr>)
          [msg_user ''hi''] (ks_sink demo_state) 0)))"
  by (rule requests_answer_tool_calls) (simp_all add: demo_env_def valid_sequential agree_on_paired_def)

section \<open>Retries\<close>

text \<open>The world after \<open>n\<close> attempts, and the outcome of the next one.\<close>

primrec after_attempts where
  "after_attempts chat req 0 w = w"
| "after_attempts chat req (Suc n) w = after_attempts chat req n (snd (chat req w))"

definition attempt where
  "attempt chat req n w = fst (chat req (after_attempts chat req n w))"

lemma attempt_0: "attempt chat req 0 w = fst (chat req w)"
  by (simp add: attempt_def)

lemma attempt_Suc: "attempt chat req (Suc n) w = attempt chat req n (snd (chat req w))"
  by (simp add: attempt_def)

fun retryable_failure where
  "retryable_failure (Inl e) = provider_is_retryable e"
| "retryable_failure (Inr s) = False"

lemma send_retrying_attempts:
  "r \<le> m \<Longrightarrow> \<exists>k \<le> m - r. send_retrying chat req m r w =
       (attempt chat req k w, map backoff_secs [Suc r..<Suc r + k], after_attempts chat req (Suc k) w)
     \<and> (\<forall>j<k. retryable_failure (attempt chat req j w))
     \<and> (k < m - r \<longrightarrow> \<not> retryable_failure (attempt chat req k w))"
proof (induction chat req m r w rule: send_retrying.induct)
  case (1 chat req m r w)
  obtain o' w1 where call: "chat req w = (o', w1)" by fastforce
  show ?case
  proof (cases "retryable_failure o' \<and> r < m")
    case True
    then obtain e where e: "o' = Inl e" "provider_is_retryable e" by (cases o') auto
    have ih: "\<exists>k \<le> m - Suc r. send_retrying chat req m (Suc r) w1 =
         (attempt chat req k w1, map backoff_secs [Suc (Suc r)..<Suc (Suc r) + k], after_attempts chat req (Suc k) w1)
       \<and> (\<forall>j<k. retryable_failure (attempt chat req j w1))
       \<and> (k < m - Suc r \<longrightarrow> \<not> retryable_failure (attempt chat req k w1))"
      using 1(1) [of o' w1 e] True e call by simp
    then obtain k where k: "k \<le> m - Suc r" "send_retrying chat req m (Suc r) w1 =
         (attempt chat req k w1, map backoff_secs [Suc (Suc r)..<Suc (Suc r) + k], after_attempts chat req (Suc k) w1)"
       "\<forall>j<k. retryable_failure (attempt chat req j w1)"
       "k < m - Suc r \<longrightarrow> \<not> retryable_failure (attempt chat req k w1)" by blast
    have "[Suc r..<Suc r + Suc k] = Suc r # [Suc (Suc r)..<Suc (Suc r) + k]" by (simp add: upt_conv_Cons)
    then have eq: "send_retrying chat req m r w = (attempt chat req (Suc k) w,
        map backoff_secs [Suc r..<Suc r + Suc k], after_attempts chat req (Suc (Suc k)) w)"
      using k(2) e call True by (subst send_retrying.simps) (simp add: attempt_Suc)
    have "retryable_failure (attempt chat req j w)" if "j < Suc k" for j
      using that k(3) call True by (cases j) (simp_all add: attempt_0 attempt_Suc)
    moreover have "Suc k < m - r \<longrightarrow> \<not> retryable_failure (attempt chat req (Suc k) w)"
      using k(4) call by (simp add: attempt_Suc)
    ultimately show ?thesis using eq k(1) True by (intro exI [of _ "Suc k"]) auto
  next
    case False
    then have "send_retrying chat req m r w = (o', [], w1)"
      using call by (subst send_retrying.simps) (auto split: sum.splits)
    then show ?thesis using False call 1(2) by (intro exI [of _ 0]) (auto simp: attempt_0)
  qed
qed

text \<open>C37: retrying is bounded and stops at the right attempt.  A request is sent at most
  max_retries + 1 times; every attempt before the last failed with a retryable error, and
  the last one succeeded, failed for good, or used up the retries.  The result is the last
  attempt's, and each wait before a retry is at most 15 seconds.\<close>

theorem retry_bounded:
  "\<exists>k waits. k \<le> unat (kc_max_retries (rc_config ctx))
     \<and> send_with_retry ctx req w = (attempt (rc_chat_stream ctx) req k w, waits,
         after_attempts (rc_chat_stream ctx) req (Suc k) w)
     \<and> length waits = k \<and> list_all (\<lambda>s. s \<le> 15) waits
     \<and> list_all (\<lambda>j. retryable_failure (attempt (rc_chat_stream ctx) req j w)) [0..<k]
     \<and> (retryable_failure (attempt (rc_chat_stream ctx) req k w) = False
        \<or> k = unat (kc_max_retries (rc_config ctx)))"
proof -
  let ?m = "unat (kc_max_retries (rc_config ctx))"
  obtain k where k: "k \<le> ?m" "send_with_retry ctx req w = (attempt (rc_chat_stream ctx) req k w,
      map backoff_secs [1..<Suc k], after_attempts (rc_chat_stream ctx) req (Suc k) w)"
    "\<forall>j<k. retryable_failure (attempt (rc_chat_stream ctx) req j w)"
    "k < ?m \<longrightarrow> \<not> retryable_failure (attempt (rc_chat_stream ctx) req k w)"
    using send_retrying_attempts [of 0 ?m "rc_chat_stream ctx" req w] by (auto simp: send_with_retry_def)
  have "list_all (\<lambda>s. s \<le> 15) (map backoff_secs [1..<Suc k])"
    by (auto simp: list_all_iff backoff_secs_def)
  then show ?thesis
    using k by (intro exI [of _ k] exI [of _ "map backoff_secs [1..<Suc k]"]) (auto simp: list_all_iff)
qed

section \<open>How a run ends\<close>

text \<open>\<open>n\<close> turns that each asked for tools, collecting the tools used.\<close>

primrec turns where
  "turns env ctx 0 c c' = (c' = c)"
| "turns env ctx (Suc n) c c' = (\<exists>r st1. kernel_step env ctx (snd c) = (Inr r, st1) \<and> st_should_continue r
     \<and> turns env ctx n (fst c @ map tcr_name (st_tool_results r), st1) c')"

definition kernel_start where
  "kernel_start msgs k w = \<lparr> ks_messages = msgs, ks_ledger = ledger_new, ks_sink = k, ks_world = w \<rparr>"

lemma loop_outcome:
  "\<exists>k \<le> n. \<exists>used' st1. turns env ctx k (used, st) (used', st1)
     \<and> loop_from env ctx n used st = loop_from env ctx (n - k) used' st1
     \<and> (k = n \<or> (case fst (kernel_step env ctx st1) of Inl e \<Rightarrow> True | Inr r \<Rightarrow> \<not> st_should_continue r))"
proof (induction n arbitrary: used st)
  case (Suc n)
  obtain res st1 where step: "kernel_step env ctx st = (res, st1)" by fastforce
  show ?case
  proof (cases "\<exists>r. res = Inr r \<and> st_should_continue r")
    case True
    then obtain r where r: "res = Inr r" "st_should_continue r" by blast
    let ?used = "used @ map tcr_name (st_tool_results r)"
    obtain k used' st2 where k: "k \<le> n" "turns env ctx k (?used, st1) (used', st2)"
      "loop_from env ctx n ?used st1 = loop_from env ctx (n - k) used' st2"
      "k = n \<or> (case fst (kernel_step env ctx st2) of Inl e \<Rightarrow> True | Inr r \<Rightarrow> \<not> st_should_continue r)"
      using Suc.IH by blast
    have "turns env ctx (Suc k) (used, st) (used', st2)" using step r k(2) by auto
    moreover have "loop_from env ctx (Suc n) used st = loop_from env ctx (Suc n - Suc k) used' st2"
      using loop_continue step r k(3) by (metis diff_Suc_Suc)
    ultimately show ?thesis using k(1,4) by (metis Suc_le_mono)
  next
    case False
    then have "turns env ctx 0 (used, st) (used, st)
      \<and> (case fst (kernel_step env ctx st) of Inl e \<Rightarrow> True | Inr r \<Rightarrow> \<not> st_should_continue r)"
      using step by (cases res) auto
    then show ?thesis by (intro exI [of _ 0]) auto
  qed
qed simp


section \<open>The end signal\<close>

definition dones :: "event_sink \<Rightarrow> nat" where
  "dones k = length (filter (\<lambda>e. se_event e = Done) (es_sent k))"

definition quiet :: "event_sink \<Rightarrow> event_sink \<Rightarrow> bool" where
  "quiet k k' = (dones k' = dones k \<and> (es_open k = None \<longrightarrow> es_open k' = None))"

lemma quiet_refl [simp]: "quiet k k"
  by (simp add: quiet_def)

lemma quiet_trans: "quiet k k1 \<Longrightarrow> quiet k1 k2 \<Longrightarrow> quiet k k2"
  by (simp add: quiet_def)

lemma quiet_send: "se_event e \<noteq> Done \<Longrightarrow> quiet k (snd (send_event e k))"
  by (auto simp: quiet_def dones_def send_event_def split: option.splits nat.splits)

lemma send_event_snd: "send_event e k = (ok, k1) \<Longrightarrow> k1 = snd (send_event e k)"
  by simp

lemma quiet_forward:
  "\<forall>e \<in> set es. se_event e \<noteq> Done \<Longrightarrow> quiet k (snd (forward limit es k))"
proof (induction limit es k rule: forward.induct)
  case (3 limit e es k)
  obtain ok k1 where send: "send_event e k = (ok, k1)" by fastforce
  then have q: "quiet k k1" using 3(2) quiet_send [of e k] by simp
  show ?case
  proof (cases ok)
    case True
    then have "quiet k1 (snd (forward limit es k1))" using 3 send by simp
    then have "quiet k (snd (forward limit es k1))" by (rule quiet_trans [OF q])
    then show ?thesis using True send by (auto split: prod.splits)
  next
    case False
    then show ?thesis using q send by simp
  qed
qed simp_all

lemma chunk_events_not_done: "e \<in> set (chunk_events c) \<Longrightarrow> se_event e \<noteq> Done"
  by (auto simp: chunk_events_def main_event_def split: option.splits if_splits)

lemma produce_not_done: "e \<in> set (fst (produce js cs acc)) \<Longrightarrow> se_event e \<noteq> Done"
  by (induction js cs acc rule: produce.induct) (auto dest: chunk_events_not_done split: prod.splits)

lemma quiet_response: "quiet k (fst (snd (get_response env ls k ledger)))"
proof -
  obtain es res where s: "stream_events (ke_json env) (ls_items ls) = (es, res)" by fastforce
  then have "\<forall>e \<in> set es. se_event e \<noteq> Done"
    using produce_not_done unfolding stream_events_def by (metis fst_conv)
  then have "quiet k (snd (forward limit es k))" for limit by (rule quiet_forward)
  then show ?thesis
    using s by (auto simp: get_response_def split: option.splits prod.splits sum.splits dest: sym [of _ "(_, _)"])
      (metis snd_conv)+
qed

lemma quiet_act: "run_act env ctx calls tctx (k, w, rs) act = (k1, w1, rs1) \<Longrightarrow> quiet k k1"
  by (cases act) (auto simp: Let_def main_event_def quiet_send split: prod.splits)

lemma quiet_acts: "foldl (run_act env ctx calls tctx) (k, w, rs) acts = (k1, w1, rs1) \<Longrightarrow> quiet k k1"
proof (induction acts arbitrary: k w rs)
  case (Cons act acts)
  obtain k2 w2 rs2 where step: "run_act env ctx calls tctx (k, w, rs) act = (k2, w2, rs2)"
    by (metis prod_cases3)
  then have "quiet k2 k1" using Cons by simp
  then show ?case using quiet_act [OF step] by (rule quiet_trans [rotated])
qed simp

lemma quiet_handle: "quiet (ks_sink st) (ks_sink (snd (handle_tool_calls env ctx r st)))"
  by (auto simp: handle_tool_calls_def Let_def split: prod.splits intro: quiet_acts)

lemma inject_sink: "ks_sink (inject_checkpoint ctx st) = ks_sink st"
  by (simp add: inject_checkpoint_def split: option.splits prod.splits)

lemma quiet_step: "quiet (ks_sink st) (ks_sink (snd (kernel_step env ctx st)))"
proof -
  have r: "get_response env ls k l = (a, k1, l1) \<Longrightarrow> quiet k k1" for ls k l a k1 l1
    using quiet_response [of k env ls l] by simp
  have h: "handle_tool_calls env ctx rsp st1 = (rs, st2) \<Longrightarrow> quiet (ks_sink st1) (ks_sink st2)" for rsp st1 rs st2
    using quiet_handle [of st1 env ctx rsp] by simp
  show ?thesis
    by (auto simp: kernel_step_def Let_def inject_sink split: prod.splits sum.splits option.splits
        dest!: r h intro: quiet_trans)
qed

lemma step_error: "fst (kernel_step env ctx st) = Inl e \<Longrightarrow> \<nexists>m. e = MaxIterations m"
  by (auto simp: kernel_step_def get_response_def Let_def split: prod.splits sum.splits option.splits if_splits)

lemma dones_send_done: "es_open (ks_sink st) = None \<Longrightarrow> dones (ks_sink (send_done st)) = Suc (dones (ks_sink st))"
  by (simp add: send_done_def dones_def send_event_def main_event_def)

lemma loop_dones:
  "es_open (ks_sink st) = None \<Longrightarrow> loop_from env ctx n used st = (res, st') \<Longrightarrow>
     dones (ks_sink st') = dones (ks_sink st)
       + (case res of Inr r \<Rightarrow> 1 | Inl e \<Rightarrow> (case e of MaxIterations m \<Rightarrow> 1 | _ \<Rightarrow> 0))"
proof (induction n arbitrary: used st)
  case 0
  then show ?case by (auto simp: dones_send_done)
next
  case (Suc n)
  obtain out st1 where step: "kernel_step env ctx st = (out, st1)" by fastforce
  have q: "dones (ks_sink st1) = dones (ks_sink st)" "es_open (ks_sink st1) = None"
    using quiet_step [of st env ctx] step Suc.prems(1) by (simp_all add: quiet_def)
  show ?case
  proof (cases out)
    case (Inl e)
    then have "res = Inl e" "st' = st1" using Suc.prems(2) loop_error [OF step [unfolded Inl]] by simp_all
    moreover have "\<nexists>m. e = MaxIterations m" using step_error [of env ctx st e] step Inl by simp
    ultimately show ?thesis using q by (cases e) auto
  next
    case (Inr r)
    show ?thesis
    proof (cases "st_should_continue r")
      case True
      then show ?thesis using Suc.IH [of st1] Suc.prems(2) q step Inr loop_continue by fastforce
    next
      case False
      then have "st' = send_done st1" "\<exists>x. res = Inr x"
        using loop_final [OF step [unfolded Inr] False] Suc.prems(2) by (simp, auto)
      then show ?thesis using dones_send_done [OF q(2)] q(1) by auto
    qed
  qed
qed

text \<open>The end of a run is signalled exactly once, except when a step fails.  With a sink
  that stays open, a run that returns a result or reaches the iteration limit sends exactly
  one done event; a run that fails in a step sends none.\<close>

theorem done_sent_once:
  assumes "es_open k = None"
  shows "case run_loop env ctx msgs k w of (res, st) \<Rightarrow>
    dones (ks_sink st) = dones k
      + (case res of Inr r \<Rightarrow> 1 | Inl e \<Rightarrow> (case e of MaxIterations m \<Rightarrow> 1 | _ \<Rightarrow> 0))"
  using loop_dones [of "\<lparr> ks_messages = msgs, ks_ledger = ledger_new, ks_sink = k, ks_world = w \<rparr>" env ctx] assms
  by (auto simp: run_loop_def split: prod.splits)

theorem done_sent_once_witness:
  "case run_loop demo_env demo_ctx [msg_user ''hi''] \<lparr> es_sent = [], es_open = None \<rparr> 0 of (res, st) \<Rightarrow>
    dones (ks_sink st) = dones \<lparr> es_sent = [], es_open = None \<rparr>
      + (case res of Inr r \<Rightarrow> 1 | Inl e \<Rightarrow> (case e of MaxIterations m \<Rightarrow> 1 | _ \<Rightarrow> 0))"
  by (rule done_sent_once) simp

section \<open>Bounded outputs\<close>

lemma truncate_result_cases:
  "truncate_result limit s = s \<and> (limit = 0 \<or> length s \<le> limit)
   \<or> (\<exists>p. prefix p s \<and> length p \<le> limit \<and> is_char_boundary s (length p)
        \<and> truncate_result limit s = p @ [NL, NL] @ ''[OUTPUT TRUNCATED: original ''
           @ show_nat (length s) @ '' chars exceeded limit of '' @ show_nat limit @ '' chars]'')"
proof (cases "limit > 0 \<and> length s > limit")
  case True
  let ?n = "floor_char_boundary s limit"
  have n: "?n \<le> limit" "?n \<le> length s" using floor_char_boundary_le [of s limit] floor_char_boundary_le_length [of s limit] by auto
  then have len: "length (take ?n s) = ?n" by simp
  have "prefix (take ?n s) s \<and> length (take ?n s) \<le> limit
      \<and> is_char_boundary s (length (take ?n s))"
    using n len floor_char_boundary_is_boundary [of s limit] by (simp add: take_is_prefix)
  moreover have "truncate_result limit s = take ?n s @ [NL, NL] @ ''[OUTPUT TRUNCATED: original ''
           @ show_nat (length s) @ '' chars exceeded limit of '' @ show_nat limit @ '' chars]''"
    using True by (simp add: truncate_result_def)
  ultimately show ?thesis by blast
qed (auto simp: truncate_result_def)

text \<open>What a tool returns reaches the model bounded and whole at the edge.  The output of
  a call is the registry's result (or its error as text, or the time-out notice), unless
  it is longer than the configured limit; then it is a prefix within the limit that ends
  at a character boundary, followed by a notice with the original length.\<close>

theorem tool_output_bounded:
  "\<exists>s. (case fst (registry_execute (ke_json env) (ke_new_id env) (rc_tools ctx) (fc_name (tc_function tc))
              (fc_arguments (tc_function tc)) tctx w) of
         None \<Rightarrow> s = ''Error: Tool execution timed out after ''
              @ show_nat (unat (kc_tool_timeout_secs (rc_config ctx))) @ ''s''
       | Some (Inl e) \<Rightarrow> s = ''Error: '' @ tool_error_to_str e
       | Some (Inr out) \<Rightarrow> s = out)
     \<and> (let limit = unat (kc_max_tool_result_chars (rc_config ctx));
            out = tcr_output (fst (execute_one env ctx tc tctx w)) in
        out = s \<and> (limit = 0 \<or> length s \<le> limit)
        \<or> (\<exists>p. prefix p s \<and> length p \<le> limit \<and> is_char_boundary s (length p)
             \<and> out = p @ [NL, NL] @ ''[OUTPUT TRUNCATED: original ''
                @ show_nat (length s) @ '' chars exceeded limit of '' @ show_nat limit @ '' chars]''))"
proof -
  obtain r w1 where r: "registry_execute (ke_json env) (ke_new_id env) (rc_tools ctx) (fc_name (tc_function tc))
              (fc_arguments (tc_function tc)) tctx w = (r, w1)" by fastforce
  let ?s = "case r of None \<Rightarrow> ''Error: Tool execution timed out after ''
              @ show_nat (unat (kc_tool_timeout_secs (rc_config ctx))) @ ''s''
       | Some (Inl e) \<Rightarrow> ''Error: '' @ tool_error_to_str e | Some (Inr out) \<Rightarrow> out"
  have "tcr_output (fst (execute_one env ctx tc tctx w))
      = truncate_result (unat (kc_max_tool_result_chars (rc_config ctx))) ?s"
    by (simp add: execute_one_def r Let_def)
  then show ?thesis
    using truncate_result_cases [of "unat (kc_max_tool_result_chars (rc_config ctx))" ?s]
    by (intro exI [of _ ?s]) (simp add: r Let_def split: option.splits sum.splits)
qed

section \<open>A closed sink\<close>

lemma forward_closed: "es_open k = Some 0 \<Longrightarrow> 0 < n \<Longrightarrow> forward n (e # es) k = (1, k)"
  by (cases n) (auto simp: send_event_def)

lemma step_closed_sink:
  assumes "es_open (ks_sink st) = Some 0" "rc_checkpoint ctx = None"
    and "rc_chat_stream ctx (build_chat_request ctx (ks_messages st)) (ks_world st) = (Inr ls, w)"
    and "length (fst (stream_events (ke_json env) (ls_items ls))) > Suc STREAM_BUFFER"
    and "ls_elapsed ls = None"
  shows "fst (kernel_step env ctx st) = Inl (StepTimeout (step_budget_secs (rc_config ctx)))"
proof -
  obtain es res where s: "stream_events (ke_json env) (ls_items ls) = (es, res)" by fastforce
  obtain e es' where es: "es = e # es'" using assms(4) s by (cases es) simp_all
  have "0 < MAX_STREAM_CHUNKS" by (simp add: MAX_STREAM_CHUNKS_def)
  then have "forward MAX_STREAM_CHUNKS es (ks_sink st) = (1, ks_sink st)"
    unfolding es by (rule forward_closed [OF assms(1)])
  then have "fst (get_response env ls (ks_sink st) (ks_ledger st)) = None"
    using s assms(4) by (auto simp: get_response_def split: option.splits)
  then obtain a b where "get_response env ls (ks_sink st) (ks_ledger st) = (None, a, b)"
    by (metis prod.collapse)
  moreover have "send_with_retry ctx (build_chat_request ctx (ks_messages st)) (ks_world st) = (Inr ls, [], w)"
    using assms(3) by (simp add: send_with_retry_def send_retrying.simps)
  ultimately show ?thesis
    using assms(2) by (simp add: kernel_step_def inject_checkpoint_def Let_def)
qed

text \<open>A user who goes away turns a complete answer into a time-out.  If the event sink has
  closed and the provider's stream has more than 33 events to show, the step fails with
  StepTimeout even though the stream was sent without error and within the time budget.\<close>

theorem closed_sink_times_out:
  assumes "es_open (ks_sink st) = Some 0" "rc_checkpoint ctx = None"
    and "rc_chat_stream ctx (build_chat_request ctx (ks_messages st)) (ks_world st) = (Inr ls, w)"
    and "length (fst (stream_events (ke_json env) (ls_items ls))) > Suc STREAM_BUFFER"
    and "ls_elapsed ls = None"
  shows "fst (kernel_step env ctx st) = Inl (StepTimeout (step_budget_secs (rc_config ctx)))"
  by (rule step_closed_sink [OF assms])

definition demo_chunk :: chat_stream_chunk where
  "demo_chunk = \<lparr> csc_delta = \<lparr> csd_content = Some ''x'', csd_reasoning = None, csd_tool_calls = [] \<rparr>,
     csc_finish_reason = None, csc_usage = None \<rparr>"

definition demo_long :: llm_stream where
  "demo_long = \<lparr> ls_items = replicate 40 (Inr demo_chunk), ls_elapsed = None \<rparr>"

lemma produce_replicate:
  "length (fst (produce js (replicate n (Inr demo_chunk)) acc)) = n"
  by (induction n arbitrary: acc) (auto simp: chunk_events_def demo_chunk_def split: prod.splits, metis fst_conv)

theorem closed_sink_times_out_witness:
  "fst (kernel_step demo_env (demo_ctx \<lparr> rc_chat_stream := \<lambda>r w. (Inr demo_long, w) \<rparr>)
      (demo_state \<lparr> ks_sink := \<lparr> es_sent = [], es_open = Some 0 \<rparr> \<rparr>))
    = Inl (StepTimeout (step_budget_secs (rc_config (demo_ctx \<lparr> rc_chat_stream := \<lambda>r w. (Inr demo_long, w) \<rparr>))))"
  by (rule closed_sink_times_out [where ls = demo_long and w = 0])
    (simp_all add: demo_ctx_def runtime_context_new_def demo_state_def demo_long_def stream_events_def produce_replicate STREAM_BUFFER_def)

end
