(* ===== verification/Subagent_Monitor.thy ===== *)
theory Subagent_Monitor
  imports Subagents Kernel_Proofs
begin

text \<open>
  The monitored subagent (engine/src/subagents/monitor.rs): it drives the kernel step by
  step, reports its progress and listens to interventions at the beginning of a turn.
  \<open>arrives t\<close> are the interventions there are when turn \<open>t\<close> begins.  The receiver of its
  event channel is dropped by the constructor, so the kernel's event sink is closed from the
  start.
\<close>

section \<open>The runner\<close>

datatype progress_update =
    ProgressThinking nat
  | ProgressToolStart string
  | ProgressToolResult string string
  | ProgressTurnComplete nat string
  | ProgressDone string
  | ProgressError string

datatype intervention = Abort | AddKeyInfo string | AppendPrompt string | ExtendTurns u32

record ('j, 'w) monitored_runner =
  mr_spec :: task_spec
  mr_kernel :: "('j, 'w) kernel_state"
  mr_progress :: "progress_update list"
  mr_max_turns :: u32

definition monitored_runner_new :: "task_spec \<Rightarrow> 'w \<Rightarrow> ('j, 'w) monitored_runner" where
  "monitored_runner_new spec w =
     (let system = (case ts_system_prompt spec of Some p \<Rightarrow> p | None \<Rightarrow> []) in
      \<lparr> mr_spec = spec,
        mr_kernel = \<lparr> ks_messages = (if system = [] then [msg_user (ts_task spec)]
                       else [msg_system system, msg_user (ts_task spec)]),
                      ks_ledger = ledger_new, ks_sink = \<lparr> es_sent = [], es_open = Some 0 \<rparr>, ks_world = w \<rparr>,
        mr_progress = [], mr_max_turns = 10 \<rparr>)"

definition report :: "progress_update list \<Rightarrow> ('j, 'w) monitored_runner \<Rightarrow> ('j, 'w) monitored_runner" where
  "report ps r = r \<lparr> mr_progress := mr_progress r @ ps \<rparr>"

definition push_message :: "'j chat_message \<Rightarrow> ('j, 'w) monitored_runner \<Rightarrow> ('j, 'w) monitored_runner" where
  "push_message m r = r \<lparr> mr_kernel := (mr_kernel r) \<lparr> ks_messages := ks_messages (mr_kernel r) @ [m] \<rparr> \<rparr>"

text \<open>The interventions of one turn: whether it was aborted, and the runner.\<close>

fun drain_interventions ::
  "intervention list \<Rightarrow> ('j, 'w) monitored_runner \<Rightarrow> bool \<times> ('j, 'w) monitored_runner" where
  "drain_interventions [] r = (False, r)"
| "drain_interventions (Abort # ivs) r = (True, r)"
| "drain_interventions (AddKeyInfo info # ivs) r =
     drain_interventions ivs (push_message (msg_system (''[Key Info] '' @ info)) r)"
| "drain_interventions (AppendPrompt prompt # ivs) r = drain_interventions ivs (push_message (msg_user prompt) r)"
| "drain_interventions (ExtendTurns n # ivs) r =
     drain_interventions ivs (r \<lparr> mr_max_turns := mr_max_turns r + n \<rparr>)"

definition final_result :: "('j, 'w) monitored_runner \<Rightarrow> sub_result" where
  "final_result r =
     (let content = (case find (\<lambda>m. cm_role m = AssistantRole) (rev (ks_messages (mr_kernel r))) of
                       Some m \<Rightarrow> (case cm_content m of Some c \<Rightarrow> c | None \<Rightarrow> [])
                     | None \<Rightarrow> []);
          spec = mr_spec r in
      \<lparr> sr_id = ts_id spec, sr_task = ts_task spec,
        sr_response = \<lparr> ag_content = content, ag_reasoning = None, ag_tools_used = [], ag_model = ts_model spec,
          ag_token_usage = ks_ledger (mr_kernel r), ag_cost = 0 \<rparr>,
        sr_model = ts_model spec \<rparr>)"

definition final_result_with_error :: "('j, 'w) monitored_runner \<Rightarrow> string \<Rightarrow> sub_result" where
  "final_result_with_error r e = (final_result r)
     \<lparr> sr_response := (sr_response (final_result r)) \<lparr> ag_content := ''Error: '' @ e \<rparr> \<rparr>"

definition finish_run :: "('j, 'w) monitored_runner \<Rightarrow> (string + sub_result) \<times> ('j, 'w) monitored_runner" where
  "finish_run r = (Inr (final_result r), report [ProgressDone (ag_content (sr_response (final_result r)))] r)"

definition tool_progress :: "'j step_result \<Rightarrow> progress_update list" where
  "tool_progress res = concat (map (\<lambda>t. [ProgressToolStart (tcr_name t), ProgressToolResult (tcr_name t) (tcr_output t)])
     (st_tool_results res))"

definition turn_summary :: "'j step_result \<Rightarrow> string" where
  "turn_summary res = result_summary 200 (case rs_content (st_response res) of Some c \<Rightarrow> c | None \<Rightarrow> [])"

fun run_turns ::
  "('j, 'h, 'w) kernel_env \<Rightarrow> ('j, 'h, 'w) runtime_context \<Rightarrow> (nat \<Rightarrow> intervention list) \<Rightarrow> nat list
    \<Rightarrow> ('j, 'w) monitored_runner \<Rightarrow> (string + sub_result) \<times> ('j, 'w) monitored_runner" where
  "run_turns env ctx arrives [] r = finish_run r"
| "run_turns env ctx arrives (t # ts) r =
     (case drain_interventions (arrives t) r of
        (True, r1) \<Rightarrow> finish_run r1
      | (False, r1) \<Rightarrow>
          (case kernel_step env ctx (mr_kernel r1) of
             (Inl e, st) \<Rightarrow> (Inl (''Step failed: '' @ kernel_error_to_str e),
                report [ProgressThinking t] (r1 \<lparr> mr_kernel := st \<rparr>))
           | (Inr res, st) \<Rightarrow>
               (let r2 = report ([ProgressThinking t] @ tool_progress res @ [ProgressTurnComplete t (turn_summary res)])
                           (r1 \<lparr> mr_kernel := st \<rparr>)
                in if \<not> st_should_continue res then finish_run r2 else run_turns env ctx arrives ts r2)))"

text \<open>The range of turns is evaluated once, before the first turn.\<close>

definition monitored_run ::
  "('j, 'h, 'w) kernel_env \<Rightarrow> ('j, 'h, 'w) runtime_context \<Rightarrow> (nat \<Rightarrow> intervention list)
    \<Rightarrow> ('j, 'w) monitored_runner \<Rightarrow> (string + sub_result) \<times> ('j, 'w) monitored_runner" where
  "monitored_run env ctx arrives r = run_turns env ctx arrives [1..<Suc (unat (mr_max_turns r))] r"

definition monitored_context where
  "monitored_context chat tools default_model spec cb =
     (runtime_context_new chat tools
        (worker_config (case ts_model spec of Some m \<Rightarrow> m | None \<Rightarrow> default_model)
           (case ts_max_turns spec of Some n \<Rightarrow> n | None \<Rightarrow> DEFAULT_MAX_ITERATIONS) False) Worker)
       \<lparr> rc_checkpoint := cb \<rparr>"

definition spawn_with_checkpoint where
  "spawn_with_checkpoint env chat tools default_model spec cb arrives w =
     (case monitored_run env (monitored_context chat tools default_model spec cb) arrives
             (monitored_runner_new spec w) of
        (Inr x, r) \<Rightarrow> (x, r)
      | (Inl e, r) \<Rightarrow> (final_result_with_error r e, report [ProgressError e] r))"

section \<open>Extending the number of turns\<close>

abbreviation with_iterations where
  "with_iterations n ctx \<equiv> ctx \<lparr> rc_config := (rc_config ctx) \<lparr> kc_max_iterations := n \<rparr> \<rparr>"

lemma with_iterations_same:
  "execute_one env (with_iterations n ctx) = execute_one env ctx"
  "build_tool_context env (with_iterations n ctx) = build_tool_context env ctx"
  "save_ask env (with_iterations n ctx) = save_ask env ctx"
  "inject_checkpoint (with_iterations n ctx) = inject_checkpoint ctx"
  "build_chat_request (with_iterations n ctx) = build_chat_request ctx"
  "send_with_retry (with_iterations n ctx) = send_with_retry ctx"
  by (simp_all add: fun_eq_iff execute_one_def build_tool_context_def save_ask_def inject_checkpoint_def
      build_chat_request_def send_with_retry_def Let_def cong: option.case_cong prod.case_cong)

lemma step_with_iterations: "kernel_step env (with_iterations n ctx) = kernel_step env ctx"
proof -
  have "run_act env (with_iterations n ctx) calls tctx c act = run_act env ctx calls tctx c act" for calls tctx c act
    by (cases act; cases c) (simp_all add: with_iterations_same)
  then have "run_act env (with_iterations n ctx) calls tctx = run_act env ctx calls tctx" for calls tctx
    by (intro ext)
  then have "handle_tool_calls env (with_iterations n ctx) r st = handle_tool_calls env ctx r st" for r st
    by (simp add: handle_tool_calls_def with_iterations_same)
  then show ?thesis
    by (simp add: fun_eq_iff kernel_step_def with_iterations_same step_budget_secs_def Let_def
        cong: prod.case_cong sum.case_cong option.case_cong if_cong)
qed

text \<open>Runs that differ in the turns they were promised.\<close>

definition same_run :: "('j, 'w) monitored_runner \<Rightarrow> ('j, 'w) monitored_runner \<Rightarrow> bool" where
  "same_run r q = (mr_kernel r = mr_kernel q \<and> mr_progress r = mr_progress q
     \<and> (mr_spec r) \<lparr> ts_max_turns := None \<rparr> = (mr_spec q) \<lparr> ts_max_turns := None \<rparr>)"

lemma same_run_step:
  assumes "same_run r q"
  shows "same_run (report ps r) (report ps q)" "same_run (push_message m r) (push_message m q)"
    "same_run (r \<lparr> mr_max_turns := a \<rparr>) (q \<lparr> mr_max_turns := b \<rparr>)" "same_run (r \<lparr> mr_max_turns := a \<rparr>) q"
    "same_run (r \<lparr> mr_kernel := k \<rparr>) (q \<lparr> mr_kernel := k \<rparr>)"
  using assms by (simp_all add: same_run_def report_def push_message_def)

lemma same_run_result:
  assumes "same_run r q"
  shows "final_result r = final_result q"
proof -
  have "ts_id (mr_spec r) = ts_id (mr_spec q)" "ts_task (mr_spec r) = ts_task (mr_spec q)"
    "ts_model (mr_spec r) = ts_model (mr_spec q)"
    using assms by (cases "mr_spec r"; cases "mr_spec q"; simp add: same_run_def)+
  moreover have "mr_kernel r = mr_kernel q" using assms by (simp add: same_run_def)
  ultimately show ?thesis unfolding final_result_def Let_def by simp
qed

lemma same_run_finish:
  assumes "same_run r q"
  shows "fst (finish_run r) = fst (finish_run q) \<and> same_run (snd (finish_run r)) (snd (finish_run q))"
  using same_run_result [OF assms] same_run_step(1) [OF assms] by (simp add: finish_run_def)

definition extends :: "intervention \<Rightarrow> bool" where
  "extends i = (case i of ExtendTurns n \<Rightarrow> True | _ \<Rightarrow> False)"

definition without_extensions :: "intervention list \<Rightarrow> intervention list" where
  "without_extensions ivs = [i \<leftarrow> ivs. \<not> extends i]"

lemma same_run_drain:
  "same_run r q \<Longrightarrow> fst (drain_interventions ivs r) = fst (drain_interventions (without_extensions ivs) q)
     \<and> same_run (snd (drain_interventions ivs r)) (snd (drain_interventions (without_extensions ivs) q))"
proof (induction ivs r arbitrary: q rule: drain_interventions.induct)
  case (5 n ivs r)
  then show ?case using same_run_step(4) [OF 5(2)] by (simp add: without_extensions_def extends_def)
qed (simp_all add: without_extensions_def extends_def same_run_step)

abbreviation turn_report where
  "turn_report t x \<equiv> report ([ProgressThinking t] @ tool_progress x @ [ProgressTurnComplete t (turn_summary x)])"

lemma run_turns_aborted:
  "drain_interventions (arrives t) r = (True, r1) \<Longrightarrow> run_turns env ctx arrives (t # ts) r = finish_run r1"
  by simp

lemma run_turns_failed:
  "drain_interventions (arrives t) r = (False, r1) \<Longrightarrow> kernel_step env ctx (mr_kernel r1) = (Inl e, st) \<Longrightarrow>
     run_turns env ctx arrives (t # ts) r
       = (Inl (''Step failed: '' @ kernel_error_to_str e), report [ProgressThinking t] (r1 \<lparr> mr_kernel := st \<rparr>))"
  by simp

lemma run_turns_answered:
  "drain_interventions (arrives t) r = (False, r1) \<Longrightarrow> kernel_step env ctx (mr_kernel r1) = (Inr x, st) \<Longrightarrow>
     \<not> st_should_continue x \<Longrightarrow>
     run_turns env ctx arrives (t # ts) r = finish_run (turn_report t x (r1 \<lparr> mr_kernel := st \<rparr>))"
  by (simp add: Let_def)

lemma run_turns_continued:
  "drain_interventions (arrives t) r = (False, r1) \<Longrightarrow> kernel_step env ctx (mr_kernel r1) = (Inr x, st) \<Longrightarrow>
     st_should_continue x \<Longrightarrow>
     run_turns env ctx arrives (t # ts) r = run_turns env ctx arrives ts (turn_report t x (r1 \<lparr> mr_kernel := st \<rparr>))"
  by (simp add: Let_def)

lemma same_run_turns:
  "same_run r q \<Longrightarrow>
     fst (run_turns env ctx arrives ts r)
       = fst (run_turns env (with_iterations n ctx) (\<lambda>t. without_extensions (arrives t)) ts q)
   \<and> same_run (snd (run_turns env ctx arrives ts r))
       (snd (run_turns env (with_iterations n ctx) (\<lambda>t. without_extensions (arrives t)) ts q))"
proof (induction ts arbitrary: r q)
  case Nil
  then show ?case using same_run_finish by simp
next
  case (Cons t ts)
  obtain b r1 where r1: "drain_interventions (arrives t) r = (b, r1)" by fastforce
  define q1 where "q1 = snd (drain_interventions (without_extensions (arrives t)) q)"
  have "b = fst (drain_interventions (without_extensions (arrives t)) q)" "same_run r1 q1"
    using same_run_drain [OF Cons.prems, of "arrives t"] unfolding r1 q1_def fst_conv snd_conv by blast+
  then have q1: "drain_interventions (without_extensions (arrives t)) q = (b, q1)" "same_run r1 q1"
    by (simp_all add: q1_def)
  have k: "mr_kernel r1 = mr_kernel q1" using q1(2) by (simp add: same_run_def)
  show ?case
  proof (cases b)
    case True
    have "run_turns env ctx arrives (t # ts) r = finish_run r1"
      "run_turns env (with_iterations n ctx) (\<lambda>t. without_extensions (arrives t)) (t # ts) q = finish_run q1"
      using r1 q1(1) True by (simp_all add: run_turns_aborted)
    then show ?thesis using same_run_finish [OF q1(2)] by (simp only:)
  next
    case False
    obtain res st where s: "kernel_step env ctx (mr_kernel q1) = (res, st)" by fastforce
    have drains: "drain_interventions (arrives t) r = (False, r1)"
      "drain_interventions (without_extensions (arrives t)) q = (False, q1)"
      using r1 q1(1) False by simp_all
    note upd = same_run_step(1) [OF same_run_step(5) [OF q1(2)]]
    show ?thesis
    proof (cases res)
      case (Inl e)
      note steps = s [unfolded Inl, folded k] s [unfolded Inl, folded step_with_iterations [of env n ctx]]
      show ?thesis
        unfolding run_turns_failed [where arrives = arrives and t = t, OF drains(1) steps(1)]
          run_turns_failed [where arrives = "\<lambda>t. without_extensions (arrives t)" and t = t, OF drains(2) steps(2)]
        using upd by simp
    next
      case (Inr x)
      note steps = s [unfolded Inr, folded k] s [unfolded Inr, folded step_with_iterations [of env n ctx]]
      show ?thesis
      proof (cases "st_should_continue x")
        case True
        show ?thesis
          unfolding run_turns_continued [where arrives = arrives and t = t, OF drains(1) steps(1) True]
            run_turns_continued [where arrives = "\<lambda>t. without_extensions (arrives t)" and t = t, OF drains(2) steps(2) True]
          by (rule Cons.IH [OF upd])
      next
        case over: False
        show ?thesis
          unfolding run_turns_answered [where arrives = arrives and t = t, OF drains(1) steps(1) over]
            run_turns_answered [where arrives = "\<lambda>t. without_extensions (arrives t)" and t = t, OF drains(2) steps(2) over]
          by (rule same_run_finish [OF upd])
      qed
    qed
  qed
qed

definition thinking_turns :: "progress_update list \<Rightarrow> nat list" where
  "thinking_turns ps = List.map_filter (\<lambda>p. case p of ProgressThinking t \<Rightarrow> Some t | _ \<Rightarrow> None) ps"

lemma thinking_turns_simps [simp]:
  "thinking_turns [] = []" "thinking_turns (ps @ qs) = thinking_turns ps @ thinking_turns qs"
  "thinking_turns (ProgressThinking t # ps) = t # thinking_turns ps"
  "thinking_turns (ProgressToolStart n # ps) = thinking_turns ps"
  "thinking_turns (ProgressToolResult n z # ps) = thinking_turns ps"
  "thinking_turns (ProgressTurnComplete t z # ps) = thinking_turns ps"
  "thinking_turns (ProgressDone z # ps) = thinking_turns ps"
  "thinking_turns (ProgressError z # ps) = thinking_turns ps"
  by (simp_all add: thinking_turns_def List.map_filter_def)

lemma thinking_turns_tools [simp]: "thinking_turns (tool_progress res) = []"
proof -
  have "thinking_turns (concat (map (\<lambda>t. [ProgressToolStart (f t), ProgressToolResult (f t) (g t)]) xs)) = []"
    for f g and xs :: "'b list"
    by (induction xs) simp_all
  then show ?thesis unfolding tool_progress_def .
qed

lemma drain_progress: "mr_progress (snd (drain_interventions ivs r)) = mr_progress r"
  by (induction ivs r rule: drain_interventions.induct) (simp_all add: push_message_def)

text \<open>The turns begun are a prefix of the range.\<close>

lemma run_turns_thinking:
  "\<exists>n. thinking_turns (mr_progress (snd (run_turns env ctx arrives ts r)))
     = thinking_turns (mr_progress r) @ take n ts"
proof (induction ts arbitrary: r)
  case (Cons t ts)
  obtain b r1 where r1: "drain_interventions (arrives t) r = (b, r1)" by fastforce
  then have p: "mr_progress r1 = mr_progress r" using drain_progress [of "arrives t" r] by simp
  obtain res st where s: "kernel_step env ctx (mr_kernel r1) = (res, st)" by fastforce
  show ?case
  proof (cases b)
    case True
    then have "drain_interventions (arrives t) r = (True, r1)" using r1 by simp
    then have "run_turns env ctx arrives (t # ts) r = finish_run r1" by (rule run_turns_aborted)
    then show ?thesis
      by (intro exI [of _ 0]) (simp add: finish_run_def report_def p)
  next
    case False
    then have r1: "drain_interventions (arrives t) r = (False, r1)" using r1 by simp
    show ?thesis
    proof (cases res)
      case (Inl e)
      show ?thesis
        unfolding run_turns_failed [where arrives = arrives and t = t, OF r1 s [unfolded Inl]] by (intro exI [of _ 1]) (simp add: report_def p)
    next
      case (Inr x)
      let ?r2 = "turn_report t x (r1 \<lparr> mr_kernel := st \<rparr>)"
      have r2: "thinking_turns (mr_progress ?r2) = thinking_turns (mr_progress r) @ [t]"
        by (simp add: report_def p)
      show ?thesis
      proof (cases "st_should_continue x")
        case True
        obtain n where "thinking_turns (mr_progress (snd (run_turns env ctx arrives ts ?r2)))
            = thinking_turns (mr_progress ?r2) @ take n ts"
          using Cons.IH by blast
        then show ?thesis
          unfolding run_turns_continued [where arrives = arrives and t = t, OF r1 s [unfolded Inr] True] r2 by (intro exI [of _ "Suc n"]) simp
      next
        case over: False
        show ?thesis
          unfolding run_turns_answered [where arrives = arrives and t = t, OF r1 s [unfolded Inr] over]
          by (intro exI [of _ 1]) (simp add: finish_run_def report_def p)
      qed
    qed
  qed
qed (simp add: finish_run_def report_def)

lemma context_max_turns:
  "\<exists>n. monitored_context chat tools default_model (spec \<lparr> ts_max_turns := m \<rparr>) cb
     = with_iterations n (monitored_context chat tools default_model spec cb)"
  by (intro exI [of _ "case m of Some n \<Rightarrow> n | None \<Rightarrow> DEFAULT_MAX_ITERATIONS"])
    (simp add: monitored_context_def runtime_context_new_def worker_config_def kernel_config_new_def)

lemma error_result_progress:
  "same_run r q \<Longrightarrow> final_result_with_error r e = final_result_with_error q e"
  using same_run_result [of r q] by (simp add: final_result_with_error_def)

text \<open>C31: a monitored subagent cannot be given more turns.  Its result, its progress reports and
  its conversation are the same when every ExtendTurns intervention is left out and when
  the task asks for another number of turns; whatever is asked, the turns it
  begins are the first ones of 1 to 10, in order.\<close>

theorem extend_turns_ignored:
  fixes env :: "('j, 'h, 'w) kernel_env"
  shows "case (spawn_with_checkpoint env chat tools default_model spec cb arrives w,
         spawn_with_checkpoint env chat tools default_model (spec \<lparr> ts_max_turns := m \<rparr>) cb
           (\<lambda>t. without_extensions (arrives t)) w) of
     ((x, r), (y, q)) \<Rightarrow> x = y \<and> mr_progress r = mr_progress q \<and> mr_kernel r = mr_kernel q
       \<and> (\<exists>n. thinking_turns (mr_progress r) = take n [1..<11])"
proof -
  let ?ctx = "monitored_context chat tools default_model spec cb"
  let ?r = "monitored_runner_new spec w :: ('j, 'w) monitored_runner"
  let ?q = "monitored_runner_new (spec \<lparr> ts_max_turns := m \<rparr>) w :: ('j, 'w) monitored_runner"
  let ?none = "\<lambda>t. without_extensions (arrives t)"
  obtain n where n: "monitored_context chat tools default_model (spec \<lparr> ts_max_turns := m \<rparr>) cb = with_iterations n ?ctx"
    using context_max_turns by blast
  have start: "same_run ?r ?q" by (simp add: same_run_def monitored_runner_new_def Let_def)
  have range: "mr_max_turns ?r = 10" "mr_max_turns ?q = 10" "mr_progress ?r = []"
    by (simp_all add: monitored_runner_new_def Let_def)
  obtain x r where r: "run_turns env ?ctx arrives [1..<11] ?r = (x, r)" by fastforce
  obtain y q where q: "run_turns env (with_iterations n ?ctx) ?none [1..<11] ?q = (y, q)" by fastforce
  have same: "x = y" "same_run r q"
    using same_run_turns [OF start, of env ?ctx arrives "[1..<11]" n] unfolding r q by simp_all
  have turns: "\<exists>n. thinking_turns (mr_progress r) = take n [1..<11]"
    using run_turns_thinking [of env ?ctx arrives "[1..<11]" ?r] unfolding r range(3) by simp
  have runs: "monitored_run env ?ctx arrives ?r = (x, r)" "monitored_run env (with_iterations n ?ctx) ?none ?q = (y, q)"
    using r q by (simp_all add: monitored_run_def range)
  show ?thesis
  proof (cases x)
    case (Inl e)
    then have "y = Inl e" using same(1) by simp
    then show ?thesis
      unfolding spawn_with_checkpoint_def n runs Inl using same(2) turns error_result_progress [OF same(2)]
      by (simp add: same_run_def report_def)
  next
    case (Inr z)
    then have "y = Inr z" using same(1) by simp
    then show ?thesis
      unfolding spawn_with_checkpoint_def n runs Inr using same(2) turns by (simp add: same_run_def)
  qed
qed

section \<open>The dropped receiver\<close>

text \<open>C32: a monitored subagent fails on an ordinary answer.  When the stream of the first answer
  has more than 33 events to show, and arrives complete and in time, the subagent
  still fails as if the step had run out of time, and the answer is lost: its event channel
  has no reader.\<close>

theorem monitored_long_answer_fails:
  fixes env :: "('j, 'h, 'w) kernel_env"
  assumes "arrives 1 = []"
    and "chat (build_chat_request (monitored_context chat tools default_model spec None)
           (ks_messages (mr_kernel (monitored_runner_new spec w)))) w = (Inr ls, w1)"
    and "length (fst (stream_events (ke_json env) (ls_items ls))) > Suc STREAM_BUFFER"
    and "ls_elapsed ls = None"
  shows "case spawn_with_checkpoint env chat tools default_model spec None arrives w of
     (x, r) \<Rightarrow> ag_content (sr_response x) = ''Error: Step failed: Step exceeded wall-clock budget of 240s''
       \<and> mr_progress r = [ProgressThinking 1, ProgressError ''Step failed: Step exceeded wall-clock budget of 240s'']"
proof -
  let ?ctx = "monitored_context chat tools default_model spec None" and ?r = "monitored_runner_new spec w :: ('j, 'w) monitored_runner"
  have c: "rc_checkpoint ?ctx = None" "rc_chat_stream ?ctx = chat" "step_budget_secs (rc_config ?ctx) = 240"
    by (simp_all add: monitored_context_def runtime_context_new_def worker_config_def kernel_config_new_def
        step_budget_secs_def saturating_mul_def)
  have k: "es_open (ks_sink (mr_kernel ?r)) = Some 0" "ks_world (mr_kernel ?r) = w"
      "mr_progress ?r = []" "mr_max_turns ?r = 10"
    by (simp_all add: monitored_runner_new_def Let_def)
  have "fst (kernel_step env ?ctx (mr_kernel ?r)) = Inl (StepTimeout (step_budget_secs (rc_config ?ctx)))"
    by (rule step_closed_sink [OF k(1) c(1), of ls w1]) (use assms c k in simp_all)
  then obtain st where s: "kernel_step env ?ctx (mr_kernel ?r) = (Inl (StepTimeout 240), st)"
    unfolding c(3) by (metis prod.collapse)
  have d: "drain_interventions (arrives 1) ?r = (False, ?r)" using assms(1) by simp
  have "[1..<Suc (unat (10 :: u32))] = 1 # [2..<11]" by (simp add: upt_rec)
  then have "monitored_run env ?ctx arrives ?r
      = (Inl (''Step failed: '' @ kernel_error_to_str (StepTimeout 240)), report [ProgressThinking 1] (?r \<lparr> mr_kernel := st \<rparr>))"
    unfolding monitored_run_def k(4) using run_turns_failed [where arrives = arrives and t = 1, OF d s] by simp
  moreover have "''Step failed: '' @ kernel_error_to_str (StepTimeout 240)
      = ''Step failed: Step exceeded wall-clock budget of 240s''" by code_simp
  ultimately show ?thesis
    using k(3) by (simp add: spawn_with_checkpoint_def report_def final_result_with_error_def)
qed

definition demo_task :: task_spec where
  "demo_task = task_spec_new ''a'' ''look''"

theorem monitored_long_answer_fails_witness:
  "case spawn_with_checkpoint demo_env (\<lambda>r w. (Inr demo_long, w)) demo_registry ''m'' demo_task None (\<lambda>t. []) 0 of
     (x, r) \<Rightarrow> ag_content (sr_response x) = ''Error: Step failed: Step exceeded wall-clock budget of 240s''
       \<and> mr_progress r = [ProgressThinking 1, ProgressError ''Step failed: Step exceeded wall-clock budget of 240s'']"
  by (rule monitored_long_answer_fails [where ls = demo_long and ?w1.0 = 0])
    (simp_all add: demo_long_def stream_events_def produce_replicate STREAM_BUFFER_def)

end
