(* ===== verification/Spawn_Budget.thy ===== *)
theory Spawn_Budget
  imports Subagents
begin

text \<open>
  The budget for running workers (types/src/spawn_budget.rs) and how the spawner uses it
  (engine/src/subagents/manager.rs): both spawn paths take a permit before the worker starts
  and give it back when they believe the worker gone.  The semaphore is tokio's: a
  parameter with the operations the code uses, its documented behaviour the locale
  \<open>semaphore\<close>.  All interleavings of any number of spawns are runs of the step
  relation.  At the end, what the aggregator of parallel results does on cancellation.
\<close>

section \<open>The semaphore\<close>

text \<open>Polling an \<open>acquire\<close> of a waiter, dropping it before it was granted, giving a permit back.\<close>

record 's sem_ops =
  so_new :: "nat \<Rightarrow> 's"
  so_poll :: "nat \<Rightarrow> 's \<Rightarrow> bool \<times> 's"
  so_leave :: "nat \<Rightarrow> 's \<Rightarrow> 's"
  so_release :: "'s \<Rightarrow> 's"

definition MAX_PERMITS :: nat where "MAX_PERMITS = 2 ^ 61 - 1"

locale semaphore =
  fixes ops :: "'s sem_ops" and permits :: "'s \<Rightarrow> nat"
  assumes permits_new: "n \<le> MAX_PERMITS \<Longrightarrow> permits (so_new ops n) = n"
    and permits_granted: "so_poll ops i s = (True, s1) \<Longrightarrow> permits s = Suc (permits s1)"
    and permits_pending: "so_poll ops i s = (False, s1) \<Longrightarrow> permits s1 = permits s"
    and permits_leave: "permits (so_leave ops i s) = permits s"
    and permits_release: "permits (so_release ops s) = Suc (permits s)"

text \<open>The fair semaphore of the documentation: waiters are served in the order of their first poll.\<close>

definition fair_sem :: "(nat \<times> nat list) sem_ops" where
  "fair_sem = \<lparr> so_new = (\<lambda>n. (n, [])),
     so_poll = (\<lambda>i (n, q). let q1 = (if i \<in> set q then q else q @ [i]) in
        if length (takeWhile (\<lambda>x. x \<noteq> i) q1) < n then (True, (n - 1, remove1 i q1)) else (False, (n, q1))),
     so_leave = (\<lambda>i (n, q). (n, remove1 i q)),
     so_release = (\<lambda>(n, q). (Suc n, q)) \<rparr>"

interpretation fair: semaphore fair_sem fst
  by unfold_locales (auto simp: fair_sem_def Let_def split: if_splits)

section \<open>The budget\<close>

record 's spawn_budget =
  sb_semaphore :: 's
  sb_max_concurrency :: nat

definition spawn_budget_new :: "'s sem_ops \<Rightarrow> nat \<Rightarrow> 's spawn_budget" where
  "spawn_budget_new ops max_concurrency = (let n = max max_concurrency 1 in
     \<lparr> sb_semaphore = so_new ops n, sb_max_concurrency = n \<rparr>)"

definition budget_acquire :: "'s sem_ops \<Rightarrow> nat \<Rightarrow> 's spawn_budget \<Rightarrow> bool \<times> 's spawn_budget" where
  "budget_acquire ops i b = (case so_poll ops i (sb_semaphore b) of (ok, s) \<Rightarrow> (ok, b \<lparr> sb_semaphore := s \<rparr>))"

definition drop_permit :: "'s sem_ops \<Rightarrow> 's spawn_budget \<Rightarrow> 's spawn_budget" where
  "drop_permit ops b = b \<lparr> sb_semaphore := so_release ops (sb_semaphore b) \<rparr>"

definition drop_acquire :: "'s sem_ops \<Rightarrow> nat \<Rightarrow> 's spawn_budget \<Rightarrow> 's spawn_budget" where
  "drop_acquire ops i b = b \<lparr> sb_semaphore := so_leave ops i (sb_semaphore b) \<rparr>"

section \<open>Spawning\<close>

datatype permit_state = NoPermit | GaveUp | HoldsPermit | PermitReturned

datatype run_state = NotStarted | RunningNow | Ended

text \<open>One call of \<open>spawn\<close> or (\<open>jb_stream\<close>) \<open>spawn_with_stream\<close>: its permit, the worker's task, the
  kernel's task, which \<open>execute_with_streaming\<close> starts as a task of its own, whether the
  worker's token is cancelled, whether the tracker's wait of 720 seconds is over.\<close>

record spawn_job =
  jb_stream :: bool
  jb_permit :: permit_state
  jb_worker :: run_state
  jb_kernel :: run_state
  jb_cancelled :: bool
  jb_wait_over :: bool

definition spawn_job_new :: "bool \<Rightarrow> spawn_job" where
  "spawn_job_new streamed = \<lparr> jb_stream = streamed, jb_permit = NoPermit, jb_worker = NotStarted,
     jb_kernel = NotStarted, jb_cancelled = False, jb_wait_over = False \<rparr>"

record 's spawner =
  sp_budget :: "'s spawn_budget"
  sp_jobs :: "spawn_job list"

definition spawner_new :: "'s sem_ops \<Rightarrow> nat \<Rightarrow> 's spawner" where
  "spawner_new ops n = \<lparr> sp_budget = spawn_budget_new ops n, sp_jobs = [] \<rparr>"

definition set_job :: "nat \<Rightarrow> spawn_job \<Rightarrow> 's spawner \<Rightarrow> 's spawner" where
  "set_job i j s = s \<lparr> sp_jobs := (sp_jobs s) [i := j] \<rparr>"

text \<open>The ends of a worker's task.  It does not wait for the kernel's task, nor stop it, when it
  is out of time or cancelled.\<close>

datatype worker_exit = PromptFailed | KernelReturned | OutOfTime | TokenCancelled

fun exit_possible :: "worker_exit \<Rightarrow> spawn_job \<Rightarrow> bool" where
  "exit_possible PromptFailed j = (jb_kernel j = NotStarted)"
| "exit_possible KernelReturned j = (jb_kernel j = Ended)"
| "exit_possible OutOfTime j = (jb_kernel j \<noteq> NotStarted)"
| "exit_possible TokenCancelled j = jb_cancelled j"

text \<open>The guard task of \<open>spawn\<close> waits for the worker's task; the background task of
  \<open>spawn_with_stream\<close> for the tracker, which returns with a result or out of time.\<close>

definition permit_done :: "spawn_job \<Rightarrow> bool" where
  "permit_done j = (jb_worker j = Ended \<or> (jb_stream j \<and> jb_wait_over j))"

inductive spawner_step :: "'s sem_ops \<Rightarrow> 's spawner \<Rightarrow> 's spawner \<Rightarrow> bool" for ops where
  Asked: "spawner_step ops s (s \<lparr> sp_jobs := sp_jobs s @ [spawn_job_new streamed] \<rparr>)"
| Pending: "i < length (sp_jobs s) \<Longrightarrow> jb_permit (sp_jobs s ! i) = NoPermit \<Longrightarrow>
    budget_acquire ops i (sp_budget s) = (False, b) \<Longrightarrow> spawner_step ops s (s \<lparr> sp_budget := b \<rparr>)"
| Granted: "i < length (sp_jobs s) \<Longrightarrow> jb_permit (sp_jobs s ! i) = NoPermit \<Longrightarrow>
    budget_acquire ops i (sp_budget s) = (True, b) \<Longrightarrow>
    spawner_step ops s (set_job i ((sp_jobs s ! i) \<lparr> jb_permit := HoldsPermit, jb_worker := RunningNow \<rparr>)
      (s \<lparr> sp_budget := b \<rparr>))"
| CallerGone: "i < length (sp_jobs s) \<Longrightarrow> jb_permit (sp_jobs s ! i) = NoPermit \<Longrightarrow> \<not> jb_stream (sp_jobs s ! i) \<Longrightarrow>
    spawner_step ops s (set_job i ((sp_jobs s ! i) \<lparr> jb_permit := GaveUp \<rparr>)
      (s \<lparr> sp_budget := drop_acquire ops i (sp_budget s) \<rparr>))"
| KernelStarted: "i < length (sp_jobs s) \<Longrightarrow> jb_worker (sp_jobs s ! i) = RunningNow \<Longrightarrow>
    jb_kernel (sp_jobs s ! i) = NotStarted \<Longrightarrow>
    spawner_step ops s (set_job i ((sp_jobs s ! i) \<lparr> jb_kernel := RunningNow \<rparr>) s)"
| KernelEnded: "i < length (sp_jobs s) \<Longrightarrow> jb_kernel (sp_jobs s ! i) = RunningNow \<Longrightarrow>
    spawner_step ops s (set_job i ((sp_jobs s ! i) \<lparr> jb_kernel := Ended \<rparr>) s)"
| Cancelled: "i < length (sp_jobs s) \<Longrightarrow>
    spawner_step ops s (set_job i ((sp_jobs s ! i) \<lparr> jb_cancelled := True \<rparr>) s)"
| WaitOver: "i < length (sp_jobs s) \<Longrightarrow> jb_permit (sp_jobs s ! i) = HoldsPermit \<Longrightarrow>
    spawner_step ops s (set_job i ((sp_jobs s ! i) \<lparr> jb_wait_over := True \<rparr>) s)"
| WorkerEnded: "i < length (sp_jobs s) \<Longrightarrow> jb_worker (sp_jobs s ! i) = RunningNow \<Longrightarrow>
    exit_possible how (sp_jobs s ! i) \<Longrightarrow>
    spawner_step ops s (set_job i ((sp_jobs s ! i) \<lparr> jb_worker := Ended \<rparr>) s)"
| PermitDropped: "i < length (sp_jobs s) \<Longrightarrow> jb_permit (sp_jobs s ! i) = HoldsPermit \<Longrightarrow>
    permit_done (sp_jobs s ! i) \<Longrightarrow>
    spawner_step ops s (set_job i ((sp_jobs s ! i) \<lparr> jb_permit := PermitReturned \<rparr>)
      (s \<lparr> sp_budget := drop_permit ops (sp_budget s) \<rparr>))"

section \<open>The bound\<close>

definition how_many :: "(spawn_job \<Rightarrow> bool) \<Rightarrow> 's spawner \<Rightarrow> nat" where
  "how_many P s = length (filter P (sp_jobs s))"

definition holds :: "spawn_job \<Rightarrow> bool" where
  "holds j = (jb_permit j = HoldsPermit)"

text \<open>A worker in flight: it runs, and the wait for it is not over.\<close>

definition in_flight :: "spawn_job \<Rightarrow> bool" where
  "in_flight j = (jb_worker j = RunningNow \<and> \<not> jb_wait_over j)"

lemma filter_update:
  "i < length xs \<Longrightarrow> length (filter P (xs[i := y])) + (if P (xs ! i) then 1 else 0)
     = length (filter P xs) + (if P y then 1 else 0)"
proof (induction xs arbitrary: i)
  case (Cons x xs)
  then show ?case by (cases i) auto
qed simp

lemma how_many_set:
  "i < length (sp_jobs s) \<Longrightarrow> how_many P (set_job i j s) + (if P (sp_jobs s ! i) then 1 else 0)
     = how_many P s + (if P j then 1 else 0)"
  unfolding how_many_def set_job_def by (simp add: filter_update)

lemma how_many_same:
  "i < length (sp_jobs s) \<Longrightarrow> P j = P (sp_jobs s ! i) \<Longrightarrow> how_many P (set_job i j s) = how_many P s"
  using how_many_set [of i s P j] by simp

lemma how_many_budget [simp]: "how_many P (s \<lparr> sp_budget := b \<rparr>) = how_many P s"
  by (simp add: how_many_def)

lemma set_job_budget [simp]: "sp_budget (set_job i j s) = sp_budget s"
  by (simp add: set_job_def)

definition job_ok :: "spawn_job \<Rightarrow> bool" where
  "job_ok j = ((jb_permit j \<in> {NoPermit, GaveUp} \<longrightarrow> jb_worker j = NotStarted)
     \<and> (jb_permit j = PermitReturned \<longrightarrow> permit_done j))"

definition budget_inv :: "('s \<Rightarrow> nat) \<Rightarrow> nat \<Rightarrow> 's spawner \<Rightarrow> bool" where
  "budget_inv permits n s = (permits (sb_semaphore (sp_budget s)) + how_many holds s = n \<and> list_all job_ok (sp_jobs s))"

lemma budget_inv_set:
  assumes "budget_inv permits n s" "i < length (sp_jobs s)" "job_ok j"
    and "permits (sb_semaphore b) + (if holds j then 1 else 0)
           = permits (sb_semaphore (sp_budget s)) + (if holds (sp_jobs s ! i) then 1 else 0)"
  shows "budget_inv permits n (set_job i j (s \<lparr> sp_budget := b \<rparr>))"
proof -
  have "how_many holds (set_job i j (s \<lparr> sp_budget := b \<rparr>)) + (if holds (sp_jobs s ! i) then 1 else 0)
      = how_many holds s + (if holds j then 1 else 0)"
    using how_many_set [of i "s \<lparr> sp_budget := b \<rparr>" holds j] assms(2) by simp
  moreover have "list_all job_ok ((sp_jobs s)[i := j])"
    using assms(1,3) by (auto simp: budget_inv_def list_all_iff dest: set_update_subset_insert [THEN subsetD])
  ultimately show ?thesis
    using assms(1,4) by (simp add: budget_inv_def set_job_def split: if_splits)
qed

lemma budget_inv_keep:
  assumes "budget_inv permits n s" "i < length (sp_jobs s)" "job_ok j" "holds j = holds (sp_jobs s ! i)"
  shows "budget_inv permits n (set_job i j s)"
  using budget_inv_set [OF assms(1-3), of "sp_budget s"] assms(4) by simp

lemma budget_inv_job: "budget_inv permits n s \<Longrightarrow> i < length (sp_jobs s) \<Longrightarrow> job_ok (sp_jobs s ! i)"
  by (simp add: budget_inv_def list_all_length)

context semaphore
begin

lemma step_budget_inv:
  assumes "spawner_step ops s q" "budget_inv permits n s"
  shows "budget_inv permits n q"
  using assms
proof (cases rule: spawner_step.cases)
  case (Asked streamed)
  then show ?thesis using assms(2)
    by (simp add: budget_inv_def how_many_def job_ok_def holds_def spawn_job_new_def)
next
  case (Pending i b)
  then have "permits (sb_semaphore b) = permits (sb_semaphore (sp_budget s))"
    by (auto simp: budget_acquire_def split: prod.splits dest: permits_pending)
  then show ?thesis using Pending assms(2) by (simp add: budget_inv_def)
next
  case (Granted i b)
  have "Suc (permits (sb_semaphore b)) = permits (sb_semaphore (sp_budget s))"
    using Granted by (auto simp: budget_acquire_def split: prod.splits dest: permits_granted)
  then show ?thesis unfolding Granted(1)
    by (intro budget_inv_set [OF assms(2)]) (use Granted in \<open>simp_all add: job_ok_def holds_def\<close>)
next
  case (CallerGone i)
  then show ?thesis unfolding CallerGone(1) using budget_inv_job [OF assms(2) CallerGone(2)]
    by (intro budget_inv_set [OF assms(2)]) (simp_all add: job_ok_def holds_def drop_acquire_def permits_leave)
next
  case (PermitDropped i)
  then show ?thesis unfolding PermitDropped(1)
    by (intro budget_inv_set [OF assms(2)])
      (simp_all add: job_ok_def holds_def drop_permit_def permits_release permit_done_def)
next
  case (KernelStarted i)
  then show ?thesis using budget_inv_job [OF assms(2) KernelStarted(2)]
    by (simp, intro budget_inv_keep [OF assms(2)]) (simp_all add: job_ok_def holds_def permit_done_def)
next
  case (KernelEnded i)
  then show ?thesis using budget_inv_job [OF assms(2) KernelEnded(2)]
    by (simp, intro budget_inv_keep [OF assms(2)]) (simp_all add: job_ok_def holds_def permit_done_def)
next
  case (Cancelled i)
  then show ?thesis using budget_inv_job [OF assms(2) Cancelled(2)]
    by (simp, intro budget_inv_keep [OF assms(2)]) (simp_all add: job_ok_def holds_def permit_done_def)
next
  case (WaitOver i)
  then show ?thesis using budget_inv_job [OF assms(2) WaitOver(2)]
    by (simp, intro budget_inv_keep [OF assms(2)]) (simp_all add: job_ok_def holds_def permit_done_def)
next
  case (WorkerEnded i how)
  then show ?thesis using budget_inv_job [OF assms(2) WorkerEnded(2)]
    by (simp, intro budget_inv_keep [OF assms(2)]) (auto simp: job_ok_def holds_def permit_done_def)
qed

lemma reachable_budget_inv:
  assumes "(spawner_step ops)\<^sup>*\<^sup>* (spawner_new ops n) s" "max n 1 \<le> MAX_PERMITS"
  shows "budget_inv permits (max n 1) s"
  using assms(1)
proof (induction rule: rtranclp_induct)
  case base
  then show ?case using permits_new [OF assms(2)]
    by (simp add: budget_inv_def spawner_new_def spawn_budget_new_def how_many_def Let_def)
qed (rule step_budget_inv)

end

lemma in_flight_holds: "job_ok j \<Longrightarrow> in_flight j \<Longrightarrow> holds j"
  by (cases "jb_permit j") (auto simp: job_ok_def in_flight_def holds_def permit_done_def)

lemma filter_length_mono: "(\<And>x. x \<in> set xs \<Longrightarrow> P x \<Longrightarrow> Q x) \<Longrightarrow> length (filter P xs) \<le> length (filter Q xs)"
  by (induction xs) (auto intro: le_SucI)

lemma in_flight_le:
  assumes "budget_inv permits n s"
  shows "how_many in_flight s \<le> how_many holds s"
  using assms unfolding how_many_def budget_inv_def
  by (intro filter_length_mono) (auto simp: list_all_iff intro: in_flight_holds)

text \<open>C29: the budget bounds the workers.  In every run of the spawner, over all interleavings of
  any number of spawns, cancellations, timeouts and callers that go away, no permit is
  created or lost, and the workers that run while somebody still waits for them are at
  most the configured number, or one if that is zero.\<close>

theorem spawn_budget_bounds:
  assumes "semaphore ops permits" "max n 1 \<le> MAX_PERMITS"
    and "(spawner_step ops)\<^sup>*\<^sup>* (spawner_new ops n) s"
  shows "permits (sb_semaphore (sp_budget s)) + how_many holds s = max n 1 \<and> how_many in_flight s \<le> max n 1"
proof -
  have inv: "budget_inv permits (max n 1) s"
    by (rule semaphore.reachable_budget_inv [OF assms(1,3,2)])
  then show ?thesis using in_flight_le [OF inv] by (simp add: budget_inv_def)
qed

text \<open>The state after workers were cancelled while their kernels ran.\<close>

definition orphan :: spawn_job where
  "orphan = \<lparr> jb_stream = True, jb_permit = PermitReturned, jb_worker = Ended, jb_kernel = RunningNow,
     jb_cancelled = True, jb_wait_over = False \<rparr>"

definition orphans :: "nat \<Rightarrow> nat \<Rightarrow> (nat \<times> nat list) spawner" where
  "orphans n k = \<lparr> sp_budget = \<lparr> sb_semaphore = (max n 1, []), sb_max_concurrency = max n 1 \<rparr>,
     sp_jobs = replicate k orphan \<rparr>"

abbreviation with_last where
  "with_last n k free j \<equiv> \<lparr> sp_budget = \<lparr> sb_semaphore = (free, []), sb_max_concurrency = max n 1 \<rparr>,
     sp_jobs = replicate k orphan @ [j] \<rparr>"

lemma nth_last_job [simp]: "(replicate k x @ [j]) ! k = j" "(replicate k x @ [j]) [k := y] = replicate k x @ [y]"
  by (simp_all add: nth_append list_update_append)

lemma fair_sem_free:
  "0 < m \<Longrightarrow> so_poll fair_sem i (m, []) = (True, (m - 1, []))" "so_release fair_sem (m, q) = (Suc m, q)"
  by (simp_all add: fair_sem_def Let_def)

lemma more_orphans: "(spawner_step fair_sem)\<^sup>*\<^sup>* (orphans n k) (orphans n (Suc k))"
proof -
  let ?m = "max n 1"
  let ?j1 = "spawn_job_new True"
  let ?j2 = "?j1 \<lparr> jb_permit := HoldsPermit, jb_worker := RunningNow \<rparr>"
  let ?j3 = "?j2 \<lparr> jb_kernel := RunningNow \<rparr>"
  let ?j4 = "?j3 \<lparr> jb_cancelled := True \<rparr>"
  let ?j5 = "?j4 \<lparr> jb_worker := Ended \<rparr>"
  have s1: "spawner_step fair_sem (orphans n k) (with_last n k ?m ?j1)"
    using spawner_step.Asked [of fair_sem "orphans n k" True] by (simp add: orphans_def)
  have s2: "spawner_step fair_sem (with_last n k ?m ?j1) (with_last n k (?m - 1) ?j2)"
    using spawner_step.Granted [of k "with_last n k ?m ?j1" fair_sem
        "\<lparr> sb_semaphore = (?m - 1, []), sb_max_concurrency = ?m \<rparr>"]
    by (simp add: set_job_def budget_acquire_def fair_sem_free spawn_job_new_def)
  have s3: "spawner_step fair_sem (with_last n k (?m - 1) ?j2) (with_last n k (?m - 1) ?j3)"
    using spawner_step.KernelStarted [of k "with_last n k (?m - 1) ?j2" fair_sem]
    by (simp add: set_job_def spawn_job_new_def)
  have s4: "spawner_step fair_sem (with_last n k (?m - 1) ?j3) (with_last n k (?m - 1) ?j4)"
    using spawner_step.Cancelled [of k "with_last n k (?m - 1) ?j3" fair_sem]
    by (simp add: set_job_def spawn_job_new_def)
  have s5: "spawner_step fair_sem (with_last n k (?m - 1) ?j4) (with_last n k (?m - 1) ?j5)"
    using spawner_step.WorkerEnded [of k "with_last n k (?m - 1) ?j4" TokenCancelled fair_sem]
    by (simp add: set_job_def spawn_job_new_def)
  have s6: "spawner_step fair_sem (with_last n k (?m - 1) ?j5) (with_last n k ?m orphan)"
    using spawner_step.PermitDropped [of k "with_last n k (?m - 1) ?j5" fair_sem]
    by (simp add: set_job_def drop_permit_def permit_done_def fair_sem_free spawn_job_new_def orphan_def)
  have "with_last n k ?m orphan = orphans n (Suc k)" by (simp add: orphans_def replicate_append_same)
  note s6 [unfolded this]
  note s5 = converse_rtranclp_into_rtranclp [of "spawner_step fair_sem", OF s5 r_into_rtranclp [of "spawner_step fair_sem", OF this]]
  note s4 = converse_rtranclp_into_rtranclp [of "spawner_step fair_sem", OF s4 s5]
  note s3 = converse_rtranclp_into_rtranclp [of "spawner_step fair_sem", OF s3 s4]
  note s2 = converse_rtranclp_into_rtranclp [of "spawner_step fair_sem", OF s2 s3]
  show ?thesis by (rule converse_rtranclp_into_rtranclp [of "spawner_step fair_sem", OF s1 s2])
qed

text \<open>C30: the budget does not bound the kernels.  Under any budget and for every number there is a run
  after which that many subagent kernels work at the same time though every
  worker has ended, every permit is back and every token is cancelled: the kernel is a
  task of its own that neither cancellation nor the timeout stops.\<close>

theorem cancelled_kernels_unbounded:
  "\<exists>s. (spawner_step fair_sem)\<^sup>*\<^sup>* (spawner_new fair_sem n) s
     \<and> how_many (\<lambda>j. jb_kernel j = RunningNow \<and> jb_cancelled j \<and> jb_worker j = Ended) s = k
     \<and> how_many holds s = 0 \<and> how_many in_flight s = 0"
proof (intro exI conjI)
  have "orphans n 0 = spawner_new fair_sem n"
    by (simp add: orphans_def spawner_new_def spawn_budget_new_def fair_sem_def Let_def)
  then show "(spawner_step fair_sem)\<^sup>*\<^sup>* (spawner_new fair_sem n) (orphans n k)"
    using more_orphans by (induction k) (metis rtranclp.rtrancl_refl, metis rtranclp_trans)
qed (simp_all add: how_many_def orphans_def orphan_def holds_def in_flight_def)

theorem spawn_budget_bounds_witness:
  "how_many in_flight (orphans 2 3) \<le> 2"
proof -
  have "orphans 2 0 = spawner_new fair_sem 2"
    by (simp add: orphans_def spawner_new_def spawn_budget_new_def fair_sem_def Let_def)
  then have "(spawner_step fair_sem)\<^sup>*\<^sup>* (spawner_new fair_sem 2) (orphans 2 3)"
    using more_orphans [of 2 0] more_orphans [of 2 1] more_orphans [of 2 2] by (simp add: numeral_3_eq_3 numeral_2_eq_2)
  then show ?thesis
    using spawn_budget_bounds [OF fair.semaphore_axioms, of 2 "orphans 2 3"] by (simp add: MAX_PERMITS_def)
qed

section \<open>Cancelling the aggregator\<close>

fun collected_event :: "u64 \<Rightarrow> string list \<Rightarrow> u32 list \<Rightarrow> nat \<Rightarrow> rx_outcome \<Rightarrow> chat_event" where
  "collected_event limit ids ixs i (RxResult r) = SubagentCompleted (id_at ids i) (index_at ixs i)
     (result_summary limit (ag_content (sr_response r))) (of_nat (length (ag_tools_used (sr_response r))))"
| "collected_event limit ids ixs i RxClosed = SubagentError (id_at ids i) (index_at ixs i) ''Result channel closed''"
| "collected_event limit ids ixs i RxTimedOut = SubagentError (id_at ids i) (index_at ixs i) ''Subagent timed out''"

lemma collect_results_events:
  "fst (collect_results limit ids ixs k os) = map (\<lambda>j. collected_event limit ids ixs (k + j) (os ! j)) [0..<length os]"
proof (induction os arbitrary: k)
  case (Cons x xs)
  then have "fst (collect_results limit ids ixs k (x # xs))
      = collected_event limit ids ixs k x # map (\<lambda>j. collected_event limit ids ixs (Suc k + j) (xs ! j)) [0..<length xs]"
    by (cases x) (auto split: prod.splits simp: prod_eq_iff)
  then show ?case by (simp add: upt_conv_Cons map_Suc_upt [symmetric] del: upt_Suc)
qed simp

lemma map_upt_split:
  "i < n \<Longrightarrow> map f [0..<n] = map f [0..<i] @ f i # map f [Suc i..<n]"
  by (metis (no_types, lifting) le0 list.simps(9) map_append nat_less_le upt_conv_Cons upt_add_eq_append le_add_diff_inverse add_0 less_imp_le)

text \<open>Cancelling the gathering of parallel results takes back completions.  When the aggregator is
  cancelled after the result of a subagent arrived, the client is told that this subagent
  completed, with its summary, and afterwards that it failed with Cancelled.\<close>

theorem cancel_overrides_completed:
  assumes "i < length os" "length os \<le> length ids" "os ! i = RxResult r"
  shows "\<exists>before between after. fst (run_aggregator limit ids ixs (CancelledAfter os)) =
     before @ SubagentCompleted (ids ! i) (index_at ixs i) (result_summary limit (ag_content (sr_response r)))
       (of_nat (length (ag_tools_used (sr_response r))))
     # between @ SubagentError (ids ! i) (index_at ixs i) ''Cancelled'' # after"
proof -
  let ?f = "\<lambda>j. collected_event limit ids ixs j (os ! j)"
  let ?g = "\<lambda>j. SubagentError (ids ! j) (index_at ixs j) ''Cancelled''"
  have "fst (run_aggregator limit ids ixs (CancelledAfter os))
      = map ?f [0..<length os] @ map ?g [0..<length ids]"
    by (simp add: collect_results_events cancelled_events_def)
  also have "\<dots> = map ?f [0..<i] @ ?f i # (map ?f [Suc i..<length os] @ map ?g [0..<i]) @ ?g i # map ?g [Suc i..<length ids]"
    using map_upt_split [of i "length os" ?f] map_upt_split [of i "length ids" ?g] assms(1,2) by simp
  finally have all: "fst (run_aggregator limit ids ixs (CancelledAfter os)) = \<dots>" .
  have "?f i = SubagentCompleted (ids ! i) (index_at ixs i) (result_summary limit (ag_content (sr_response r)))
       (of_nat (length (ag_tools_used (sr_response r))))"
    using assms by (simp add: id_at_def)
  then show ?thesis
    unfolding all by (intro exI [of _ "map ?f [0..<i]"] exI [of _ "map ?f [Suc i..<length os] @ map ?g [0..<i]"]
        exI [of _ "map ?g [Suc i..<length ids]"]) (simp only: append_assoc append_Cons)
qed

definition demo_result :: sub_result where
  "demo_result = \<lparr> sr_id = ''a'', sr_task = ''look'', sr_response = error_response None ''x'', sr_model = None \<rparr>"

theorem cancel_overrides_completed_witness:
  "\<exists>before between after. fst (run_aggregator 0 [''a'', ''b''] [1, 2] (CancelledAfter [RxResult demo_result])) =
     before @ SubagentCompleted ''a'' 1 ''Error: x'' 0 # between @ SubagentError ''a'' 1 ''Cancelled'' # after"
  using cancel_overrides_completed [of 0 "[RxResult demo_result]" "[''a'', ''b'']" demo_result 0 "[1, 2]"]
  by (simp add: demo_result_def error_response_def result_summary_def index_at_def)

end
