(* ===== verification/Unix_Files.thy ===== *)
theory Unix_Files
  imports Prelude
begin

text \<open>
  Files as the standard library shows them on Unix: \<open>std::path\<close> components, path resolution
  with symbolic links, and the calls the file tools make (\<open>canonicalize\<close>, \<open>exists\<close>,
  \<open>read_to_string\<close>, \<open>write\<close>, \<open>create_dir_all\<close>).  A file system maps locations, the names
  from the root down, to nodes; the root is always a directory.  Permissions are
  not modelled: a call fails only for want of a file or for a wrong kind of node.  Calls of
  one tool see the file system without changes by others in between.
\<close>

section \<open>Paths\<close>

datatype path_comp = RootDir | CurDir | ParentDir | Normal string

fun segments :: "string \<Rightarrow> string list" where
  "segments [] = [[]]"
| "segments (c # cs) = (if c = CHR ''/'' then [] # segments cs
     else case segments cs of s # ss \<Rightarrow> (c # s) # ss | [] \<Rightarrow> [[c]])"

definition seg_comp :: "string \<Rightarrow> path_comp" where
  "seg_comp s = (if s = [] \<or> s = ''.'' then CurDir else if s = ''..'' then ParentDir else Normal s)"

text \<open>The path as the kernel walks it: an empty segment or a dot asks for a directory.\<close>

definition os_components :: "string \<Rightarrow> path_comp list" where
  "os_components p = (if p = [] then [] else if hd p = CHR ''/'' then RootDir # map seg_comp (segments (tl p))
     else map seg_comp (segments p))"

text \<open>\<open>Path::components\<close>: no empty segments, no dots except a first one.\<close>

definition path_components :: "string \<Rightarrow> path_comp list" where
  "path_components p = (case os_components p of
      CurDir # cs \<Rightarrow> CurDir # filter (\<lambda>c. c \<noteq> CurDir) cs
    | cs \<Rightarrow> filter (\<lambda>c. c \<noteq> CurDir) cs)"

definition path_parent :: "path_comp list \<Rightarrow> path_comp list option" where
  "path_parent cs = (if cs = [] \<or> last cs = RootDir then None else Some (butlast cs))"

definition is_absolute :: "path_comp list \<Rightarrow> bool" where
  "is_absolute cs = (cs \<noteq> [] \<and> hd cs = RootDir)"

definition comp_str :: "path_comp \<Rightarrow> string" where
  "comp_str c = (case c of RootDir \<Rightarrow> [] | CurDir \<Rightarrow> ''.'' | ParentDir \<Rightarrow> ''..'' | Normal s \<Rightarrow> s)"

definition render_path :: "path_comp list \<Rightarrow> string" where
  "render_path cs = (if cs = [RootDir] then ''/'' else join ''/'' (map comp_str cs))"

section \<open>Locations and resolution\<close>

type_synonym location = "string list"

definition loc_path :: "location \<Rightarrow> path_comp list" where
  "loc_path q = RootDir # map Normal q"

datatype fs_node = FileNode string | DirNode | LinkNode string

type_synonym file_system = "location \<Rightarrow> fs_node option"

definition node_at :: "file_system \<Rightarrow> location \<Rightarrow> fs_node option" where
  "node_at fs q = (if q = [] then Some DirNode else fs q)"

definition MAX_LINKS :: nat where "MAX_LINKS = 40"

text \<open>Resolution from a directory, following at most \<open>n\<close> links.  With \<open>create\<close> the last name
  need not exist.\<close>

fun walk :: "bool \<Rightarrow> file_system \<Rightarrow> nat \<Rightarrow> location \<Rightarrow> path_comp list \<Rightarrow> location option" where
  "walk create fs n dir [] = Some dir"
| "walk create fs n dir (RootDir # cs) = walk create fs n [] cs"
| "walk create fs n dir (CurDir # cs) = walk create fs n dir cs"
| "walk create fs n dir (ParentDir # cs) = walk create fs n (butlast dir) cs"
| "walk create fs n dir (Normal s # cs) =
     (case fs (dir @ [s]) of
        None \<Rightarrow> if create \<and> cs = [] then Some (dir @ [s]) else None
      | Some DirNode \<Rightarrow> walk create fs n (dir @ [s]) cs
      | Some (FileNode x) \<Rightarrow> if cs = [] then Some (dir @ [s]) else None
      | Some (LinkNode t) \<Rightarrow> (case n of 0 \<Rightarrow> None | Suc m \<Rightarrow> walk create fs m dir (os_components t @ cs)))"

text \<open>What the tools need of their surroundings: the working directory, the home directory, the
  names in a directory in the order they are read, the text of an I/O error.\<close>

record fs_env =
  fe_cwd :: location
  fe_home :: "string option"
  fe_entries :: "file_system \<Rightarrow> location \<Rightarrow> string list"
  fe_error :: "string \<Rightarrow> string"

definition canonical_comps :: "fs_env \<Rightarrow> file_system \<Rightarrow> path_comp list \<Rightarrow> location option" where
  "canonical_comps env fs cs = (if cs = [] then None else walk False fs MAX_LINKS (fe_cwd env) cs)"

definition canonicalize :: "fs_env \<Rightarrow> file_system \<Rightarrow> string \<Rightarrow> location option" where
  "canonicalize env fs p = canonical_comps env fs (os_components p)"

definition read_to_string :: "fs_env \<Rightarrow> file_system \<Rightarrow> string \<Rightarrow> string option" where
  "read_to_string env fs p = (case canonicalize env fs p of
      Some q \<Rightarrow> (case node_at fs q of Some (FileNode c) \<Rightarrow> Some c | _ \<Rightarrow> None)
    | None \<Rightarrow> None)"

definition fs_write :: "fs_env \<Rightarrow> file_system \<Rightarrow> string \<Rightarrow> string \<Rightarrow> file_system option" where
  "fs_write env fs p content = (if p = [] then None
     else case walk True fs MAX_LINKS (fe_cwd env) (os_components p) of
        Some q \<Rightarrow> if node_at fs q = Some DirNode then None else Some (fs(q \<mapsto> FileNode content))
      | None \<Rightarrow> None)"

section \<open>Creating directories\<close>

datatype mkdir_result = Made file_system | AlreadyThere | NotMade

definition mkdir :: "fs_env \<Rightarrow> file_system \<Rightarrow> path_comp list \<Rightarrow> mkdir_result" where
  "mkdir env fs cs = (if cs = [] then NotMade else
     (case last cs of
        Normal s \<Rightarrow> (case walk False fs MAX_LINKS (fe_cwd env) (butlast cs) of
            Some d \<Rightarrow> if node_at fs d \<noteq> Some DirNode then NotMade
                      else if fs (d @ [s]) = None then Made (fs(d @ [s] \<mapsto> DirNode)) else AlreadyThere
          | None \<Rightarrow> NotMade)
      | _ \<Rightarrow> if canonical_comps env fs cs \<noteq> None then AlreadyThere else NotMade))"

definition is_dir :: "fs_env \<Rightarrow> file_system \<Rightarrow> path_comp list \<Rightarrow> bool" where
  "is_dir env fs cs = (case canonical_comps env fs cs of Some q \<Rightarrow> node_at fs q = Some DirNode | None \<Rightarrow> False)"

text \<open>\<open>create_dir_all\<close>: the directory is tried first, its parents only when they are missing; whether
  the directory is there at the end, and the file system.\<close>

function create_dir_all :: "fs_env \<Rightarrow> file_system \<Rightarrow> path_comp list \<Rightarrow> bool \<times> file_system" where
  "create_dir_all env fs cs =
     (if cs = [] then (True, fs)
      else case mkdir env fs cs of
        Made fs1 \<Rightarrow> (True, fs1)
      | AlreadyThere \<Rightarrow> (is_dir env fs cs, fs)
      | NotMade \<Rightarrow>
          (case path_parent cs of
             None \<Rightarrow> (False, fs)
           | Some par \<Rightarrow>
               (case create_dir_all env fs (butlast cs) of
                  (False, fs1) \<Rightarrow> (False, fs1)
                | (True, fs1) \<Rightarrow>
                    (case mkdir env fs1 cs of
                       Made fs2 \<Rightarrow> (True, fs2)
                     | _ \<Rightarrow> (is_dir env fs1 cs, fs1)))))"
  by pat_completeness auto
termination
  by (relation "measure (\<lambda>(env, fs, cs). length cs)") auto

declare create_dir_all.simps [simp del]

section \<open>Entries\<close>

text \<open>The entry a path names, its last link not followed; removing and renaming act on it.\<close>

definition entry_of :: "fs_env \<Rightarrow> file_system \<Rightarrow> string \<Rightarrow> location option" where
  "entry_of env fs p = (let cs = os_components p in
     if cs = [] then None else
     (case last cs of
        Normal s \<Rightarrow> (case walk False fs MAX_LINKS (fe_cwd env) (butlast cs) of
            Some d \<Rightarrow> if node_at fs d = Some DirNode then Some (d @ [s]) else None
          | None \<Rightarrow> None)
      | _ \<Rightarrow> None))"

definition remove_file :: "fs_env \<Rightarrow> file_system \<Rightarrow> string \<Rightarrow> file_system option" where
  "remove_file env fs p = (case entry_of env fs p of
      Some q \<Rightarrow> (case fs q of None \<Rightarrow> None | Some DirNode \<Rightarrow> None | Some x \<Rightarrow> Some (fs(q := None)))
    | None \<Rightarrow> None)"

definition rename_file :: "fs_env \<Rightarrow> file_system \<Rightarrow> string \<Rightarrow> string \<Rightarrow> file_system option" where
  "rename_file env fs p1 p2 = (case (entry_of env fs p1, entry_of env fs p2) of
      (Some a, Some b) \<Rightarrow> (case fs a of
          Some (FileNode x) \<Rightarrow> if fs b = Some DirNode then None else Some ((fs(a := None))(b \<mapsto> FileNode x))
        | _ \<Rightarrow> None)
    | _ \<Rightarrow> None)"

text \<open>\<open>Path::join\<close>, the stem and the extension of a file name.\<close>

definition path_join :: "string \<Rightarrow> string \<Rightarrow> string" where
  "path_join base p = (if p \<noteq> [] \<and> hd p = CHR ''/'' then p
     else if base = [] \<or> last base = CHR ''/'' then base @ p else base @ ''/'' @ p)"

definition stem_ext :: "string \<Rightarrow> string \<times> string option" where
  "stem_ext n = (let e = takeWhile (\<lambda>c. c \<noteq> CHR ''.'') (rev n) in
     if length n \<le> Suc (length e) then (n, None)
     else (rev (drop (Suc (length e)) (rev n)), Some (rev e)))"

definition with_extension :: "string \<Rightarrow> string \<Rightarrow> string" where
  "with_extension p e = (let n = after_last CHR ''/'' p in
     take (length p - length n) p @ fst (stem_ext n) @ ''.'' @ e)"

section \<open>Resolution: basic facts\<close>

lemma walk_create: "walk False fs n dir cs = Some q \<Longrightarrow> walk c fs n dir cs = Some q"
proof (induction "False" fs n dir cs rule: walk.induct)
  case (5 fs n dir s cs)
  then show ?case by (auto split: option.splits fs_node.splits nat.splits if_splits)
qed simp_all

text \<open>A file system without links, and one in which every node lies in a directory.\<close>

definition no_links :: "file_system \<Rightarrow> bool" where
  "no_links fs = (\<forall>q t. fs q \<noteq> Some (LinkNode t))"

definition tree_fs :: "file_system \<Rightarrow> bool" where
  "tree_fs fs = (\<forall>q s. fs (q @ [s]) \<noteq> None \<longrightarrow> node_at fs q = Some DirNode)"

lemma tree_fs_prefix:
  assumes "tree_fs fs"
  shows "node_at fs (q @ r) \<noteq> None \<Longrightarrow> r \<noteq> [] \<Longrightarrow> node_at fs q = Some DirNode"
proof (induction r rule: rev_induct)
  case (snoc s r)
  have "fs ((q @ r) @ [s]) \<noteq> None" using snoc.prems(1) by (simp add: node_at_def)
  then have d: "node_at fs (q @ r) = Some DirNode" using assms unfolding tree_fs_def by blast
  then show ?case using snoc.IH by (cases "r = []") simp_all
qed simp

lemma walk_exists:
  "walk False fs n dir cs = Some q \<Longrightarrow> tree_fs fs \<Longrightarrow> node_at fs dir = Some DirNode \<Longrightarrow> node_at fs q \<noteq> None"
proof (induction "False" fs n dir cs rule: walk.induct)
  case (2 fs n dir cs)
  then show ?case by (simp add: node_at_def)
next
  case (4 fs n dir cs)
  have "node_at fs (butlast dir) = Some DirNode"
    using tree_fs_prefix [OF 4(3), of "butlast dir" "[last dir]"] 4(4)
    by (cases "dir = []") (simp_all add: node_at_def)
  then show ?case using 4 by simp
next
  case (5 fs n dir s cs)
  then show ?case by (auto simp: node_at_def split: option.splits fs_node.splits nat.splits if_splits)
qed simp_all

text \<open>Dots say nothing where there are no links.\<close>

lemma walk_undot:
  "walk c fs n dir cs = Some q \<Longrightarrow> no_links fs \<Longrightarrow> walk c fs n dir (filter (\<lambda>x. x \<noteq> CurDir) cs) = Some q"
proof (induction c fs n dir cs rule: walk.induct)
  case (5 c fs n dir s cs)
  then show ?case
    by (auto simp: no_links_def split: option.splits fs_node.splits nat.splits if_splits)
qed simp_all

lemma walk_path_components:
  assumes "walk c fs n dir (os_components p) = Some q" "no_links fs"
  shows "walk c fs n dir (path_components p) = Some q"
proof -
  have "walk c fs n dir (filter (\<lambda>x. x \<noteq> CurDir) (os_components p)) = Some q"
    by (rule walk_undot [OF assms])
  moreover have "path_components p = filter (\<lambda>x. x \<noteq> CurDir) (os_components p)
      \<or> path_components p = CurDir # filter (\<lambda>x. x \<noteq> CurDir) (os_components p)"
    by (auto simp: path_components_def split: list.splits path_comp.splits)
  ultimately show ?thesis by auto
qed

lemma walk_snoc:
  "walk c fs n dir (cs @ [x]) = Some q \<Longrightarrow> no_links fs \<Longrightarrow>
     \<exists>d. walk False fs n dir cs = Some d \<and> walk c fs n d [x] = Some q"
proof (induction c fs n dir cs rule: walk.induct)
  case (5 c fs n dir s cs)
  then show ?case
    by (auto simp: no_links_def split: option.splits fs_node.splits nat.splits if_splits)
qed auto

lemma walk_names:
  "walk c fs n dir (map Normal ns) = Some q \<Longrightarrow> no_links fs \<Longrightarrow> q = dir @ ns"
proof (induction ns arbitrary: dir)
  case (Cons s ns)
  then show ?case
    by (fastforce simp: no_links_def split: option.splits fs_node.splits nat.splits if_splits)
qed simp

section \<open>Walking over directories\<close>

lemma walk_real:
  assumes "tree_fs fs" "node_at fs (dir @ ns) = Some DirNode"
  shows "walk c fs n dir (map Normal ns @ cs) = walk c fs n (dir @ ns) cs"
  using assms(2)
proof (induction ns arbitrary: dir)
  case (Cons s ns)
  have "node_at fs (dir @ [s]) = Some DirNode"
    using tree_fs_prefix [OF assms(1), of "dir @ [s]" ns] Cons.prems by (cases "ns = []") simp_all
  then have "fs (dir @ [s]) = Some DirNode" by (simp add: node_at_def)
  then show ?case using Cons.IH [of "dir @ [s]"] Cons.prems by simp
qed simp

lemma canonical_real:
  assumes "tree_fs fs" "node_at fs d = Some DirNode"
  shows "canonical_comps env fs (loc_path d) = Some d"
  using walk_real [OF assms(1), of "[]" d False MAX_LINKS "[]"] assms(2)
  by (simp add: canonical_comps_def loc_path_def)

text \<open>A path whose first part leads to a directory goes on from there.\<close>

lemma walk_append:
  "walk False fs n dir cs = Some q \<Longrightarrow> node_at fs q = Some DirNode \<Longrightarrow>
     \<exists>m. walk c fs n dir (cs @ ds) = walk c fs m q ds"
proof (induction "False" fs n dir cs rule: walk.induct)
  case (5 fs n dir s cs)
  show ?case
  proof (cases "fs (dir @ [s])")
    case None
    then show ?thesis using 5 by simp
  next
    case (Some x)
    show ?thesis
    proof (cases x)
      case (FileNode y)
      then show ?thesis using 5 Some by (auto simp: node_at_def split: if_splits)
    next
      case DirNode
      then show ?thesis using 5 Some by simp
    next
      case (LinkNode t)
      then obtain m where m: "n = Suc m" using 5(3) Some by (cases n) simp_all
      then have "walk False fs m dir (os_components t @ cs) = Some q" using 5(3) Some LinkNode by simp
      then show ?thesis using 5(2) [OF Some LinkNode m] 5(4) Some LinkNode m by simp
    qed
  qed
qed auto

lemma prefix_map_inj: "inj f \<Longrightarrow> prefix (map f xs) (map f ys) = prefix xs ys"
proof (induction xs arbitrary: ys)
  case (Cons x xs)
  then show ?case by (cases ys) (auto dest: injD)
qed simp

lemma prefix_loc_path [simp]: "prefix (loc_path a) (loc_path q) = prefix a q"
  by (simp add: loc_path_def prefix_map_inj inj_on_def)

lemma loc_path_eq [simp]: "loc_path a = loc_path b \<longleftrightarrow> a = b"
  by (simp add: loc_path_def inj_map_eq_map inj_on_def)

end
