(* ===== verification/Filesystem_Tools.thy ===== *)
theory Filesystem_Tools
  imports Unix_Files Tool_Registry
begin

text \<open>
  The file tools (engine/src/tools/filesystem.rs): the path validator that keeps them in
  the workspace and the configuration directory, and reading, writing, editing and listing.
  Arguments are those after serde, file systems and resolution those of Unix\_Files; as a path
  that exists can be resolved there, the errors for one that cannot are left out.
\<close>

section \<open>The validator\<close>

record path_validator =
  pv_allowed_dir :: "location option"
  pv_extra_dirs :: "path_comp list list"

definition default_extra_dirs :: "fs_env \<Rightarrow> path_comp list list" where
  "default_extra_dirs env = (case fe_home env of
      Some h \<Rightarrow> [path_components h @ [Normal ''.gasket'']] | None \<Rightarrow> [])"

definition path_validator_new :: "fs_env \<Rightarrow> file_system \<Rightarrow> string option \<Rightarrow> path_validator" where
  "path_validator_new env fs allowed = \<lparr>
     pv_allowed_dir = (case allowed of Some p \<Rightarrow> canonicalize env fs p | None \<Rightarrow> None),
     pv_extra_dirs = default_extra_dirs env \<rparr>"

definition extra_root :: "fs_env \<Rightarrow> file_system \<Rightarrow> path_comp list \<Rightarrow> path_comp list" where
  "extra_root env fs extra = (case canonical_comps env fs extra of
      Some q \<Rightarrow> loc_path q
    | None \<Rightarrow> (case path_parent extra of
        Some par \<Rightarrow> (case canonical_comps env fs par of
            Some pc \<Rightarrow> (case last extra of Normal s \<Rightarrow> loc_path pc @ [Normal s] | _ \<Rightarrow> extra)
          | None \<Rightarrow> extra)
      | None \<Rightarrow> extra))"

definition is_path_allowed :: "fs_env \<Rightarrow> file_system \<Rightarrow> path_validator \<Rightarrow> path_comp list \<Rightarrow> bool" where
  "is_path_allowed env fs pv canonical =
     ((case pv_allowed_dir pv of Some a \<Rightarrow> prefix (loc_path a) canonical | None \<Rightarrow> False)
      \<or> list_ex (\<lambda>e. prefix (extra_root env fs e) canonical) (pv_extra_dirs pv)
      \<or> pv_allowed_dir pv = None)"

definition restricted :: "path_validator \<Rightarrow> bool" where
  "restricted pv = (pv_allowed_dir pv \<noteq> None \<or> pv_extra_dirs pv \<noteq> [])"

definition outside_error :: "string \<Rightarrow> tool_error" where
  "outside_error p = ToolPermissionDenied (''Path outside workspace: '' @ p)"

definition validate :: "fs_env \<Rightarrow> file_system \<Rightarrow> path_validator \<Rightarrow> string \<Rightarrow> tool_error + string" where
  "validate env fs pv p =
     (if \<not> restricted pv then Inr p
      else case canonicalize env fs p of
        None \<Rightarrow> Inl (ToolNotFound (''Path not found: '' @ p))
      | Some q \<Rightarrow> if \<not> is_path_allowed env fs pv (loc_path q) then Inl (outside_error p) else Inr p)"

definition ROOT_WRITE :: string where
  "ROOT_WRITE = ''Writing directly to the workspace root is forbidden. Please write to a subdirectory like ''
     @ squoted ''tmp/'' @ '', '' @ squoted ''outputs/'' @ '', or '' @ squoted ''src/'' @ ''.''"

text \<open>The directory the check of a write is made for: the parent, resolved if it exists.\<close>

definition write_parent ::
  "fs_env \<Rightarrow> file_system \<Rightarrow> path_validator \<Rightarrow> string \<Rightarrow> tool_error + path_comp list" where
  "write_parent env fs pv p =
     (let cs = path_components p;
          parent = (case path_parent cs of Some q \<Rightarrow> q | None \<Rightarrow> cs) in
      case canonical_comps env fs parent of
        Some q \<Rightarrow> Inr (loc_path q)
      | None \<Rightarrow>
          (case pv_allowed_dir pv of
             None \<Rightarrow> Inl (ToolNotFound (''Parent directory not found: '' @ render_path parent))
           | Some a \<Rightarrow>
               if ParentDir \<in> set cs then Inl (ToolPermissionDenied (''Path traversal not allowed: '' @ p))
               else let resolved = (if is_absolute cs then cs else loc_path a @ filter (\<lambda>c. c \<noteq> CurDir) cs)
                    in Inr (case path_parent resolved of Some q \<Rightarrow> q | None \<Rightarrow> loc_path a)))"

definition validate_for_write :: "fs_env \<Rightarrow> file_system \<Rightarrow> path_validator \<Rightarrow> string \<Rightarrow> tool_error + string" where
  "validate_for_write env fs pv p =
     (if \<not> restricted pv then Inr p
      else bind_res (write_parent env fs pv p) (\<lambda>par.
        if \<not> is_path_allowed env fs pv par then Inl (outside_error p)
        else case pv_allowed_dir pv of
          Some a \<Rightarrow>
            if par = (case canonical_comps env fs (loc_path a) of Some b \<Rightarrow> loc_path b | None \<Rightarrow> loc_path a)
            then Inl (ToolPermissionDenied ROOT_WRITE) else Inr p
        | None \<Rightarrow> Inr p))"

section \<open>Reading\<close>

text \<open>\<open>str::lines\<close>: a final line break ends the last line, a carriage return before a line break is
  dropped.\<close>

fun raw_lines :: "string \<Rightarrow> string list" where
  "raw_lines [] = []"
| "raw_lines (c # cs) = (if c = NL then [] # raw_lines cs
     else case raw_lines cs of [] \<Rightarrow> [[c]] | l # ls \<Rightarrow> (c # l) # ls)"

definition strip_cr :: "string \<Rightarrow> string" where
  "strip_cr l = (if l \<noteq> [] \<and> last l = CHR 0x0D then butlast l else l)"

definition str_lines :: "string \<Rightarrow> string list" where
  "str_lines s = (let ls = raw_lines s in
     if s \<noteq> [] \<and> last s = NL then map strip_cr ls
     else map strip_cr (butlast ls) @ (if ls = [] then [] else [last ls]))"

definition select_lines :: "string \<Rightarrow> nat option \<Rightarrow> nat option \<Rightarrow> string" where
  "select_lines content offset limit =
     (if offset \<noteq> None \<or> limit \<noteq> None then
        let ls = str_lines content;
            from' = (case offset of Some n \<Rightarrow> n | None \<Rightarrow> 0);
            n = (case limit of Some n \<Rightarrow> n | None \<Rightarrow> length ls)
        in join [NL] (take n (drop from' ls))
      else content)"

definition read_file_execute ::
  "fs_env \<Rightarrow> file_system \<Rightarrow> path_validator \<Rightarrow> string + string \<times> nat option \<times> nat option \<Rightarrow> tool_error + string" where
  "read_file_execute env fs pv args = (case args of
      Inl e \<Rightarrow> Inl (InvalidArguments e)
    | Inr (p, offset, limit) \<Rightarrow>
        bind_res (validate env fs pv p) (\<lambda>path.
          case read_to_string env fs path of
            None \<Rightarrow> Inl (ExecutionError (''Failed to read file '' @ squoted path @ '': '' @ fe_error env path))
          | Some content \<Rightarrow> Inr (select_lines content offset limit)))"

section \<open>Writing\<close>

definition write_file_execute ::
  "fs_env \<Rightarrow> file_system \<Rightarrow> path_validator \<Rightarrow> string + string \<times> string \<Rightarrow> (tool_error + string) \<times> file_system" where
  "write_file_execute env fs pv args = (case args of
      Inl e \<Rightarrow> (Inl (InvalidArguments e), fs)
    | Inr (p, content) \<Rightarrow>
        (case validate_for_write env fs pv p of
           Inl e \<Rightarrow> (Inl e, fs)
         | Inr path \<Rightarrow>
             (case (case path_parent (path_components path) of
                      Some par \<Rightarrow> create_dir_all env fs par | None \<Rightarrow> (True, fs)) of
                (False, fs1) \<Rightarrow> (Inl (ExecutionError (''Failed to create directories for ''
                   @ squoted (render_path (butlast (path_components path))) @ '': '' @ fe_error env path)), fs1)
              | (True, fs1) \<Rightarrow>
                  (case fs_write env fs1 path content of
                     None \<Rightarrow> (Inl (ExecutionError (''Failed to write file '' @ squoted path @ '': '' @ fe_error env path)), fs1)
                   | Some fs2 \<Rightarrow> (Inr (''Successfully wrote '' @ show_nat (length content) @ '' bytes to '' @ p), fs2)))))"

text \<open>\<open>str::matches(p).count()\<close>: non-overlapping occurrences from the left.\<close>

function count_matches :: "string \<Rightarrow> string \<Rightarrow> nat" where
  "count_matches s p =
     (if p = [] then Suc (char_count s)
      else case s of [] \<Rightarrow> 0
        | c # cs \<Rightarrow> if prefix p s then Suc (count_matches (drop (length p) s) p) else count_matches cs p)"
  by pat_completeness auto
termination
  by (relation "measure (\<lambda>(s, p). length s)") auto

declare count_matches.simps [simp del]

definition edit_file_execute ::
  "fs_env \<Rightarrow> file_system \<Rightarrow> path_validator \<Rightarrow> string + string \<times> string \<times> string
    \<Rightarrow> (tool_error + string) \<times> file_system" where
  "edit_file_execute env fs pv args = (case args of
      Inl e \<Rightarrow> (Inl (InvalidArguments e), fs)
    | Inr (p, old_string, new_string) \<Rightarrow>
        (case validate env fs pv p of
           Inl e \<Rightarrow> (Inl e, fs)
         | Inr path \<Rightarrow>
             (case read_to_string env fs path of
                None \<Rightarrow> (Inl (ExecutionError (''Failed to read file '' @ squoted path @ '' for editing: '' @ fe_error env path)), fs)
              | Some content \<Rightarrow>
                  (let count = count_matches content old_string in
                   if count = 0 then (Inl (ExecutionError ''old_string not found in file''), fs)
                   else if count > 1
                     then (Inl (ExecutionError (''old_string appears '' @ show_nat count @ '' times - must be unique'')), fs)
                   else case fs_write env fs path (str_replace content old_string new_string) of
                       None \<Rightarrow> (Inl (ExecutionError (''Failed to write edited file '' @ squoted path @ '': ''
                          @ fe_error env path)), fs)
                     | Some fs1 \<Rightarrow> (Inr (''Successfully edited '' @ p), fs1)))))"

section \<open>Listing\<close>

definition list_line :: "file_system \<Rightarrow> location \<Rightarrow> string \<Rightarrow> string" where
  "list_line fs d name = (if fs (d @ [name]) = Some DirNode then ''[DIR]  '' else ''       '') @ name @ [NL]"

definition list_dir_execute ::
  "fs_env \<Rightarrow> file_system \<Rightarrow> path_validator \<Rightarrow> string + string \<Rightarrow> tool_error + string" where
  "list_dir_execute env fs pv args = (case args of
      Inl e \<Rightarrow> Inl (InvalidArguments e)
    | Inr p \<Rightarrow>
        bind_res (validate env fs pv p) (\<lambda>path.
          case canonicalize env fs path of
            Some d \<Rightarrow> if node_at fs d = Some DirNode then Inr (concat (map (list_line fs d) (fe_entries env fs d)))
                      else Inl (ExecutionError (''Failed to read directory '' @ squoted path @ '': '' @ fe_error env path))
          | None \<Rightarrow> Inl (ExecutionError (''Failed to read directory '' @ squoted path @ '': '' @ fe_error env path))))"

end
