(* ===== verification/Filesystem_Proofs.thy ===== *)
theory Filesystem_Proofs
  imports Filesystem_Tools
begin

text \<open>
  What the path validator keeps and what it lets through: reading and editing stay inside
  under any links, writing stays inside only where there are none.
\<close>

definition inside :: "fs_env \<Rightarrow> file_system \<Rightarrow> path_validator \<Rightarrow> location \<Rightarrow> bool" where
  "inside env fs pv q = is_path_allowed env fs pv (loc_path q)"

section \<open>Reading and editing\<close>

lemma validate_Inr:
  assumes "validate env fs pv p = Inr path"
  shows "path = p" "canonicalize env fs p = Some q \<Longrightarrow> inside env fs pv q"
proof -
  show "path = p" using assms by (auto simp: validate_def split: if_splits option.splits)
  show "inside env fs pv q" if "canonicalize env fs p = Some q"
    using assms that by (auto simp: validate_def inside_def restricted_def is_path_allowed_def split: if_splits option.splits)
qed

lemma read_to_string_Some:
  "read_to_string env fs p = Some c \<Longrightarrow> \<exists>q. canonicalize env fs p = Some q \<and> fs q = Some (FileNode c)"
  by (auto simp: read_to_string_def node_at_def split: option.splits fs_node.splits if_splits)

lemma write_same_place:
  assumes "canonicalize env fs p = Some q" "fs_write env fs p content = Some fs1"
  shows "fs1 = fs(q \<mapsto> FileNode content)"
proof -
  have "p \<noteq> []" using assms(2) by (auto simp: fs_write_def)
  moreover have "walk True fs MAX_LINKS (fe_cwd env) (os_components p) = Some q"
    using assms(1) by (auto simp: canonicalize_def canonical_comps_def split: if_splits intro: walk_create)
  ultimately show ?thesis using assms(2) by (simp add: fs_write_def split: if_splits)
qed

text \<open>What a successful edit did.\<close>

lemma edit_file_Inr:
  assumes "edit_file_execute env fs pv (Inr (p, old_string, new_string)) = (Inr msg, fs1)"
  obtains q content where "canonicalize env fs p = Some q" "inside env fs pv q" "fs q = Some (FileNode content)"
    "count_matches content old_string = 1" "fs1 = fs(q \<mapsto> FileNode (str_replace content old_string new_string))"
proof -
  obtain path where v: "validate env fs pv p = Inr path"
    using assms by (cases "validate env fs pv p") (simp_all add: edit_file_execute_def)
  have path: "path = p" by (rule validate_Inr(1) [OF v])
  obtain content where r: "read_to_string env fs p = Some content"
    using assms v path by (cases "read_to_string env fs p") (simp_all add: edit_file_execute_def)
  have c: "count_matches content old_string = 1"
    and w: "fs_write env fs p (str_replace content old_string new_string) = Some fs1"
    using assms v path r by (auto simp: edit_file_execute_def Let_def split: if_splits option.splits)
  obtain q where q: "canonicalize env fs p = Some q" "fs q = Some (FileNode content)"
    using read_to_string_Some [OF r] by blast
  show ?thesis
    by (rule that [OF q(1) validate_Inr(2) [OF v q(1)] q(2) c write_same_place [OF q(1) w]])
qed

lemma edit_file_Inl:
  "edit_file_execute env fs pv args = (Inl e, fs1) \<Longrightarrow> fs1 = fs"
  by (auto simp: edit_file_execute_def Let_def split: sum.splits prod.splits option.splits if_splits)

text \<open>C16: reading and editing stay in the allowed directories, whatever links the file system
  holds.  A successful read returns lines of a file at an allowed location, and an edit
  changes nothing, or only the contents of one existing file at an allowed location.\<close>

theorem file_access_contained:
  "(case read_file_execute env fs pv (Inr (p, offset, limit)) of
      Inl e \<Rightarrow> True
    | Inr s \<Rightarrow> \<exists>q content. inside env fs pv q \<and> fs q = Some (FileNode content) \<and> s = select_lines content offset limit)
   \<and> (case edit_file_execute env fs pv (Inr (p, old_string, new_string)) of
        (Inl e, fs1) \<Rightarrow> fs1 = fs
      | (Inr s, fs1) \<Rightarrow> \<exists>q content new_content. inside env fs pv q \<and> fs q = Some (FileNode content)
          \<and> fs1 = fs(q \<mapsto> FileNode new_content))"
proof (intro conjI)
  show "case read_file_execute env fs pv (Inr (p, offset, limit)) of Inl e \<Rightarrow> True
    | Inr s \<Rightarrow> \<exists>q content. inside env fs pv q \<and> fs q = Some (FileNode content) \<and> s = select_lines content offset limit"
  proof (cases "read_file_execute env fs pv (Inr (p, offset, limit))")
    case (Inr s)
    then obtain path content where v: "validate env fs pv p = Inr path"
        and r: "read_to_string env fs path = Some content" "s = select_lines content offset limit"
      by (auto simp: read_file_execute_def bind_res_Inr_iff split: option.splits)
    obtain q where q: "canonicalize env fs path = Some q" "fs q = Some (FileNode content)"
      using read_to_string_Some [OF r(1)] by blast
    have "inside env fs pv q" using validate_Inr [OF v] q(1) by simp
    then show ?thesis using Inr q(2) r(2) by auto
  qed simp
next
  obtain r fs1 where e: "edit_file_execute env fs pv (Inr (p, old_string, new_string)) = (r, fs1)" by fastforce
  show "case edit_file_execute env fs pv (Inr (p, old_string, new_string)) of (Inl e, fs1) \<Rightarrow> fs1 = fs
    | (Inr s, fs1) \<Rightarrow> \<exists>q content new_content. inside env fs pv q \<and> fs q = Some (FileNode content)
        \<and> fs1 = fs(q \<mapsto> FileNode new_content)"
  proof (cases r)
    case (Inl x)
    then show ?thesis using e edit_file_Inl by simp
  next
    case (Inr s)
    obtain q content where "inside env fs pv q" "fs q = Some (FileNode content)"
        "fs1 = fs(q \<mapsto> FileNode (str_replace content old_string new_string))"
      using edit_file_Inr [OF e [unfolded Inr]] by metis
    then show ?thesis using e Inr by auto
  qed
qed

text \<open>A unique match is replaced in place.\<close>

lemma replace_no_match: "count_matches s p = 0 \<Longrightarrow> str_replace s p r = s"
proof (induction s p rule: count_matches.induct)
  case (1 s p)
  have p: "p \<noteq> []" using 1(3) by (subst (asm) count_matches.simps) (auto split: if_splits)
  show ?case
  proof (cases s)
    case Nil
    then show ?thesis using p by (simp add: str_replace.simps)
  next
    case (Cons c cs)
    have "\<not> prefix p s" "count_matches cs p = 0"
      using 1(3) p Cons by (subst (asm) count_matches.simps, simp split: if_splits)+
    then show ?thesis using 1(2) [OF p Cons] p Cons by (subst str_replace.simps) simp
  qed
qed

lemma replace_one_match:
  "count_matches s p = 1 \<Longrightarrow> p \<noteq> [] \<Longrightarrow> \<exists>a b. s = a @ p @ b \<and> str_replace s p r = a @ r @ b"
proof (induction s p rule: count_matches.induct)
  case (1 s p)
  note p = 1(4)
  show ?case
  proof (cases s)
    case Nil
    then show ?thesis using 1(3) p by (simp add: count_matches.simps)
  next
    case (Cons c cs)
    show ?thesis
    proof (cases "prefix p s")
      case True
      then obtain b where b: "s = p @ b" by (auto simp: prefix_def)
      have step: "count_matches s p = Suc (count_matches (drop (length p) s) p)"
        "str_replace s p r = r @ str_replace (drop (length p) s) p r"
        using p Cons True by (subst count_matches.simps, simp, subst str_replace.simps, simp)
      moreover have "drop (length p) s = b" using b by simp
      ultimately have "str_replace s p r = r @ b" using 1(3) replace_no_match [of b p r] by simp
      then show ?thesis using b by (intro exI [of _ "[]"] exI [of _ b]) simp
    next
      case False
      have "count_matches cs p = 1"
        using 1(3) p Cons False by (subst (asm) count_matches.simps) simp
      then obtain a b where "cs = a @ p @ b" "str_replace cs p r = a @ r @ b"
        using 1(2) [OF p Cons False] p by blast
      moreover have "str_replace s p r = c # str_replace cs p r"
        using p Cons False by (subst str_replace.simps) simp
      ultimately show ?thesis using Cons by (intro exI [of _ "c # a"] exI [of _ b]) simp
    qed
  qed
qed

text \<open>An edit replaces exactly one place.  When a non-empty text is to be replaced and the edit
  succeeds, the file was a text around one occurrence of it, and afterwards holds the same
  text around the replacement; no other file changes.\<close>

theorem edit_replaces_once:
  assumes "edit_file_execute env fs pv (Inr (p, old_string, new_string)) = (Inr msg, fs1)" "old_string \<noteq> []"
  shows "\<exists>q before after. fs q = Some (FileNode (before @ old_string @ after))
     \<and> count_matches (before @ old_string @ after) old_string = 1
     \<and> fs1 = fs(q \<mapsto> FileNode (before @ new_string @ after))"
proof -
  obtain q content where e: "fs q = Some (FileNode content)" "count_matches content old_string = 1"
      "fs1 = fs(q \<mapsto> FileNode (str_replace content old_string new_string))"
    using edit_file_Inr [OF assms(1)] by metis
  moreover obtain a b where ab: "content = a @ old_string @ b"
      "str_replace content old_string new_string = a @ new_string @ b"
    using replace_one_match [OF e(2) assms(2), of new_string] by blast
  ultimately show ?thesis by (intro exI [of _ q] exI [of _ a] exI [of _ b]) simp
qed

definition demo_fs :: file_system where
  "demo_fs = [[''w''] \<mapsto> DirNode, [''w'', ''d''] \<mapsto> DirNode, [''w'', ''d'', ''f''] \<mapsto> FileNode ''abc'',
     [''w'', ''d'', ''l''] \<mapsto> LinkNode ''/o/s'', [''w'', ''d'', ''m''] \<mapsto> LinkNode ''/o'',
     [''o''] \<mapsto> DirNode, [''o'', ''s''] \<mapsto> FileNode ''x'']"

definition demo_fenv :: fs_env where
  "demo_fenv = \<lparr> fe_cwd = [''o''], fe_home = None, fe_entries = (\<lambda>fs d. []), fe_error = (\<lambda>p. ''failed'') \<rparr>"

definition demo_pv :: path_validator where
  "demo_pv = \<lparr> pv_allowed_dir = Some [''w''], pv_extra_dirs = [] \<rparr>"

lemmas demo_eval = demo_fs_def demo_fenv_def demo_pv_def canonicalize_def canonical_comps_def os_components_def
  seg_comp_def MAX_LINKS_def validate_def restricted_def is_path_allowed_def loc_path_def node_at_def
  path_components_def path_parent_def

theorem edit_replaces_once_witness:
  "\<exists>q before after. demo_fs q = Some (FileNode (before @ ''b'' @ after))
     \<and> count_matches (before @ ''b'' @ after) ''b'' = 1
     \<and> demo_fs([''w'', ''d'', ''f''] \<mapsto> FileNode ''aXc'') = demo_fs(q \<mapsto> FileNode (before @ ''X'' @ after))"
proof (rule edit_replaces_once)
  show "edit_file_execute demo_fenv demo_fs demo_pv (Inr (''/w/d/f'', ''b'', ''X''))
      = (Inr ''Successfully edited /w/d/f'', demo_fs([''w'', ''d'', ''f''] \<mapsto> FileNode ''aXc''))"
    by (simp add: edit_file_execute_def demo_eval read_to_string_def fs_write_def
        count_matches.simps str_replace.simps Let_def)
qed simp

lemma allowed_mono: "is_path_allowed env fs pv c \<Longrightarrow> prefix c e \<Longrightarrow> is_path_allowed env fs pv e"
  by (auto simp: is_path_allowed_def list_ex_iff intro: prefix_order.trans split: option.splits)

section \<open>Writing where there are no links\<close>

lemma mkdir_existing:
  assumes "canonical_comps env fs cs = Some d" "no_links fs" "tree_fs fs"
  shows "mkdir env fs cs = AlreadyThere"
proof -
  have cs: "cs \<noteq> []" and w: "walk False fs MAX_LINKS (fe_cwd env) cs = Some d"
    using assms(1) by (simp_all add: canonical_comps_def split: if_splits)
  show ?thesis
  proof (cases "last cs")
    case (Normal s)
    obtain e where e: "walk False fs MAX_LINKS (fe_cwd env) (butlast cs) = Some e"
        "walk False fs MAX_LINKS e [Normal s] = Some d"
      using walk_snoc [of False fs MAX_LINKS "fe_cwd env" "butlast cs" "Normal s" d] w assms(2) cs Normal
      by (metis append_butlast_last_id walk_snoc)
    have f: "fs (e @ [s]) \<noteq> None" using e(2) by (auto split: option.splits)
    then have "node_at fs e = Some DirNode" using assms(3) unfolding tree_fs_def by blast
    then show ?thesis using cs Normal e(1) f by (simp add: mkdir_def)
  qed (use cs assms(1) in \<open>simp_all add: mkdir_def\<close>)
qed

lemma create_dir_existing:
  assumes "canonical_comps env fs cs = Some d" "no_links fs" "tree_fs fs"
  shows "snd (create_dir_all env fs cs) = fs"
  using mkdir_existing [OF assms] by (subst create_dir_all.simps) simp

lemma mkdir_Made:
  assumes "mkdir env fs (loc_path ns) = Made fs1" "no_links fs"
  shows "ns \<noteq> []" "fs ns = None" "fs1 = fs(ns \<mapsto> DirNode)"
proof -
  show ns: "ns \<noteq> []" using assms(1) by (auto simp: mkdir_def loc_path_def split: if_splits)
  have l: "last (loc_path ns) = Normal (last ns)" "butlast (loc_path ns) = loc_path (butlast ns)" "loc_path ns \<noteq> []"
    using ns by (simp_all add: loc_path_def last_map map_butlast)
  obtain d where d: "walk False fs MAX_LINKS (fe_cwd env) (loc_path (butlast ns)) = Some d"
      "fs (d @ [last ns]) = None" "fs1 = fs(d @ [last ns] \<mapsto> DirNode)"
    using assms(1) l by (auto simp: mkdir_def split: option.splits if_splits)
  have "d = butlast ns"
    using walk_names [of False fs MAX_LINKS "[]" "butlast ns" d] d(1) assms(2) by (simp add: loc_path_def)
  then have "d @ [last ns] = ns" using ns by simp
  then show "fs ns = None" "fs1 = fs(ns \<mapsto> DirNode)" using d by simp_all
qed

lemma create_dir_changes:
  "no_links fs \<Longrightarrow> no_links (snd (create_dir_all env fs (loc_path ns)))
     \<and> (\<forall>q. snd (create_dir_all env fs (loc_path ns)) q \<noteq> fs q \<longrightarrow>
          q \<noteq> [] \<and> fs q = None \<and> prefix q ns \<and> snd (create_dir_all env fs (loc_path ns)) q = Some DirNode)"
proof (induction ns arbitrary: fs rule: rev_induct)
  case Nil
  have "mkdir env fs (loc_path []) = AlreadyThere" by (simp add: mkdir_def loc_path_def canonical_comps_def)
  then show ?case using Nil by (subst (1 2 3) create_dir_all.simps) (simp add: loc_path_def)
next
  case (snoc s ns)
  have bl: "butlast (loc_path (ns @ [s])) = loc_path ns" "path_parent (loc_path (ns @ [s])) \<noteq> None"
    "loc_path (ns @ [s]) \<noteq> []"
    by (simp_all add: loc_path_def path_parent_def butlast_append)
  have nl: "no_links (fs(q \<mapsto> DirNode))" if "no_links fs" for q and fs :: file_system
    using that by (simp add: no_links_def)
  let ?cs = "loc_path (ns @ [s])"
  show ?case
  proof (cases "mkdir env fs ?cs")
    case (Made fs1)
    have "create_dir_all env fs ?cs = (True, fs1)" using Made bl(3) by (subst create_dir_all.simps) simp
    note made = mkdir_Made [OF Made snoc.prems]
    have "no_links fs1" unfolding made(3) by (rule nl [OF snoc.prems])
    moreover have "\<forall>q. fs1 q \<noteq> fs q \<longrightarrow> q \<noteq> [] \<and> fs q = None \<and> prefix q (ns @ [s]) \<and> fs1 q = Some DirNode"
      unfolding made(3) using made(2) by simp
    ultimately show ?thesis unfolding \<open>_ = (True, fs1)\<close> snd_conv by blast
  next
    case AlreadyThere
    have "snd (create_dir_all env fs ?cs) = fs" using AlreadyThere bl(3) by (subst create_dir_all.simps) simp
    then show ?thesis using snoc.prems by simp
  next
    case NotMade
    obtain ok fs1 where par: "create_dir_all env fs (loc_path ns) = (ok, fs1)" by fastforce
    have ih: "no_links fs1" "\<And>q. fs1 q \<noteq> fs q \<Longrightarrow> q \<noteq> [] \<and> fs q = None \<and> prefix q ns \<and> fs1 q = Some DirNode"
      using snoc.IH [OF snoc.prems] par by simp_all
    have step: "snd (create_dir_all env fs ?cs)
        = (if ok then (case mkdir env fs1 ?cs of Made fs2 \<Rightarrow> fs2 | _ \<Rightarrow> fs1) else fs1)"
      using NotMade bl par by (subst create_dir_all.simps) (auto split: option.splits mkdir_result.splits)
    show ?thesis
    proof (cases "ok \<and> (\<exists>fs2. mkdir env fs1 ?cs = Made fs2)")
      case True
      then obtain fs2 where m: "mkdir env fs1 ?cs = Made fs2" and ok: ok by blast
      note made = mkdir_Made [OF m ih(1)]
      have r: "snd (create_dir_all env fs ?cs) = fs1(ns @ [s] \<mapsto> DirNode)" using step m ok made(3) by simp
      have "fs (ns @ [s]) = None" using ih(2) [of "ns @ [s]"] made(2) by metis
      then have "\<forall>q. (fs1(ns @ [s] \<mapsto> DirNode)) q \<noteq> fs q \<longrightarrow> q \<noteq> [] \<and> fs q = None \<and> prefix q (ns @ [s])
          \<and> (fs1(ns @ [s] \<mapsto> DirNode)) q = Some DirNode"
        using ih(2) made(2) by (auto simp: prefix_append)
      then show ?thesis unfolding r using nl [OF ih(1)] by blast
    next
      case False
      then have "snd (create_dir_all env fs ?cs) = fs1" using step by (cases "mkdir env fs1 ?cs") auto
      then show ?thesis using ih by auto
    qed
  qed
qed

text \<open>An absolute path.\<close>

lemma absolute_components:
  assumes "is_absolute (path_components p)"
  obtains cs where "path_components p = RootDir # cs" "RootDir \<notin> set cs" "CurDir \<notin> set cs"
proof -
  have seg: "RootDir \<notin> set (map seg_comp ss)" for ss by (auto simp: seg_comp_def split: if_splits)
  have "set (path_components p) \<subseteq> set (os_components p)"
    by (auto simp: path_components_def split: list.splits path_comp.splits)
  moreover have "RootDir \<in> set (path_components p)"
    using assms unfolding is_absolute_def by (metis list.set_sel(1))
  ultimately have "RootDir \<in> set (os_components p)" by blast
  then have "p \<noteq> []" "hd p = CHR ''/''"
    using seg by (auto simp: os_components_def split: if_splits)
  then have "path_components p = RootDir # filter (\<lambda>x. x \<noteq> CurDir) (map seg_comp (segments (tl p)))"
    by (simp add: path_components_def os_components_def)
  then show ?thesis using seg [of "segments (tl p)"] by (intro that) auto
qed

lemma names_only: "RootDir \<notin> set cs \<Longrightarrow> CurDir \<notin> set cs \<Longrightarrow> ParentDir \<notin> set cs \<Longrightarrow> \<exists>ns. cs = map Normal ns"
proof (induction cs)
  case (Cons c cs)
  then obtain ns where "cs = map Normal ns" by auto
  moreover obtain s where "c = Normal s" using Cons.prems by (cases c) auto
  ultimately show ?case by (metis list.simps(9))
qed simp

text \<open>The roots of the allowed places that do not exist yet have a parent that does.\<close>

definition extras_grounded :: "fs_env \<Rightarrow> file_system \<Rightarrow> path_validator \<Rightarrow> bool" where
  "extras_grounded env fs pv = (\<forall>e \<in> set (pv_extra_dirs pv). \<exists>par s. e = par @ [Normal s]
     \<and> canonical_comps env fs par \<noteq> None)"

definition grounded :: "file_system \<Rightarrow> location \<Rightarrow> bool" where
  "grounded fs r = (\<forall>q. strict_prefix q r \<longrightarrow> node_at fs q \<noteq> None)"

lemma canonical_exists:
  assumes "canonical_comps env fs cs = Some q" "tree_fs fs" "node_at fs (fe_cwd env) = Some DirNode"
  shows "node_at fs q \<noteq> None"
  using assms walk_exists by (auto simp: canonical_comps_def split: if_splits)

lemma exists_grounded:
  assumes "tree_fs fs" "node_at fs q \<noteq> None"
  shows "grounded fs q"
proof -
  have "node_at fs r = Some DirNode" if above: "strict_prefix r q" for r
  proof -
    obtain ts where "q = r @ ts" "ts \<noteq> []" using above by (auto simp: strict_prefix_def prefix_def)
    then show ?thesis using tree_fs_prefix [OF assms(1), of r ts] assms(2) by simp
  qed
  then show ?thesis by (simp add: grounded_def)
qed

lemma extra_root_grounded:
  assumes "e \<in> set (pv_extra_dirs pv)" "extras_grounded env fs pv" "tree_fs fs"
    and "node_at fs (fe_cwd env) = Some DirNode"
  shows "\<exists>r. extra_root env fs e = loc_path r \<and> grounded fs r"
proof -
  obtain par s where e: "e = par @ [Normal s]" "canonical_comps env fs par \<noteq> None"
    using assms(1,2) by (auto simp: extras_grounded_def)
  then obtain pc where pc: "canonical_comps env fs par = Some pc" by blast
  have g: "node_at fs pc \<noteq> None" by (rule canonical_exists [OF pc assms(3,4)])
  show ?thesis
  proof (cases "canonical_comps env fs e")
    case (Some q)
    then have "grounded fs q" by (intro exists_grounded assms(3) canonical_exists [OF Some assms(3,4)])
    then show ?thesis using Some by (simp add: extra_root_def)
  next
    case None
    have "grounded fs (pc @ [s])"
      using exists_grounded [OF assms(3) g] g
      by (auto simp: grounded_def strict_prefix_def prefix_snoc)
    moreover have "extra_root env fs e = loc_path (pc @ [s])"
      using None pc e(1) by (simp add: extra_root_def path_parent_def loc_path_def)
    ultimately show ?thesis by blast
  qed
qed

text \<open>What does not exist and lies above an allowed place is itself in an allowed place.\<close>

lemma missing_inside:
  assumes "inside env fs pv e" "prefix q e" "fs q = None" "q \<noteq> []" "pv_allowed_dir pv = Some a"
    and "node_at fs a = Some DirNode" "extras_grounded env fs pv" "tree_fs fs"
    and "node_at fs (fe_cwd env) = Some DirNode"
  shows "inside env fs pv q"
proof -
  have missing: "prefix r q" if "grounded fs r" "prefix r e" for r
  proof -
    have "prefix r q \<or> strict_prefix q r" using that(2) assms(2) by (metis prefix_same_cases strict_prefixI)
    then show ?thesis using that(1) assms(3,4) by (auto simp: grounded_def node_at_def)
  qed
  from assms(1,5) consider "prefix a e" | x where "x \<in> set (pv_extra_dirs pv)" "prefix (extra_root env fs x) (loc_path e)"
    by (auto simp: inside_def is_path_allowed_def list_ex_iff)
  then show ?thesis
  proof cases
    case 1
    have "grounded fs a" by (rule exists_grounded [OF assms(8)]) (simp add: assms(6))
    then have "prefix a q" using missing 1 by blast
    then show ?thesis using assms(5) by (simp add: inside_def is_path_allowed_def)
  next
    case 2
    obtain r where "extra_root env fs x = loc_path r" "grounded fs r"
      using extra_root_grounded [OF 2(1) assms(7-9)] by blast
    then have "prefix (extra_root env fs x) (loc_path q)" using missing 2(2) by simp
    then show ?thesis using 2(1) by (auto simp: inside_def is_path_allowed_def list_ex_iff)
  qed
qed

lemma fs_write_Some:
  assumes "fs_write env fs p content = Some fs1"
  obtains q where "walk True fs MAX_LINKS (fe_cwd env) (os_components p) = Some q"
    "node_at fs q \<noteq> Some DirNode" "fs1 = fs(q \<mapsto> FileNode content)"
  using assms by (auto simp: fs_write_def split: if_splits option.splits)

lemma path_parent_Some: "path_parent cs = Some par \<Longrightarrow> cs = par @ [last cs]"
  by (auto simp: path_parent_def split: if_splits)

text \<open>The parent exists: nothing is created, and the file is in it.\<close>

lemma write_in_existing_parent:
  assumes "path_parent (path_components p) = Some par" "canonical_comps env fs par = Some d"
    and "is_absolute (path_components p)"
    and "no_links fs" "tree_fs fs" "node_at fs (fe_cwd env) = Some DirNode"
    and "fs_write env fs p content = Some fs1"
  shows "\<exists>s. fs1 = fs(d @ [s] \<mapsto> FileNode content)"
proof -
  obtain q where q: "walk True fs MAX_LINKS (fe_cwd env) (os_components p) = Some q"
      "node_at fs q \<noteq> Some DirNode" "fs1 = fs(q \<mapsto> FileNode content)"
    by (rule fs_write_Some [OF assms(7)])
  have cs: "path_components p = par @ [last (path_components p)]" by (rule path_parent_Some [OF assms(1)])
  have "walk True fs MAX_LINKS (fe_cwd env) (par @ [last (path_components p)]) = Some q"
    using walk_path_components [OF q(1) assms(4)] cs by simp
  then have dx: "walk True fs MAX_LINKS d [last (path_components p)] = Some q"
    using walk_snoc [of True fs MAX_LINKS "fe_cwd env" par "last (path_components p)" q] assms(2,4)
    by (auto simp: canonical_comps_def split: if_splits)
  have node: "node_at fs d \<noteq> None" by (rule canonical_exists [OF assms(2,5,6)])
  have "par \<noteq> []" using assms(2) by (auto simp: canonical_comps_def)
  moreover obtain rest where rest: "path_components p = RootDir # rest" "RootDir \<notin> set rest" "CurDir \<notin> set rest"
    by (rule absolute_components [OF assms(3)])
  ultimately have "last (path_components p) \<in> set rest" using cs by (metis append_Cons last_in_set last_snoc list.sel(3)
        neq_Nil_conv list.set_sel(1) append_is_Nil_conv last_ConsR not_Cons_self2 tl_append2)
  then consider s where "last (path_components p) = Normal s" | "last (path_components p) = ParentDir"
    using rest(2,3) by (metis path_comp.exhaust)
  then show ?thesis
  proof cases
    case 1
    then have "q = d @ [s]" using dx assms(4) by (auto simp: no_links_def split: option.splits fs_node.splits)
    then show ?thesis using q(3) by blast
  next
    case 2
    then have "q = butlast d" using dx by simp
    moreover have "node_at fs (butlast d) = Some DirNode"
      using tree_fs_prefix [OF assms(5), of "butlast d" "[last d]"] node
      by (cases "d = []") (simp_all add: node_at_def)
    ultimately show ?thesis using q(2) by simp
  qed
qed

lemma validate_for_write_Inr:
  assumes "validate_for_write env fs pv p = Inr path" "restricted pv"
  obtains par where "path = p" "write_parent env fs pv p = Inr par" "is_path_allowed env fs pv par"
    "\<And>a. pv_allowed_dir pv = Some a \<Longrightarrow> canonical_comps env fs (loc_path a) = Some a \<Longrightarrow> par \<noteq> loc_path a"
  using assms by (auto simp: validate_for_write_def bind_res_Inr_iff split: if_splits option.splits)

lemma write_file_result:
  assumes "write_file_execute env fs pv (Inr (p, content)) = (r, fs1)" "validate_for_write env fs pv p = Inr p"
    and "path_parent (path_components p) = Some par"
  shows "fs1 = snd (create_dir_all env fs par)
    \<or> fs_write env (snd (create_dir_all env fs par)) p content = Some fs1"
  using assms by (auto simp: write_file_execute_def split: prod.splits bool.splits option.splits)

lemma write_file_rejected:
  assumes "write_file_execute env fs pv (Inr (p, content)) = (r, fs1)" "validate_for_write env fs pv p = Inl e"
  shows "fs1 = fs"
  using assms by (simp add: write_file_execute_def)

lemma write_to_root:
  assumes "path_components p = [RootDir]" "no_links fs"
  shows "fs_write env fs p content = None"
proof (cases "fs_write env fs p content")
  case (Some x)
  then show ?thesis
    using walk_path_components [of True fs MAX_LINKS "fe_cwd env" p] assms
    by (elim fs_write_Some) (auto simp: node_at_def)
qed

text \<open>The parent is missing: its names are created, then the file.\<close>

lemma write_in_missing_parent:
  assumes "path_components p = loc_path ns" "no_links fs"
    and "fs1 = snd (create_dir_all env fs (loc_path par))
      \<or> fs_write env (snd (create_dir_all env fs (loc_path par))) p content = Some fs1"
    and "fs1 q \<noteq> fs q"
  shows "(q \<noteq> [] \<and> fs q = None \<and> prefix q par \<and> fs1 q = Some DirNode) \<or> (q = ns \<and> fs1 q = Some (FileNode content))"
proof -
  let ?m = "snd (create_dir_all env fs (loc_path par))"
  have m: "no_links ?m" "\<And>q. ?m q \<noteq> fs q \<Longrightarrow> q \<noteq> [] \<and> fs q = None \<and> prefix q par \<and> ?m q = Some DirNode"
    using create_dir_changes [OF assms(2)] by simp_all
  from assms(3) show ?thesis
  proof
    assume "fs1 = ?m"
    then show ?thesis using m(2) assms(4) by simp
  next
    assume w: "fs_write env ?m p content = Some fs1"
    obtain q1 where q1: "walk True ?m MAX_LINKS (fe_cwd env) (os_components p) = Some q1" "fs1 = ?m(q1 \<mapsto> FileNode content)"
      by (rule fs_write_Some [OF w])
    have "walk True ?m MAX_LINKS [] (map Normal ns) = Some q1"
      using walk_path_components [OF q1(1) m(1)] assms(1) by (simp add: loc_path_def)
    then have "q1 = ns" using walk_names m(1) by fastforce
    then show ?thesis using q1(2) m(2) assms(4) by (cases "q = ns") auto
  qed
qed

text \<open>C17: where there are no symbolic links, writing stays in the allowed directories.  For an absolute
  path, in a file system without links, every location that write_file changes is
  allowed: it is a directory created on the way, or the file itself, which holds the
  content and is never directly in the workspace root.\<close>

theorem writes_contained_without_links:
  assumes "no_links fs" "tree_fs fs" "node_at fs (fe_cwd env) = Some DirNode"
    and "pv_allowed_dir pv = Some a" "node_at fs a = Some DirNode" "extras_grounded env fs pv"
    and "is_absolute (path_components p)"
    and "write_file_execute env fs pv (Inr (p, content)) = (r, fs1)" "fs1 q \<noteq> fs q"
  shows "inside env fs pv q \<and> (fs1 q = Some DirNode \<or> (fs1 q = Some (FileNode content) \<and> butlast q \<noteq> a))"
proof -
  have ca: "canonical_comps env fs (loc_path a) = Some a" by (rule canonical_real [OF assms(2,5)])
  have restr: "restricted pv" using assms(4) by (simp add: restricted_def)
  obtain path where v: "validate_for_write env fs pv p = Inr path"
    using write_file_rejected [OF assms(8)] assms(9) by (cases "validate_for_write env fs pv p") auto
  obtain par where par: "path = p" "write_parent env fs pv p = Inr par" "is_path_allowed env fs pv par" "par \<noteq> loc_path a"
    using validate_for_write_Inr [OF v restr] assms(4) ca by metis
  obtain rest where rest: "path_components p = RootDir # rest" "RootDir \<notin> set rest" "CurDir \<notin> set rest"
    by (rule absolute_components [OF assms(7)])
  note v = v [unfolded par(1)]
  show ?thesis
  proof (cases "rest = []")
    case True
    then have none: "path_parent (path_components p) = None" using rest(1) by (simp add: path_parent_def)
    have "fs_write env fs p content = None" by (rule write_to_root [OF _ assms(1)]) (simp add: rest(1) True)
    then have "fs1 = fs" using assms(8) v none by (simp add: write_file_execute_def)
    then show ?thesis using assms(9) by simp
  next
    case False
    let ?P = "RootDir # butlast rest"
    have pp: "path_parent (path_components p) = Some ?P"
      using False rest(1,2) by (auto simp: path_parent_def) (metis last_in_set)
    note result = write_file_result [OF assms(8) v pp]
    show ?thesis
    proof (cases "canonical_comps env fs ?P")
      case (Some d)
      have "snd (create_dir_all env fs ?P) = fs" by (rule create_dir_existing [OF Some assms(1,2)])
      then obtain s where s: "fs1 = fs(d @ [s] \<mapsto> FileNode content)"
        using result assms(9) write_in_existing_parent [OF pp Some assms(7,1,2,3)] by auto
      have d: "par = loc_path d" using par(2) pp Some by (simp add: write_parent_def Let_def)
      have "q = d @ [s]" using s assms(9) by (simp split: if_splits)
      moreover have "inside env fs pv (d @ [s])"
        unfolding inside_def by (rule allowed_mono [OF par(3)]) (simp add: d)
      ultimately show ?thesis using s d par(4) by simp
    next
      case None
      then have "ParentDir \<notin> set rest" "par = ?P"
        using par(2) pp assms(4) rest(1) by (auto simp: write_parent_def Let_def is_absolute_def split: if_splits)
      then obtain ns where ns: "rest = map Normal ns" using names_only rest(2,3) by blast
      have P: "?P = loc_path (butlast ns)" and cs: "path_components p = loc_path ns"
        using rest(1) ns by (simp_all add: loc_path_def map_butlast)
      have inP: "inside env fs pv (butlast ns)" using par(3) \<open>par = ?P\<close> P by (simp add: inside_def)
      have "inside env fs pv ns"
        unfolding inside_def by (rule allowed_mono [OF inP [unfolded inside_def]]) (simp add: prefixeq_butlast)
      moreover have "butlast ns \<noteq> a" using par(4) \<open>par = ?P\<close> P by simp
      ultimately show ?thesis
        using write_in_missing_parent [OF cs assms(1) result [unfolded P] assms(9)]
          missing_inside [OF inP _ _ _ assms(4,5,6,2,3)] by blast
    qed
  qed
qed

definition plain_fs :: file_system where
  "plain_fs = [[''w''] \<mapsto> DirNode, [''o''] \<mapsto> DirNode]"

theorem writes_contained_without_links_witness:
  "inside demo_fenv plain_fs demo_pv [''w'', ''d'', ''f'']
   \<and> (Some (FileNode ''x'') = Some DirNode \<or> (Some (FileNode ''x'') = Some (FileNode ''x'') \<and> [''w'', ''d''] \<noteq> [''w'']))"
proof -
  let ?fs1 = "plain_fs([''w'', ''d''] \<mapsto> DirNode, [''w'', ''d'', ''f''] \<mapsto> FileNode ''x'')"
  have w: "write_file_execute demo_fenv plain_fs demo_pv (Inr (''/w/d/f'', ''x''))
      = (Inr (''Successfully wrote '' @ show_nat (length ''x'') @ '' bytes to '' @ ''/w/d/f''), ?fs1)"
    by (simp add: write_file_execute_def validate_for_write_def write_parent_def demo_eval plain_fs_def fs_write_def
        create_dir_all.simps mkdir_def is_absolute_def Let_def)
  have "inside demo_fenv plain_fs demo_pv [''w'', ''d'', ''f'']
   \<and> (?fs1 [''w'', ''d'', ''f''] = Some DirNode
      \<or> (?fs1 [''w'', ''d'', ''f''] = Some (FileNode ''x'') \<and> butlast [''w'', ''d'', ''f''] \<noteq> [''w'']))"
  proof (rule writes_contained_without_links [OF _ _ _ _ _ _ _ w])
    show "no_links plain_fs" by (simp add: no_links_def plain_fs_def)
    show "tree_fs plain_fs" by (auto simp: tree_fs_def plain_fs_def node_at_def)
  qed (simp_all add: plain_fs_def demo_fenv_def demo_pv_def node_at_def extras_grounded_def is_absolute_def demo_eval)
  then show ?thesis by simp
qed

section \<open>Writing where there are links\<close>

lemma write_parent_real:
  assumes "tree_fs fs" "node_at fs d = Some DirNode" "path_parent (path_components p) = Some (loc_path d)"
  shows "write_parent env fs pv p = Inr (loc_path d)"
  using canonical_real [OF assms(1,2)] assms(3) by (simp add: write_parent_def Let_def)

lemma validate_write_ok:
  assumes "write_parent env fs pv p = Inr (loc_path d)" "pv_allowed_dir pv = Some a" "strict_prefix a d"
    and "tree_fs fs" "node_at fs a = Some DirNode"
  shows "validate_for_write env fs pv p = Inr p"
  using assms canonical_real [OF assms(4,5)]
  by (auto simp: validate_for_write_def is_path_allowed_def restricted_def strict_prefix_def)

lemma loc_path_snoc: "loc_path (d @ ns) = loc_path d @ map Normal ns"
  by (simp add: loc_path_def)

lemma parent_of_loc: "path_components p = loc_path (d @ [s]) \<Longrightarrow> path_parent (path_components p) = Some (loc_path d)"
  by (simp add: path_parent_def loc_path_snoc)

lemma walk_below:
  assumes "tree_fs fs" "node_at fs d = Some DirNode"
  shows "walk c fs n dir (loc_path (d @ ns)) = walk c fs n d (map Normal ns)"
  using walk_real [OF assms(1), of "[]" d c n "map Normal ns"] assms(2) by (simp add: loc_path_def)

lemma dir_allowed:
  assumes "tree_fs fs" "node_at fs d = Some DirNode" "strict_prefix a d"
  shows "node_at fs a = Some DirNode"
proof -
  obtain ts where "d = a @ ts" "ts \<noteq> []" using assms(3) by (auto simp: strict_prefix_def prefix_def)
  then show ?thesis using tree_fs_prefix [OF assms(1), of a ts] assms(2) by simp
qed

lemma create_real_dir:
  assumes "tree_fs fs" "node_at fs d = Some DirNode" "d \<noteq> []"
  shows "create_dir_all env fs (loc_path d) = (True, fs)"
proof -
  have d: "d = butlast d @ [last d]" using assms(3) by simp
  have up: "node_at fs (butlast d) = Some DirNode"
    using tree_fs_prefix [OF assms(1), of "butlast d" "[last d]"] assms(2,3) by simp
  have l: "last (loc_path d) = Normal (last d)" "butlast (loc_path d) = loc_path (butlast d)" "loc_path d \<noteq> []"
    using assms(3) by (simp_all add: loc_path_def last_map map_butlast)
  have "fs d \<noteq> None" using assms(2,3) by (simp add: node_at_def)
  then have "mkdir env fs (loc_path d) = AlreadyThere"
    using walk_below [OF assms(1) up, of False MAX_LINKS "fe_cwd env" "[]"] l up assms(3) by (simp add: mkdir_def)
  moreover have "is_dir env fs (loc_path d)"
    using canonical_real [OF assms(1,2)] assms(2) by (simp add: is_dir_def)
  ultimately show ?thesis using l(3) by (subst create_dir_all.simps) simp
qed

text \<open>C18: the validator of writes does not look at the file itself.  If the path names a symbolic link in a
  subdirectory of the workspace, write_file succeeds and puts the content where the link leads, into
  a file anywhere in the system.\<close>

theorem write_follows_final_link:
  assumes "tree_fs fs" "pv_allowed_dir pv = Some a" "strict_prefix a d" "node_at fs d = Some DirNode"
    and "os_components p = loc_path (d @ [s])" "fs (d @ [s]) = Some (LinkNode t)"
    and "walk True fs (MAX_LINKS - 1) d (os_components t) = Some q" "node_at fs q \<noteq> Some DirNode"
  shows "write_file_execute env fs pv (Inr (p, content))
    = (Inr (''Successfully wrote '' @ show_nat (length content) @ '' bytes to '' @ p), fs(q \<mapsto> FileNode content))"
proof -
  have p: "path_components p = loc_path (d @ [s])" "p \<noteq> []"
    using assms(5) by (auto simp: path_components_def os_components_def loc_path_def filter_id_conv)
  have v: "validate_for_write env fs pv p = Inr p"
    by (rule validate_write_ok [OF write_parent_real [OF assms(1,4) parent_of_loc [OF p(1)]] assms(2,3,1)
        dir_allowed [OF assms(1,4,3)]])
  have d: "d \<noteq> []" using assms(3) by (auto simp: strict_prefix_def)
  have "walk True fs MAX_LINKS (fe_cwd env) (os_components p) = Some q"
    using walk_below [OF assms(1,4), of True MAX_LINKS "fe_cwd env" "[s]"] assms(5,6,7)
    by (simp add: MAX_LINKS_def)
  then have "fs_write env fs p content = Some (fs(q \<mapsto> FileNode content))"
    using p(2) assms(8) by (simp add: fs_write_def)
  then show ?thesis
    using v parent_of_loc [OF p(1)] create_real_dir [OF assms(1,4) d, of env] by (simp add: write_file_execute_def)
qed

lemma demo_tree: "tree_fs demo_fs"
  by (auto simp: tree_fs_def demo_fs_def node_at_def)

theorem write_follows_final_link_witness:
  "write_file_execute demo_fenv demo_fs demo_pv (Inr (''/w/d/l'', ''evil''))
    = (Inr (''Successfully wrote '' @ show_nat (length ''evil'') @ '' bytes to '' @ ''/w/d/l''),
       demo_fs([''o'', ''s''] \<mapsto> FileNode ''evil''))"
  by (rule write_follows_final_link [OF demo_tree, where a = "[''w'']" and d = "[''w'', ''d'']" and s = "''l''" and t = "''/o/s''"])
    (simp_all add: demo_eval strict_prefix_def)

text \<open>The last two names are new, below a directory the path leads to.\<close>

lemma create_below:
  assumes "walk False fs MAX_LINKS (fe_cwd env) cs = Some q" "cs \<noteq> [] \<or> q = fe_cwd env" "node_at fs q = Some DirNode"
    and "fs (q @ [x]) = None" "canonical_comps env fs (cs @ [Normal x]) = None"
  shows "create_dir_all env fs (cs @ [Normal x]) = (True, fs(q @ [x] \<mapsto> DirNode))"
proof -
  have "mkdir env fs (cs @ [Normal x]) = Made (fs(q @ [x] \<mapsto> DirNode))"
    using assms by (simp add: mkdir_def)
  then show ?thesis by (subst create_dir_all.simps) simp
qed

lemma walk_mono:
  "walk False fs n dir cs = Some q \<Longrightarrow> (\<And>l. fs l \<noteq> None \<Longrightarrow> fs1 l = fs l) \<Longrightarrow> walk False fs1 n dir cs = Some q"
proof (induction "False" fs n dir cs rule: walk.induct)
  case (5 fs n dir s cs)
  then obtain x where x: "fs (dir @ [s]) = Some x" by (auto split: option.splits)
  then have "fs1 (dir @ [s]) = Some x" using 5(4) [of "dir @ [s]"] by simp
  then show ?case using 5 x by (cases x) (auto split: nat.splits)
qed simp_all

lemma missing_below: "tree_fs fs \<Longrightarrow> fs q = None \<Longrightarrow> q \<noteq> [] \<Longrightarrow> fs (q @ [x]) = None"
  unfolding tree_fs_def node_at_def by (metis option.distinct(1))

lemma write_below:
  assumes "os_components p = cs @ [Normal x, Normal f]" "p \<noteq> []"
    and "walk False fs MAX_LINKS (fe_cwd env) cs = Some q" "node_at fs q = Some DirNode"
    and "tree_fs fs" "fs (q @ [x]) = None"
  shows "fs_write env (fs(q @ [x] \<mapsto> DirNode)) p content
    = Some (fs(q @ [x] \<mapsto> DirNode, q @ [x, f] \<mapsto> FileNode content))"
proof -
  let ?fs1 = "fs(q @ [x] \<mapsto> DirNode)"
  have "walk False ?fs1 MAX_LINKS (fe_cwd env) cs = Some q"
    by (rule walk_mono [OF assms(3)]) (use assms(6) in auto)
  moreover have "node_at ?fs1 q = Some DirNode" using assms(4) by (auto simp: node_at_def)
  ultimately obtain m where "walk True ?fs1 MAX_LINKS (fe_cwd env) (os_components p) = walk True ?fs1 m q [Normal x, Normal f]"
    using walk_append assms(1) by metis
  moreover have "fs (q @ [x, f]) = None" using missing_below [OF assms(5,6), of f] by simp
  ultimately show ?thesis using assms(2) by (simp add: fs_write_def node_at_def)
qed

lemma no_parent_yet:
  assumes "walk False fs MAX_LINKS (fe_cwd env) cs = Some q" "node_at fs q = Some DirNode" "fs (q @ [x]) = None"
  shows "canonical_comps env fs (cs @ [Normal x]) = None"
proof -
  obtain m where "walk False fs MAX_LINKS (fe_cwd env) (cs @ [Normal x]) = walk False fs m q [Normal x]"
    using walk_append [OF assms(1,2)] by blast
  then show ?thesis using assms(3) by (simp add: canonical_comps_def)
qed

lemma write_into_new_dir:
  assumes "os_components p = cs @ [Normal x, Normal f]" "path_components p = cs @ [Normal x, Normal f]"
    and "walk False fs MAX_LINKS (fe_cwd env) cs = Some q" "node_at fs q = Some DirNode"
    and "tree_fs fs" "fs (q @ [x]) = None" "validate_for_write env fs pv p = Inr p" "cs \<noteq> [] \<or> q = fe_cwd env"
  shows "write_file_execute env fs pv (Inr (p, content))
    = (Inr (''Successfully wrote '' @ show_nat (length content) @ '' bytes to '' @ p),
       fs(q @ [x] \<mapsto> DirNode, q @ [x, f] \<mapsto> FileNode content))"
proof -
  have "p \<noteq> []" using assms(1) by (auto simp: os_components_def)
  moreover have "path_parent (path_components p) = Some (cs @ [Normal x])"
    using assms(2) by (simp add: path_parent_def butlast_append)
  ultimately show ?thesis
    using assms(7) create_below [OF assms(3,8,4,6) no_parent_yet [OF assms(3,4,6)]]
      write_below [OF assms(1) \<open>p \<noteq> []\<close> assms(3-6), of content]
    by (simp add: write_file_execute_def)
qed

lemma write_parent_missing:
  assumes "path_components p = cs @ [Normal x, Normal f]" "canonical_comps env fs (cs @ [Normal x]) = None"
    and "pv_allowed_dir pv = Some a" "ParentDir \<notin> set cs"
  shows "write_parent env fs pv p
    = Inr (if is_absolute (path_components p) then cs @ [Normal x] else loc_path a @ filter (\<lambda>c. c \<noteq> CurDir) cs @ [Normal x])"
  using assms by (auto simp: write_parent_def Let_def path_parent_def butlast_append)

text \<open>C19: a missing parent is checked by its name only.  If the path leads through a symbolic link in a
  subdirectory of the workspace to a directory that does not exist yet, write_file succeeds
  and creates the directory and the file where the link leads.\<close>

theorem write_creates_through_link:
  assumes "tree_fs fs" "pv_allowed_dir pv = Some a" "strict_prefix a d" "node_at fs d = Some DirNode"
    and "os_components p = loc_path (d @ [s, x, f])" "fs (d @ [s]) = Some (LinkNode t)"
    and "walk False fs (MAX_LINKS - 1) d (os_components t) = Some q" "node_at fs q = Some DirNode" "fs (q @ [x]) = None"
  shows "write_file_execute env fs pv (Inr (p, content))
    = (Inr (''Successfully wrote '' @ show_nat (length content) @ '' bytes to '' @ p),
       fs(q @ [x] \<mapsto> DirNode, q @ [x, f] \<mapsto> FileNode content))"
proof -
  let ?cs = "loc_path (d @ [s])"
  have os: "os_components p = ?cs @ [Normal x, Normal f]" using assms(5) by (simp add: loc_path_def)
  have pc: "path_components p = ?cs @ [Normal x, Normal f]"
    using os by (auto simp: path_components_def loc_path_def filter_id_conv)
  have w: "walk False fs MAX_LINKS (fe_cwd env) ?cs = Some q"
    using walk_below [OF assms(1,4), of False MAX_LINKS "fe_cwd env" "[s]"] assms(6,7) by (simp add: MAX_LINKS_def)
  have "write_parent env fs pv p = Inr (loc_path (d @ [s, x]))"
    using write_parent_missing [OF pc no_parent_yet [OF w assms(8,9)] assms(2)] pc
    by (auto simp: is_absolute_def loc_path_def)
  then have "validate_for_write env fs pv p = Inr p"
    by (rule validate_write_ok [OF _ assms(2) _ assms(1) dir_allowed [OF assms(1,4,3)]])
      (use assms(3) in \<open>auto simp: strict_prefix_def prefix_append\<close>)
  then show ?thesis
    by (rule write_into_new_dir [OF os pc w assms(8,1,9)]) (simp add: loc_path_def)
qed

theorem write_creates_through_link_witness:
  "write_file_execute demo_fenv demo_fs demo_pv (Inr (''/w/d/m/n/f'', ''evil''))
    = (Inr (''Successfully wrote '' @ show_nat (length ''evil'') @ '' bytes to '' @ ''/w/d/m/n/f''),
       demo_fs([''o''] @ [''n''] \<mapsto> DirNode, [''o''] @ [''n'', ''f''] \<mapsto> FileNode ''evil''))"
  by (rule write_creates_through_link [OF demo_tree, where a = "[''w'']" and d = "[''w'', ''d'']" and s = "''m''" and t = "''/o''"])
    (simp_all add: demo_eval strict_prefix_def)

text \<open>A relative path is checked in one place and written in another.  If its parent does not exist in the
  working directory, it is checked as if it lay in the workspace, and then created in the
  working directory, wherever that is.\<close>

theorem relative_write_in_cwd:
  assumes "tree_fs fs" "pv_allowed_dir pv = Some a" "node_at fs a = Some DirNode"
    and "node_at fs (fe_cwd env) = Some DirNode" "os_components p = [Normal x, Normal f]"
    and "fs (fe_cwd env @ [x]) = None"
  shows "write_file_execute env fs pv (Inr (p, content))
    = (Inr (''Successfully wrote '' @ show_nat (length content) @ '' bytes to '' @ p),
       fs(fe_cwd env @ [x] \<mapsto> DirNode, fe_cwd env @ [x, f] \<mapsto> FileNode content))"
proof -
  have os: "os_components p = [] @ [Normal x, Normal f]" using assms(5) by simp
  have pc: "path_components p = [] @ [Normal x, Normal f]" using assms(5) by (simp add: path_components_def)
  have w: "walk False fs MAX_LINKS (fe_cwd env) [] = Some (fe_cwd env)" by simp
  have "write_parent env fs pv p = Inr (loc_path (a @ [x]))"
    using write_parent_missing [OF pc no_parent_yet [OF w assms(4,6)] assms(2)] pc
    by (auto simp: is_absolute_def loc_path_def)
  then have "validate_for_write env fs pv p = Inr p"
    by (rule validate_write_ok [OF _ assms(2) _ assms(1,3)]) (simp add: strict_prefix_def)
  then show ?thesis
    by (rule write_into_new_dir [OF os pc w assms(4,1,6)]) simp
qed

theorem relative_write_in_cwd_witness:
  "write_file_execute demo_fenv demo_fs demo_pv (Inr (''n/f'', ''x''))
    = (Inr (''Successfully wrote '' @ show_nat (length ''x'') @ '' bytes to '' @ ''n/f''),
       demo_fs([''o''] @ [''n''] \<mapsto> DirNode, [''o''] @ [''n'', ''f''] \<mapsto> FileNode ''x''))"
proof -
  have cwd: "[''o''] = fe_cwd demo_fenv" by (simp add: demo_fenv_def)
  show ?thesis
    unfolding cwd by (rule relative_write_in_cwd [OF demo_tree, where a = "[''w'']"]) (simp_all add: demo_eval)
qed

text \<open>A workspace that does not exist when the validator is made is no workspace at all.\<close>

lemma missing_workspace_allows_all:
  "canonicalize env fs p = None \<Longrightarrow> is_path_allowed env fs1 (path_validator_new env fs (Some p)) c"
  by (simp add: path_validator_new_def is_path_allowed_def)

end
