(* ===== verification/Cron.thy ===== *)
theory Cron
  imports Unix_Files Event_Types "HOL-Library.AList"
begin

text \<open>
  Scheduled jobs (engine/src/cron/, storage/src/cron\_store.rs) and the gateway's checker
  (start\_cron\_checker in cli/src/commands/gateway.rs).  A job's configuration is a Markdown
  file, its state a database row.  Parsing of cron expressions and of YAML is third-party: the
  operations of \<open>cron_ops\<close>.  The registry and the table are association lists whose order
  stands for the iteration order of the map.  \<open>now\<close> is the clock, \<open>db_ok\<close> tells whether the
  database answers for a job; a time is stored and read back exactly.
\<close>

section \<open>Data\<close>

record 'j frontmatter =
  fm_name :: "string option"
  fm_cron :: string
  fm_channel :: "string option"
  fm_to :: "string option"
  fm_enabled :: bool
  fm_tool :: "string option"
  fm_tool_args :: "'j option"

record ('j, 's) cron_job =
  cj_id :: string
  cj_name :: string
  cj_cron :: string
  cj_message :: string
  cj_channel :: "string option"
  cj_chat_id :: "string option"
  cj_tool :: "string option"
  cj_tool_args :: "'j option"
  cj_last_run :: "time option"
  cj_next_run :: "time option"
  cj_enabled :: bool
  cj_file_path :: string
  cj_schedule :: "'s option"

text \<open>Parsing an expression, the first scheduled time after a time, YAML in and out, JSON literals.\<close>

record ('j, 's) cron_ops =
  co_parse :: "string \<Rightarrow> 's option"
  co_next :: "'s \<Rightarrow> time \<Rightarrow> time option"
  co_yaml_in :: "string \<Rightarrow> string + 'j frontmatter"
  co_yaml_out :: "'j frontmatter \<Rightarrow> string + string"
  co_json :: "string \<Rightarrow> 'j"

text \<open>A YAML scalar as the value of \<open>enabled\<close>.\<close>

datatype yaml_scalar = YBool bool | YString string | YInt int | YFloat | YOther

definition deserialize_enabled :: "yaml_scalar option \<Rightarrow> string + bool" where
  "deserialize_enabled v = (case v of
      None \<Rightarrow> Inr True
    | Some (YBool b) \<Rightarrow> Inr b
    | Some (YString s) \<Rightarrow>
        (let l = to_lowercase s in
         if l \<in> {''true'', ''1'', ''yes'', ''on''} then Inr True
         else if l \<in> {''false'', ''0'', ''no'', ''off''} then Inr False
         else Inl (''invalid boolean string: '' @ s))
    | Some (YInt i) \<Rightarrow> Inr (i \<noteq> 0)
    | Some YFloat \<Rightarrow> Inl ''invalid boolean number''
    | Some YOther \<Rightarrow> Inl ''expected boolean or string'')"

definition parse_schedule :: "('j, 's) cron_ops \<Rightarrow> time \<Rightarrow> string \<Rightarrow> 's option \<times> time option" where
  "parse_schedule ops now expr = (case co_parse ops expr of
      None \<Rightarrow> (None, None) | Some s \<Rightarrow> (Some s, co_next ops s now))"

definition cron_job_new :: "('j, 's) cron_ops \<Rightarrow> time \<Rightarrow> string \<Rightarrow> string \<Rightarrow> string \<Rightarrow> string \<Rightarrow> ('j, 's) cron_job" where
  "cron_job_new ops now i name cron message = (case parse_schedule ops now cron of
     (schedule, next_run) \<Rightarrow> \<lparr> cj_id = i, cj_name = name, cj_cron = cron, cj_message = message,
       cj_channel = None, cj_chat_id = None, cj_tool = None, cj_tool_args = None, cj_last_run = None,
       cj_next_run = next_run, cj_enabled = True, cj_file_path = [], cj_schedule = schedule \<rparr>)"

definition update_next_run :: "('j, 's) cron_ops \<Rightarrow> time \<Rightarrow> ('j, 's) cron_job \<Rightarrow> ('j, 's) cron_job" where
  "update_next_run ops now j = j \<lparr> cj_next_run := (case cj_schedule j of None \<Rightarrow> None | Some s \<Rightarrow> co_next ops s now) \<rparr>"

definition has_missed_ticks :: "time \<Rightarrow> ('j, 's) cron_job \<Rightarrow> bool" where
  "has_missed_ticks now j = (case cj_next_run j of Some n \<Rightarrow> n \<le> now | None \<Rightarrow> False)"

section \<open>Job files\<close>

definition trim_newlines :: "string \<Rightarrow> string" where
  "trim_newlines s = dropWhile (\<lambda>c. c = NL) s"

definition extract_frontmatter_raw :: "string \<Rightarrow> string + string \<times> string" where
  "extract_frontmatter_raw content0 =
     (let content = trim_start content0 in
      if \<not> starts_with content ''---''
      then Inl (''Invalid markdown format: missing frontmatter start delimiter '' @ squoted ''---'')
      else let after_open = drop 3 content in
        case str_find after_open (NL # ''---'') of
          None \<Rightarrow> Inl (''Invalid markdown format: missing frontmatter end delimiter '' @ squoted ''---'')
        | Some close_pos \<Rightarrow>
            Inr (trim_newlines (take close_pos after_open),
                 trim_start (trim_newlines (drop (close_pos + 4) after_open))))"

definition parse_markdown ::
  "('j, 's) cron_ops \<Rightarrow> time \<Rightarrow> string \<Rightarrow> string \<Rightarrow> string \<Rightarrow> string + ('j, 's) cron_job" where
  "parse_markdown ops now content file_path i =
     bind_res (extract_frontmatter_raw content) (\<lambda>(yaml, body).
       case co_yaml_in ops yaml of
         Inl e \<Rightarrow> Inl (''Failed to parse YAML frontmatter: '' @ e)
       | Inr fm \<Rightarrow> (case parse_schedule ops now (fm_cron fm) of
           (schedule, next_run) \<Rightarrow> Inr \<lparr> cj_id = i,
             cj_name = (case fm_name fm of Some n \<Rightarrow> n | None \<Rightarrow> i), cj_cron = fm_cron fm, cj_message = body,
             cj_channel = fm_channel fm, cj_chat_id = fm_to fm, cj_tool = fm_tool fm,
             cj_tool_args = fm_tool_args fm, cj_last_run = None, cj_next_run = next_run,
             cj_enabled = fm_enabled fm, cj_file_path = file_path, cj_schedule = schedule \<rparr>))"

definition job_frontmatter :: "('j, 's) cron_job \<Rightarrow> 'j frontmatter" where
  "job_frontmatter j = \<lparr> fm_name = Some (cj_name j), fm_cron = cj_cron j,
     fm_channel = Some (case cj_channel j of Some c \<Rightarrow> c | None \<Rightarrow> []),
     fm_to = Some (case cj_chat_id j of Some c \<Rightarrow> c | None \<Rightarrow> []),
     fm_enabled = cj_enabled j, fm_tool = cj_tool j, fm_tool_args = cj_tool_args j \<rparr>"

definition serialize_to_markdown :: "('j, 's) cron_ops \<Rightarrow> ('j, 's) cron_job \<Rightarrow> string + string" where
  "serialize_to_markdown ops j = bind_res (co_yaml_out ops (job_frontmatter j)) (\<lambda>yaml.
     Inr (''---'' @ [NL] @ yaml @ ''---'' @ [NL, NL] @ cj_message j))"

section \<open>The service\<close>

record ('j, 's) cron_service =
  cr_workspace :: string
  cr_jobs :: "(string \<times> ('j, 's) cron_job) list"
  cr_db :: "(string \<times> (time option \<times> time option)) list"
  cr_fs :: file_system

definition registry_insert :: "('j, 's) cron_job \<Rightarrow> ('j, 's) cron_service \<Rightarrow> ('j, 's) cron_service" where
  "registry_insert j st = st \<lparr> cr_jobs := AList.update (cj_id j) j (cr_jobs st) \<rparr>"

definition registry_remove :: "string \<Rightarrow> ('j, 's) cron_service \<Rightarrow> ('j, 's) cron_service" where
  "registry_remove i st = st \<lparr> cr_jobs := AList.delete i (cr_jobs st) \<rparr>"

definition get_job :: "string \<Rightarrow> ('j, 's) cron_service \<Rightarrow> ('j, 's) cron_job option" where
  "get_job i st = map_of (cr_jobs st) i"

definition job_due :: "time \<Rightarrow> ('j, 's) cron_job \<Rightarrow> bool" where
  "job_due now j = (cj_enabled j \<and> (case cj_next_run j of Some n \<Rightarrow> n \<le> now | None \<Rightarrow> False))"

definition get_due_jobs :: "time \<Rightarrow> ('j, 's) cron_service \<Rightarrow> ('j, 's) cron_job list" where
  "get_due_jobs now st = filter (job_due now) (map snd (cr_jobs st))"

definition DB_ERROR :: string where "DB_ERROR = ''database error''"

definition save_state ::
  "(string \<Rightarrow> bool) \<Rightarrow> string \<Rightarrow> time option \<Rightarrow> time option \<Rightarrow> ('j, 's) cron_service
    \<Rightarrow> (string + unit) \<times> ('j, 's) cron_service" where
  "save_state db_ok i last_run next_run st =
     (if db_ok i then (Inr (), st \<lparr> cr_db := AList.update i (last_run, next_run) (cr_db st) \<rparr>)
      else (Inl DB_ERROR, st))"

definition restore_state ::
  "(string \<Rightarrow> bool) \<Rightarrow> string \<Rightarrow> ('j, 's) cron_service \<Rightarrow> string + (time option \<times> time option) option" where
  "restore_state db_ok i st =
     (if db_ok i then Inr (map_of (cr_db st) i)
      else Inl (''Failed to load cron state for '' @ i @ '': '' @ DB_ERROR))"

definition delete_state :: "(string \<Rightarrow> bool) \<Rightarrow> string \<Rightarrow> ('j, 's) cron_service \<Rightarrow> ('j, 's) cron_service" where
  "delete_state db_ok i st = (if db_ok i then st \<lparr> cr_db := AList.delete i (cr_db st) \<rparr> else st)"

definition parse_and_restore ::
  "fs_env \<Rightarrow> ('j, 's) cron_ops \<Rightarrow> time \<Rightarrow> (string \<Rightarrow> bool) \<Rightarrow> string \<Rightarrow> string \<Rightarrow> ('j, 's) cron_service
    \<Rightarrow> (string + ('j, 's) cron_job) \<times> ('j, 's) cron_service" where
  "parse_and_restore env ops now db_ok path i st =
     (case (case read_to_string env (cr_fs st) path of
              None \<Rightarrow> Inl (fe_error env path) | Some content \<Rightarrow> parse_markdown ops now content path i) of
        Inl e \<Rightarrow> (Inl e, st)
      | Inr j \<Rightarrow>
          (case restore_state db_ok i st of
             Inl e \<Rightarrow> (Inl e, st)
           | Inr (Some (last_run, next_run)) \<Rightarrow>
               (Inr (j \<lparr> cj_last_run := last_run, cj_next_run := next_run \<rparr>), st)
           | Inr None \<Rightarrow>
               (Inr j, case cj_next_run j of None \<Rightarrow> st | Some n \<Rightarrow> snd (save_state db_ok i None (Some n) st))))"

definition cron_dir :: "('j, 's) cron_service \<Rightarrow> string" where
  "cron_dir st = path_join (cr_workspace st) ''cron''"

text \<open>The Markdown files of the directory: path and stem.\<close>

definition md_files :: "fs_env \<Rightarrow> ('j, 's) cron_service \<Rightarrow> (string \<times> string) list" where
  "md_files env st = (case canonicalize env (cr_fs st) (cron_dir st) of
      Some d \<Rightarrow> if node_at (cr_fs st) d = Some DirNode
        then map (\<lambda>n. (path_join (cron_dir st) n, fst (stem_ext n)))
               (filter (\<lambda>n. snd (stem_ext n) = Some ''md'') (fe_entries env (cr_fs st) d))
        else []
    | None \<Rightarrow> [])"

definition load_job ::
  "fs_env \<Rightarrow> ('j, 's) cron_ops \<Rightarrow> time \<Rightarrow> (string \<Rightarrow> bool) \<Rightarrow> string \<times> string \<Rightarrow> ('j, 's) cron_service \<Rightarrow> ('j, 's) cron_service" where
  "load_job env ops now db_ok f st = (case parse_and_restore env ops now db_ok (fst f) (snd f) st of
      (Inr j, st1) \<Rightarrow> registry_insert j st1 | (Inl e, st1) \<Rightarrow> st1)"

definition load_all_jobs ::
  "fs_env \<Rightarrow> ('j, 's) cron_ops \<Rightarrow> time \<Rightarrow> (string \<Rightarrow> bool) \<Rightarrow> ('j, 's) cron_service \<Rightarrow> ('j, 's) cron_service" where
  "load_all_jobs env ops now db_ok st =
     (if canonicalize env (cr_fs st) (cron_dir st) = None
      then st \<lparr> cr_fs := snd (create_dir_all env (cr_fs st) (path_components (cron_dir st))) \<rparr>
      else fold (load_job env ops now db_ok) (md_files env st) st)"

definition cron_service_new ::
  "fs_env \<Rightarrow> ('j, 's) cron_ops \<Rightarrow> time \<Rightarrow> (string \<Rightarrow> bool) \<Rightarrow> string
    \<Rightarrow> (string \<times> (time option \<times> time option)) list \<Rightarrow> file_system \<Rightarrow> ('j, 's) cron_service" where
  "cron_service_new env ops now db_ok workspace db fs =
     load_all_jobs env ops now db_ok \<lparr> cr_workspace = workspace, cr_jobs = [], cr_db = db, cr_fs = fs \<rparr>"

section \<open>Reloading\<close>

record refresh_report =
  rr_loaded :: nat
  rr_updated :: nat
  rr_removed :: nat
  rr_errors :: nat

definition reload_job ::
  "fs_env \<Rightarrow> ('j, 's) cron_ops \<Rightarrow> time \<Rightarrow> (string \<Rightarrow> bool) \<Rightarrow> string \<times> string
    \<Rightarrow> refresh_report \<times> ('j, 's) cron_service \<Rightarrow> refresh_report \<times> ('j, 's) cron_service" where
  "reload_job env ops now db_ok f acc = (case acc of (rep, st) \<Rightarrow>
     (case parse_and_restore env ops now db_ok (fst f) (snd f) st of
        (Inr j, st1) \<Rightarrow>
          (if get_job (snd f) st \<noteq> None then rep \<lparr> rr_updated := Suc (rr_updated rep) \<rparr>
           else rep \<lparr> rr_loaded := Suc (rr_loaded rep) \<rparr>, registry_insert j st1)
      | (Inl e, st1) \<Rightarrow> (rep \<lparr> rr_errors := Suc (rr_errors rep) \<rparr>, st1)))"

definition gc_orphaned :: "string list \<Rightarrow> ('j, 's) cron_service \<Rightarrow> string list \<times> ('j, 's) cron_service" where
  "gc_orphaned ids st = (let orphaned = filter (\<lambda>i. i \<notin> set ids) (map fst (cr_jobs st)) in
     (orphaned, fold registry_remove orphaned st))"

definition refresh_all_jobs ::
  "fs_env \<Rightarrow> ('j, 's) cron_ops \<Rightarrow> time \<Rightarrow> (string \<Rightarrow> bool) \<Rightarrow> ('j, 's) cron_service
    \<Rightarrow> refresh_report \<times> ('j, 's) cron_service" where
  "refresh_all_jobs env ops now db_ok st =
     (let files = md_files env st;
          good = filter (\<lambda>f. canonicalize env (cr_fs st) (fst f) \<noteq> None) files;
          rep0 = \<lparr> rr_loaded = 0, rr_updated = 0, rr_removed = 0, rr_errors = length files - length good \<rparr> in
      case fold (reload_job env ops now db_ok) good (rep0, st) of
        (rep, st1) \<Rightarrow>
          (case gc_orphaned (map snd (md_files env st1)) st1 of
             (orphaned, st2) \<Rightarrow> (rep \<lparr> rr_removed := length orphaned \<rparr>, fold (delete_state db_ok) orphaned st2)))"

section \<open>Adding and removing\<close>

definition atomic_write :: "fs_env \<Rightarrow> file_system \<Rightarrow> string \<Rightarrow> string \<Rightarrow> bool \<times> file_system" where
  "atomic_write env fs p content = (let tmp = with_extension p ''tmp'' in
     case fs_write env fs tmp content of
       None \<Rightarrow> (False, fs)
     | Some fs1 \<Rightarrow> (case rename_file env fs1 tmp p of None \<Rightarrow> (False, fs1) | Some fs2 \<Rightarrow> (True, fs2)))"

definition job_file :: "string \<Rightarrow> ('j, 's) cron_service \<Rightarrow> string" where
  "job_file i st = path_join (cron_dir st) (i @ ''.md'')"

definition add_job ::
  "fs_env \<Rightarrow> ('j, 's) cron_ops \<Rightarrow> (string \<Rightarrow> bool) \<Rightarrow> ('j, 's) cron_job \<Rightarrow> ('j, 's) cron_service
    \<Rightarrow> (string + unit) \<times> ('j, 's) cron_service" where
  "add_job env ops db_ok j st =
     (case (if canonicalize env (cr_fs st) (cron_dir st) = None
            then create_dir_all env (cr_fs st) (path_components (cron_dir st)) else (True, cr_fs st)) of
        (False, fs1) \<Rightarrow> (Inl (fe_error env (cron_dir st)), st \<lparr> cr_fs := fs1 \<rparr>)
      | (True, fs1) \<Rightarrow>
          (case serialize_to_markdown ops j of
             Inl e \<Rightarrow> (Inl e, st \<lparr> cr_fs := fs1 \<rparr>)
           | Inr content \<Rightarrow>
               (case atomic_write env fs1 (job_file (cj_id j) st) content of
                  (False, fs2) \<Rightarrow> (Inl (fe_error env (job_file (cj_id j) st)), st \<lparr> cr_fs := fs2 \<rparr>)
                | (True, fs2) \<Rightarrow>
                    (let st1 = registry_insert j (st \<lparr> cr_fs := fs2 \<rparr>) in
                     (Inr (), case cj_next_run j of
                        Some n \<Rightarrow> snd (save_state db_ok (cj_id j) None (Some n) st1) | None \<Rightarrow> st1)))))"

definition remove_job ::
  "fs_env \<Rightarrow> (string \<Rightarrow> bool) \<Rightarrow> string \<Rightarrow> ('j, 's) cron_service \<Rightarrow> (string + bool) \<times> ('j, 's) cron_service" where
  "remove_job env db_ok i st =
     (let st1 = delete_state db_ok i st; p = job_file i st in
      if canonicalize env (cr_fs st) p = None
      then (Inr (get_job i st \<noteq> None), registry_remove i st1)
      else let st2 = registry_remove i st1 in
        case remove_file env (cr_fs st) p of
          None \<Rightarrow> (Inl (fe_error env p), st2)
        | Some fs1 \<Rightarrow> (Inr True, st2 \<lparr> cr_fs := fs1 \<rparr>))"

section \<open>Ticks\<close>

definition advance_job_tick ::
  "('j, 's) cron_ops \<Rightarrow> time \<Rightarrow> (string \<Rightarrow> bool) \<Rightarrow> string \<Rightarrow> ('j, 's) cron_service
    \<Rightarrow> (string + time \<times> time) \<times> ('j, 's) cron_service" where
  "advance_job_tick ops now db_ok i st =
     (case get_job i st of
        None \<Rightarrow> (Inl (''Job not found: '' @ i), st)
      | Some j0 \<Rightarrow>
          (let j = j0 \<lparr> cj_last_run := Some now \<rparr>;
               touched = st \<lparr> cr_jobs := AList.update i j (cr_jobs st) \<rparr> in
           case cj_schedule j of
             None \<Rightarrow> (Inl (''Job '' @ i @ '' has no valid schedule''), touched)
           | Some s \<Rightarrow>
               (case co_next ops s now of
                  None \<Rightarrow> (Inl (''Failed to calculate next run for job '' @ i), touched)
                | Some n \<Rightarrow>
                    (case save_state db_ok i (Some now) (Some n)
                            (st \<lparr> cr_jobs := AList.update i (j \<lparr> cj_next_run := Some n \<rparr>) (cr_jobs st) \<rparr>) of
                       (Inl e, st1) \<Rightarrow> (Inl e, st1)
                     | (Inr _, st1) \<Rightarrow> (Inr (now, n), st1)))))"

definition refresh_one ::
  "('j, 's) cron_ops \<Rightarrow> time \<Rightarrow> (string \<Rightarrow> bool) \<Rightarrow> string \<Rightarrow> ('j, 's) cron_service
    \<Rightarrow> (string + string \<times> string \<times> time option) \<times> ('j, 's) cron_service" where
  "refresh_one ops now db_ok i st =
     (case get_job i st of
        None \<Rightarrow> (Inl (''Job not found: '' @ i), st)
      | Some j0 \<Rightarrow>
          (let j = update_next_run ops now j0;
               st1 = st \<lparr> cr_jobs := AList.update i j (cr_jobs st) \<rparr>;
               entry = (i, cj_name j, cj_next_run j) in
           case cj_next_run j of
             None \<Rightarrow> (Inr entry, st1)
           | Some n \<Rightarrow> (case save_state db_ok i (cj_last_run j) (Some n) st1 of
               (Inl e, st2) \<Rightarrow> (Inl e, st2) | (Inr _, st2) \<Rightarrow> (Inr entry, st2))))"

text \<open>For all jobs, a failure to save is only logged.\<close>

definition refresh_logged ::
  "('j, 's) cron_ops \<Rightarrow> time \<Rightarrow> (string \<Rightarrow> bool) \<Rightarrow> string
    \<Rightarrow> (string \<times> string \<times> time option) list \<times> ('j, 's) cron_service
    \<Rightarrow> (string \<times> string \<times> time option) list \<times> ('j, 's) cron_service" where
  "refresh_logged ops now db_ok i acc = (case acc of (rs, st) \<Rightarrow>
     (case get_job i st of
        None \<Rightarrow> (rs, st)
      | Some j0 \<Rightarrow> (let j = update_next_run ops now j0 in
          (rs @ [(i, cj_name j, cj_next_run j)], snd (refresh_one ops now db_ok i st)))))"

definition refresh_next_run ::
  "('j, 's) cron_ops \<Rightarrow> time \<Rightarrow> (string \<Rightarrow> bool) \<Rightarrow> string option \<Rightarrow> ('j, 's) cron_service
    \<Rightarrow> (string + (string \<times> string \<times> time option) list) \<times> ('j, 's) cron_service" where
  "refresh_next_run ops now db_ok job_id st =
     (case job_id of
        Some i \<Rightarrow> (case refresh_one ops now db_ok i st of
            (Inl e, st1) \<Rightarrow> (Inl e, st1) | (Inr x, st1) \<Rightarrow> (Inr [x], st1))
      | None \<Rightarrow> (case fold (refresh_logged ops now db_ok) (map fst (cr_jobs st)) ([], st) of
            (rs, st1) \<Rightarrow> (Inr rs, st1)))"

definition system_jobs :: "('j, 's) cron_ops \<Rightarrow> (string \<times> string \<times> string \<times> string \<times> 'j option) list" where
  "system_jobs ops =
     [(''system-wiki-decay'', ''Wiki Decay'', ''0 0 */6 * * * *'', ''wiki_decay'', None),
      (''system-wiki-refresh'', ''Wiki Refresh'', ''0 0 */3 * * * *'', ''wiki_refresh'',
        Some (co_json ops ''{\"action\": \"sync\"}'')),
      (''system-cron-refresh'', ''Cron Reload'', ''0 0 * * * * *'', ''cron'',
        Some (co_json ops ''{\"action\": \"refresh\"}'')),
      (''system-evolution'', ''Evolution'', ''0 0 * * * * *'', ''evolution'',
        Some (co_json ops ''{\"threshold\": 20}''))]"

definition ensure_system_job where
  "ensure_system_job env ops now db_ok x st = (case x of (i, name, expr, tool, args) \<Rightarrow>
     if get_job i st \<noteq> None then st
     else snd (add_job env ops db_ok
       ((cron_job_new ops now i name expr ''system maintenance'') \<lparr> cj_tool := Some tool, cj_tool_args := args \<rparr>) st))"

definition ensure_system_cron_jobs where
  "ensure_system_cron_jobs env ops now db_ok st = fold (ensure_system_job env ops now db_ok) (system_jobs ops) st"

section \<open>The checker\<close>

text \<open>What a due job starts: a tool call whose result goes out, a broadcast, or a message to
  the agent.  \<open>parse_channel\<close> is serde's reading of a channel name.\<close>

datatype 'j cron_action =
    CallTool string "'j" channel_type string bool
  | BroadcastMessage "string outbound_message"
  | AskAgent inbound_message

definition cron_action_of :: "(string \<Rightarrow> channel_type option) \<Rightarrow> 'j \<Rightarrow> time \<Rightarrow> ('j, 's) cron_job \<Rightarrow> 'j cron_action" where
  "cron_action_of parse_channel no_args now j =
     (let channel = (case cj_channel j of None \<Rightarrow> Cli
            | Some c \<Rightarrow> (case parse_channel c of Some x \<Rightarrow> x | None \<Rightarrow> Cli));
          chat_id = (case cj_chat_id j of Some c \<Rightarrow> c | None \<Rightarrow> ''cron'');
          broadcast = (chat_id = ''*'') in
      case cj_tool j of
        Some t \<Rightarrow> CallTool t (case cj_tool_args j of Some a \<Rightarrow> a | None \<Rightarrow> no_args) channel chat_id broadcast
      | None \<Rightarrow>
          if broadcast then BroadcastMessage (outbound_broadcast channel (cj_message j))
          else AskAgent \<lparr> im_channel = channel, im_sender_id = ''cron'', im_chat_id = chat_id,
            im_content = cj_message j, im_media = None, im_metadata = None, im_timestamp = now, im_trace_id = None \<rparr>)"

definition cron_tool_reply :: "channel_type \<Rightarrow> string \<Rightarrow> bool \<Rightarrow> string + string \<Rightarrow> string outbound_message" where
  "cron_tool_reply channel chat_id broadcast r =
     (let content = (case r of Inr s \<Rightarrow> s | Inl e \<Rightarrow> ''Cron job error: '' @ e) in
      if broadcast then outbound_broadcast channel content else outbound_new channel chat_id content)"

text \<open>One poll: the due jobs are collected, then each is started and its tick advanced.
  \<open>clock k\<close> is the time when the k-th of them is advanced, \<open>effect\<close> what running it does to the
  service (the \<open>cron\<close> tool can change it).\<close>

fun run_due ::
  "('j, 's) cron_ops \<Rightarrow> (nat \<Rightarrow> time) \<Rightarrow> (string \<Rightarrow> bool)
    \<Rightarrow> (('j, 's) cron_job \<Rightarrow> ('j, 's) cron_service \<Rightarrow> ('j, 's) cron_service) \<Rightarrow> nat \<Rightarrow> ('j, 's) cron_job list
    \<Rightarrow> ('j, 's) cron_service \<Rightarrow> ('j, 's) cron_service" where
  "run_due ops clock db_ok effect k [] st = st"
| "run_due ops clock db_ok effect k (j # js) st =
     run_due ops clock db_ok effect (Suc k) js
       (snd (advance_job_tick ops (clock k) db_ok (cj_id j) (effect j st)))"

definition cron_poll ::
  "('j, 's) cron_ops \<Rightarrow> time \<Rightarrow> (nat \<Rightarrow> time) \<Rightarrow> (string \<Rightarrow> bool)
    \<Rightarrow> (('j, 's) cron_job \<Rightarrow> ('j, 's) cron_service \<Rightarrow> ('j, 's) cron_service) \<Rightarrow> ('j, 's) cron_service
    \<Rightarrow> ('j, 's) cron_job list \<times> ('j, 's) cron_service" where
  "cron_poll ops now clock db_ok effect st =
     (let due = get_due_jobs now st in (due, run_due ops clock db_ok effect 0 due st))"

end
