(* ===== verification/Cron_Proofs.thy ===== *)
theory Cron_Proofs
  imports Cron
begin

text \<open>
  What the scheduler promises: a job runs at most once per scheduled time, over polls,
  reloads and restarts; and where it does not hold: an edited schedule waits for the old
  tick, an invalid one makes the job run at every poll, and removing a job can delete files
  elsewhere.
\<close>

section \<open>Runs of the service\<close>

datatype cron_event = Poll time "nat \<Rightarrow> time" | Reload time | Restart time

definition cron_event_step ::
  "fs_env \<Rightarrow> ('j, 's) cron_ops \<Rightarrow> (string \<Rightarrow> bool)
    \<Rightarrow> (('j, 's) cron_job \<Rightarrow> ('j, 's) cron_service \<Rightarrow> ('j, 's) cron_service) \<Rightarrow> cron_event
    \<Rightarrow> ('j, 's) cron_service \<Rightarrow> ('j, 's) cron_service" where
  "cron_event_step env ops db_ok effect e st = (case e of
      Poll now clock \<Rightarrow> snd (cron_poll ops now clock db_ok effect st)
    | Reload now \<Rightarrow> snd (refresh_all_jobs env ops now db_ok st)
    | Restart now \<Rightarrow> cron_service_new env ops now db_ok (cr_workspace st) (cr_db st) (cr_fs st))"

text \<open>The times of the polls that start a job.\<close>

definition starts_at :: "string \<Rightarrow> cron_event \<Rightarrow> ('j, 's) cron_service \<Rightarrow> time list" where
  "starts_at i e st = (case e of
      Poll now clock \<Rightarrow> if i \<in> set (map cj_id (get_due_jobs now st)) then [now] else []
    | _ \<Rightarrow> [])"

fun cron_history ::
  "fs_env \<Rightarrow> ('j, 's) cron_ops \<Rightarrow> (string \<Rightarrow> bool)
    \<Rightarrow> (('j, 's) cron_job \<Rightarrow> ('j, 's) cron_service \<Rightarrow> ('j, 's) cron_service) \<Rightarrow> string \<Rightarrow> cron_event list
    \<Rightarrow> ('j, 's) cron_service \<Rightarrow> time list" where
  "cron_history env ops db_ok effect i [] st = []"
| "cron_history env ops db_ok effect i (e # evs) st =
     starts_at i e st @ cron_history env ops db_ok effect i evs (cron_event_step env ops db_ok effect e st)"

section \<open>Lookups\<close>

lemma map_of_update: "map_of (AList.update k v xs) k1 = (if k1 = k then Some v else map_of xs k1)"
  by (simp add: update_conv')

lemma map_of_delete: "map_of (AList.delete k xs) k1 = (if k1 = k then None else map_of xs k1)"
  by (simp add: delete_conv')

text \<open>The registry: keys are the jobs' identifiers, each once.\<close>

definition keyed :: "('j, 's) cron_service \<Rightarrow> bool" where
  "keyed st = (distinct (map fst (cr_jobs st)) \<and> (\<forall>k j. get_job k st = Some j \<longrightarrow> cj_id j = k))"

lemma keyed_update:
  "keyed st \<Longrightarrow> cj_id j = i \<Longrightarrow> keyed (st \<lparr> cr_jobs := AList.update i j (cr_jobs st) \<rparr>)"
  by (simp add: keyed_def get_job_def map_of_update distinct_update)

lemma keyed_delete: "keyed st \<Longrightarrow> keyed (registry_remove i st)"
  by (simp add: keyed_def get_job_def registry_remove_def map_of_delete distinct_delete)

lemma keyed_cong: "cr_jobs st = cr_jobs st1 \<Longrightarrow> keyed st = keyed st1"
  by (simp add: keyed_def get_job_def)

text \<open>What concerns one job, and where its file is.\<close>

definition view where
  "view i st = (get_job i st, map_of (cr_db st) i, cr_fs st, cr_workspace st)"

lemma due_iff:
  assumes "keyed st"
  shows "i \<in> set (map cj_id (get_due_jobs now st)) \<longleftrightarrow> (\<exists>j. get_job i st = Some j \<and> job_due now j)"
proof -
  have "(k, j) \<in> set (cr_jobs st) \<longleftrightarrow> get_job k st = Some j" for k j
    using assms by (simp add: keyed_def get_job_def)
  then show ?thesis using assms by (force simp: get_due_jobs_def keyed_def)
qed

lemma due_distinct:
  assumes "keyed st"
  shows "distinct (map cj_id (get_due_jobs now st))"
proof -
  have "map (cj_id \<circ> snd) (cr_jobs st) = map fst (cr_jobs st)"
    using assms by (auto simp: keyed_def get_job_def)
  moreover have "distinct (map fst (cr_jobs st))" using assms by (simp add: keyed_def)
  ultimately have "distinct (map cj_id (map snd (cr_jobs st)))" unfolding map_map by (simp only:)
  then show ?thesis unfolding get_due_jobs_def by (rule distinct_map_filter)
qed

section \<open>Ticks\<close>

lemma advance_other:
  "i \<noteq> k \<Longrightarrow> view i (snd (advance_job_tick ops now db_ok k st)) = view i st"
  by (auto simp: advance_job_tick_def view_def get_job_def save_state_def map_of_update Let_def split: option.splits)

lemma advance_self:
  assumes "get_job i st = Some j" "cj_schedule j = Some s" "co_next ops s now = Some n" "db_ok i"
  shows "view i (snd (advance_job_tick ops now db_ok i st))
    = (Some (j \<lparr> cj_last_run := Some now, cj_next_run := Some n \<rparr>), Some (Some now, Some n), cr_fs st, cr_workspace st)"
  using assms by (simp add: advance_job_tick_def view_def get_job_def save_state_def map_of_update Let_def)

lemma advance_jobs:
  "cr_jobs (snd (advance_job_tick ops now db_ok k st)) = cr_jobs st
   \<or> (\<exists>j j0. get_job k st = Some j0 \<and> cj_id j = cj_id j0
        \<and> cr_jobs (snd (advance_job_tick ops now db_ok k st)) = AList.update k j (cr_jobs st))"
proof (cases "get_job k st")
  case (Some j0)
  have "\<exists>j. cj_id j = cj_id j0 \<and> cr_jobs (snd (advance_job_tick ops now db_ok k st)) = AList.update k j (cr_jobs st)"
  proof (cases "cj_schedule j0")
    case None
    show ?thesis
      by (intro exI [of _ "j0 \<lparr> cj_last_run := Some now \<rparr>"]) (simp add: advance_job_tick_def Some None Let_def)
  next
    case s: (Some s)
    show ?thesis
    proof (cases "co_next ops s now")
      case None
      show ?thesis
        by (intro exI [of _ "j0 \<lparr> cj_last_run := Some now \<rparr>"]) (simp add: advance_job_tick_def Some s None Let_def)
    next
      case n: (Some n)
      show ?thesis
        by (intro exI [of _ "j0 \<lparr> cj_last_run := Some now, cj_next_run := Some n \<rparr>"])
          (simp add: advance_job_tick_def save_state_def Some s n Let_def)
    qed
  qed
  then show ?thesis using Some by blast
qed (simp add: advance_job_tick_def)

lemma advance_keyed:
  assumes "keyed st"
  shows "keyed (snd (advance_job_tick ops now db_ok k st))"
  using advance_jobs [of ops now db_ok k st]
proof
  assume "cr_jobs (snd (advance_job_tick ops now db_ok k st)) = cr_jobs st"
  then show ?thesis using keyed_cong assms by blast
next
  assume "\<exists>j j0. get_job k st = Some j0 \<and> cj_id j = cj_id j0
        \<and> cr_jobs (snd (advance_job_tick ops now db_ok k st)) = AList.update k j (cr_jobs st)"
  then obtain j j0 where j: "get_job k st = Some j0" "cj_id j = cj_id j0"
      "cr_jobs (snd (advance_job_tick ops now db_ok k st)) = AList.update k j (cr_jobs st)" by blast
  have "cj_id j = k" using assms j(1,2) by (simp add: keyed_def)
  then have "keyed (st \<lparr> cr_jobs := AList.update k j (cr_jobs st) \<rparr>)" by (rule keyed_update [OF assms])
  then show ?thesis by (rule iffD1 [OF keyed_cong, rotated]) (simp add: j(3))
qed

definition benign ::
  "string \<Rightarrow> (('j, 's) cron_job \<Rightarrow> ('j, 's) cron_service \<Rightarrow> ('j, 's) cron_service) \<Rightarrow> bool" where
  "benign i effect = (\<forall>j st. view i (effect j st) = view i st \<and> (keyed st \<longrightarrow> keyed (effect j st)))"

lemma run_due_other:
  "benign i effect \<Longrightarrow> i \<notin> set (map cj_id js) \<Longrightarrow> view i (run_due ops clock db_ok effect k js st) = view i st"
proof (induction js arbitrary: k st)
  case (Cons j js)
  then show ?case by (simp add: benign_def advance_other)
qed simp

lemma run_due_keyed:
  "benign i effect \<Longrightarrow> keyed st \<Longrightarrow> keyed (run_due ops clock db_ok effect k js st)"
  by (induction js arbitrary: k st) (simp_all add: benign_def advance_keyed)

lemma run_due_append:
  "run_due ops clock db_ok effect k (js @ ks) st
    = run_due ops clock db_ok effect (k + length js) ks (run_due ops clock db_ok effect k js st)"
  by (induction js arbitrary: k st) simp_all

text \<open>A job that a poll starts: its tick is advanced once.\<close>

lemma poll_started:
  assumes "keyed st" "benign i effect" "get_job i st = Some j" "job_due now j"
  shows "\<exists>m st1. view i st1 = view i st \<and> view i (snd (cron_poll ops now clock db_ok effect st))
    = view i (snd (advance_job_tick ops (clock m) db_ok i st1))"
proof -
  have "i \<in> set (map cj_id (get_due_jobs now st))" using due_iff [OF assms(1)] assms(3,4) by blast
  then obtain x where "x \<in> set (get_due_jobs now st)" "cj_id x = i" by auto
  then obtain js ks where due: "get_due_jobs now st = js @ x # ks" by (metis split_list)
  have "distinct (map cj_id (js @ x # ks))" using due_distinct [OF assms(1), of now] due by simp
  then have out: "i \<notin> set (map cj_id js)" "i \<notin> set (map cj_id ks)" using \<open>cj_id x = i\<close> by auto
  let ?m = "length js" and ?st1 = "effect x (run_due ops clock db_ok effect 0 js st)"
  have "view i ?st1 = view i st"
    using run_due_other [OF assms(2) out(1)] assms(2) by (simp add: benign_def)
  moreover have "snd (cron_poll ops now clock db_ok effect st) = run_due ops clock db_ok effect (Suc ?m) ks
      (snd (advance_job_tick ops (clock ?m) db_ok i ?st1))"
    using \<open>cj_id x = i\<close> by (simp add: cron_poll_def due run_due_append Let_def)
  ultimately show ?thesis using run_due_other [OF assms(2) out(2)] by metis
qed

lemma poll_not_started:
  assumes "keyed st" "benign i effect" "\<And>j. get_job i st = Some j \<Longrightarrow> \<not> job_due now j"
  shows "view i (snd (cron_poll ops now clock db_ok effect st)) = view i st"
proof -
  have "i \<notin> set (map cj_id (get_due_jobs now st))" using due_iff [OF assms(1)] assms(3) by blast
  then show ?thesis using run_due_other [OF assms(2)] by (simp add: cron_poll_def Let_def)
qed

lemma poll_keyed: "keyed st \<Longrightarrow> benign i effect \<Longrightarrow> keyed (snd (cron_poll ops now clock db_ok effect st))"
  by (simp add: cron_poll_def Let_def run_due_keyed)

section \<open>Reading the files again\<close>

text \<open>The file of a job reads as one with the given schedule and switch.\<close>

definition configured ::
  "fs_env \<Rightarrow> ('j, 's) cron_ops \<Rightarrow> string \<Rightarrow> 's option \<Rightarrow> bool \<Rightarrow> ('j, 's) cron_service \<Rightarrow> bool" where
  "configured env ops i sched en st = (i \<in> set (map snd (md_files env st)) \<and>
     (\<forall>path now. (path, i) \<in> set (md_files env st) \<longrightarrow> canonicalize env (cr_fs st) path \<noteq> None \<and>
       (\<exists>content j. read_to_string env (cr_fs st) path = Some content \<and> parse_markdown ops now content path i = Inr j
          \<and> cj_schedule j = sched \<and> cj_enabled j = en)))"

lemma md_files_cong: "cr_fs st = cr_fs st1 \<Longrightarrow> cr_workspace st = cr_workspace st1 \<Longrightarrow> md_files env st = md_files env st1"
  by (simp add: md_files_def cron_dir_def split: option.split)

lemma configured_cong:
  "cr_fs st = cr_fs st1 \<Longrightarrow> cr_workspace st = cr_workspace st1 \<Longrightarrow>
     configured env ops i sched en st = configured env ops i sched en st1"
  using md_files_cong [of st st1 env] by (simp add: configured_def)

lemma parse_markdown_id: "parse_markdown ops now content path k = Inr j \<Longrightarrow> cj_id j = k"
  by (cases "extract_frontmatter_raw content"; cases "parse_schedule ops now (fm_cron (projr (co_yaml_in ops (fst (projr (extract_frontmatter_raw content))))))")
    (auto simp: parse_markdown_def split: sum.splits)

lemma parse_and_restore_id:
  "parse_and_restore env ops now db_ok path k st = (Inr j, st1) \<Longrightarrow> cj_id j = k"
  by (auto simp: parse_and_restore_def dest: parse_markdown_id split: sum.splits option.splits prod.splits)

lemma parse_and_restore_state:
  assumes "parse_and_restore env ops now db_ok path k st = (r, st1)"
  shows "cr_jobs st1 = cr_jobs st" "cr_fs st1 = cr_fs st" "cr_workspace st1 = cr_workspace st"
    "i \<noteq> k \<Longrightarrow> map_of (cr_db st1) i = map_of (cr_db st) i"
  using assms by (auto simp: parse_and_restore_def save_state_def map_of_update split: sum.splits option.splits prod.splits if_splits)

lemma parse_and_restore_stored:
  assumes "configured env ops i sched en st" "(path, i) \<in> set (md_files env st)" "db_ok i"
    and "map_of (cr_db st) i = Some (l, n)"
  shows "\<exists>j. parse_and_restore env ops now db_ok path i st = (Inr j, st) \<and> cj_schedule j = sched \<and> cj_enabled j = en
    \<and> cj_last_run j = l \<and> cj_next_run j = n"
proof -
  obtain content j where "read_to_string env (cr_fs st) path = Some content" "parse_markdown ops now content path i = Inr j"
      "cj_schedule j = sched" "cj_enabled j = en"
    using assms(1,2) unfolding configured_def by blast
  then show ?thesis using assms(3,4) by (simp add: parse_and_restore_def restore_state_def)
qed

text \<open>A job read with its stored state.\<close>

definition restored ::
  "string \<Rightarrow> 's option \<Rightarrow> bool \<Rightarrow> time option \<Rightarrow> time option \<Rightarrow> ('j, 's) cron_service \<Rightarrow> bool" where
  "restored i sched en l n st = (\<exists>j. get_job i st = Some j \<and> cj_schedule j = sched \<and> cj_enabled j = en
     \<and> cj_last_run j = l \<and> cj_next_run j = n)"

definition same_place where
  "same_place st st1 = (cr_fs st1 = cr_fs st \<and> cr_workspace st1 = cr_workspace st)"

lemma load_job_inv:
  assumes "configured env ops i sched en st" "f \<in> set (md_files env st)" "db_ok i" "keyed st"
    and "map_of (cr_db st) i = Some (l, n)"
  shows "keyed (load_job env ops now db_ok f st) \<and> same_place st (load_job env ops now db_ok f st)
    \<and> map_of (cr_db (load_job env ops now db_ok f st)) i = Some (l, n)
    \<and> (if snd f = i then restored i sched en l n (load_job env ops now db_ok f st)
       else get_job i (load_job env ops now db_ok f st) = get_job i st)"
proof -
  obtain path k where f: "f = (path, k)" by fastforce
  obtain r st1 where p: "parse_and_restore env ops now db_ok path k st = (r, st1)" by fastforce
  note state = parse_and_restore_state [OF p]
  have keyed1: "keyed st1" using assms(4) keyed_cong state(1) by metis
  have stored: "\<exists>j. r = Inr j \<and> st1 = st \<and> cj_schedule j = sched \<and> cj_enabled j = en \<and> cj_last_run j = l \<and> cj_next_run j = n"
    if "k = i"
  proof -
    have "(path, i) \<in> set (md_files env st)" using assms(2) f that by simp
    then obtain j where "parse_and_restore env ops now db_ok path i st = (Inr j, st)" "cj_schedule j = sched"
        "cj_enabled j = en" "cj_last_run j = l" "cj_next_run j = n"
      using parse_and_restore_stored [where now = now and db_ok = db_ok and i = i and path = path, OF assms(1) _ assms(3,5)]
      by blast
    then show ?thesis using p that by auto
  qed
  have db: "map_of (cr_db st1) i = Some (l, n)" using stored assms(5) state(4) [of i] by metis
  show ?thesis
  proof (cases r)
    case (Inl e)
    then have "k \<noteq> i" using stored by auto
    then show ?thesis using f p Inl keyed1 state db by (simp add: load_job_def same_place_def get_job_def)
  next
    case (Inr j)
    have j: "cj_id j = k" using parse_and_restore_id p Inr by metis
    have load: "load_job env ops now db_ok f st = registry_insert j st1" using f p Inr by (simp add: load_job_def)
    have "keyed (registry_insert j st1)" unfolding registry_insert_def by (rule keyed_update [OF keyed1 refl])
    moreover have "restored i sched en l n (registry_insert j st1)" if "k = i"
      using stored Inr j that by (auto simp: restored_def registry_insert_def get_job_def map_of_update)
    ultimately show ?thesis
      unfolding load using f j state db
      by (simp add: same_place_def registry_insert_def get_job_def map_of_update)
  qed
qed

lemma load_jobs_inv:
  assumes "configured env ops i sched en st" "set fs \<subseteq> set (md_files env st)" "db_ok i" "keyed st"
    and "map_of (cr_db st) i = Some (l, n)"
  shows "keyed (fold (load_job env ops now db_ok) fs st) \<and> same_place st (fold (load_job env ops now db_ok) fs st)
    \<and> map_of (cr_db (fold (load_job env ops now db_ok) fs st)) i = Some (l, n)
    \<and> (i \<in> snd ` set fs \<or> restored i sched en l n st \<longrightarrow> restored i sched en l n (fold (load_job env ops now db_ok) fs st))"
  using assms
proof (induction fs arbitrary: st)
  case (Cons f fs)
  let ?st1 = "load_job env ops now db_ok f st"
  note step = load_job_inv [where db_ok = db_ok and i = i and f = f and now = now, OF Cons.prems(1) _ Cons.prems(3-5)]
  have f: "f \<in> set (md_files env st)" using Cons.prems(2) by simp
  have place: "cr_fs ?st1 = cr_fs st" "cr_workspace ?st1 = cr_workspace st"
    using step [OF f] by (simp_all add: same_place_def)
  have "configured env ops i sched en ?st1" "md_files env ?st1 = md_files env st"
    using Cons.prems(1) configured_cong [OF place] md_files_cong [OF place] by blast+
  then have ih: "keyed (fold (load_job env ops now db_ok) fs ?st1) \<and> same_place ?st1 (fold (load_job env ops now db_ok) fs ?st1)
    \<and> map_of (cr_db (fold (load_job env ops now db_ok) fs ?st1)) i = Some (l, n)
    \<and> (i \<in> snd ` set fs \<or> restored i sched en l n ?st1 \<longrightarrow> restored i sched en l n (fold (load_job env ops now db_ok) fs ?st1))"
    using Cons.prems(2,3) step [OF f] by (intro Cons.IH) simp_all
  moreover have "restored i sched en l n ?st1" if "i = snd f \<or> restored i sched en l n st"
    using step [OF f] that by (auto simp: restored_def split: if_splits)
  ultimately show ?case using place by (auto simp: same_place_def)
qed (simp add: same_place_def)

lemma reload_is_load: "snd (reload_job env ops now db_ok f acc) = load_job env ops now db_ok f (snd acc)"
  by (cases acc) (auto simp: reload_job_def load_job_def split: prod.splits sum.splits)

lemma fold_reload: "snd (fold (reload_job env ops now db_ok) fs acc) = fold (load_job env ops now db_ok) fs (snd acc)"
  by (induction fs arbitrary: acc) (simp_all add: reload_is_load)

lemma remove_orphans:
  "i \<notin> set ks \<Longrightarrow> view i (fold registry_remove ks st) = view i st \<and> (keyed st \<longrightarrow> keyed (fold registry_remove ks st))"
proof (induction ks arbitrary: st)
  case (Cons k ks)
  have "view i (registry_remove k st) = view i st"
    using Cons.prems by (simp add: view_def get_job_def registry_remove_def map_of_delete)
  then show ?case using Cons keyed_delete [of st k] by simp
qed simp

lemma delete_states:
  "i \<notin> set ks \<Longrightarrow> view i (fold (delete_state db_ok) ks st) = view i st \<and> cr_jobs (fold (delete_state db_ok) ks st) = cr_jobs st"
proof (induction ks arbitrary: st)
  case (Cons k ks)
  have "view i (delete_state db_ok k st) = view i st" "cr_jobs (delete_state db_ok k st) = cr_jobs st"
    using Cons.prems by (simp_all add: view_def get_job_def delete_state_def map_of_delete)
  then show ?case using Cons by simp
qed simp

lemma view_restored: "view i st = view i st1 \<Longrightarrow> restored i sched en l n st = restored i sched en l n st1"
  by (simp add: view_def restored_def)

lemma reload_keeps:
  assumes "configured env ops i sched en st" "db_ok i" "keyed st" "map_of (cr_db st) i = Some (l, n)"
  shows "keyed (snd (refresh_all_jobs env ops now db_ok st)) \<and> same_place st (snd (refresh_all_jobs env ops now db_ok st))
    \<and> map_of (cr_db (snd (refresh_all_jobs env ops now db_ok st))) i = Some (l, n)
    \<and> restored i sched en l n (snd (refresh_all_jobs env ops now db_ok st))"
proof -
  let ?good = "filter (\<lambda>f. canonicalize env (cr_fs st) (fst f) \<noteq> None) (md_files env st)"
  let ?st1 = "fold (load_job env ops now db_ok) ?good st"
  have "i \<in> snd ` set ?good" using assms(1) unfolding configured_def by force
  then have inv: "keyed ?st1" "same_place st ?st1" "map_of (cr_db ?st1) i = Some (l, n)" "restored i sched en l n ?st1"
    using load_jobs_inv [where db_ok = db_ok and i = i and fs = ?good and now = now, OF assms(1) _ assms(2-4)] by auto
  let ?orphaned = "filter (\<lambda>k. k \<notin> set (map snd (md_files env ?st1))) (map fst (cr_jobs ?st1))"
  let ?st2 = "fold registry_remove ?orphaned ?st1"
  have "md_files env ?st1 = md_files env st" using inv(2) by (intro md_files_cong) (simp_all add: same_place_def)
  then have out: "i \<notin> set ?orphaned" using assms(1) by (simp add: configured_def)
  let ?rep0 = "\<lparr> rr_loaded = 0, rr_updated = 0, rr_removed = 0,
     rr_errors = length (md_files env st) - length ?good \<rparr>"
  obtain rep x where x: "fold (reload_job env ops now db_ok) ?good (?rep0, st) = (rep, x)" by fastforce
  then have "x = ?st1" using fold_reload [of env ops now db_ok ?good "(?rep0, st)"] by simp
  then have final: "snd (refresh_all_jobs env ops now db_ok st) = fold (delete_state db_ok) ?orphaned ?st2"
    using x by (simp add: refresh_all_jobs_def gc_orphaned_def Let_def)
  let ?st3 = "fold (delete_state db_ok) ?orphaned ?st2"
  have v: "view i ?st3 = view i ?st1" "cr_jobs ?st3 = cr_jobs ?st2" "keyed ?st2"
    using remove_orphans [OF out, of ?st1] delete_states [OF out, of db_ok ?st2] inv(1) by simp_all
  have "keyed ?st3" using keyed_cong [OF v(2)] v(3) by simp
  moreover have "restored i sched en l n ?st3" using view_restored [OF v(1)] inv(4) by simp
  ultimately show ?thesis unfolding final using v(1) inv(2,3) by (simp add: view_def same_place_def)
qed

lemma restart_keeps:
  assumes "configured env ops i sched en st" "db_ok i" "map_of (cr_db st) i = Some (l, n)"
  shows "keyed (cron_service_new env ops now db_ok (cr_workspace st) (cr_db st) (cr_fs st))
    \<and> same_place st (cron_service_new env ops now db_ok (cr_workspace st) (cr_db st) (cr_fs st))
    \<and> map_of (cr_db (cron_service_new env ops now db_ok (cr_workspace st) (cr_db st) (cr_fs st))) i = Some (l, n)
    \<and> restored i sched en l n (cron_service_new env ops now db_ok (cr_workspace st) (cr_db st) (cr_fs st))"
proof -
  let ?st0 = "st \<lparr> cr_jobs := [] \<rparr>"
  have st0: "\<lparr> cr_workspace = cr_workspace st, cr_jobs = [], cr_db = cr_db st, cr_fs = cr_fs st \<rparr> = ?st0"
    by (cases st) simp
  have c: "configured env ops i sched en ?st0" using assms(1) configured_cong [of ?st0 st] by simp
  have "md_files env ?st0 \<noteq> []" using c by (auto simp: configured_def)
  then have "canonicalize env (cr_fs ?st0) (cron_dir ?st0) \<noteq> None" by (auto simp: md_files_def split: option.splits)
  then have new: "cron_service_new env ops now db_ok (cr_workspace st) (cr_db st) (cr_fs st)
      = fold (load_job env ops now db_ok) (md_files env ?st0) ?st0"
    by (auto simp: cron_service_new_def load_all_jobs_def st0)
  have "i \<in> snd ` set (md_files env ?st0)" using c by (simp add: configured_def)
  moreover have "keyed ?st0" by (simp add: keyed_def get_job_def)
  ultimately show ?thesis
    unfolding new using load_jobs_inv [where db_ok = db_ok and i = i and now = now, OF c subset_refl assms(2)] assms(3) by (simp add: same_place_def)
qed

section \<open>One job over a run\<close>

text \<open>The registry and the table agree on a job's schedule and its next time.\<close>

definition ticking ::
  "fs_env \<Rightarrow> ('j, 's) cron_ops \<Rightarrow> string \<Rightarrow> 's option \<Rightarrow> bool \<Rightarrow> time \<Rightarrow> ('j, 's) cron_service \<Rightarrow> bool" where
  "ticking env ops i sched en n st = (keyed st \<and> configured env ops i sched en st
     \<and> (\<exists>l. map_of (cr_db st) i = Some (l, Some n) \<and> restored i sched en l (Some n) st))"

lemma ticking_due:
  assumes "ticking env ops i sched en n st"
  shows "i \<in> set (map cj_id (get_due_jobs now st)) \<longleftrightarrow> en \<and> n \<le> now"
  using assms due_iff [of st i now] by (auto simp: ticking_def restored_def job_due_def)

lemma place_configured:
  "same_place st st1 \<Longrightarrow> configured env ops i sched en st \<Longrightarrow> configured env ops i sched en st1"
  using configured_cong [of st st1] by (simp add: same_place_def)

text \<open>Reading the file of a stored job: the schedule of the file, the time of the table.\<close>

lemma reload_ticking:
  assumes "e = Reload t \<or> e = Restart t" "keyed st" "configured env ops i sched en st" "db_ok i"
    and "map_of (cr_db st) i = Some (l, Some n)"
  shows "ticking env ops i sched en n (cron_event_step env ops db_ok effect e st)"
proof -
  let ?x = "cron_event_step env ops db_ok effect e st"
  have "keyed ?x \<and> same_place st ?x \<and> map_of (cr_db ?x) i = Some (l, Some n) \<and> restored i sched en l (Some n) ?x"
    using assms(1)
  proof
    assume e: "e = Reload t"
    show ?thesis
      unfolding e cron_event_step_def cron_event.case
      by (rule reload_keeps [where db_ok = db_ok and i = i, OF assms(3,4,2,5)])
  next
    assume e: "e = Restart t"
    show ?thesis
      unfolding e cron_event_step_def cron_event.case
      by (rule restart_keeps [where db_ok = db_ok and i = i, OF assms(3,4,5)])
  qed
  then show ?thesis using place_configured [OF _ assms(3)] unfolding ticking_def by blast
qed

lemma view_ticking:
  assumes "ticking env ops i sched en n st" "view i st1 = view i st" "keyed st1"
  shows "ticking env ops i sched en n st1"
  using assms view_restored [OF assms(2)] place_configured [of st st1]
  by (auto simp: ticking_def view_def same_place_def)

text \<open>A poll: nothing happens to a job that is not due, a due one gets the next time.\<close>

lemma poll_ticking:
  assumes "ticking env ops i (Some s) en n st" "benign i effect" "db_ok i" "\<And>k. now \<le> clock k"
    and "\<And>t. \<exists>n. co_next ops s t = Some n"
  shows "\<exists>n1. ticking env ops i (Some s) en n1 (snd (cron_poll ops now clock db_ok effect st))
     \<and> (if en \<and> n \<le> now then \<exists>a. now \<le> a \<and> co_next ops s a = Some n1 else n1 = n)"
proof -
  let ?st1 = "snd (cron_poll ops now clock db_ok effect st)"
  obtain j l where j: "keyed st" "configured env ops i (Some s) en st" "get_job i st = Some j" "cj_schedule j = Some s"
      "cj_enabled j = en" "cj_next_run j = Some n"
    using assms(1) by (auto simp: ticking_def restored_def)
  have k1: "keyed ?st1" by (rule poll_keyed [OF j(1) assms(2)])
  show ?thesis
  proof (cases "en \<and> n \<le> now")
    case True
    then have "job_due now j" using j by (simp add: job_due_def)
    then obtain m st2 where m: "view i st2 = view i st"
        "view i ?st1 = view i (snd (advance_job_tick ops (clock m) db_ok i st2))"
      using poll_started [OF j(1) assms(2) j(3)] by blast
    obtain n1 where n1: "co_next ops s (clock m) = Some n1" using assms(5) by blast
    have g: "get_job i st2 = Some j" using m(1) j(3) by (simp add: view_def)
    have v: "view i ?st1 = (Some (j \<lparr> cj_last_run := Some (clock m), cj_next_run := Some n1 \<rparr>),
        Some (Some (clock m), Some n1), cr_fs st, cr_workspace st)"
      using m advance_self [OF g j(4) n1, of db_ok] assms(3) by (simp add: view_def)
    then have "same_place st ?st1" by (simp add: view_def same_place_def)
    then have "ticking env ops i (Some s) en n1 ?st1"
      unfolding ticking_def using k1 place_configured j(2,4,5) v by (auto simp: view_def restored_def)
    then show ?thesis using True n1 assms(4) by auto
  next
    case False
    then have "view i ?st1 = view i st"
      by (intro poll_not_started [OF j(1) assms(2)]) (use j in \<open>auto simp: job_due_def\<close>)
    then have "ticking env ops i (Some s) en n ?st1" by (rule view_ticking [OF assms(1) _ k1])
    then show ?thesis using False by auto
  qed
qed

text \<open>Between two starts a scheduled time has come: the first one after some moment not before the
  first start.\<close>

definition tick_between :: "('j, 's) cron_ops \<Rightarrow> 's \<Rightarrow> time \<Rightarrow> time \<Rightarrow> bool" where
  "tick_between ops s t1 t2 = (\<exists>a n. t1 \<le> a \<and> co_next ops s a = Some n \<and> n \<le> t2)"

definition clocks_ok :: "cron_event list \<Rightarrow> bool" where
  "clocks_ok evs = list_all (\<lambda>e. case e of Poll now clock \<Rightarrow> \<forall>k. now \<le> clock k | _ \<Rightarrow> True) evs"

lemma history_spaced:
  assumes "ticking env ops i (Some s) en n st" "benign i effect" "db_ok i" "clocks_ok evs"
    and "\<And>t. \<exists>n. co_next ops s t = Some n"
  shows "successively (tick_between ops s) (cron_history env ops db_ok effect i evs st)
    \<and> (\<forall>t ts. cron_history env ops db_ok effect i evs st = t # ts \<longrightarrow> n \<le> t)"
  using assms(1,4)
proof (induction evs arbitrary: n st)
  case (Cons e evs)
  let ?st1 = "cron_event_step env ops db_ok effect e st"
  let ?h = "cron_history env ops db_ok effect i evs ?st1"
  have clocks: "clocks_ok evs" using Cons.prems(2) by (simp add: clocks_ok_def)
  show ?case
  proof (cases e)
    case (Poll now clock)
    have clock: "now \<le> clock k" for k using Cons.prems(2) Poll by (simp add: clocks_ok_def)
    obtain n1 where n1: "ticking env ops i (Some s) en n1 ?st1"
        "if en \<and> n \<le> now then \<exists>a. now \<le> a \<and> co_next ops s a = Some n1 else n1 = n"
      using poll_ticking [where clock = clock and db_ok = db_ok and now = now and ops = ops and s = s,
          OF Cons.prems(1) assms(2) assms(3) clock assms(5)] Poll
      by (auto simp: cron_event_step_def)
    have ih: "successively (tick_between ops s) ?h" "\<And>t ts. ?h = t # ts \<Longrightarrow> n1 \<le> t"
      using Cons.IH [OF n1(1) clocks] by simp_all
    show ?thesis
    proof (cases "en \<and> n \<le> now")
      case True
      then have h: "cron_history env ops db_ok effect i (e # evs) st = now # ?h"
        using ticking_due [OF Cons.prems(1), of now] Poll by (simp add: starts_at_def)
      obtain a where a: "now \<le> a" "co_next ops s a = Some n1" using n1(2) True by auto
      have "tick_between ops s now t" if "?h = t # ts" for t ts
        using a ih(2) [OF that] unfolding tick_between_def by blast
      then show ?thesis unfolding h using ih(1) True by (cases ?h) auto
    next
      case False
      then have "cron_history env ops db_ok effect i (e # evs) st = ?h"
        using ticking_due [OF Cons.prems(1), of now] Poll by (simp add: starts_at_def)
      then show ?thesis using ih n1(2) False by auto
    qed
  next
    case (Reload t)
    obtain l where "keyed st" "configured env ops i (Some s) en st" "map_of (cr_db st) i = Some (l, Some n)"
      using Cons.prems(1) by (auto simp: ticking_def)
    then have "ticking env ops i (Some s) en n ?st1"
      using reload_ticking [where db_ok = db_ok and i = i, OF disjI1 [OF Reload]] assms(3) by blast
    then show ?thesis using Cons.IH [OF _ clocks] Reload by (simp add: starts_at_def)
  next
    case (Restart t)
    obtain l where "keyed st" "configured env ops i (Some s) en st" "map_of (cr_db st) i = Some (l, Some n)"
      using Cons.prems(1) by (auto simp: ticking_def)
    then have "ticking env ops i (Some s) en n ?st1"
      using reload_ticking [where db_ok = db_ok and i = i, OF disjI2 [OF Restart]] assms(3) by blast
    then show ?thesis using Cons.IH [OF _ clocks] Restart by (simp add: starts_at_def)
  qed
qed simp

end
