(* ===== verification/Commands.thy ===== *)
theory Commands
  imports Event_Types "HOL-Library.AList" "HOL-Library.List_Lexorder" "HOL-Library.Char_ord"
begin

text \<open>
  Slash commands (gasket/command): the parser, the registry of built-in and user commands
  with its builder, dispatch, the file format of user commands, completion and the built-in
  handlers.  The HashMap of commands is an association list in its iteration order; a
  handler is a function on the state \<open>'w\<close> behind the host; YAML is a parameter.
\<close>

section \<open>Parsing\<close>

datatype parsed_input = ParsedCommand string string | NotCommand

definition parse_line :: "string \<Rightarrow> parsed_input" where
  "parse_line input = (case strip_prefix ''/'' (trim_start input) of
       None \<Rightarrow> NotCommand
     | Some rest \<Rightarrow>
         (let name = takeWhile (\<lambda>c. \<not> is_ws c) rest;
              args = trim (drop 1 (dropWhile (\<lambda>c. \<not> is_ws c) rest)) in
          if name = [] then NotCommand else ParsedCommand name args))"

definition render_template :: "string \<Rightarrow> string \<Rightarrow> string" where
  "render_template template user_input = str_replace template ''{{user_input}}'' user_input"

section \<open>Commands\<close>

datatype command_result = Print string | Quit | CmdError string

datatype route_outcome =
    Handled command_result
  | Rewrite string "string list option"
  | Passthrough string

text \<open>The host: what a built-in handler may ask of the application.\<close>

record 'w command_host =
  ho_clear_session :: "session_key \<Rightarrow> 'w \<Rightarrow> 'w"
  ho_list_sessions :: "'w \<Rightarrow> session_summary list \<times> 'w"
  ho_current_model :: "session_key \<Rightarrow> 'w \<Rightarrow> string \<times> 'w"
  ho_switch_model :: "session_key \<Rightarrow> string \<Rightarrow> 'w \<Rightarrow> (string + model_switch_info) \<times> 'w"
  ho_send_message :: "string \<Rightarrow> string \<Rightarrow> string \<Rightarrow> 'w \<Rightarrow> (string + unit) \<times> 'w"

definition default_send_message :: "string \<Rightarrow> string \<Rightarrow> string \<Rightarrow> 'w \<Rightarrow> (string + unit) \<times> 'w" where
  "default_send_message channel chat_id content w = (Inl ''send_message not implemented for this host'', w)"

type_synonym 'w builtin_handler = "string \<Rightarrow> 'w command_host \<Rightarrow> session_key \<Rightarrow> 'w \<Rightarrow> command_result \<times> 'w"

datatype 'w command_kind = Builtin "'w builtin_handler" | Yaml string "string list option"

record 'w command =
  co_name :: string
  co_description :: string
  co_aliases :: "string list"
  co_kind :: "'w command_kind"

datatype help_source = FromBuiltin | FromUser

record help_entry =
  he_name :: string
  he_description :: string
  he_aliases :: "string list"
  he_source :: help_source

section \<open>The registry\<close>

record 'w command_registry =
  cr_commands :: "(string \<times> 'w command) list"
  cr_aliases :: "string \<Rightarrow> string option"

definition commands_new :: "'w command_registry" where
  "commands_new = \<lparr> cr_commands = [], cr_aliases = (\<lambda>_. None) \<rparr>"

text \<open>Insertion of a command under its name and its aliases.\<close>

definition put_aliases :: "string \<Rightarrow> string list \<Rightarrow> (string \<Rightarrow> string option) \<Rightarrow> string \<Rightarrow> string option" where
  "put_aliases name as m = foldl (\<lambda>m a. m(a \<mapsto> name)) m as"

definition put_command :: "'w command \<Rightarrow> 'w command_registry \<Rightarrow> 'w command_registry" where
  "put_command c r = \<lparr> cr_commands = AList.update (co_name c) c (cr_commands r),
     cr_aliases = put_aliases (co_name c) (co_aliases c) (cr_aliases r) \<rparr>"

datatype build_error = MissingHost | DuplicateBuiltin string | UserDirIO string

fun add_builtins :: "'w command list \<Rightarrow> 'w command_registry \<Rightarrow> build_error + 'w command_registry" where
  "add_builtins [] r = Inr r"
| "add_builtins (c # cs) r =
     (if map_of (cr_commands r) (co_name c) \<noteq> None then Inl (DuplicateBuiltin (co_name c))
      else add_builtins cs (put_command c r))"

definition taken :: "'w command_registry \<Rightarrow> string \<Rightarrow> bool" where
  "taken r n = (map_of (cr_commands r) n \<noteq> None \<or> cr_aliases r n \<noteq> None)"

definition add_user :: "'w command_registry \<Rightarrow> 'w command \<Rightarrow> 'w command_registry" where
  "add_user r c =
     (if taken r (co_name c) then r
      else if list_ex (taken r) (co_aliases c) then r
      else put_command c r)"

definition help_entry_of :: "'w command \<Rightarrow> help_entry" where
  "help_entry_of c = \<lparr> he_name = co_name c, he_description = co_description c, he_aliases = co_aliases c,
     he_source = (case co_kind c of Builtin _ \<Rightarrow> FromBuiltin | Yaml _ _ \<Rightarrow> FromUser) \<rparr>"

definition list_commands :: "'w command_registry \<Rightarrow> 'w command list" where
  "list_commands r = sort_key co_name (map snd (cr_commands r))"

text \<open>\<open>build\<close>.  \<open>slot\<close> is the content of the help snapshot, a cell that can be set once.\<close>

record 'w dispatcher =
  di_registry :: "'w command_registry"
  di_host :: "'w command_host"

definition build_dispatcher ::
  "'w command_host option \<Rightarrow> 'w command list \<Rightarrow> 'w command list option \<Rightarrow> help_entry list option
    \<Rightarrow> (build_error + 'w dispatcher) \<times> help_entry list option" where
  "build_dispatcher host builtins user slot = (case host of
       None \<Rightarrow> (Inl MissingHost, slot)
     | Some h \<Rightarrow> (case add_builtins builtins commands_new of
         Inl e \<Rightarrow> (Inl e, slot)
       | Inr r \<Rightarrow>
           (let r1 = foldl add_user r (case user of Some cs \<Rightarrow> cs | None \<Rightarrow> []) in
            (Inr \<lparr> di_registry = r1, di_host = h \<rparr>,
             case slot of Some es \<Rightarrow> Some es | None \<Rightarrow> Some (map help_entry_of (list_commands r1))))))"

section \<open>Dispatch\<close>

definition resolve_name :: "'w command_registry \<Rightarrow> string \<Rightarrow> 'w command option" where
  "resolve_name r name = map_of (cr_commands r) (case cr_aliases r name of Some c \<Rightarrow> c | None \<Rightarrow> name)"

definition dispatch :: "'w dispatcher \<Rightarrow> string \<Rightarrow> string \<Rightarrow> session_key \<Rightarrow> 'w \<Rightarrow> route_outcome \<times> 'w" where
  "dispatch d name args k w = (case resolve_name (di_registry d) name of
       None \<Rightarrow> (Handled (CmdError (''unknown command: /'' @ name @ ''    (type /help to see commands)'')), w)
     | Some c \<Rightarrow> (case co_kind c of
         Builtin handler \<Rightarrow> (case handler args (di_host d) k w of (r, w1) \<Rightarrow> (Handled r, w1))
       | Yaml template allowed \<Rightarrow> (Rewrite (render_template template args) allowed, w)))"

definition route :: "'w dispatcher \<Rightarrow> string \<Rightarrow> session_key \<Rightarrow> 'w \<Rightarrow> route_outcome \<times> 'w" where
  "route d line k w = (case parse_line line of
       NotCommand \<Rightarrow> (Passthrough line, w)
     | ParsedCommand name args \<Rightarrow> dispatch d name args k w)"

section \<open>Completion\<close>

definition completer_candidates :: "'w command_registry \<Rightarrow> string list" where
  "completer_candidates r = remdups_adj (sort (concat (map
     (\<lambda>c. (''/'' @ co_name c) # map (\<lambda>a. ''/'' @ a) (co_aliases c)) (list_commands r))))"

text \<open>The suggestions with the span they replace; \<open>None\<close>: slicing inside a character or beyond
  the line panics.\<close>

definition complete_line :: "string list \<Rightarrow> string \<Rightarrow> nat \<Rightarrow> (string \<times> nat \<times> nat) list option" where
  "complete_line candidates line pos =
     (if \<not> starts_with line ''/'' then Some []
      else if \<not> is_char_boundary line pos then None
      else Some (map (\<lambda>c. (c, 0, pos)) (filter (\<lambda>c. starts_with c (take pos line)) candidates)))"

section \<open>User command files\<close>

record front_matter =
  fm_name :: string
  fm_description :: string
  fm_aliases :: "string list"
  fm_allowed_tools :: "string list option"

definition strip_newline :: "string \<Rightarrow> string option" where
  "strip_newline s = (case strip_prefix [NL] s of Some t \<Rightarrow> Some t | None \<Rightarrow> strip_prefix [CHR 0x0D, NL] s)"

definition split_front_matter :: "string \<Rightarrow> (string \<times> string) option" where
  "split_front_matter raw = Option.bind (strip_prefix ''---'' raw) (\<lambda>s0.
     Option.bind (strip_newline s0) (\<lambda>s1.
     Option.bind (str_find s1 (NL # ''---'')) (\<lambda>end_pos.
       let after = drop (end_pos + 4) s1 in
       Some (take end_pos s1, case strip_newline after of Some b \<Rightarrow> b | None \<Rightarrow> after))))"

definition load_one :: "(string \<Rightarrow> string + front_matter) \<Rightarrow> string + string \<Rightarrow> string + 'w command" where
  "load_one parse_yaml file = (case file of
       Inl e \<Rightarrow> Inl (''read failed: '' @ e)
     | Inr raw \<Rightarrow> (case split_front_matter raw of
         None \<Rightarrow> Inl ''missing front-matter''
       | Some (front, body) \<Rightarrow> (case parse_yaml front of
           Inl e \<Rightarrow> Inl (''yaml parse: '' @ e)
         | Inr fm \<Rightarrow>
             if trim (fm_name fm) = [] then Inl ''name field is empty''
             else if trim (fm_description fm) = [] then Inl ''description field is empty''
             else Inr \<lparr> co_name = fm_name fm, co_description = fm_description fm, co_aliases = fm_aliases fm,
                        co_kind = Yaml (trim_start body) (fm_allowed_tools fm) \<rparr>)))"

text \<open>The files of the directory with their extension and content; an unreadable directory has
  none.\<close>

definition load_user_commands ::
  "(string \<Rightarrow> string + front_matter) \<Rightarrow> (string + (string \<times> string option \<times> (string + string)) list) \<Rightarrow> 'w command list" where
  "load_user_commands parse_yaml dir = (case dir of
       Inl e \<Rightarrow> []
     | Inr files \<Rightarrow> concat (map (\<lambda>(path, ext, file). case load_one parse_yaml file of Inr c \<Rightarrow> [c] | Inl e \<Rightarrow> [])
         (sort_key fst (filter (\<lambda>(path, ext, file). ext = Some ''md'') files))))"

section \<open>Built-in commands\<close>

definition ESC :: char where "ESC = CHR 0x1B"

definition ANSI_CLEAR :: string where "ANSI_CLEAR = [ESC] @ ''[2J'' @ [ESC] @ ''[H''"

definition cmd_clear :: "'w command" where
  "cmd_clear = \<lparr> co_name = ''clear'', co_description = ''Clear the terminal screen'', co_aliases = [],
     co_kind = Builtin (\<lambda>args host k w. (Print ANSI_CLEAR, w)) \<rparr>"

definition cmd_exit :: "'w command" where
  "cmd_exit = \<lparr> co_name = ''exit'', co_description = ''Exit the REPL'', co_aliases = [''quit'', ''q'', '':q''],
     co_kind = Builtin (\<lambda>args host k w. (Quit, w)) \<rparr>"

text \<open>\<open>{:<n}\<close> and \<open>{:>n}\<close>: padding counts characters.\<close>

definition pad_right :: "nat \<Rightarrow> string \<Rightarrow> string" where
  "pad_right n s = s @ replicate (n - char_count s) CHR '' ''"

definition pad_left :: "nat \<Rightarrow> string \<Rightarrow> string" where
  "pad_left n s = replicate (n - char_count s) CHR '' '' @ s"

definition format_row :: "help_entry \<Rightarrow> string" where
  "format_row e = ''  /'' @ pad_right 11 (he_name e) @ '' '' @ he_description e
     @ (if he_aliases e = [] then []
        else ''  (aliases: '' @ join '', '' (map (\<lambda>a. ''/'' @ a) (he_aliases e)) @ '')'') @ [NL]"

definition render_help :: "help_entry list \<Rightarrow> string" where
  "render_help entries =
     (let builtin = filter (\<lambda>e. he_source e = FromBuiltin) entries;
          user = filter (\<lambda>e. he_source e \<noteq> FromBuiltin) entries in
      ''Built-in commands:'' @ [NL] @ concat (map format_row builtin)
      @ (if user \<noteq> [] then [NL] @ ''User commands  (~/.gasket/commands):'' @ [NL] @ concat (map format_row user)
         else []))"

text \<open>\<open>snapshot\<close> reads the shared cell.\<close>

definition cmd_help :: "('w \<Rightarrow> help_entry list option) \<Rightarrow> 'w command" where
  "cmd_help snapshot = \<lparr> co_name = ''help'', co_description = ''Show available commands'', co_aliases = [''?''],
     co_kind = Builtin (\<lambda>args host k w. case snapshot w of
         Some entries \<Rightarrow> (Print (render_help entries), w)
       | None \<Rightarrow> (CmdError ''help snapshot not initialised'', w)) \<rparr>"

text \<open>The arrow and the check mark of the messages, in UTF-8.\<close>

definition ARROW :: string where "ARROW = [CHR 0xE2, CHR 0x86, CHR 0x92]"
definition CHECK_MARK :: string where "CHECK_MARK = [CHR 0xE2, CHR 0x9C, CHR 0x93]"
definition EM_DASH :: string where "EM_DASH = [CHR 0xE2, CHR 0x80, CHR 0x94]"

definition cmd_model :: "'w command" where
  "cmd_model = \<lparr> co_name = ''model'', co_description = ''Show or switch the active model'', co_aliases = [],
     co_kind = Builtin (\<lambda>args host k w. let target = trim args in
       if target = [] then (case ho_current_model host k w of (i, w1) \<Rightarrow> (Print (''Current model: '' @ i), w1))
       else (case ho_switch_model host k target w of
           (Inr info, w1) \<Rightarrow> (Print (''Switched: '' @ ms_previous info @ '' '' @ ARROW @ '' '' @ ms_current info), w1)
         | (Inl e, w1) \<Rightarrow> (CmdError (''model switch failed: '' @ e), w1))) \<rparr>"

definition cmd_new :: "'w command" where
  "cmd_new = \<lparr> co_name = ''new'', co_description = ''Start a new conversation'', co_aliases = [],
     co_kind = Builtin (\<lambda>args host k w.
       (Print (CHECK_MARK @ '' Session cleared ('' @ session_key_display k @ '')''), ho_clear_session host k w)) \<rparr>"

definition session_row_text :: "string \<Rightarrow> string \<Rightarrow> string \<Rightarrow> string" where
  "session_row_text key count last_active =
     pad_right 30 key @ '' '' @ pad_left 9 count @ ''   '' @ last_active @ [NL]"

text \<open>\<open>ss_last_active\<close> is the time in the format of the table.\<close>

definition render_sessions :: "session_summary list \<Rightarrow> string" where
  "render_sessions rows =
     (if rows = [] then ''No sessions yet.''
      else session_row_text ''SESSION KEY'' ''MESSAGES'' ''LAST ACTIVE''
        @ concat (map (\<lambda>r. session_row_text (session_key_display (ss_key r)) (show_nat (ss_message_count r))
            (case ss_last_active r of Some t \<Rightarrow> t | None \<Rightarrow> EM_DASH)) rows))"

definition cmd_sessions :: "'w command" where
  "cmd_sessions = \<lparr> co_name = ''sessions'', co_description = ''List recent sessions'', co_aliases = [''ls''],
     co_kind = Builtin (\<lambda>args host k w. case ho_list_sessions host w of (rows, w1) \<Rightarrow> (Print (render_sessions rows), w1)) \<rparr>"

section \<open>What registration guarantees\<close>

text \<open>Commands are stored under their names, and an alias leads to a stored command.\<close>

definition registry_ok :: "'w command_registry \<Rightarrow> bool" where
  "registry_ok r = (\<forall>a n. cr_aliases r a = Some n \<longrightarrow> map_of (cr_commands r) n \<noteq> None)"

lemma put_aliases_lookup:
  "put_aliases n as m a = (if a \<in> set as then Some n else m a)"
  unfolding put_aliases_def by (induction as arbitrary: m) auto

lemma put_command_commands [simp]:
  "map_of (cr_commands (put_command c r)) = (map_of (cr_commands r))(co_name c \<mapsto> c)"
  by (simp add: put_command_def update_conv')

lemma put_command_aliases [simp]:
  "cr_aliases (put_command c r) a = (if a \<in> set (co_aliases c) then Some (co_name c) else cr_aliases r a)"
  by (simp add: put_command_def put_aliases_lookup)

lemma registry_ok_commands_new: "registry_ok commands_new"
  by (simp add: registry_ok_def commands_new_def)

lemma registry_ok_put: "registry_ok r \<Longrightarrow> registry_ok (put_command c r)"
  by (auto simp: registry_ok_def)

lemma registry_ok_builtins: "add_builtins bs r = Inr r' \<Longrightarrow> registry_ok r \<Longrightarrow> registry_ok r'"
  by (induction bs arbitrary: r) (auto simp: registry_ok_put split: if_splits)

lemma registry_ok_user: "registry_ok r \<Longrightarrow> registry_ok (add_user r c)"
  by (simp add: add_user_def registry_ok_put)

lemma registry_ok_users: "registry_ok r \<Longrightarrow> registry_ok (foldl add_user r cs)"
  by (induction cs arbitrary: r) (auto simp: registry_ok_user)

lemma taken_put: "taken (put_command c r) n \<longleftrightarrow> taken r n \<or> n = co_name c \<or> n \<in> set (co_aliases c)"
  by (auto simp: taken_def)

lemma taken_user: "taken r n \<Longrightarrow> taken (add_user r c) n"
  by (auto simp: add_user_def taken_put)

text \<open>Adding a user command never changes the meaning of a name that has one.\<close>

lemma resolve_user:
  assumes "registry_ok r" "taken r n"
  shows "resolve_name (add_user r c) n = resolve_name r n"
proof (cases "taken r (co_name c) \<or> list_ex (taken r) (co_aliases c)")
  case True
  then show ?thesis by (auto simp: add_user_def)
next
  case False
  then have n: "n \<noteq> co_name c" "n \<notin> set (co_aliases c)" using assms(2) by (auto simp: list_ex_iff)
  have "m \<noteq> co_name c" if "cr_aliases r n = Some m" for m
  proof -
    have "map_of (cr_commands r) m \<noteq> None" using assms(1) that unfolding registry_ok_def by blast
    then show ?thesis using False by (auto simp: taken_def)
  qed
  then show ?thesis using False n
    by (auto simp: add_user_def resolve_name_def split: option.split)
qed

lemma resolve_users:
  assumes "registry_ok r" "taken r n"
  shows "resolve_name (foldl add_user r cs) n = resolve_name r n"
  using assms
proof (induction cs arbitrary: r)
  case (Cons c cs)
  show ?case
    using Cons.IH [OF registry_ok_user taken_user, OF Cons.prems, of c] resolve_user [OF Cons.prems, of c] by simp
qed simp

lemma resolve_added:
  assumes "registry_ok r" "\<not> taken r (co_name c)" "\<not> list_ex (taken r) (co_aliases c)" "n \<in> set (co_name c # co_aliases c)"
  shows "resolve_name (add_user r c) n = Some c" "taken (add_user r c) n"
  using assms by (auto simp: add_user_def resolve_name_def taken_def list_ex_iff)

text \<open>User commands only add names.  Take the built-in commands and any list of user commands
  around one of them.  Everything that had a meaning before keeps it to the end; the user
  command is either dropped as a whole, when its name or one of its aliases was taken, or
  its name and all its aliases lead to it, whatever is registered after it.\<close>

theorem user_commands_only_add:
  assumes "add_builtins bs commands_new = Inr r0"
  shows "let r1 = foldl add_user r0 us1; r = foldl add_user r0 (us1 @ c # us2) in
     (\<forall>n. taken r1 n \<longrightarrow> resolve_name r n = resolve_name r1 n)
   \<and> (if taken r1 (co_name c) \<or> list_ex (taken r1) (co_aliases c) then r = foldl add_user r0 (us1 @ us2)
      else list_all (\<lambda>n. resolve_name r n = Some c) (co_name c # co_aliases c))"
proof -
  define r1 where "r1 = foldl add_user r0 us1"
  have ok: "registry_ok r1"
    unfolding r1_def using registry_ok_users registry_ok_builtins [OF assms registry_ok_commands_new] by blast
  have r: "foldl add_user r0 (us1 @ c # us2) = foldl add_user (add_user r1 c) us2" by (simp add: r1_def)
  have "resolve_name (foldl add_user (add_user r1 c) us2) n = resolve_name r1 n" if "taken r1 n" for n
    using resolve_users [OF registry_ok_user [OF ok] taken_user [OF that]] resolve_user [OF ok that] by simp
  moreover have "resolve_name (foldl add_user (add_user r1 c) us2) n = Some c"
    if "\<not> taken r1 (co_name c)" "\<not> list_ex (taken r1) (co_aliases c)" "n \<in> set (co_name c # co_aliases c)" for n
    using resolve_users [OF registry_ok_user [OF ok]] resolve_added [OF ok that] by simp
  ultimately show ?thesis
    unfolding r r1_def [symmetric] Let_def by (auto simp: list_all_iff add_user_def r1_def)
qed

definition user_quit :: "unit command" where
  "user_quit = \<lparr> co_name = ''quit'', co_description = ''d'', co_aliases = [], co_kind = Yaml ''bye'' None \<rparr>"

definition user_tr :: "unit command" where
  "user_tr = \<lparr> co_name = ''translate'', co_description = ''d'', co_aliases = [''tr''], co_kind = Yaml ''{{user_input}}'' None \<rparr>"

theorem user_commands_only_add_witness:
  "\<exists>r0. add_builtins [cmd_exit, cmd_sessions] commands_new = Inr r0
    \<and> resolve_name (foldl add_user r0 [user_quit, user_tr]) ''q'' = resolve_name (foldl add_user r0 [user_quit]) ''q''
    \<and> resolve_name (foldl add_user r0 [user_quit, user_tr]) ''tr'' = Some user_tr"
proof -
  obtain r0 where r0: "add_builtins [cmd_exit, cmd_sessions] commands_new = Inr (r0 :: unit command_registry)"
    by (simp add: cmd_exit_def cmd_sessions_def commands_new_def put_command_def)
  then have q: "taken (foldl add_user r0 [user_quit]) ''q''" and
    tr: "\<not> taken (foldl add_user r0 [user_quit]) ''translate''" "\<not> taken (foldl add_user r0 [user_quit]) ''tr''"
    by (auto simp: cmd_exit_def cmd_sessions_def commands_new_def taken_def add_user_def user_quit_def)
  from user_commands_only_add [OF r0, of "[user_quit]" user_tr "[]"] show ?thesis
    using r0 q tr by (auto simp: Let_def user_tr_def)
qed

end
