(* ===== verification/Cron_Properties.thy ===== *)
theory Cron_Properties
  imports Cron_Proofs
begin

text \<open>The properties of the scheduler.\<close>

section \<open>Schedules\<close>


text \<open>A job without a valid schedule that is due: it stays so.\<close>

definition stuck :: "string \<Rightarrow> time \<Rightarrow> ('j, 's) cron_service \<Rightarrow> bool" where
  "stuck i n st = (keyed st \<and> (\<exists>j. get_job i st = Some j \<and> cj_schedule j = None \<and> cj_enabled j \<and> cj_next_run j = Some n))"

lemma advance_stuck:
  assumes "get_job i st = Some j" "cj_schedule j = None"
  shows "get_job i (snd (advance_job_tick ops now db_ok i st)) = Some (j \<lparr> cj_last_run := Some now \<rparr>)"
  using assms by (simp add: advance_job_tick_def get_job_def map_of_update Let_def)

lemma poll_stuck:
  assumes "stuck i n st" "benign i effect" "n \<le> now"
  shows "stuck i n (snd (cron_poll ops now clock db_ok effect st)) \<and> i \<in> set (map cj_id (get_due_jobs now st))"
proof -
  obtain j where j: "keyed st" "get_job i st = Some j" "cj_schedule j = None" "cj_enabled j" "cj_next_run j = Some n"
    using assms(1) by (auto simp: stuck_def)
  have due: "job_due now j" using j assms(3) by (simp add: job_due_def)
  obtain m st1 where m: "view i st1 = view i st"
      "view i (snd (cron_poll ops now clock db_ok effect st)) = view i (snd (advance_job_tick ops (clock m) db_ok i st1))"
    using poll_started [OF j(1) assms(2) j(2) due] by blast
  have "get_job i st1 = Some j" using m(1) j(2) by (simp add: view_def)
  then have "get_job i (snd (cron_poll ops now clock db_ok effect st)) = Some (j \<lparr> cj_last_run := Some (clock m) \<rparr>)"
    using m(2) advance_stuck [OF _ j(3)] by (simp add: view_def)
  then show ?thesis
    using poll_keyed [OF j(1) assms(2)] j due_iff [OF j(1), of i now] due by (auto simp: stuck_def)
qed

lemma polls_stuck:
  "stuck i n st \<Longrightarrow> benign i effect \<Longrightarrow> \<forall>t \<in> set ts. n \<le> t \<Longrightarrow>
     cron_history env ops db_ok effect i (map (\<lambda>t. Poll t (clock t)) ts) st = ts"
proof (induction ts arbitrary: st)
  case (Cons t ts)
  have "stuck i n (snd (cron_poll ops t (clock t) db_ok effect st)) \<and> i \<in> set (map cj_id (get_due_jobs t st))"
    by (rule poll_stuck [OF Cons.prems(1,2)]) (use Cons.prems(3) in simp)
  then show ?case using Cons.IH Cons.prems(2,3) by (simp add: starts_at_def cron_event_step_def)
qed simp

text \<open>C21: a job whose expression becomes invalid runs at every poll.  When the file of an enabled job is edited to an
  expression that does not parse and the files are reloaded, every poll from the stored
  next time on starts the job again.\<close>

theorem invalid_schedule_runs_every_poll:
  assumes "keyed st" "configured env ops i None True st" "map_of (cr_db st) i = Some (l, Some n)" "db_ok i"
    and "benign i effect" "\<forall>t \<in> set ts. n \<le> t"
  shows "cron_history env ops db_ok effect i (Reload r # map (\<lambda>t. Poll t (clock t)) ts) st = ts"
proof -
  have "ticking env ops i None True n (cron_event_step env ops db_ok effect (Reload r) st)"
    by (rule reload_ticking [where db_ok = db_ok and i = i, OF disjI1 [OF refl] assms(1,2,4,3)])
  then have "stuck i n (cron_event_step env ops db_ok effect (Reload r) st)"
    by (auto simp: ticking_def restored_def stuck_def)
  then show ?thesis using polls_stuck [OF _ assms(5,6)] by (simp add: starts_at_def)
qed

lemma polls_waiting:
  "ticking env ops i sched en n st \<Longrightarrow> benign i effect \<Longrightarrow> \<forall>t \<in> set ts. t < n \<Longrightarrow>
     cron_history env ops db_ok effect i (map (\<lambda>t. Poll t (clock t)) ts) st = []"
proof (induction ts arbitrary: st)
  case (Cons t ts)
  let ?st1 = "snd (cron_poll ops t (clock t) db_ok effect st)"
  have k: "keyed st" using Cons.prems(1) by (simp add: ticking_def)
  have not_due: "i \<notin> set (map cj_id (get_due_jobs t st))"
    using ticking_due [OF Cons.prems(1), of t] Cons.prems(3) by simp
  then have "view i ?st1 = view i st"
    using due_iff [OF k, of i t] by (intro poll_not_started [OF k Cons.prems(2)]) blast
  then have "ticking env ops i sched en n ?st1"
    by (rule view_ticking [OF Cons.prems(1) _ poll_keyed [OF k Cons.prems(2)]])
  then show ?case using Cons.IH Cons.prems(2,3) not_due by (simp add: starts_at_def cron_event_step_def)
qed simp

text \<open>C22: an edited schedule waits for the old one.  When the file of a job is edited and the files are reloaded, no
  poll before the next time stored for the old schedule starts the job, whatever the
  new schedule says.\<close>

theorem edited_schedule_waits:
  assumes "keyed st" "configured env ops i sched en st" "map_of (cr_db st) i = Some (l, Some n)" "db_ok i"
    and "benign i effect" "\<forall>t \<in> set ts. t < n"
  shows "cron_history env ops db_ok effect i (Reload r # map (\<lambda>t. Poll t (clock t)) ts) st = []"
proof -
  have "ticking env ops i sched en n (cron_event_step env ops db_ok effect (Reload r) st)"
    by (rule reload_ticking [where db_ok = db_ok and i = i, OF disjI1 [OF refl] assms(1,2,4,3)])
  then show ?thesis using polls_waiting [OF _ assms(5,6)] by (simp add: starts_at_def)
qed

section \<open>Job files\<close>

lemma find_close:
  "\<not> sublist (NL # ''---'') a \<Longrightarrow> str_find (a @ (NL # ''---'') @ b) (NL # ''---'') = Some (length a)"
proof (induction a)
  case (Cons c a)
  have rest: "\<not> sublist (NL # ''---'') a" using Cons.prems by (simp add: sublist_Cons_right)
  have "\<not> prefix (NL # ''---'') ((c # a) @ (NL # ''---'') @ b)"
  proof
    assume pre: "prefix (NL # ''---'') ((c # a) @ (NL # ''---'') @ b)"
    then have c: "c = NL" "prefix ''---'' (a @ (NL # ''---'') @ b)" by auto
    have "\<exists>x y z w. a = x # y # z # w"
      using c(2) by (cases a; cases "tl a"; cases "tl (tl a)") auto
    then have "prefix ''---'' a" using c(2) by auto
    then have "prefix (NL # ''---'') (c # a)" using c(1) by simp
    then show False using Cons.prems by (blast intro: prefix_imp_sublist)
  qed
  then show ?case using Cons.IH [OF rest] by simp
qed simp

text \<open>What the YAML library does with a job's front matter: the text ends its last line, holds no line of
  dashes, and reads back.\<close>

definition yaml_law :: "('j, 's) cron_ops \<Rightarrow> bool" where
  "yaml_law ops = (\<forall>fm y. co_yaml_out ops fm = Inr y \<longrightarrow> (\<exists>y0. y = y0 @ [NL]
     \<and> \<not> sublist (NL # ''---'') (NL # y0) \<and> co_yaml_in ops (trim_newlines y0) = Inr fm))"

lemma trim_after_lines: "trim_start (dropWhile (\<lambda>c. c = NL) s) = trim_start s"
  by (induction s) (auto simp: trim_start_def is_ws_def)


section \<open>Removal\<close>

text \<open>C25: removing a job can delete a file anywhere.  When the identifier given to remove is an absolute path,
  the file of that name with the extension md is deleted, wherever it is, whether or
  not a job of that name exists.\<close>

theorem remove_job_deletes_outside:
  assumes "tree_fs (cr_fs st)" "os_components (i @ ''.md'') = loc_path (d @ [f])" "hd i = CHR ''/''" "i \<noteq> []"
    and "cr_fs st (d @ [f]) = Some (FileNode content)"
  shows "fst (remove_job env db_ok i st) = Inr True
    \<and> cr_fs (snd (remove_job env db_ok i st)) = (cr_fs st)(d @ [f] := None)"
proof -
  let ?fs = "cr_fs st" and ?p = "i @ ''.md''"
  have p: "job_file i st = ?p" using assms(3,4) by (simp add: job_file_def path_join_def)
  have d: "node_at ?fs d = Some DirNode" using assms(1,5) unfolding tree_fs_def by blast
  have walk: "walk c ?fs n dir (loc_path (d @ ns)) = walk c ?fs n d (map Normal ns)" for c n dir ns
    using walk_real [OF assms(1), of "[]" d c n "map Normal ns"] d by (simp add: loc_path_def)
  have "canonicalize env ?fs ?p = Some (d @ [f])"
    using walk [of False MAX_LINKS "fe_cwd env" "[f]"] assms(2,5)
    by (simp add: canonicalize_def canonical_comps_def loc_path_def)
  moreover have "entry_of env ?fs ?p = Some (d @ [f])"
    using walk [of False MAX_LINKS "fe_cwd env" "[]"] assms(2) d
    by (simp add: entry_of_def loc_path_def butlast_append)
  ultimately show ?thesis
    using assms(5) p by (simp add: remove_job_def remove_file_def registry_remove_def delete_state_def Let_def)
qed

section \<open>Witnesses\<close>

definition demo_fm :: "unit frontmatter" where
  "demo_fm = \<lparr> fm_name = Some ''a'', fm_cron = ''x'', fm_channel = Some [], fm_to = Some [], fm_enabled = True,
     fm_tool = None, fm_tool_args = None \<rparr>"

definition demo_cops :: "(unit, unit) cron_ops" where
  "demo_cops = \<lparr> co_parse = (\<lambda>e. if e = ''x'' then Some () else None), co_next = (\<lambda>s t. Some (t + 10)),
     co_yaml_in = (\<lambda>y. if y = ''k'' then Inr demo_fm else if y = ''b'' then Inr (demo_fm \<lparr> fm_cron := ''?'' \<rparr>) else Inl ''no''),
     co_yaml_out = (\<lambda>fm. if fm = demo_fm then Inr (''k'' @ [NL]) else Inl ''no''), co_json = (\<lambda>s. ()) \<rparr>"

definition demo_cenv :: fs_env where
  "demo_cenv = \<lparr> fe_cwd = [], fe_home = None, fe_entries = (\<lambda>fs d. [''a.md'']), fe_error = (\<lambda>p. ''failed'') \<rparr>"

definition job_text :: "string \<Rightarrow> string" where
  "job_text y = ''---'' @ [NL] @ y @ [NL] @ ''---'' @ [NL, NL] @ ''m''"

definition demo_cfs :: "string \<Rightarrow> file_system" where
  "demo_cfs y = [[''w''] \<mapsto> DirNode, [''w'', ''cron''] \<mapsto> DirNode, [''w'', ''cron'', ''a.md''] \<mapsto> FileNode (job_text y)]"

definition demo_job :: "(unit, unit) cron_job" where
  "demo_job = (cron_job_new demo_cops 0 ''a'' ''a'' ''x'' ''m'') \<lparr> cj_next_run := Some 5 \<rparr>"

definition demo_service :: "string \<Rightarrow> (unit, unit) cron_service" where
  "demo_service y = \<lparr> cr_workspace = ''/w'', cr_jobs = [(''a'', demo_job)], cr_db = [(''a'', (None, Some 5))], cr_fs = demo_cfs y \<rparr>"

lemmas demo_cron = demo_cops_def demo_cenv_def demo_cfs_def demo_fm_def demo_service_def demo_job_def
  cron_job_new_def parse_schedule_def get_job_def

lemma demo_md_files: "md_files demo_cenv (demo_service y) = [(''/w/cron/a.md'', ''a'')]"
  by (simp add: md_files_def cron_dir_def demo_cron path_join_def canonicalize_def canonical_comps_def
      os_components_def seg_comp_def MAX_LINKS_def node_at_def stem_ext_def)

lemma demo_read:
  "canonicalize demo_cenv (demo_cfs y) ''/w/cron/a.md'' = Some [''w'', ''cron'', ''a.md'']"
  "read_to_string demo_cenv (demo_cfs y) ''/w/cron/a.md'' = Some (job_text y)"
  by (simp_all add: demo_cenv_def demo_cfs_def read_to_string_def canonicalize_def canonical_comps_def
      os_components_def seg_comp_def MAX_LINKS_def node_at_def)

lemma demo_extract:
  "extract_frontmatter_raw (job_text ''k'') = Inr (''k'', ''m'')" "extract_frontmatter_raw (job_text ''b'') = Inr (''b'', ''m'')"
  by (simp_all add: extract_frontmatter_raw_def job_text_def trim_start_def is_ws_def starts_with_def trim_newlines_def Let_def)

lemma demo_configured:
  "configured demo_cenv demo_cops ''a'' (Some ()) True (demo_service ''k'')"
  "configured demo_cenv demo_cops ''a'' None True (demo_service ''b'')"
  unfolding configured_def demo_md_files
  by (simp_all add: demo_service_def demo_read parse_markdown_def demo_extract demo_cops_def demo_fm_def parse_schedule_def)

lemma demo_keyed: "keyed (demo_service y)"
  by (simp add: keyed_def demo_cron)

lemma demo_benign: "benign i (\<lambda>j st. st)"
  by (simp add: benign_def)

lemma demo_ticking: "ticking demo_cenv demo_cops ''a'' (Some ()) True 5 (demo_service ''k'')"
  unfolding ticking_def
  by (intro conjI exI [of _ None] demo_keyed demo_configured) (simp_all add: restored_def demo_cron)

abbreviation demo_events where
  "demo_events \<equiv> [Poll 5 (\<lambda>k. 5), Reload 6, Restart 7, Poll 20 (\<lambda>k. 20)]"


theorem invalid_schedule_runs_every_poll_witness:
  "cron_history demo_cenv demo_cops (\<lambda>i. True) (\<lambda>j st. st) ''a'' (Reload 1 # map (\<lambda>t. Poll t (\<lambda>k. t)) [5, 65, 125])
     (demo_service ''b'') = [5, 65, 125]"
  by (rule invalid_schedule_runs_every_poll [OF demo_keyed demo_configured(2), where l = None and n = 5])
    (simp_all add: demo_service_def demo_benign)

theorem edited_schedule_waits_witness:
  "cron_history demo_cenv demo_cops (\<lambda>i. True) (\<lambda>j st. st) ''a'' (Reload 1 # map (\<lambda>t. Poll t (\<lambda>k. t)) [2, 3, 4])
     (demo_service ''k'') = []"
  by (rule edited_schedule_waits [OF demo_keyed demo_configured(1), where l = None and n = 5])
    (simp_all add: demo_service_def demo_benign)

lemma demo_yaml_law: "yaml_law demo_cops"
  by (auto simp: yaml_law_def demo_cops_def sublist_Cons_right trim_newlines_def split: if_splits)


theorem remove_job_deletes_outside_witness:
  "fst (remove_job demo_cenv (\<lambda>i. True) ''/w/x'' ((demo_service ''k'')
       \<lparr> cr_fs := [[''w''] \<mapsto> DirNode, [''w'', ''x.md''] \<mapsto> FileNode ''notes''] \<rparr>)) = Inr True
   \<and> cr_fs (snd (remove_job demo_cenv (\<lambda>i. True) ''/w/x'' ((demo_service ''k'')
       \<lparr> cr_fs := [[''w''] \<mapsto> DirNode, [''w'', ''x.md''] \<mapsto> FileNode ''notes''] \<rparr>)))
     = ([[''w''] \<mapsto> DirNode, [''w'', ''x.md''] \<mapsto> FileNode ''notes''])([''w'', ''x.md''] := None)"
  using remove_job_deletes_outside [of "(demo_service ''k'')
       \<lparr> cr_fs := [[''w''] \<mapsto> DirNode, [''w'', ''x.md''] \<mapsto> FileNode ''notes''] \<rparr>" "''/w/x''" "[''w'']" "''x.md''" "''notes''"
       demo_cenv "\<lambda>i. True"]
  by (auto simp: tree_fs_def node_at_def os_components_def seg_comp_def loc_path_def)

end
