(* ===== verification/Cron_Tool_Proofs.thy ===== *)
theory Cron_Tool_Proofs
  imports Cron_Tool Cron_Properties
begin

text \<open>A job the tool adds is removed by the tool without a trace; the heartbeat sees the top of its file only.\<close>

section \<open>Paths of new files\<close>

text \<open>An identifier that is one name: UUIDs are.\<close>

definition plain_id :: "string \<Rightarrow> bool" where
  "plain_id i = (i \<noteq> [] \<and> CHR ''/'' \<notin> set i)"

lemma segments_plain: "CHR ''/'' \<notin> set s \<Longrightarrow> segments s = [s]"
  by (induction s) auto

lemma segments_not_Nil: "segments s \<noteq> []"
  by (cases s) (auto split: list.splits)

lemma segments_join: "CHR ''/'' \<notin> set s \<Longrightarrow> segments (p @ CHR ''/'' # s) = segments p @ [s]"
proof (induction p)
  case (Cons c p)
  then show ?case using segments_not_Nil [of p] by (cases "segments p") auto
qed (simp add: segments_plain)

lemma os_components_join:
  assumes "p \<noteq> []" "CHR ''/'' \<notin> set s" "s \<notin> {[], ''.'', ''..''}"
  shows "os_components (p @ CHR ''/'' # s) = os_components p @ [Normal s]"
proof -
  obtain c p1 where "p = c # p1" using assms(1) by (cases p) auto
  then show ?thesis
    using segments_join [OF assms(2), of p1] segments_join [OF assms(2), of p] assms(3)
    by (simp add: os_components_def seg_comp_def del: segments.simps)
qed

lemma takeWhile_plain: "c \<notin> set s \<Longrightarrow> takeWhile (\<lambda>x. x \<noteq> c) (rev s @ c # r) = rev s"
  by (subst takeWhile_append2) auto

lemma stem_ext_app: "i \<noteq> [] \<Longrightarrow> CHR ''.'' \<notin> set e \<Longrightarrow> stem_ext (i @ CHR ''.'' # e) = (i, Some e)"
proof -
  assume a: "i \<noteq> []" "CHR ''.'' \<notin> set e"
  have "takeWhile (\<lambda>c. c \<noteq> CHR ''.'') (rev (i @ CHR ''.'' # e)) = rev e"
    using takeWhile_plain [OF a(2), of "rev i"] by simp
  then show ?thesis using a(1) by (simp add: stem_ext_def Let_def)
qed

lemma with_extension_job:
  assumes "plain_id i"
  shows "with_extension (p @ CHR ''/'' # i @ ''.md'') ''tmp'' = p @ CHR ''/'' # i @ ''.tmp''"
proof -
  have "CHR ''/'' \<notin> set (i @ ''.md'')" using assms by (simp add: plain_id_def)
  then have "after_last (CHR ''/'') (p @ CHR ''/'' # i @ ''.md'') = i @ ''.md''"
    using takeWhile_plain [of "CHR ''/''" "i @ ''.md''" "rev p"] by (simp add: after_last_def)
  moreover have "stem_ext (i @ ''.md'') = (i, Some ''md'')"
    using stem_ext_app [of i "''md''"] assms by (simp add: plain_id_def)
  ultimately show ?thesis by (simp add: with_extension_def Let_def)
qed

text \<open>A new file elsewhere does not change where a path leads.\<close>

lemma walk_new_file:
  "walk False fs n dir cs = Some q \<Longrightarrow> fs l = None \<Longrightarrow> walk False (fs(l \<mapsto> x)) n dir cs = Some q"
proof (induction "False" fs n dir cs rule: walk.induct)
  case (5 fs n dir s cs)
  have "dir @ [s] \<noteq> l" using 5(3,4) by auto
  then show ?case using 5 by (auto split: option.splits fs_node.splits nat.splits if_splits)
qed simp_all

text \<open>The directory of a path is a directory of its own.\<close>

definition dir_of_path :: "fs_env \<Rightarrow> file_system \<Rightarrow> string \<Rightarrow> location \<Rightarrow> bool" where
  "dir_of_path env fs p d = (p \<noteq> [] \<and> walk False fs MAX_LINKS (fe_cwd env) (os_components p) = Some d \<and> node_at fs d = Some DirNode)"

lemma dir_of_path_new:
  "dir_of_path env fs p d \<Longrightarrow> fs l = None \<Longrightarrow> l \<noteq> [] \<Longrightarrow> dir_of_path env (fs(l \<mapsto> x)) p d"
  by (auto simp: dir_of_path_def walk_new_file node_at_def)

lemma in_dir:
  assumes "dir_of_path env fs p d" "CHR ''/'' \<notin> set s" "s \<notin> {[], ''.'', ''..''}"
  shows "entry_of env fs (p @ CHR ''/'' # s) = Some (d @ [s])"
    and "fs (d @ [s]) = None \<Longrightarrow> fs_write env fs (p @ CHR ''/'' # s) c = Some (fs(d @ [s] \<mapsto> FileNode c))"
    and "fs (d @ [s]) = Some (FileNode c) \<Longrightarrow> canonicalize env fs (p @ CHR ''/'' # s) = Some (d @ [s])"
proof -
  have p: "p \<noteq> []" "walk False fs MAX_LINKS (fe_cwd env) (os_components p) = Some d" "node_at fs d = Some DirNode"
    using assms(1) by (simp_all add: dir_of_path_def)
  have os: "os_components (p @ CHR ''/'' # s) = os_components p @ [Normal s]"
    by (rule os_components_join [OF p(1) assms(2,3)])
  show "entry_of env fs (p @ CHR ''/'' # s) = Some (d @ [s])"
    using p os by (simp add: entry_of_def Let_def)
  have walk: "\<exists>m. walk c fs MAX_LINKS (fe_cwd env) (os_components p @ [Normal s]) = walk c fs m d [Normal s]" for c
    by (rule walk_append [OF p(2,3)])
  show "fs_write env fs (p @ CHR ''/'' # s) c = Some (fs(d @ [s] \<mapsto> FileNode c))" if "fs (d @ [s]) = None"
    using walk [of True] that os by (auto simp: fs_write_def node_at_def)
  show "canonicalize env fs (p @ CHR ''/'' # s) = Some (d @ [s])" if "fs (d @ [s]) = Some (FileNode c)"
    using walk [of False] that os by (auto simp: canonicalize_def canonical_comps_def)
qed

lemma atomic_write_new:
  assumes "dir_of_path env fs p d" "plain_id i" "fs (d @ [i @ ''.tmp'']) = None" "fs (d @ [i @ ''.md'']) = None"
  shows "atomic_write env fs (p @ CHR ''/'' # i @ ''.md'') c = (True, fs(d @ [i @ ''.md''] \<mapsto> FileNode c))"
proof -
  let ?tmp = "d @ [i @ ''.tmp'']" and ?md = "d @ [i @ ''.md'']"
  let ?fs1 = "fs(?tmp \<mapsto> FileNode c)"
  have plain: "CHR ''/'' \<notin> set (i @ ''.tmp'')" "i @ ''.tmp'' \<notin> {[], ''.'', ''..''}"
    "CHR ''/'' \<notin> set (i @ ''.md'')" "i @ ''.md'' \<notin> {[], ''.'', ''..''}"
    using assms(2) by (auto simp: plain_id_def append_eq_Cons_conv)
  have d1: "dir_of_path env ?fs1 p d" using dir_of_path_new [OF assms(1,3)] by simp
  have "fs_write env fs (p @ CHR ''/'' # i @ ''.tmp'') c = Some ?fs1"
    by (rule in_dir(2) [OF assms(1) plain(1,2) assms(3)])
  moreover have "rename_file env ?fs1 (p @ CHR ''/'' # i @ ''.tmp'') (p @ CHR ''/'' # i @ ''.md'')
      = Some (fs(?md \<mapsto> FileNode c))"
    using in_dir(1) [OF d1 plain(1,2)] in_dir(1) [OF d1 plain(3,4)] assms(3,4) by (simp add: rename_file_def fun_upd_idem)
  ultimately show ?thesis
    using with_extension_job [OF assms(2)] by (simp add: atomic_write_def Let_def)
qed

section \<open>Adding and removing\<close>

lemma cron_dir_shape: "\<exists>p. cron_dir st = p @ ''cron'' \<and> cron_dir st \<noteq> []"
  by (simp add: cron_dir_def path_join_def)

lemma cron_dir_cong: "cr_workspace st = cr_workspace st1 \<Longrightarrow> cron_dir st = cron_dir st1"
  by (simp add: cron_dir_def)

lemma job_file_plain: "plain_id i \<Longrightarrow> job_file i st = cron_dir st @ CHR ''/'' # i @ ''.md''"
proof -
  assume i: "plain_id i"
  obtain p where "cron_dir st = p @ ''cron''" using cron_dir_shape by blast
  then show ?thesis
    using i by (cases i) (auto simp: job_file_def path_join_def plain_id_def)
qed

text \<open>What adding a new job leaves behind.\<close>

lemma add_new_job:
  assumes "dir_of_path env (cr_fs st) (cron_dir st) d" "plain_id (cj_id j)"
    and "cr_fs st (d @ [cj_id j @ ''.tmp'']) = None" "cr_fs st (d @ [cj_id j @ ''.md'']) = None"
    and "serialize_to_markdown ops j = Inr content"
  shows "fst (add_job env ops db_ok j st) = Inr ()"
    and "cr_workspace (snd (add_job env ops db_ok j st)) = cr_workspace st"
    and "cr_fs (snd (add_job env ops db_ok j st)) = (cr_fs st)(d @ [cj_id j @ ''.md''] \<mapsto> FileNode content)"
    and "cr_jobs (snd (add_job env ops db_ok j st)) = AList.update (cj_id j) j (cr_jobs st)"
    and "i \<noteq> cj_id j \<Longrightarrow> map_of (cr_db (snd (add_job env ops db_ok j st))) i = map_of (cr_db st) i"
    and "\<not> db_ok (cj_id j) \<Longrightarrow> cr_db (snd (add_job env ops db_ok j st)) = cr_db st"
proof -
  have there: "canonicalize env (cr_fs st) (cron_dir st) \<noteq> None"
    using assms(1) cron_dir_shape [of st]
    by (auto simp: dir_of_path_def canonicalize_def canonical_comps_def os_components_def segments_not_Nil)
  have "atomic_write env (cr_fs st) (job_file (cj_id j) st) content
      = (True, (cr_fs st)(d @ [cj_id j @ ''.md''] \<mapsto> FileNode content))"
    unfolding job_file_plain [OF assms(2)] by (rule atomic_write_new [OF assms(1-4)])
  then have eq: "add_job env ops db_ok j st = (Inr (),
      (let st1 = registry_insert j (st \<lparr> cr_fs := (cr_fs st)(d @ [cj_id j @ ''.md''] \<mapsto> FileNode content) \<rparr>) in
       case cj_next_run j of Some n \<Rightarrow> snd (save_state db_ok (cj_id j) None (Some n) st1) | None \<Rightarrow> st1))"
    using assms(5) unfolding add_job_def if_not_P [OF there] by (simp add: Let_def)
  show "fst (add_job env ops db_ok j st) = Inr ()"
    "cr_workspace (snd (add_job env ops db_ok j st)) = cr_workspace st"
    "cr_fs (snd (add_job env ops db_ok j st)) = (cr_fs st)(d @ [cj_id j @ ''.md''] \<mapsto> FileNode content)"
    "cr_jobs (snd (add_job env ops db_ok j st)) = AList.update (cj_id j) j (cr_jobs st)"
    "i \<noteq> cj_id j \<Longrightarrow> map_of (cr_db (snd (add_job env ops db_ok j st))) i = map_of (cr_db st) i"
    "\<not> db_ok (cj_id j) \<Longrightarrow> cr_db (snd (add_job env ops db_ok j st)) = cr_db st"
    unfolding eq
    by (simp_all add: Let_def registry_insert_def save_state_def map_of_update split: option.split)
qed

lemma remove_from_dir:
  assumes "dir_of_path env (cr_fs st) (cron_dir st) d" "plain_id i"
    and "cr_fs st (d @ [i @ ''.md'']) = Some (FileNode content)"
  shows "remove_job env db_ok i st =
    (Inr True, (registry_remove i (delete_state db_ok i st)) \<lparr> cr_fs := (cr_fs st)(d @ [i @ ''.md''] := None) \<rparr>)"
proof -
  have plain: "CHR ''/'' \<notin> set (i @ ''.md'')" "i @ ''.md'' \<notin> {[], ''.'', ''..''}"
    using assms(2) by (auto simp: plain_id_def append_eq_Cons_conv)
  show ?thesis
    using in_dir(1,3) [OF assms(1) plain] assms(3) job_file_plain [OF assms(2), of st]
    by (simp add: remove_job_def remove_file_def Let_def)
qed

lemma delete_state_simps [simp]:
  "cr_jobs (delete_state db_ok i st) = cr_jobs st" "cr_fs (delete_state db_ok i st) = cr_fs st"
  "cr_workspace (delete_state db_ok i st) = cr_workspace st"
  by (simp_all add: delete_state_def)

text \<open>The job the tool makes of its arguments.\<close>

definition added_job where
  "added_job ops now uuid name cron message a =
     (cron_job_new ops now uuid name cron message) \<lparr> cj_channel := ca_channel a, cj_chat_id := ca_to a \<rparr>"

lemma added_job_id [simp]: "cj_id (added_job ops now uuid name cron message a) = uuid"
  by (simp add: added_job_def cron_job_new_def split: prod.split)


abbreviation demo_args :: "string \<Rightarrow> cron_args" where
  "demo_args action \<equiv> \<lparr> ca_action = action, ca_name = Some ''a'', ca_cron = Some ''x'', ca_message = Some ''m'',
     ca_job_id = Some ''b'', ca_channel = None, ca_to = None \<rparr>"

abbreviation demo_ct :: cron_tool_env where
  "demo_ct \<equiv> \<lparr> ct_parse_error = (\<lambda>e. ''bad''), ct_show_time = (\<lambda>t. ''now'') \<rparr>"

abbreviation demo_added where
  "demo_added \<equiv> added_job demo_cops 3 ''b'' ''a'' ''x'' ''m'' (demo_args ''add'')"


section \<open>The heartbeat\<close>

definition task_of :: "string \<Rightarrow> string" where
  "task_of line = trim (trim_marks (trim line))"

lemma task_lines:
  "length pending + length ls \<le> MAX_TASK_LINES \<Longrightarrow>
     foldl task_line pending ls = pending @ map task_of (filter (\<lambda>l. starts_with (trim l) TASK_MARK) ls)"
  by (induction ls arbitrary: pending) (auto simp: task_line_def task_of_def Let_def)

text \<open>The tasks are the open ones among the first hundred lines of the file; the count of tasks never decides.\<close>

lemma read_tasks_spec:
  assumes "read_to_string env fs (path_join workspace ''HEARTBEAT.md'') = Some content"
  shows "read_tasks env fs workspace
    = map task_of (filter (\<lambda>l. starts_with (trim l) TASK_MARK) (take MAX_TASK_LINES (str_lines content)))"
proof -
  have "canonicalize env fs (path_join workspace ''HEARTBEAT.md'') \<noteq> None"
    using assms by (auto simp: read_to_string_def split: option.splits)
  then show ?thesis
    using assms task_lines [of "[]" "take MAX_TASK_LINES (str_lines content)"]
    by (auto simp: read_tasks_def Let_def)
qed

lemma heartbeat_tail_ignored:
  assumes "read_to_string env fs (path_join workspace ''HEARTBEAT.md'') = Some content"
    and "\<forall>l \<in> set (take MAX_TASK_LINES (str_lines content)). \<not> starts_with (trim l) TASK_MARK"
  shows "read_tasks env fs workspace = []"
  using assms(2) by (simp add: read_tasks_spec [OF assms(1)])

end
