(* ===== verification/Command_Handler.thy ===== *)
theory Command_Handler
  imports Commands Turn
begin

text \<open>
  Where commands meet the rest: the command host of the command line
  (cli/src/commands/command_host.rs) behind the interface the built-in commands rely on, the
  engine's message handler (engine/src/bus_adapter.rs), and the handler that routes a
  message to a command or to the engine (cli/src/commands/dispatching_handler.rs).
\<close>

section \<open>The host interface\<close>

text \<open>The promise of \<open>CommandHost\<close> about models: \<open>model_of\<close> is the active model, reading it
  changes nothing, switching reports the old and the new one and takes effect.\<close>

locale command_host =
  fixes host :: "'w command_host" and model_of :: "session_key \<Rightarrow> 'w \<Rightarrow> string"
  assumes current_model: "ho_current_model host k w = (model_of k w, w)"
    and switch_reports: "ho_switch_model host k m w = (Inr info, w1) \<Longrightarrow>
      ms_previous info = model_of k w \<and> ms_current info = m \<and> model_of k w1 = m"
    and switch_fails: "ho_switch_model host k m w = (Inl e, w1) \<Longrightarrow> model_of k w1 = model_of k w"
begin

definition run_builtin :: "'w command \<Rightarrow> string \<Rightarrow> session_key \<Rightarrow> 'w \<Rightarrow> command_result \<times> 'w" where
  "run_builtin c args k w = (case co_kind c of Builtin h \<Rightarrow> h args host k w | Yaml _ _ \<Rightarrow> (Quit, w))"

text \<open>What \<open>/model\<close> prints after \<open>/model m\<close>.\<close>

lemma model_after_switch:
  assumes "run_builtin cmd_model m k w = (Print t, w1)" "trim m \<noteq> []"
  shows "run_builtin cmd_model [] k w1 = (Print (''Current model: '' @ trim m), w1)"
    and "t = ''Switched: '' @ model_of k w @ '' '' @ ARROW @ '' '' @ trim m"
  using assms switch_reports [of k "trim m" w]
  by (auto simp: run_builtin_def cmd_model_def current_model Let_def split: prod.splits sum.splits)

lemma model_after_failure:
  assumes "run_builtin cmd_model m k w = (CmdError t, w1)"
  shows "run_builtin cmd_model [] k w1 = (Print (''Current model: '' @ model_of k w), w1)"
  using assms switch_fails [of k "trim m" w]
  by (auto simp: run_builtin_def cmd_model_def current_model Let_def split: prod.splits sum.splits if_splits)

end

section \<open>The host of the command line\<close>

record ('j, 'h, 'e, 'w) cli_state =
  cs_agent :: "('j, 'h, 'e, 'w) agent_session"
  cs_turn :: turn_state

definition agent_list_sessions :: "(string \<Rightarrow> string option) \<Rightarrow> event_db \<Rightarrow> session_summary list" where
  "agent_list_sessions parse_time db = List.map_filter (\<lambda>(key, count, updated).
     map_option (\<lambda>k. \<lparr> ss_key = k, ss_message_count = nat count, ss_last_active = parse_time updated \<rparr>)
       (session_key_parse key)) (scan_active_sessions db)"

text \<open>\<open>io\<close>: what the database answers to clearing; \<open>publish\<close>: the broker, if there is one.\<close>

definition cli_host ::
  "string option \<Rightarrow> (string \<Rightarrow> string option) \<Rightarrow> ('ws outbound_message \<Rightarrow> string + unit) option
    \<Rightarrow> ('j, 'h, 'e, 'w) cli_state command_host" where
  "cli_host io parse_time publish = \<lparr>
     ho_clear_session = \<lambda>k w. w \<lparr> cs_turn := agent_clear_session io k (cs_turn w) \<rparr>,
     ho_list_sessions = \<lambda>w. (agent_list_sessions parse_time (tn_events (cs_turn w)), w),
     ho_current_model = \<lambda>k w. (sn_active_model (cs_agent w), w),
     ho_switch_model = \<lambda>k m w. (case switch_model m (cs_agent w) of (r, s) \<Rightarrow> (r, w \<lparr> cs_agent := s \<rparr>)),
     ho_send_message = \<lambda>channel chat_id content w. (case publish of
         None \<Rightarrow> (Inl ''Broker not available'', w)
       | Some pub \<Rightarrow> (case pub (outbound_new (channel_new channel) chat_id content) of
           Inl e \<Rightarrow> (Inl (''Broker publish failed: '' @ e), w)
         | Inr _ \<Rightarrow> (Inr (), w))) \<rparr>"

interpretation cli: command_host "cli_host io parse_time publish" "\<lambda>k w. sn_active_model (cs_agent w)"
  for io parse_time publish
  by unfold_locales (auto simp: cli_host_def switch_model_def)

section \<open>The engine's message handler\<close>

text \<open>\<open>run_turn\<close> is the turn without its world, with the tool filter; \<open>'r\<close> carries the
  response.\<close>

definition engine_handle_message ::
  "(nat \<Rightarrow> bool) \<Rightarrow> time \<Rightarrow> (string list option \<Rightarrow> string \<Rightarrow> session_key \<Rightarrow> 'e + 'r) \<Rightarrow> ('r \<Rightarrow> 'e + string)
    \<Rightarrow> session_key \<Rightarrow> string \<Rightarrow> pending_asks \<Rightarrow> ('e + string) \<times> pending_asks" where
  "engine_handle_message closed now run_turn join_result k message st =
     (case handle_inbound closed now (run_turn None) message k st of
        (Inl e, st1) \<Rightarrow> (Inl e, st1)
      | (Inr Consumed, st1) \<Rightarrow> (Inr [], st1)
      | (Inr (Replied r), st1) \<Rightarrow> (join_result r, st1))"

text \<open>The streaming variant: the events and the final message.\<close>

record ('e, 'ws) stream_reply =
  sr_events :: "chat_event list"
  sr_result :: "'e + 'ws outbound_message"

definition engine_handle_streaming ::
  "(nat \<Rightarrow> bool) \<Rightarrow> time \<Rightarrow> (string list option \<Rightarrow> string \<Rightarrow> session_key \<Rightarrow> 'e + 'r) \<Rightarrow> ('r \<Rightarrow> chat_event list)
    \<Rightarrow> ('r \<Rightarrow> 'e + string) \<Rightarrow> string \<Rightarrow> session_key \<Rightarrow> string list option \<Rightarrow> pending_asks
    \<Rightarrow> ('e + ('e, 'ws) stream_reply) \<times> pending_asks" where
  "engine_handle_streaming closed now run_turn events join_result message k tool_filter st =
     (case handle_inbound closed now (run_turn tool_filter) message k st of
        (Inl e, st1) \<Rightarrow> (Inl e, st1)
      | (Inr Consumed, st1) \<Rightarrow>
          (Inr \<lparr> sr_events = [], sr_result = Inr (outbound_new Cli (session_key_display k) []) \<rparr>, st1)
      | (Inr (Replied r), st1) \<Rightarrow>
          (Inr \<lparr> sr_events = events r, sr_result = (case join_result r of
               Inl e \<Rightarrow> Inl e | Inr c \<Rightarrow> Inr (outbound_new Cli (session_key_display k) c)) \<rparr>, st1))"

section \<open>Routing a message\<close>

definition QUIT_TEXT :: string where "QUIT_TEXT = ''Quit is not supported in this channel.''"

definition malformed_text :: "(string \<Rightarrow> string) \<Rightarrow> string \<Rightarrow> string" where
  "malformed_text debug message =
     ''Unknown command format: '' @ debug message @ ''. Please send commands as plain text.''"

text \<open>\<open>engine\<close>, \<open>stream\<close>: the wrapped engine; \<open>debug\<close>: the \<open>Debug\<close> text of a string.\<close>

definition dispatching_handle_message ::
  "(string \<Rightarrow> string) \<Rightarrow> 'w dispatcher \<Rightarrow> (session_key \<Rightarrow> string \<Rightarrow> 'w \<Rightarrow> ('e + string) \<times> 'w)
    \<Rightarrow> session_key \<Rightarrow> string \<Rightarrow> 'w \<Rightarrow> ('e + string) \<times> 'w" where
  "dispatching_handle_message debug d engine k message w = (case route d message k w of
       (Handled (Print s), w1) \<Rightarrow> (Inr s, w1)
     | (Handled (CmdError s), w1) \<Rightarrow> (Inr s, w1)
     | (Handled Quit, w1) \<Rightarrow> (Inr QUIT_TEXT, w1)
     | (Rewrite prompt tool_filter, w1) \<Rightarrow> (case engine k prompt w1 of
           (Inl e, w2) \<Rightarrow> (Inl e, w2)
         | (Inr t, w2) \<Rightarrow> (Inr (if tool_filter \<noteq> None then t @ [NL, NL] @ ''[tool filter applied]'' else t), w2))
     | (Passthrough t, w1) \<Rightarrow>
         if starts_with (trim_start message) ''/'' then (Inr (malformed_text debug message), w1)
         else engine k t w1)"

definition stream_text :: "chat_event \<Rightarrow> session_key \<Rightarrow> string \<Rightarrow> ('e, 'ws) stream_reply" where
  "stream_text ev k t = \<lparr> sr_events = [ev, Done],
     sr_result = Inr (outbound_new WebSocket (session_key_display k) t) \<rparr>"

definition dispatching_handle_streaming ::
  "(string \<Rightarrow> string) \<Rightarrow> 'w dispatcher
    \<Rightarrow> (string \<Rightarrow> session_key \<Rightarrow> string list option \<Rightarrow> 'w \<Rightarrow> ('e + ('e, 'ws) stream_reply) \<times> 'w)
    \<Rightarrow> string \<Rightarrow> session_key \<Rightarrow> 'w \<Rightarrow> ('e + ('e, 'ws) stream_reply) \<times> 'w" where
  "dispatching_handle_streaming debug d stream message k w = (case route d message k w of
       (Handled (Print t), w1) \<Rightarrow>
         (let shown = (if starts_with t [ESC] then ''Screen cleared.'' else t) in
          (Inr (stream_text (TextEv shown) k shown), w1))
     | (Handled (CmdError t), w1) \<Rightarrow> (Inr (stream_text (ErrorEv t) k t), w1)
     | (Handled Quit, w1) \<Rightarrow> (Inr (stream_text (TextEv QUIT_TEXT) k QUIT_TEXT), w1)
     | (Rewrite prompt tool_filter, w1) \<Rightarrow> stream prompt k tool_filter w1
     | (Passthrough t, w1) \<Rightarrow>
         if starts_with (trim_start message) ''/''
         then (Inr (stream_text (ErrorEv (malformed_text debug message)) k (malformed_text debug message)), w1)
         else stream t k None w1)"

section \<open>Tool restrictions\<close>

text \<open>A dispatcher whose restricted user commands have other lists of allowed tools.\<close>

fun with_tools :: "(string list \<Rightarrow> string list) \<Rightarrow> 'w command_kind \<Rightarrow> 'w command_kind" where
  "with_tools f (Builtin h) = Builtin h"
| "with_tools f (Yaml template allowed) = Yaml template (map_option f allowed)"

definition relist :: "(string list \<Rightarrow> string list) \<Rightarrow> 'w dispatcher \<Rightarrow> 'w dispatcher" where
  "relist f d = d \<lparr> di_registry := (di_registry d) \<lparr> cr_commands :=
     map (\<lambda>(n, c). (n, c \<lparr> co_kind := with_tools f (co_kind c) \<rparr>)) (cr_commands (di_registry d)) \<rparr> \<rparr>"

lemma resolve_relist:
  "resolve_name (di_registry (relist f d)) n =
     map_option (\<lambda>c. c \<lparr> co_kind := with_tools f (co_kind c) \<rparr>) (resolve_name (di_registry d) n)"
  by (simp add: resolve_name_def relist_def map_of_map)

lemma route_relist:
  "route (relist f d) line k w = (case route d line k w of
     (Rewrite p t, w1) \<Rightarrow> (Rewrite p (map_option f t), w1) | r \<Rightarrow> r)"
proof (cases "parse_line line")
  case (ParsedCommand name args)
  show ?thesis
  proof (cases "resolve_name (di_registry d) name")
    case (Some c)
    have host: "di_host (relist f d) = di_host d" by (simp add: relist_def)
    show ?thesis
    proof (cases "co_kind c")
      case (Builtin h)
      then show ?thesis using ParsedCommand Some
        by (simp add: route_def dispatch_def resolve_relist host split: prod.split)
    next
      case (Yaml template allowed)
      then show ?thesis using ParsedCommand Some by (simp add: route_def dispatch_def resolve_relist)
    qed
  qed (simp add: route_def dispatch_def resolve_relist ParsedCommand)
qed (simp add: route_def)

text \<open>Outside streaming channels the list of allowed tools of a user command has no effect.
  Replacing the lists of all restricted commands by any other lists changes nothing of what
  the handler answers or does; the engine runs the prompt without a filter, and the answer
  still says that the filter was applied.  The streaming handler passes the list on.\<close>

theorem tool_lists_ignored:
  "dispatching_handle_message debug (relist f d) engine k message w
     = dispatching_handle_message debug d engine k message w
   \<and> (case route d message k w of
       (Rewrite prompt (Some tools), w1) \<Rightarrow>
         dispatching_handle_message debug d engine k message w = (case engine k prompt w1 of
             (Inr t, w2) \<Rightarrow> (Inr (t @ [NL, NL] @ ''[tool filter applied]''), w2) | (Inl e, w2) \<Rightarrow> (Inl e, w2))
         \<and> dispatching_handle_streaming debug (relist f d) stream message k w = stream prompt k (Some (f tools)) w1
     | _ \<Rightarrow> True)"
proof -
  have "dispatching_handle_message debug (relist f d) engine k message w
     = dispatching_handle_message debug d engine k message w"
    unfolding dispatching_handle_message_def route_relist
    by (simp split: prod.split route_outcome.split sum.split)
  moreover have "case route d message k w of
       (Rewrite prompt (Some tools), w1) \<Rightarrow>
         dispatching_handle_message debug d engine k message w = (case engine k prompt w1 of
             (Inr t, w2) \<Rightarrow> (Inr (t @ [NL, NL] @ ''[tool filter applied]''), w2) | (Inl e, w2) \<Rightarrow> (Inl e, w2))
         \<and> dispatching_handle_streaming debug (relist f d) stream message k w = stream prompt k (Some (f tools)) w1
     | _ \<Rightarrow> True"
    unfolding dispatching_handle_message_def dispatching_handle_streaming_def route_relist
    by (auto split: prod.split route_outcome.split sum.split option.split)
  ultimately show ?thesis by blast
qed

end
