(* ===== verification/Workflow.thy ===== *)
theory Workflow
  imports Tool_Registry "HOL-Library.List_Lexorder" "HOL-Library.Char_ord"
begin

text \<open>
  YAML-defined workflows run as a state machine over subagents
  (engine/src/tools/workflow.rs, with the key-value table of storage/src/kv_store.rs).
  A HashMap read from YAML is an association list in its iteration order; the context and the
  retry counters are functions.  JSON, YAML and serde are parameters.  A step's subagent is
  a function on the world; an index outside the step table, which panics in the code,
  is the result \<open>WfPanic\<close>.
\<close>

section \<open>Manifests\<close>

datatype workflow_mode = ToolMode | SkillMode

definition default_max_retries :: nat where "default_max_retries = 3"

record evaluate_config =
  ec_on_pass :: string
  ec_on_fail :: string
  ec_max_retries :: nat

record workflow_step_def =
  wd_prompt :: string
  wd_model :: "string option"
  wd_next :: "string option"
  wd_evaluate :: "evaluate_config option"
  wd_tools :: "string list option"

record 'j workflow_manifest =
  wm_name :: string
  wm_description :: string
  wm_parameters :: 'j
  wm_start_step :: string
  wm_steps :: "(string \<times> workflow_step_def) list"
  wm_output_template :: "string option"
  wm_mode :: workflow_mode
  wm_always :: bool

section \<open>Workflows\<close>

record eval_gate =
  eg_on_pass :: "nat option"
  eg_on_fail :: "nat option"
  eg_max_retries :: nat

datatype transition = NextStep nat | Evaluate eval_gate | Finish

record workflow_step =
  ws_name :: string
  ws_prompt :: string
  ws_model :: "string option"
  ws_transition :: transition
  ws_tools :: "string list option"

record 'j workflow =
  wf_name :: string
  wf_description :: string
  wf_parameters :: 'j
  wf_steps :: "workflow_step list"
  wf_start_idx :: nat
  wf_output_template :: "string option"
  wf_always :: bool

text \<open>The messages of the \<open>anyhow\<close> errors, one constructor each.\<close>

datatype manifest_error =
    EmptyName
  | EmptyDescription
  | NoSteps
  | StartStepNotFound string
  | UnreachableSteps "string list"
  | OnPassNotFound string string
  | OnFailNotFound string string
  | NextNotFound string string
  | NoTransition string

abbreviation DONE :: string where "DONE \<equiv> ''DONE''"

lemma unvisited_shrinks:
  assumes "map_of steps current = Some step" "current \<notin> set ordered"
  shows "card (set (map fst steps) - insert current (set ordered)) < card (set (map fst steps) - set ordered)"
proof (rule psubset_card_mono)
  have "current \<in> set (map fst steps)" using map_of_SomeD [OF assms(1)] by force
  then show "set (map fst steps) - insert current (set ordered) \<subset> set (map fst steps) - set ordered"
    using assms(2) by auto
qed simp

text \<open>The traversal: \<open>ordered\<close> also stands for the set \<open>visited\<close>, which has the same
  elements; \<open>secondary\<close> is the queue of failure branches.  One call is one round of the inner
  loop, or its end with one round of the outer loop.\<close>

function order_steps ::
  "(string \<times> workflow_step_def) list \<Rightarrow> string \<Rightarrow> string list \<Rightarrow> string list \<Rightarrow> string list" where
  "order_steps steps current ordered secondary =
     (if current \<noteq> DONE \<and> current \<notin> set ordered \<and> map_of steps current \<noteq> None
      then (case map_of steps current of
          Some step \<Rightarrow> (case wd_evaluate step of
              Some ev \<Rightarrow> order_steps steps (ec_on_pass ev) (ordered @ [current])
                 (if ec_on_fail ev \<noteq> DONE then secondary @ [ec_on_fail ev] else secondary)
            | None \<Rightarrow> (case wd_next step of
                Some next_step \<Rightarrow> order_steps steps next_step (ordered @ [current]) secondary
              | None \<Rightarrow> (case secondary of
                  [] \<Rightarrow> ordered @ [current]
                | name # rest \<Rightarrow> order_steps steps name (ordered @ [current]) rest)))
        | None \<Rightarrow> ordered)
      else (case secondary of
          [] \<Rightarrow> ordered
        | name # rest \<Rightarrow> order_steps steps name ordered rest))"
  by pat_completeness auto

termination
  by (relation "measures [\<lambda>(steps, current, ordered, secondary). card (set (map fst steps) - set ordered),
      \<lambda>(steps, current, ordered, secondary). length secondary]")
    (auto dest: unvisited_shrinks)

declare order_steps.simps [simp del]

fun index_of :: "string list \<Rightarrow> string \<Rightarrow> nat option" where
  "index_of [] x = None"
| "index_of (y # ys) x = (if y = x then Some 0 else map_option Suc (index_of ys x))"

text \<open>A named target, \<open>None\<close> for \<open>DONE\<close>.\<close>

definition target_index :: "string list \<Rightarrow> manifest_error \<Rightarrow> string \<Rightarrow> manifest_error + nat option" where
  "target_index ordered e target =
     (if target = DONE then Inr None
      else case index_of ordered target of None \<Rightarrow> Inl e | Some i \<Rightarrow> Inr (Some i))"

definition build_transition :: "string list \<Rightarrow> string \<Rightarrow> workflow_step_def \<Rightarrow> manifest_error + transition" where
  "build_transition ordered name d = (case wd_evaluate d of
       Some ev \<Rightarrow>
         bind_res (target_index ordered (OnPassNotFound name (ec_on_pass ev)) (ec_on_pass ev)) (\<lambda>on_pass.
         bind_res (target_index ordered (OnFailNotFound name (ec_on_fail ev)) (ec_on_fail ev)) (\<lambda>on_fail.
         Inr (Evaluate \<lparr> eg_on_pass = on_pass, eg_on_fail = on_fail, eg_max_retries = ec_max_retries ev \<rparr>)))
     | None \<Rightarrow> (case wd_next d of
         Some next_step \<Rightarrow>
           bind_res (target_index ordered (NextNotFound name next_step) next_step) (\<lambda>i.
           Inr (case i of Some n \<Rightarrow> NextStep n | None \<Rightarrow> Finish))
       | None \<Rightarrow> Inl (NoTransition name)))"

definition build_step ::
  "(string \<times> workflow_step_def) list \<Rightarrow> string list \<Rightarrow> string \<Rightarrow> manifest_error + workflow_step" where
  "build_step steps ordered name = (case map_of steps name of
       None \<Rightarrow> Inl (NoTransition name)
     | Some d \<Rightarrow> bind_res (build_transition ordered name d) (\<lambda>t.
         Inr \<lparr> ws_name = name, ws_prompt = wd_prompt d, ws_model = wd_model d, ws_transition = t,
               ws_tools = wd_tools d \<rparr>))"

text \<open>The two \<open>expect\<close>s cannot fail (\<open>start_step\<close> is the first element of the ordering, which
  has only names of steps).\<close>

definition from_manifest :: "'j workflow_manifest \<Rightarrow> manifest_error + 'j workflow" where
  "from_manifest m =
     (if wm_name m = [] then Inl EmptyName
      else if wm_description m = [] then Inl EmptyDescription
      else if wm_steps m = [] then Inl NoSteps
      else if map_of (wm_steps m) (wm_start_step m) = None then Inl (StartStepNotFound (wm_start_step m))
      else let ordered = order_steps (wm_steps m) (wm_start_step m) [] [];
               unreachable = filter (\<lambda>n. n \<notin> set ordered) (remdups (map fst (wm_steps m))) in
        if unreachable \<noteq> [] then Inl (UnreachableSteps (sort unreachable))
        else case index_of ordered (wm_start_step m) of
          None \<Rightarrow> Inl (StartStepNotFound (wm_start_step m))
        | Some start_idx \<Rightarrow>
            bind_res (collect_res (map (build_step (wm_steps m) ordered) ordered)) (\<lambda>steps.
            Inr \<lparr> wf_name = wm_name m, wf_description = wm_description m, wf_parameters = wm_parameters m,
                  wf_steps = steps, wf_start_idx = start_idx, wf_output_template = wm_output_template m,
                  wf_always = wm_always m \<rparr>))"

section \<open>Templates\<close>

definition is_template_char :: "char \<Rightarrow> bool" where
  "is_template_char c = (let n = of_char c :: nat in
     (48 \<le> n \<and> n \<le> 57) \<or> (65 \<le> n \<and> n \<le> 90) \<or> (97 \<le> n \<and> n \<le> 122) \<or> c = CHR ''.'' \<or> c = CHR ''_'' \<or> c = CHR ''/'')"

text \<open>One match of \<open>PLACEHOLDER_RE\<close> at the front of the text: the key and what follows.
  Braces are not key characters, so the greedy run is the only way to match.\<close>

definition match_placeholder :: "string \<Rightarrow> (string \<times> string) option" where
  "match_placeholder s =
     (if starts_with s ''{{''
      then let key = takeWhile is_template_char (drop 2 s); rest = dropWhile is_template_char (drop 2 s) in
        if key \<noteq> [] \<and> starts_with rest ''}}'' then Some (key, drop 2 rest) else None
      else None)"

lemma match_placeholder_shorter: "match_placeholder s = Some (key, rest) \<Longrightarrow> length rest < length s"
proof -
  assume "match_placeholder s = Some (key, rest)"
  then have "rest = drop 2 (dropWhile is_template_char (drop 2 s))" "s \<noteq> []"
    by (auto simp: match_placeholder_def Let_def starts_with_def split: if_splits)
  moreover have "length (dropWhile is_template_char (drop 2 s)) \<le> length (drop 2 s)"
    by (rule length_dropWhile_le)
  ultimately show ?thesis by (cases s) auto
qed

text \<open>\<open>replace_all\<close>: the leftmost matches, not overlapping.\<close>

function replace_all :: "(string \<Rightarrow> string) \<Rightarrow> string \<Rightarrow> string" where
  "replace_all f s = (case s of
       [] \<Rightarrow> []
     | c # cs \<Rightarrow> (case match_placeholder s of
         Some (key, rest) \<Rightarrow> f key @ replace_all f rest
       | None \<Rightarrow> c # replace_all f cs))"
  by pat_completeness auto
termination
  by (relation "measure (\<lambda>(f, s). length s)") (auto dest: match_placeholder_shorter)

declare replace_all.simps [simp del]

definition substitute_template :: "string \<Rightarrow> (string \<Rightarrow> string option) \<Rightarrow> string" where
  "substitute_template template ctx =
     replace_all (\<lambda>key. case ctx key of Some v \<Rightarrow> v | None \<Rightarrow> ''{{'' @ key @ ''}}'') template"

definition clean_template_placeholders :: "string \<Rightarrow> string" where
  "clean_template_placeholders template = replace_all (\<lambda>_. ''[see above]'') template"

section \<open>Skill content\<close>

text \<open>A parameter of the JSON schema: name, description, printed default.\<close>

definition parameter_line :: "string \<times> string \<times> string option \<Rightarrow> string" where
  "parameter_line p = (case p of (k, desc, dflt) \<Rightarrow>
     ''- `'' @ k @ ''`'' @ (if desc \<noteq> [] then '': '' @ desc else [])
     @ (case dflt of Some d \<Rightarrow> '' (default: '' @ d @ '')'' | None \<Rightarrow> []) @ [NL])"

definition target_name :: "'j workflow \<Rightarrow> nat option \<Rightarrow> string" where
  "target_name flow i = (case i of Some n \<Rightarrow> ws_name (wf_steps flow ! n) | None \<Rightarrow> DONE)"

definition skill_step_text :: "'j workflow \<Rightarrow> nat \<Rightarrow> workflow_step \<Rightarrow> string" where
  "skill_step_text flow step_num st =
     [NL] @ ''#### '' @ show_nat step_num @ ''. '' @ ws_name st @ [NL]
     @ clean_template_placeholders (ws_prompt st) @ [NL]
     @ (case ws_transition st of
         Evaluate gate \<Rightarrow> [NL] @ ''*Review Rules*:'' @ [NL]
           @ ''- On pass proceed to: **'' @ target_name flow (eg_on_pass gate) @ ''**'' @ [NL]
           @ ''- On fail return to: **'' @ target_name flow (eg_on_fail gate) @ ''** (max retries: ''
           @ show_nat (eg_max_retries gate) @ '')'' @ [NL]
       | _ \<Rightarrow> [])"

fun primary_target :: "transition \<Rightarrow> nat option" where
  "primary_target (NextStep i) = Some i"
| "primary_target (Evaluate gate) = eg_on_pass gate"
| "primary_target Finish = None"

text \<open>The walk over the primary path; an index outside the table, which panics, ends it.\<close>

function skill_walk :: "'j workflow \<Rightarrow> nat set \<Rightarrow> nat \<Rightarrow> nat \<Rightarrow> string" where
  "skill_walk flow visited current step_num =
     (if current \<in> visited \<or> \<not> current < length (wf_steps flow) then []
      else let st = wf_steps flow ! current in
        skill_step_text flow step_num st
        @ (case primary_target (ws_transition st) of
             Some idx \<Rightarrow> skill_walk flow (insert current visited) idx (Suc step_num)
           | None \<Rightarrow> []))"
  by pat_completeness auto
termination
proof (relation "measure (\<lambda>(flow, visited, current, n). card ({..<length (wf_steps flow)} - visited))", simp, goal_cases)
  case (1 flow visited current step_num st idx)
  then have "{..<length (wf_steps flow)} - insert current visited \<subset> {..<length (wf_steps flow)} - visited" by auto
  then show ?case by (simp add: psubset_card_mono)
qed

declare skill_walk.simps [simp del]

text \<open>\<open>props\<close>: the properties of the parameter schema, when it has that member.\<close>

definition to_skill_content ::
  "('j \<Rightarrow> (string \<times> string \<times> string option) list option) \<Rightarrow> 'j workflow \<Rightarrow> string" where
  "to_skill_content props flow =
     ''## Workflow: '' @ wf_name flow @ [NL, NL] @ wf_description flow @ [NL]
     @ (case props (wf_parameters flow) of
          Some ps \<Rightarrow> if ps \<noteq> [] then [NL] @ ''**Parameters**:'' @ [NL] @ concat (map parameter_line ps) else []
        | None \<Rightarrow> [])
     @ [NL] @ ''**Execution Rules**:'' @ [NL]
     @ ''1. Execute the following steps in order. Confirm completion before proceeding.'' @ [NL]
     @ ''2. Context flows naturally through conversation history; explicit step numbers are not required.'' @ [NL]
     @ ''3. If a step is clearly unnecessary, skip it flexibly but inform the user.'' @ [NL]
     @ [NL] @ ''### Execution Steps'' @ [NL]
     @ skill_walk flow {} (wf_start_idx flow) 1
     @ [NL] @ ''**End Rule**: After all steps are complete, output the final result and explicitly inform ''
     @ ''the user that the workflow has finished.'' @ [NL]"

section \<open>Verdicts\<close>

text \<open>What the code asks of serde_json and of Unicode upper-casing.  \<open>wj_first\<close> is the first
  value the streaming deserializer yields (\<open>None\<close>: it yields nothing).\<close>

record 'j workflow_json =
  wj_first :: "string \<Rightarrow> (string + 'j) option"
  wj_get_str :: "'j \<Rightarrow> string \<Rightarrow> string option"
  wj_get_bool :: "'j \<Rightarrow> string \<Rightarrow> bool option"
  wj_show :: "'j \<Rightarrow> string"
  wj_upper :: "string \<Rightarrow> string"
  wj_fields :: "'j \<Rightarrow> (string \<times> string) list option"

definition extract_first_json_object :: "'j workflow_json \<Rightarrow> string \<Rightarrow> string + 'j" where
  "extract_first_json_object js txt = (case str_find (trim txt) ''{'' of
       None \<Rightarrow> Inl ''No JSON object found in output''
     | Some start \<Rightarrow> (case wj_first js (drop start (trim txt)) of
         None \<Rightarrow> Inl ''No JSON object found in output''
       | Some (Inl e) \<Rightarrow> Inl (''JSON parse error: '' @ e)
       | Some (Inr v) \<Rightarrow> Inr v))"

definition parse_verdict :: "'j workflow_json \<Rightarrow> string \<Rightarrow> string + string \<times> string" where
  "parse_verdict js txt = bind_res (extract_first_json_object js txt) (\<lambda>obj.
     bind_res (case wj_get_str js obj ''verdict'' of
         Some s \<Rightarrow> Inr (wj_upper js s)
       | None \<Rightarrow> (case wj_get_bool js obj ''pass_gate'' of
           Some b \<Rightarrow> Inr (if b then ''PASS'' else ''FAIL'')
         | None \<Rightarrow> (case wj_get_bool js obj ''validation_passed'' of
             Some b \<Rightarrow> Inr (if b then ''PASS'' else ''FAIL'')
           | None \<Rightarrow> Inl (''Missing '' @ squoted ''verdict'' @ '' field''))))
     (\<lambda>verdict. if verdict \<noteq> ''PASS'' \<and> verdict \<noteq> ''FAIL''
        then Inl (''Invalid verdict '' @ squoted verdict @ '', expected PASS or FAIL'')
        else Inr (verdict, case wj_get_str js obj ''reason'' of Some r \<Rightarrow> r | None \<Rightarrow> wj_show js obj)))"

section \<open>The key-value table\<close>

type_synonym kv_store = "string \<Rightarrow> string option"

definition kv_read :: "string option \<Rightarrow> string \<Rightarrow> kv_store \<Rightarrow> string + string option" where
  "kv_read io key kv = (case io of Some e \<Rightarrow> Inl e | None \<Rightarrow> Inr (kv key))"

definition kv_write :: "string option \<Rightarrow> string \<Rightarrow> string \<Rightarrow> kv_store \<Rightarrow> (string + unit) \<times> kv_store" where
  "kv_write io key val kv = (case io of Some e \<Rightarrow> (Inl e, kv) | None \<Rightarrow> (Inr (), kv(key \<mapsto> val)))"

definition kv_delete :: "string option \<Rightarrow> string \<Rightarrow> kv_store \<Rightarrow> (string + bool) \<times> kv_store" where
  "kv_delete io key kv = (case io of
       Some e \<Rightarrow> (Inl e, kv) | None \<Rightarrow> (Inr (kv key \<noteq> None), kv(key := None)))"

section \<open>Running a workflow\<close>

record workflow_state =
  wx_current_idx :: nat
  wx_step_index :: nat
  wx_context :: "string \<Rightarrow> string option"
  wx_retries :: "nat \<Rightarrow> nat option"

text \<open>What a spawned subagent ends with: the content and the number of tools used, or the
  message of the closed result channel.\<close>

record subagent_outcome =
  sa_id :: string
  sa_result :: "string + string \<times> nat"

text \<open>The environment: the spawner of the context, JSON, serde for the snapshot and for the final
  context, the failures of the table (reading, writing after the n-th step, deleting).\<close>

record ('j, 'w) workflow_env =
  we_spawn :: "(string \<Rightarrow> string option \<Rightarrow> string list option \<Rightarrow> 'w \<Rightarrow> (string + subagent_outcome) \<times> 'w) option"
  we_json :: "'j workflow_json"
  we_state_show :: "workflow_state \<Rightarrow> string option"
  we_state_parse :: "string \<Rightarrow> workflow_state option"
  we_context_show :: "(string \<Rightarrow> string option) \<Rightarrow> string + string"
  we_read_io :: "string option"
  we_write_io :: "nat \<Rightarrow> string option"
  we_delete_io :: "string option"

text \<open>What a run changes: the table (if the tool has one), the messages sent to the session's
  chat, the world.\<close>

record 'w workflow_world =
  ww_kv :: "kv_store option"
  ww_sent :: "chat_event list"
  ww_world :: 'w

definition run_step ::
  "('j, 'w) workflow_env \<Rightarrow> workflow_step \<Rightarrow> string \<Rightarrow> nat \<Rightarrow> 'w workflow_world
    \<Rightarrow> (tool_error + string) \<times> 'w workflow_world" where
  "run_step env st prompt step_index w = (case we_spawn env of
       None \<Rightarrow> (Inl (ExecutionError ''Subagent spawning is not available in this context''), w)
     | Some spawn \<Rightarrow> (case spawn prompt (ws_model st) (ws_tools st) (ww_world w) of
         (Inl e, w1) \<Rightarrow> (Inl (ExecutionError (''Failed to spawn subagent: '' @ e)), w \<lparr> ww_world := w1 \<rparr>)
       | (Inr sa, w1) \<Rightarrow>
           (let started = ww_sent w @ [SubagentStarted (sa_id sa) (ws_name st) (of_nat step_index)] in
            case sa_result sa of
              Inl e \<Rightarrow> (Inl (ExecutionError (''Subagent result channel closed: '' @ e)),
                        w \<lparr> ww_sent := started, ww_world := w1 \<rparr>)
            | Inr (content, tools_used) \<Rightarrow> (Inr content, w \<lparr> ww_world := w1,
                ww_sent := started @ [SubagentCompleted (sa_id sa) (of_nat step_index) content (of_nat tools_used)] \<rparr>))))"

definition save_snapshot ::
  "('j, 'w) workflow_env \<Rightarrow> string \<Rightarrow> workflow_state \<Rightarrow> 'w workflow_world \<Rightarrow> 'w workflow_world" where
  "save_snapshot env key s w = (case (ww_kv w, we_state_show env s) of
       (Some kv, Some json) \<Rightarrow> w \<lparr> ww_kv := Some (snd (kv_write (we_write_io env (wx_step_index s)) key json kv)) \<rparr>
     | _ \<Rightarrow> w)"

text \<open>Where a finished step leads: on, out, or to an error.\<close>

datatype next_move = Goto workflow_state | Leave workflow_state | GiveUp tool_error

definition move_to :: "nat option \<Rightarrow> workflow_state \<Rightarrow> next_move" where
  "move_to target s = (case target of Some i \<Rightarrow> Goto (s \<lparr> wx_current_idx := i \<rparr>) | None \<Rightarrow> Leave s)"

definition retry_message :: "workflow_step \<Rightarrow> eval_gate \<Rightarrow> string \<Rightarrow> string" where
  "retry_message st gate reason = ''Workflow step '' @ squoted (ws_name st) @ '' failed after ''
     @ show_nat (eg_max_retries gate) @ '' retries. Last reason: '' @ reason"

definition next_move_of :: "'j workflow_json \<Rightarrow> workflow_step \<Rightarrow> workflow_state \<Rightarrow> next_move" where
  "next_move_of js st s = (case ws_transition st of
       NextStep i \<Rightarrow> move_to (Some i) s
     | Finish \<Rightarrow> Leave s
     | Evaluate gate \<Rightarrow>
         (let review = (case wx_context s (ws_name st) of Some t \<Rightarrow> t | None \<Rightarrow> []);
              (verdict, reason) = (case parse_verdict js review of Inr vr \<Rightarrow> vr | Inl e \<Rightarrow> (''FAIL'', e));
              s1 = s \<lparr> wx_context := (wx_context s)(ws_name st @ ''.reason'' \<mapsto> reason) \<rparr> in
          if verdict = ''PASS'' then move_to (eg_on_pass gate) s1
          else let retries = Suc (case wx_retries s (wx_current_idx s) of Some n \<Rightarrow> n | None \<Rightarrow> 0);
                   s2 = s1 \<lparr> wx_retries := (wx_retries s)(wx_current_idx s \<mapsto> retries) \<rparr> in
            if retries > eg_max_retries gate then GiveUp (ExecutionError (retry_message st gate reason))
            else move_to (eg_on_fail gate) s2))"

definition MAX_WORKFLOW_STEPS :: nat where "MAX_WORKFLOW_STEPS = 100"

definition step_limit_error :: tool_error where
  "step_limit_error = ExecutionError (''Workflow exceeded maximum step limit ('' @ show_nat MAX_WORKFLOW_STEPS @ '')'')"

datatype 'a wf_result = WfOk 'a | WfErr tool_error | WfPanic

text \<open>The body of the loop up to the snapshot: the step's output, or the end.\<close>

definition exec_step ::
  "('j, 'w) workflow_env \<Rightarrow> workflow_step \<Rightarrow> string \<Rightarrow> workflow_state \<Rightarrow> 'w workflow_world
    \<Rightarrow> (tool_error + workflow_state) \<times> 'w workflow_world" where
  "exec_step env st key s w =
     (case run_step env st (substitute_template (ws_prompt st) (wx_context s)) (wx_step_index s) w of
        (Inl e, w1) \<Rightarrow> (Inl e, w1)
      | (Inr output, w1) \<Rightarrow>
          (let s1 = s \<lparr> wx_step_index := Suc (wx_step_index s),
                       wx_context := (wx_context s)(ws_name st \<mapsto> output) \<rparr> in
           (Inr s1, save_snapshot env key s1 w1)))"

lemma exec_step_index: "exec_step env st key s w = (Inr s1, w1) \<Longrightarrow> wx_step_index s1 = Suc (wx_step_index s)"
  by (auto simp: exec_step_def Let_def split: prod.splits sum.splits)

lemma next_move_index:
  "next_move_of js st s = Goto s' \<Longrightarrow> wx_step_index s' = wx_step_index s"
  by (auto simp: next_move_of_def move_to_def Let_def split: transition.splits option.splits prod.splits if_splits)

function workflow_loop ::
  "('j, 'w) workflow_env \<Rightarrow> 'j workflow \<Rightarrow> string \<Rightarrow> workflow_state \<Rightarrow> 'w workflow_world
    \<Rightarrow> workflow_state wf_result \<times> 'w workflow_world" where
  "workflow_loop env flow key s w =
     (if wx_step_index s \<ge> MAX_WORKFLOW_STEPS then (WfErr step_limit_error, w)
      else if \<not> wx_current_idx s < length (wf_steps flow) then (WfPanic, w)
      else let st = wf_steps flow ! wx_current_idx s in
        (case exec_step env st key s w of
           (Inl e, w1) \<Rightarrow> (WfErr e, w1)
         | (Inr s1, w1) \<Rightarrow> (case next_move_of (we_json env) st s1 of
             Goto s2 \<Rightarrow> workflow_loop env flow key s2 w1
           | Leave s2 \<Rightarrow> (WfOk s2, w1)
           | GiveUp e \<Rightarrow> (WfErr e, w1))))"
  by pat_completeness auto

termination
proof (relation "measure (\<lambda>(env, flow, key, s, w). MAX_WORKFLOW_STEPS - wx_step_index s)", simp, goal_cases)
  case (1 env flow key s w st out w1 s1 s2)
  then have "wx_step_index s2 = Suc (wx_step_index s)"
    by (metis exec_step_index next_move_index prod.collapse prod.inject)
  then show ?case using 1 by simp
qed

declare workflow_loop.simps [simp del]

text \<open>Before the loop: the arguments under the prefix \<open>input.\<close>, then the snapshot, whose
  entries win.\<close>

definition input_context :: "(string \<times> string) list option \<Rightarrow> string \<Rightarrow> string option" where
  "input_context entries = map_of (rev (map (\<lambda>(k, v). (''input.'' @ k, v)) (case entries of Some fs \<Rightarrow> fs | None \<Rightarrow> [])))"

definition state_key :: "session_key \<Rightarrow> 'j workflow \<Rightarrow> string" where
  "state_key k flow = ''workflow_state:'' @ session_key_display k @ '':'' @ wf_name flow"

definition restore ::
  "('j, 'w) workflow_env \<Rightarrow> string \<Rightarrow> kv_store option \<Rightarrow> workflow_state \<Rightarrow> workflow_state" where
  "restore env key kv fresh = (case kv of
       None \<Rightarrow> fresh
     | Some t \<Rightarrow> (case kv_read (we_read_io env) key t of
         Inr (Some json) \<Rightarrow> (case we_state_parse env json of
             Some old \<Rightarrow> \<lparr> wx_current_idx = wx_current_idx old, wx_step_index = wx_step_index old,
                 wx_context = wx_context fresh ++ wx_context old, wx_retries = wx_retries fresh ++ wx_retries old \<rparr>
           | None \<Rightarrow> fresh)
       | _ \<Rightarrow> fresh))"

definition fresh_state :: "'j workflow_json \<Rightarrow> 'j workflow \<Rightarrow> 'j \<Rightarrow> workflow_state" where
  "fresh_state js flow args = \<lparr> wx_current_idx = wf_start_idx flow, wx_step_index = 0,
     wx_context = input_context (wj_fields js args), wx_retries = (\<lambda>_. None) \<rparr>"

definition finish_output :: "('j, 'w) workflow_env \<Rightarrow> 'j workflow \<Rightarrow> workflow_state \<Rightarrow> string wf_result" where
  "finish_output env flow s = (case wf_output_template flow of
       Some template \<Rightarrow> WfOk (substitute_template template (wx_context s))
     | None \<Rightarrow> (case we_context_show env (wx_context s) of
         Inl e \<Rightarrow> WfErr (ExecutionError (''Failed to serialize result: '' @ e))
       | Inr t \<Rightarrow> WfOk t))"

definition workflow_execute ::
  "('j, 'w) workflow_env \<Rightarrow> 'j workflow \<Rightarrow> session_key \<Rightarrow> 'j \<Rightarrow> 'w workflow_world
    \<Rightarrow> string wf_result \<times> 'w workflow_world" where
  "workflow_execute env flow k args w =
     (let key = state_key k flow in
      case workflow_loop env flow key (restore env key (ww_kv w) (fresh_state (we_json env) flow args)) w of
        (WfOk s, w1) \<Rightarrow> (finish_output env flow s,
           w1 \<lparr> ww_kv := map_option (\<lambda>kv. snd (kv_delete (we_delete_io env) key kv)) (ww_kv w1) \<rparr>)
      | (WfErr e, w1) \<Rightarrow> (WfErr e, w1)
      | (WfPanic, w1) \<Rightarrow> (WfPanic, w1))"

section \<open>Discovery\<close>

text \<open>A directory entry: whether it is a directory, its extension, and what reading and parsing
  it gives.\<close>

record 'j dir_entry =
  de_is_dir :: bool
  de_extension :: "string option"
  de_manifest :: "string + 'j workflow_manifest"

definition discovered :: "'j dir_entry \<Rightarrow> 'j workflow list" where
  "discovered en =
     (if de_is_dir en then []
      else if de_extension en \<noteq> Some ''yaml'' \<and> de_extension en \<noteq> Some ''yml'' then []
      else case de_manifest en of
        Inl e \<Rightarrow> []
      | Inr m \<Rightarrow> if wm_mode m = SkillMode then []
                else case from_manifest m of Inr flow \<Rightarrow> [flow] | Inl e \<Rightarrow> [])"

text \<open>\<open>None\<close>: the directory does not exist.\<close>

definition discover_workflows :: "(string + (string + 'j dir_entry) list) option \<Rightarrow> string + 'j workflow list" where
  "discover_workflows dir = (case dir of
       None \<Rightarrow> Inr []
     | Some (Inl e) \<Rightarrow> Inl e
     | Some (Inr entries) \<Rightarrow> bind_res (collect_res entries) (\<lambda>es. Inr (concat (map discovered es))))"

end
