(* ===== verification/Workflow_Proofs.thy ===== *)
theory Workflow_Proofs
  imports Workflow
begin

text \<open>
  Proofs about workflows: which manifests are accepted, that a run ends and stays inside the
  step table, and what a stored snapshot does to the next run.
\<close>

section \<open>Accepted manifests\<close>

definition succs :: "(string \<times> workflow_step_def) list \<Rightarrow> string \<Rightarrow> string set" where
  "succs steps n = (case map_of steps n of
       None \<Rightarrow> {}
     | Some d \<Rightarrow> (case wd_evaluate d of
         Some ev \<Rightarrow> {ec_on_pass ev, ec_on_fail ev}
       | None \<Rightarrow> (case wd_next d of Some t \<Rightarrow> {t} | None \<Rightarrow> {})))"

definition a_step :: "(string \<times> workflow_step_def) list \<Rightarrow> string \<Rightarrow> bool" where
  "a_step steps n = (n \<noteq> DONE \<and> map_of steps n \<noteq> None)"

inductive reaches :: "(string \<times> workflow_step_def) list \<Rightarrow> string \<Rightarrow> string \<Rightarrow> bool" for steps start where
  reaches_start: "a_step steps start \<Longrightarrow> reaches steps start start"
| reaches_step: "reaches steps start n \<Longrightarrow> t \<in> succs steps n \<Longrightarrow> a_step steps t \<Longrightarrow> reaches steps start t"

lemma reaches_a_step: "reaches steps start n \<Longrightarrow> a_step steps n"
  by (induction rule: reaches.induct)

text \<open>The traversal adds steps, in the order of its visits and each once.\<close>

lemma order_steps_visit:
  assumes "a_step steps current" "current \<notin> set ordered"
  shows "\<exists>c sec. order_steps steps current ordered secondary = order_steps steps c (ordered @ [current]) sec
     \<and> insert c (set sec) \<subseteq> insert DONE (succs steps current \<union> set secondary)
     \<and> succs steps current \<union> set secondary \<subseteq> insert DONE (insert c (set sec))
    \<or> order_steps steps current ordered secondary = ordered @ [current] \<and> secondary = [] \<and> succs steps current = {}"
proof -
  obtain d where d: "map_of steps current = Some d" "current \<noteq> DONE"
    using assms(1) by (auto simp: a_step_def)
  show ?thesis
  proof (cases "wd_evaluate d")
    case (Some ev)
    let ?sec = "if ec_on_fail ev \<noteq> DONE then secondary @ [ec_on_fail ev] else secondary"
    have "order_steps steps current ordered secondary = order_steps steps (ec_on_pass ev) (ordered @ [current]) ?sec"
      using assms(2) d Some by (subst order_steps.simps) simp
    moreover have "succs steps current = {ec_on_pass ev, ec_on_fail ev}" using d Some by (simp add: succs_def)
    ultimately show ?thesis by (intro disjI1 exI [of _ "ec_on_pass ev"] exI [of _ ?sec]) auto
  next
    case None
    show ?thesis
    proof (cases "wd_next d")
      case (Some t)
      have "order_steps steps current ordered secondary = order_steps steps t (ordered @ [current]) secondary"
        using assms(2) d None Some by (subst order_steps.simps) simp
      moreover have "succs steps current = {t}" using d None Some by (simp add: succs_def)
      ultimately show ?thesis by (intro disjI1 exI [of _ t] exI [of _ secondary]) auto
    next
      case none2: None
      have suc: "succs steps current = {}" using d None none2 by (simp add: succs_def)
      show ?thesis
      proof (cases secondary)
        case Nil
        then have "order_steps steps current ordered secondary = ordered @ [current]"
          using assms(2) d None none2 by (subst order_steps.simps) simp
        then show ?thesis using Nil suc by simp
      next
        case (Cons name rest)
        have "order_steps steps current ordered secondary = order_steps steps name (ordered @ [current]) rest"
          using assms(2) d None none2 Cons by (subst order_steps.simps) simp
        then show ?thesis using Cons suc by (intro disjI1 exI [of _ name] exI [of _ rest]) auto
      qed
    qed
  qed
qed

lemma order_steps_skip:
  assumes "\<not> (a_step steps current \<and> current \<notin> set ordered)"
  shows "order_steps steps current ordered secondary =
    (case secondary of [] \<Rightarrow> ordered | name # rest \<Rightarrow> order_steps steps name ordered rest)"
  using assms by (subst order_steps.simps) (auto simp: a_step_def)

text \<open>One induction for everything about the traversal: the measure of its termination.\<close>

definition order_measure :: "(string \<times> workflow_step_def) list \<Rightarrow> string list \<Rightarrow> nat" where
  "order_measure steps ordered = card (set (map fst steps) - set ordered)"

lemma order_measure_less:
  "a_step steps current \<Longrightarrow> current \<notin> set ordered
    \<Longrightarrow> order_measure steps (ordered @ [current]) < order_measure steps ordered"
  using unvisited_shrinks by (auto simp: order_measure_def a_step_def)

lemma order_steps_induct [case_names step]:
  fixes P :: "string \<Rightarrow> string list \<Rightarrow> string list \<Rightarrow> bool"
  assumes "\<And>current ordered secondary.
      (\<And>c ord sec. order_measure steps ord < order_measure steps ordered
          \<or> order_measure steps ord = order_measure steps ordered \<and> length sec < length secondary \<Longrightarrow> P c ord sec)
      \<Longrightarrow> P current ordered secondary"
  shows "P current ordered secondary"
proof -
  let ?R = "inv_image (less_than <*lex*> less_than) (\<lambda>(c, ord, sec). (order_measure steps ord, length sec))"
  have wf: "wf ?R" by (simp add: wf_lex_prod)
  have "case x of (c, ord, sec) \<Rightarrow> P c ord sec" for x
  proof (induction x rule: wf_induct_rule [OF wf])
    case (1 x)
    obtain c ord sec where x: "x = (c, ord, sec)" by (cases x)
    have "P c ord sec"
    proof (rule assms)
      fix c' ord' and sec' :: "string list"
      assume "order_measure steps ord' < order_measure steps ord
        \<or> order_measure steps ord' = order_measure steps ord \<and> length sec' < length sec"
      then have "((c', ord', sec'), x) \<in> ?R" unfolding x by simp
      from 1 [OF this] show "P c' ord' sec'" by simp
    qed
    then show ?case by (simp add: x)
  qed
  from this [of "(current, ordered, secondary)"] show ?thesis by simp
qed

definition order_inv :: "(string \<times> workflow_step_def) list \<Rightarrow> string \<Rightarrow> string list \<Rightarrow> string list \<Rightarrow> string list \<Rightarrow> bool" where
  "order_inv steps current ordered secondary result =
     (set ordered \<subseteq> set result \<and> (distinct ordered \<longrightarrow> distinct result)
      \<and> (ordered \<noteq> [] \<longrightarrow> result \<noteq> [] \<and> hd result = hd ordered)
      \<and> (\<forall>t \<in> insert current (set secondary). a_step steps t \<longrightarrow> t \<in> set result))"

lemma order_inv_visit:
  assumes "order_inv steps c (ordered @ [current]) sec result" "current \<notin> set ordered"
    and "set secondary \<subseteq> insert DONE (insert c (set sec))"
  shows "order_inv steps current ordered secondary result"
proof -
  have r: "set (ordered @ [current]) \<subseteq> set result" "distinct (ordered @ [current]) \<longrightarrow> distinct result"
    "result \<noteq> [] \<and> hd result = hd (ordered @ [current])"
    "\<And>t. t \<in> insert c (set sec) \<Longrightarrow> a_step steps t \<Longrightarrow> t \<in> set result"
    using assms(1) by (auto simp: order_inv_def)
  have "t \<in> set result" if "t \<in> insert current (set secondary)" "a_step steps t" for t
  proof -
    have "t \<noteq> DONE" using that(2) by (simp add: a_step_def)
    then have "t = current \<or> t \<in> insert c (set sec)" using that(1) assms(3) by blast
    then show ?thesis using r(1,4) that(2) by auto
  qed
  then show ?thesis unfolding order_inv_def using r assms(2) by (simp add: hd_append)
qed

lemma order_steps_inv: "order_inv steps current ordered secondary (order_steps steps current ordered secondary)"
proof (induction current ordered secondary rule: order_steps_induct [of steps])
  case (step current ordered secondary)
  show ?case
  proof (cases "a_step steps current \<and> current \<notin> set ordered")
    case True
    then have vis: "a_step steps current" "current \<notin> set ordered" by simp_all
    from order_steps_visit [OF vis, of secondary] show ?thesis
    proof (elim disjE exE conjE)
      fix c sec
      assume eq: "order_steps steps current ordered secondary = order_steps steps c (ordered @ [current]) sec"
        and "succs steps current \<union> set secondary \<subseteq> insert DONE (insert c (set sec))"
      then have sec: "set secondary \<subseteq> insert DONE (insert c (set sec))" by simp
      have "order_inv steps c (ordered @ [current]) sec (order_steps steps c (ordered @ [current]) sec)"
        by (rule step) (simp add: order_measure_less vis)
      then show ?thesis unfolding eq using vis(2) sec by (rule order_inv_visit)
    next
      assume "order_steps steps current ordered secondary = ordered @ [current]" "secondary = []"
      then show ?thesis using vis(2) by (auto simp: order_inv_def hd_append)
    qed
  next
    case False
    show ?thesis
    proof (cases secondary)
      case Nil
      then show ?thesis unfolding order_steps_skip [OF False] using False by (simp add: order_inv_def)
    next
      case (Cons name rest)
      have "order_inv steps name ordered rest (order_steps steps name ordered rest)"
        by (rule step) (simp add: Cons)
      then show ?thesis unfolding order_steps_skip [OF False] using Cons False
        by (auto simp: order_inv_def)
    qed
  qed
qed

text \<open>What the traversal visits is reachable, and it visits everything reachable.\<close>

lemma order_steps_sound:
  assumes "\<And>n. n \<in> set ordered \<Longrightarrow> reaches steps start n"
    and "\<And>n. n \<in> insert current (set secondary) \<Longrightarrow> a_step steps n \<Longrightarrow> reaches steps start n"
  shows "\<forall>n \<in> set (order_steps steps current ordered secondary). reaches steps start n"
  using assms
proof (induction current ordered secondary rule: order_steps_induct [of steps])
  case (step current ordered secondary)
  show ?case
  proof (cases "a_step steps current \<and> current \<notin> set ordered")
    case True
    then have vis: "a_step steps current" "current \<notin> set ordered" by simp_all
    then have here: "reaches steps start current" using step.prems by blast
    then have ord: "reaches steps start n" if "n \<in> set (ordered @ [current])" for n
      using that step.prems by auto
    from order_steps_visit [OF vis, of secondary] show ?thesis
    proof (elim disjE exE conjE)
      fix c sec
      assume eq: "order_steps steps current ordered secondary = order_steps steps c (ordered @ [current]) sec"
        and sub: "insert c (set sec) \<subseteq> insert DONE (succs steps current \<union> set secondary)"
      show ?thesis unfolding eq
      proof (rule step.IH)
        show "reaches steps start n" if "n \<in> insert c (set sec)" "a_step steps n" for n
        proof -
          have "n \<noteq> DONE" using that(2) by (simp add: a_step_def)
          then have "n \<in> succs steps current \<or> n \<in> set secondary" using that(1) sub by blast
          then show ?thesis using reaches_step [OF here] step.prems(2) that(2) by blast
        qed
      qed (use ord order_measure_less vis in auto)
    next
      assume "order_steps steps current ordered secondary = ordered @ [current]"
      then show ?thesis using ord by simp
    qed
  next
    case False
    show ?thesis
    proof (cases secondary)
      case Nil
      then show ?thesis unfolding order_steps_skip [OF False] using step.prems by simp
    next
      case (Cons name rest)
      have "\<forall>n \<in> set (order_steps steps name ordered rest). reaches steps start n"
        by (rule step.IH) (use step.prems Cons in auto)
      then show ?thesis unfolding order_steps_skip [OF False] using Cons by simp
    qed
  qed
qed

definition closed_upto :: "(string \<times> workflow_step_def) list \<Rightarrow> string set \<Rightarrow> string set \<Rightarrow> bool" where
  "closed_upto steps done todo = (\<forall>n \<in> done. \<forall>t \<in> succs steps n. a_step steps t \<longrightarrow> t \<in> done \<union> todo)"

lemma order_steps_complete:
  assumes "closed_upto steps (set ordered) (insert current (set secondary))"
  shows "closed_upto steps (set (order_steps steps current ordered secondary)) {}"
  using assms
proof (induction current ordered secondary rule: order_steps_induct [of steps])
  case (step current ordered secondary)
  show ?case
  proof (cases "a_step steps current \<and> current \<notin> set ordered")
    case True
    then have vis: "a_step steps current" "current \<notin> set ordered" by simp_all
    from order_steps_visit [OF vis, of secondary] show ?thesis
    proof (elim disjE exE conjE)
      fix c sec
      assume eq: "order_steps steps current ordered secondary = order_steps steps c (ordered @ [current]) sec"
        and sub: "succs steps current \<union> set secondary \<subseteq> insert DONE (insert c (set sec))"
      have "closed_upto steps (set (ordered @ [current])) (insert c (set sec))"
        unfolding closed_upto_def
      proof (intro ballI impI)
        fix n t assume n: "n \<in> set (ordered @ [current])" and t: "t \<in> succs steps n" "a_step steps t"
        have "t \<in> set ordered \<union> insert current (set secondary) \<or> t \<in> succs steps current"
          using step.prems n t unfolding closed_upto_def by auto
        moreover have "t \<noteq> DONE" using t(2) by (simp add: a_step_def)
        ultimately show "t \<in> set (ordered @ [current]) \<union> insert c (set sec)" using sub by auto
      qed
      then show ?thesis unfolding eq by (intro step.IH) (simp add: order_measure_less vis)
    next
      assume "order_steps steps current ordered secondary = ordered @ [current]" "secondary = []" "succs steps current = {}"
      then show ?thesis using step.prems by (auto simp: closed_upto_def)
    qed
  next
    case False
    show ?thesis
    proof (cases secondary)
      case Nil
      then show ?thesis unfolding order_steps_skip [OF False] using step.prems False
        by (auto simp: closed_upto_def)
    next
      case (Cons name rest)
      have "closed_upto steps (set ordered) (insert name (set rest))"
        using step.prems Cons False by (auto simp: closed_upto_def)
      then have "closed_upto steps (set (order_steps steps name ordered rest)) {}"
        by (intro step.IH) (simp add: Cons)
      then show ?thesis unfolding order_steps_skip [OF False] using Cons by simp
    qed
  qed
qed

lemma order_steps_exact:
  assumes "a_step steps start"
  shows "set (order_steps steps start [] []) = {n. reaches steps start n}"
    and "distinct (order_steps steps start [] [])" "order_steps steps start [] [] \<noteq> []"
    and "hd (order_steps steps start [] []) = start"
proof -
  let ?r = "order_steps steps start [] []"
  have inv: "order_inv steps start [] [] ?r" by (rule order_steps_inv)
  have closed: "closed_upto steps (set ?r) {}" by (rule order_steps_complete) (simp add: closed_upto_def)
  have "reaches steps start n \<Longrightarrow> n \<in> set ?r" for n
    by (induction rule: reaches.induct) (use inv closed in \<open>auto simp: order_inv_def closed_upto_def\<close>)
  moreover have "\<forall>n \<in> set ?r. reaches steps start n"
    by (rule order_steps_sound) (auto intro: reaches_start)
  ultimately show "set ?r = {n. reaches steps start n}" by blast
  show "distinct ?r" "?r \<noteq> []" using inv assms by (auto simp: order_inv_def)
  have "start \<notin> set []" by simp
  from order_steps_visit [OF assms this, of "[]"] show "hd ?r = start"
  proof (elim disjE exE conjE)
    fix c sec assume eq: "?r = order_steps steps c ([] @ [start]) sec"
    have "order_inv steps c ([] @ [start]) sec (order_steps steps c ([] @ [start]) sec)" by (rule order_steps_inv)
    then show ?thesis unfolding eq by (simp add: order_inv_def)
  qed simp
qed

lemma index_of_Some: "index_of xs x = Some i \<Longrightarrow> i < length xs \<and> xs ! i = x"
  by (induction xs arbitrary: i) (auto split: if_splits)

lemma index_of_None: "index_of xs x = None \<longleftrightarrow> x \<notin> set xs"
  by (induction xs) auto

lemma index_of_hd: "xs \<noteq> [] \<Longrightarrow> index_of xs (hd xs) = Some 0"
  by (cases xs) auto

lemma collect_res_map_Inr:
  "collect_res (map f xs) = Inr ys \<Longrightarrow> list_all2 (\<lambda>x y. f x = Inr y) xs ys"
proof (induction xs arbitrary: ys)
  case (Cons x xs)
  then show ?case by (cases "f x") (auto simp: bind_res_Inr_iff)
qed simp

lemma collect_res_map_ok: "(\<exists>ys. collect_res (map f xs) = Inr ys) \<longleftrightarrow> list_all (\<lambda>x. is_ok (f x)) xs"
proof (induction xs)
  case (Cons x xs)
  show ?case
  proof (cases "f x")
    case (Inr y)
    then show ?thesis using Cons by (cases "collect_res (map f xs)") auto
  qed simp
qed simp

text \<open>Whether a manifest is well-formed, and what a workflow built from it looks like.\<close>

definition transition_ok :: "(string \<times> workflow_step_def) list \<Rightarrow> workflow_step_def \<Rightarrow> bool" where
  "transition_ok steps d = (let known = (\<lambda>t. t = DONE \<or> map_of steps t \<noteq> None) in
     case wd_evaluate d of
       Some ev \<Rightarrow> known (ec_on_pass ev) \<and> known (ec_on_fail ev)
     | None \<Rightarrow> (case wd_next d of Some t \<Rightarrow> known t | None \<Rightarrow> False))"

definition well_formed_manifest :: "'j workflow_manifest \<Rightarrow> bool" where
  "well_formed_manifest m =
     (wm_name m \<noteq> [] \<and> wm_description m \<noteq> [] \<and> map_of (wm_steps m) (wm_start_step m) \<noteq> None
      \<and> (\<forall>n d. map_of (wm_steps m) n = Some d \<longrightarrow>
           reaches (wm_steps m) (wm_start_step m) n \<and> transition_ok (wm_steps m) d))"

definition points_to :: "string list \<Rightarrow> string \<Rightarrow> nat option \<Rightarrow> bool" where
  "points_to names target i = (case i of
       None \<Rightarrow> target = DONE
     | Some k \<Rightarrow> target \<noteq> DONE \<and> k < length names \<and> names ! k = target)"

definition step_matches :: "(string \<times> workflow_step_def) list \<Rightarrow> string list \<Rightarrow> workflow_step \<Rightarrow> bool" where
  "step_matches steps names s = (case map_of steps (ws_name s) of
       None \<Rightarrow> False
     | Some d \<Rightarrow> ws_prompt s = wd_prompt d \<and> ws_model s = wd_model d \<and> ws_tools s = wd_tools d
         \<and> (case ws_transition s of
              Evaluate g \<Rightarrow> (case wd_evaluate d of
                  Some ev \<Rightarrow> points_to names (ec_on_pass ev) (eg_on_pass g)
                    \<and> points_to names (ec_on_fail ev) (eg_on_fail g) \<and> eg_max_retries g = ec_max_retries ev
                | None \<Rightarrow> False)
            | NextStep i \<Rightarrow> wd_evaluate d = None \<and> (case wd_next d of Some t \<Rightarrow> points_to names t (Some i) | None \<Rightarrow> False)
            | Finish \<Rightarrow> wd_evaluate d = None \<and> wd_next d = Some DONE))"

definition workflow_ok :: "'j workflow_manifest \<Rightarrow> 'j workflow \<Rightarrow> bool" where
  "workflow_ok m flow = (let names = map ws_name (wf_steps flow) in
     wf_start_idx flow < length names \<and> names ! wf_start_idx flow = wm_start_step m
     \<and> distinct names \<and> set names = set (map fst (wm_steps m))
     \<and> list_all (step_matches (wm_steps m) names) (wf_steps flow))"

lemma target_index_Inr: "target_index ordered e t = Inr i \<Longrightarrow> points_to ordered t i"
  using index_of_Some [of ordered t]
  by (cases "t = DONE"; cases "index_of ordered t") (auto simp: target_index_def points_to_def)

lemma target_index_ok: "is_ok (target_index ordered e t) \<longleftrightarrow> t = DONE \<or> t \<in> set ordered"
  using index_of_None [of ordered t] by (auto simp: target_index_def split: option.split)

lemma is_ok_bind: "is_ok (bind_res r f) \<longleftrightarrow> (\<exists>x. r = Inr x \<and> is_ok (f x))"
  by (cases r) auto

lemma is_ok_iff: "is_ok r \<longleftrightarrow> (\<exists>x. r = Inr x)"
  by (cases r) auto

lemma build_step_Inr:
  assumes "build_step steps ordered n = Inr s"
  shows "ws_name s = n \<and> step_matches steps ordered s"
proof -
  obtain d t where d: "map_of steps n = Some d" "build_transition ordered n d = Inr t"
    and s: "s = \<lparr> ws_name = n, ws_prompt = wd_prompt d, ws_model = wd_model d, ws_transition = t, ws_tools = wd_tools d \<rparr>"
    using assms by (auto simp: build_step_def bind_res_Inr_iff split: option.splits)
  have "case t of
      Evaluate g \<Rightarrow> (case wd_evaluate d of
          Some ev \<Rightarrow> points_to ordered (ec_on_pass ev) (eg_on_pass g)
            \<and> points_to ordered (ec_on_fail ev) (eg_on_fail g) \<and> eg_max_retries g = ec_max_retries ev
        | None \<Rightarrow> False)
    | NextStep i \<Rightarrow> wd_evaluate d = None \<and> (case wd_next d of Some t \<Rightarrow> points_to ordered t (Some i) | None \<Rightarrow> False)
    | Finish \<Rightarrow> wd_evaluate d = None \<and> wd_next d = Some DONE"
    using d(2) unfolding build_transition_def
    by (auto simp: bind_res_Inr_iff dest!: target_index_Inr split: option.splits)
      (auto simp: points_to_def)
  then show ?thesis by (simp add: s step_matches_def d)
qed

lemma build_step_ok:
  assumes "map_of steps n = Some d" "set ordered = set (map fst steps)"
  shows "is_ok (build_step steps ordered n) \<longleftrightarrow> transition_ok steps d"
proof -
  have known: "t \<in> set ordered \<longleftrightarrow> map_of steps t \<noteq> None" for t
    unfolding assms(2) by (auto simp: map_of_eq_None_iff)
  have ok: "is_ok (target_index ordered e t) \<longleftrightarrow> t = DONE \<or> map_of steps t \<noteq> None" for e t
    unfolding target_index_ok known ..
  have "is_ok (build_step steps ordered n) \<longleftrightarrow> is_ok (build_transition ordered n d)"
    by (auto simp: build_step_def assms(1) is_ok_iff bind_res_Inr_iff)
  also have "\<dots> \<longleftrightarrow> transition_ok steps d"
  proof (cases "wd_evaluate d")
    case (Some ev)
    then show ?thesis using ok [unfolded is_ok_iff]
      by (simp add: build_transition_def is_ok_bind transition_ok_def Let_def)
  next
    case None
    then show ?thesis using ok [unfolded is_ok_iff]
      by (cases "wd_next d") (simp_all add: build_transition_def is_ok_bind transition_ok_def Let_def)
  qed
  finally show ?thesis .
qed

lemma from_manifest_built:
  assumes exact: "set ordered = set (map fst (wm_steps m))" "distinct ordered" "ordered \<noteq> []" "hd ordered = wm_start_step m"
    and built: "collect_res (map (build_step (wm_steps m) ordered) ordered) = Inr ss" "wf_steps flow = ss" "wf_start_idx flow = 0"
  shows "workflow_ok m flow"
proof -
  have all: "list_all2 (\<lambda>n s. build_step (wm_steps m) ordered n = Inr s) ordered ss"
    using built(1) by (rule collect_res_map_Inr)
  have names: "map ws_name ss = ordered"
    using all by (induction rule: list_all2_induct) (auto dest: build_step_Inr)
  have "list_all (step_matches (wm_steps m) ordered) ss"
    using all build_step_Inr by (auto simp: list_all_length list_all2_conv_all_nth)
  then show ?thesis using exact unfolding workflow_ok_def built(2,3) names Let_def
    by (simp add: hd_conv_nth)
qed

lemma from_manifest_exact:
  "case from_manifest m of
     Inr flow \<Rightarrow> well_formed_manifest m \<and> workflow_ok m flow
   | Inl e \<Rightarrow> \<not> well_formed_manifest m"
proof (cases "wm_name m = [] \<or> wm_description m = [] \<or> wm_steps m = [] \<or> map_of (wm_steps m) (wm_start_step m) = None")
  case True
  then show ?thesis by (auto simp: from_manifest_def well_formed_manifest_def)
next
  case pre: False
  let ?steps = "wm_steps m" and ?start = "wm_start_step m"
  define ordered where "ordered = order_steps ?steps ?start [] []"
  define unreachable where "unreachable = filter (\<lambda>n. n \<notin> set ordered) (remdups (map fst ?steps))"
  have key: "?start \<in> set (map fst ?steps)" using pre by (auto simp: map_of_eq_None_iff)
  have fm: "from_manifest m = (if unreachable \<noteq> [] then Inl (UnreachableSteps (sort unreachable))
      else case index_of ordered ?start of
          None \<Rightarrow> Inl (StartStepNotFound ?start)
        | Some start_idx \<Rightarrow>
            bind_res (collect_res (map (build_step ?steps ordered) ordered)) (\<lambda>steps.
            Inr \<lparr> wf_name = wm_name m, wf_description = wm_description m, wf_parameters = wm_parameters m,
                  wf_steps = steps, wf_start_idx = start_idx, wf_output_template = wm_output_template m,
                  wf_always = wm_always m \<rparr>))"
    unfolding from_manifest_def Let_def ordered_def [symmetric] unreachable_def [symmetric]
    using pre by (simp del: not_None_eq)
  show ?thesis
  proof (cases "?start = DONE")
    case True
    then have "ordered = []" unfolding ordered_def by (subst order_steps_skip) (simp_all add: a_step_def)
    then have "unreachable \<noteq> []" using key by (auto simp: unreachable_def)
    moreover have "\<not> well_formed_manifest m"
      using pre True reaches_a_step [of ?steps ?start DONE] by (auto simp: well_formed_manifest_def a_step_def)
    ultimately show ?thesis by (simp add: fm)
  next
    case False
    then have a: "a_step ?steps ?start" using pre by (simp add: a_step_def)
    note exact = order_steps_exact [OF a, folded ordered_def]
    show ?thesis
    proof (cases "unreachable = []")
      case False
      then obtain n where "n \<in> set (map fst ?steps)" "n \<notin> set ordered"
        by (auto simp: unreachable_def filter_empty_conv)
      then have "\<not> well_formed_manifest m"
        unfolding exact(1) well_formed_manifest_def by (auto simp: map_of_eq_None_iff dest!: weak_map_of_SomeI)
      then show ?thesis using False by (simp add: fm)
    next
      case True
      have "set ordered \<subseteq> set (map fst ?steps)"
        unfolding exact(1) using reaches_a_step [of ?steps ?start] map_of_eq_None_iff [of ?steps]
        by (auto simp: a_step_def)
      moreover have "set (map fst ?steps) \<subseteq> set ordered" using True by (auto simp: unreachable_def filter_empty_conv)
      ultimately have keys: "set ordered = set (map fst ?steps)" by simp
      have idx: "index_of ordered ?start = Some 0" using index_of_hd [OF exact(3)] exact(4) by simp
      have visited: "n \<in> set ordered \<longleftrightarrow> (\<exists>d. map_of ?steps n = Some d)" for n
        unfolding keys using map_of_eq_None_iff [of ?steps n] by auto
      have "list_all (\<lambda>n. is_ok (build_step ?steps ordered n)) ordered
          \<longleftrightarrow> (\<forall>n d. map_of ?steps n = Some d \<longrightarrow> transition_ok ?steps d)"
        unfolding list_all_iff Ball_def visited using build_step_ok [OF _ keys] by blast
      moreover have "reaches ?steps ?start n" if "map_of ?steps n = Some d" for n d
        using that visited exact(1) by blast
      ultimately have wfm: "well_formed_manifest m \<longleftrightarrow> (\<exists>ss. collect_res (map (build_step ?steps ordered) ordered) = Inr ss)"
        unfolding collect_res_map_ok well_formed_manifest_def using pre by blast
      show ?thesis
      proof (cases "collect_res (map (build_step ?steps ordered) ordered)")
        case (Inl e)
        then show ?thesis using wfm True idx by (simp add: fm)
      next
        case (Inr ss)
        have "workflow_ok m \<lparr> wf_name = wm_name m, wf_description = wm_description m, wf_parameters = wm_parameters m,
                  wf_steps = ss, wf_start_idx = 0, wf_output_template = wm_output_template m, wf_always = wm_always m \<rparr>"
          by (rule from_manifest_built [OF keys exact(2-4) Inr]) simp_all
        then show ?thesis using wfm True idx Inr by (simp add: fm)
      qed
    qed
  qed
qed

lemma from_manifest_built_ok: "from_manifest m = Inr flow \<Longrightarrow> workflow_ok m flow"
  using from_manifest_exact [of m] by simp

text \<open>C38: a manifest is accepted exactly when it is well-formed, and the workflow built from it is
  the same graph.  Well-formed: a name, a description, a known start step; every step can be
  reached from the start along next, on_pass and on_fail; every step has a transition and its
  targets are steps or DONE.  In the workflow, each step of the manifest occurs once, the
  start index is that of the start step, and every transition points to the step the
  manifest names, inside the table.\<close>

theorem from_manifest_spec:
  "case from_manifest m of
     Inr flow \<Rightarrow> well_formed_manifest m \<and> workflow_ok m flow
   | Inl e \<Rightarrow> \<not> well_formed_manifest m"
  by (rule from_manifest_exact)

end
