(* ===== verification/Workflow_Runs.thy ===== *)
theory Workflow_Runs
  imports Workflow_Proofs
begin

text \<open>
  What a run of a workflow does: it ends after at most 100 subagents and inside the step
  table, and a snapshot in the key-value table decides where the next run begins.
\<close>

section \<open>Staying inside the table\<close>

fun targets_inside :: "nat \<Rightarrow> transition \<Rightarrow> bool" where
  "targets_inside n (NextStep i) = (i < n)"
| "targets_inside n (Evaluate g) =
     (pred_option (\<lambda>i. i < n) (eg_on_pass g) \<and> pred_option (\<lambda>i. i < n) (eg_on_fail g))"
| "targets_inside n Finish = True"

definition table_closed :: "'j workflow \<Rightarrow> bool" where
  "table_closed flow = list_all (\<lambda>st. targets_inside (length (wf_steps flow)) (ws_transition st)) (wf_steps flow)"

lemma points_to_inside: "points_to names t i \<Longrightarrow> pred_option (\<lambda>i. i < length names) i"
  by (auto simp: points_to_def split: option.splits)

lemma step_matches_inside: "step_matches steps names st \<Longrightarrow> targets_inside (length names) (ws_transition st)"
  by (cases "ws_transition st")
    (auto simp: step_matches_def points_to_inside split: option.splits dest: points_to_inside)

lemma workflow_ok_closed:
  assumes "workflow_ok m flow"
  shows "table_closed flow" "wf_start_idx flow < length (wf_steps flow)"
  using assms step_matches_inside
  by (fastforce simp: workflow_ok_def table_closed_def Let_def list_all_iff)+

lemma next_move_inside:
  assumes "next_move_of js st s = Goto s'" "targets_inside n (ws_transition st)"
  shows "wx_current_idx s' < n"
  using assms
  by (auto simp: next_move_of_def move_to_def Let_def split: transition.splits option.splits prod.splits if_splits)

text \<open>An induction over the rounds of the loop: how each kind of round ends.\<close>

lemma workflow_loop_rule [case_names limit outside failed goes_on leaves gives_up]:
  fixes env :: "('j, 'w) workflow_env" and flow :: "'j workflow" and key :: string
  assumes limit: "\<And>s w. MAX_WORKFLOW_STEPS \<le> wx_step_index s \<Longrightarrow> P s w (WfErr step_limit_error) w"
    and outside: "\<And>s w. \<not> wx_current_idx s < length (wf_steps flow) \<Longrightarrow> P s w WfPanic w"
    and failed: "\<And>s w e w1. wx_step_index s < MAX_WORKFLOW_STEPS \<Longrightarrow> wx_current_idx s < length (wf_steps flow)
      \<Longrightarrow> exec_step env (wf_steps flow ! wx_current_idx s) key s w = (Inl e, w1) \<Longrightarrow> P s w (WfErr e) w1"
    and goes_on: "\<And>s w s1 w1 s2 r w2. wx_step_index s < MAX_WORKFLOW_STEPS \<Longrightarrow> wx_current_idx s < length (wf_steps flow)
      \<Longrightarrow> exec_step env (wf_steps flow ! wx_current_idx s) key s w = (Inr s1, w1)
      \<Longrightarrow> next_move_of (we_json env) (wf_steps flow ! wx_current_idx s) s1 = Goto s2 \<Longrightarrow> P s2 w1 r w2 \<Longrightarrow> P s w r w2"
    and leaves: "\<And>s w s1 w1 s2. wx_step_index s < MAX_WORKFLOW_STEPS \<Longrightarrow> wx_current_idx s < length (wf_steps flow)
      \<Longrightarrow> exec_step env (wf_steps flow ! wx_current_idx s) key s w = (Inr s1, w1)
      \<Longrightarrow> next_move_of (we_json env) (wf_steps flow ! wx_current_idx s) s1 = Leave s2 \<Longrightarrow> P s w (WfOk s2) w1"
    and gives_up: "\<And>s w s1 w1 e. wx_step_index s < MAX_WORKFLOW_STEPS \<Longrightarrow> wx_current_idx s < length (wf_steps flow)
      \<Longrightarrow> exec_step env (wf_steps flow ! wx_current_idx s) key s w = (Inr s1, w1)
      \<Longrightarrow> next_move_of (we_json env) (wf_steps flow ! wx_current_idx s) s1 = GiveUp e \<Longrightarrow> P s w (WfErr e) w1"
  shows "P s w (fst (workflow_loop env flow key s w)) (snd (workflow_loop env flow key s w))"
proof (induction "MAX_WORKFLOW_STEPS - wx_step_index s" arbitrary: s w rule: less_induct)
  case less
  let ?st = "wf_steps flow ! wx_current_idx s"
  show ?case
  proof (cases "MAX_WORKFLOW_STEPS \<le> wx_step_index s")
    case True
    then show ?thesis using limit by (subst (1 2) workflow_loop.simps) simp
  next
    case below: False
    show ?thesis
    proof (cases "wx_current_idx s < length (wf_steps flow)")
      case False
      then show ?thesis using outside below by (subst (1 2) workflow_loop.simps) simp
    next
      case inside: True
      have lt: "wx_step_index s < MAX_WORKFLOW_STEPS" using below by simp
      obtain r w1 where ex: "exec_step env ?st key s w = (r, w1)" by fastforce
      show ?thesis
      proof (cases r)
        case (Inl e)
        then show ?thesis using failed [OF lt inside] ex below inside by (subst (1 2) workflow_loop.simps) simp
      next
        case (Inr s1)
        note ex' = ex [unfolded Inr]
        show ?thesis
        proof (cases "next_move_of (we_json env) ?st s1")
          case (Goto s2)
          have "wx_step_index s2 = Suc (wx_step_index s)"
            using next_move_index [OF Goto] exec_step_index [OF ex'] by simp
          then have "P s2 w1 (fst (workflow_loop env flow key s2 w1)) (snd (workflow_loop env flow key s2 w1))"
            using lt by (intro less) simp
          from goes_on [OF lt inside ex' Goto this] show ?thesis using ex' Goto below inside
            by (subst (1 2) workflow_loop.simps) simp
        next
          case (Leave s2)
          from leaves [OF lt inside ex' Leave] show ?thesis using ex' Leave below inside
            by (subst (1 2) workflow_loop.simps) simp
        next
          case (GiveUp e)
          from gives_up [OF lt inside ex' GiveUp] show ?thesis using ex' GiveUp below inside
            by (subst (1 2) workflow_loop.simps) simp
        qed
      qed
    qed
  qed
qed

lemma loop_no_panic:
  assumes "table_closed flow" "wx_current_idx s < length (wf_steps flow)"
  shows "fst (workflow_loop env flow key s w) \<noteq> WfPanic"
proof -
  have "wx_current_idx s < length (wf_steps flow) \<longrightarrow> fst (workflow_loop env flow key s w) \<noteq> WfPanic"
  proof (induction rule: workflow_loop_rule)
    case (goes_on s w s1 w1 s2 r w2)
    have "targets_inside (length (wf_steps flow)) (ws_transition (wf_steps flow ! wx_current_idx s))"
      using assms(1) goes_on(2) by (simp add: table_closed_def list_all_length)
    then show ?case using goes_on next_move_inside by blast
  qed simp_all
  then show ?thesis using assms(2) by simp
qed

section \<open>The number of subagents\<close>

text \<open>A spawner that writes down the prompts.\<close>

definition logging_spawn ::
  "(string list \<Rightarrow> string \<Rightarrow> string + subagent_outcome) \<Rightarrow> string \<Rightarrow> string option \<Rightarrow> string list option \<Rightarrow> string list
    \<Rightarrow> (string + subagent_outcome) \<times> string list" where
  "logging_spawn answer prompt model tools log = (answer log prompt, log @ [prompt])"

lemma exec_step_log:
  assumes "we_spawn env = Some (logging_spawn answer)" "exec_step env st key s w = (r, w1)"
  shows "ww_world w1 = ww_world w @ [substitute_template (ws_prompt st) (wx_context s)]"
  using assms
  by (auto simp: exec_step_def run_step_def logging_spawn_def save_snapshot_def Let_def
      split: prod.splits sum.splits option.splits)

lemma loop_log:
  assumes "we_spawn env = Some (logging_spawn answer)" "workflow_loop env flow key s w = (r, w2)"
  shows "prefix (ww_world w) (ww_world w2)
    \<and> length (ww_world w2) \<le> length (ww_world w) + (MAX_WORKFLOW_STEPS - wx_step_index s)"
proof -
  have "prefix (ww_world w) (ww_world (snd (workflow_loop env flow key s w)))
    \<and> length (ww_world (snd (workflow_loop env flow key s w))) \<le> length (ww_world w) + (MAX_WORKFLOW_STEPS - wx_step_index s)"
  proof (induction rule: workflow_loop_rule)
    case (goes_on s w s1 w1 s2 r w2)
    have "wx_step_index s2 = Suc (wx_step_index s)"
      using next_move_index [OF goes_on(4)] exec_step_index [OF goes_on(3)] by simp
    then show ?case using goes_on(1,5) exec_step_log [OF assms(1) goes_on(3)]
      by (auto dest: append_prefixD)
  next
    case (failed s w e w1)
    then show ?case using exec_step_log [OF assms(1) failed(3)] by simp
  next
    case (leaves s w s1 w1 s2)
    then show ?case using exec_step_log [OF assms(1) leaves(3)] by simp
  next
    case (gives_up s w s1 w1 e)
    then show ?case using exec_step_log [OF assms(1) gives_up(3)] by simp
  qed simp_all
  then show ?thesis using assms(2) by simp
qed

lemma restore_fresh:
  "(case kv of None \<Rightarrow> True | Some t \<Rightarrow> t key = None) \<Longrightarrow> restore env key kv s = s"
  by (auto simp: restore_def kv_read_def split: option.splits sum.splits)

lemma execute_world [simp]:
  "ww_world (snd (workflow_execute env flow k args w)) =
     ww_world (snd (workflow_loop env flow (state_key k flow)
       (restore env (state_key k flow) (ww_kv w) (fresh_state (we_json env) flow args)) w))"
  by (auto simp: workflow_execute_def Let_def split: prod.split wf_result.split)

text \<open>C39: every run ends, within bounds.  A workflow that was accepted, started without a
  snapshot, calls at most 100 subagents whatever they answer, and never leaves its step
  table: it returns an output or an error, it does not panic.\<close>

theorem workflow_run_bounded:
  assumes "from_manifest m = Inr flow" "we_spawn env = Some (logging_spawn answer)"
    and "case ww_kv w of None \<Rightarrow> True | Some t \<Rightarrow> t (state_key k flow) = None"
  shows "fst (workflow_execute env flow k args w) \<noteq> WfPanic
    \<and> length (ww_world (snd (workflow_execute env flow k args w))) \<le> length (ww_world w) + 100"
proof -
  let ?key = "state_key k flow" and ?s = "fresh_state (we_json env) flow args"
  have ok: "workflow_ok m flow" using from_manifest_built_ok assms(1) by blast
  note closed = workflow_ok_closed [OF ok]
  have start: "restore env ?key (ww_kv w) ?s = ?s" using assms(3) by (rule restore_fresh)
  have idx: "wx_current_idx ?s < length (wf_steps flow)" "wx_step_index ?s = 0"
    using closed(2) by (simp_all add: fresh_state_def)
  have "fst (workflow_loop env flow ?key ?s w) \<noteq> WfPanic" using loop_no_panic [OF closed(1) idx(1)] .
  then have "fst (workflow_execute env flow k args w) \<noteq> WfPanic"
    by (auto simp: workflow_execute_def Let_def start finish_output_def split: prod.split wf_result.split option.split sum.split)
  moreover have "length (ww_world (snd (workflow_loop env flow ?key ?s w))) \<le> length (ww_world w) + 100"
    using loop_log [OF assms(2), of flow ?key ?s w] idx(2) by (cases "workflow_loop env flow ?key ?s w") (simp add: MAX_WORKFLOW_STEPS_def)
  ultimately show ?thesis by (simp add: start)
qed

text \<open>A workflow with a retry loop, and an environment whose JSON knows no value: every
  verdict is a failure.\<close>

definition demo_manifest :: "unit workflow_manifest" where
  "demo_manifest = \<lparr> wm_name = ''w'', wm_description = ''d'', wm_parameters = (), wm_start_step = ''plan'',
     wm_steps = [(''check'', \<lparr> wd_prompt = ''check {{plan}}'', wd_model = None, wd_next = None,
                    wd_evaluate = Some \<lparr> ec_on_pass = DONE, ec_on_fail = ''plan'', ec_max_retries = 3 \<rparr>, wd_tools = None \<rparr>),
                 (''plan'', \<lparr> wd_prompt = ''plan {{input.goal}}'', wd_model = None, wd_next = Some ''check'',
                    wd_evaluate = None, wd_tools = None \<rparr>)],
     wm_output_template = Some ''{{plan}}'', wm_mode = ToolMode, wm_always = True \<rparr>"

definition demo_workflow_env ::
  "(workflow_state \<Rightarrow> string option) \<Rightarrow> (string \<Rightarrow> workflow_state option) \<Rightarrow> (unit, string list) workflow_env" where
  "demo_workflow_env shw prs = \<lparr>
     we_spawn = Some (logging_spawn (\<lambda>log prompt. Inr \<lparr> sa_id = ''s'', sa_result = Inr (''ok'', 0) \<rparr>)),
     we_json = \<lparr> wj_first = \<lambda>_. None, wj_get_str = \<lambda>_ _. None, wj_get_bool = \<lambda>_ _. None, wj_show = \<lambda>_. [],
                 wj_upper = \<lambda>s. s, wj_fields = \<lambda>_. Some [(''goal'', ''new'')] \<rparr>,
     we_state_show = shw, we_state_parse = prs, we_context_show = (\<lambda>_. Inr []),
     we_read_io = None, we_write_io = (\<lambda>_. None), we_delete_io = None \<rparr>"

definition empty_world :: "kv_store option \<Rightarrow> string list workflow_world" where
  "empty_world kv = \<lparr> ww_kv = kv, ww_sent = [], ww_world = [] \<rparr>"

definition demo_flow :: "unit workflow" where
  "demo_flow = \<lparr> wf_name = ''w'', wf_description = ''d'', wf_parameters = (),
     wf_steps = [\<lparr> ws_name = ''plan'', ws_prompt = ''plan {{input.goal}}'', ws_model = None,
                   ws_transition = NextStep 1, ws_tools = None \<rparr>,
                 \<lparr> ws_name = ''check'', ws_prompt = ''check {{plan}}'', ws_model = None,
                   ws_transition = Evaluate \<lparr> eg_on_pass = None, eg_on_fail = Some 0, eg_max_retries = 3 \<rparr>, ws_tools = None \<rparr>],
     wf_start_idx = 0, wf_output_template = Some ''{{plan}}'', wf_always = True \<rparr>"

lemma demo_flow: "from_manifest demo_manifest = Inr demo_flow"
  by code_simp

theorem workflow_run_bounded_witness:
  "fst (workflow_execute (demo_workflow_env (\<lambda>_. None) (\<lambda>_. None)) demo_flow (session_key_new Cli ''a'') () (empty_world None)) \<noteq> WfPanic
   \<and> length (ww_world (snd (workflow_execute (demo_workflow_env (\<lambda>_. None) (\<lambda>_. None)) demo_flow
        (session_key_new Cli ''a'') () (empty_world None)))) \<le> 0 + 100"
  using workflow_run_bounded [OF demo_flow, where env = "demo_workflow_env (\<lambda>_. None) (\<lambda>_. None)"
      and w = "empty_world None" and k = "session_key_new Cli ''a''" and args = "()"]
  by (simp add: demo_workflow_env_def empty_world_def)

section \<open>What a snapshot does\<close>

definition snapshot :: "('j, 'w) workflow_env \<Rightarrow> string \<Rightarrow> kv_store option \<Rightarrow> workflow_state option" where
  "snapshot env key kv = Option.bind kv (\<lambda>t. Option.bind (t key) (we_state_parse env))"

lemma exec_step_snapshot:
  assumes "exec_step env st key s w = (Inr s1, w1)" "ww_kv w = Some kv"
    and "we_state_show env s1 = Some json" "we_state_parse env json = Some old"
    and "we_write_io env (wx_step_index s1) = None"
  shows "snapshot env key (ww_kv w1) = Some old" "ww_kv w1 \<noteq> None"
  using assms
  by (auto simp: exec_step_def run_step_def save_snapshot_def snapshot_def kv_write_def Let_def
      split: prod.splits sum.splits option.splits)

lemma exec_step_error_kv:
  "exec_step env st key s w = (Inl e, w1) \<Longrightarrow> ww_kv w1 = ww_kv w"
  by (auto simp: exec_step_def run_step_def save_snapshot_def Let_def
      split: prod.splits sum.splits option.splits)

lemma restore_snapshot:
  assumes "snapshot env key kv = Some old" "we_read_io env = None"
  shows "restore env key kv s = \<lparr> wx_current_idx = wx_current_idx old, wx_step_index = wx_step_index old,
     wx_context = wx_context s ++ wx_context old, wx_retries = wx_retries s ++ wx_retries old \<rparr>"
  using assms by (auto simp: restore_def snapshot_def kv_read_def split: bind_splits)

text \<open>The only error with the text of the step limit is that of the step limit.\<close>

lemma run_step_not_limit: "run_step env st p n w = (Inl e, w1) \<Longrightarrow> e \<noteq> step_limit_error"
  by (auto simp: run_step_def step_limit_error_def Let_def split: option.splits prod.splits sum.splits)

lemma exec_step_not_limit: "exec_step env st key s w = (Inl e, w1) \<Longrightarrow> e \<noteq> step_limit_error"
  by (auto simp: exec_step_def Let_def run_step_not_limit split: prod.splits sum.splits)

lemma next_move_not_limit: "next_move_of js st s = GiveUp e \<Longrightarrow> e \<noteq> step_limit_error"
  by (auto simp: next_move_of_def move_to_def step_limit_error_def retry_message_def squoted_def Let_def
      split: transition.splits option.splits prod.splits if_splits)

text \<open>Reading a snapshot back gives at least the step count that was written.\<close>

definition keeps_index :: "('j, 'w) workflow_env \<Rightarrow> bool" where
  "keeps_index env = (\<forall>s. \<exists>json old. we_state_show env s = Some json \<and> we_state_parse env json = Some old
     \<and> wx_step_index old = wx_step_index s)"

definition counted :: "('j, 'w) workflow_env \<Rightarrow> string \<Rightarrow> kv_store option \<Rightarrow> nat \<Rightarrow> bool" where
  "counted env key kv n = (kv \<noteq> None \<and> (n = 0 \<or> (\<exists>old. snapshot env key kv = Some old \<and> wx_step_index old = n)))"

lemma exec_step_counted:
  assumes "keeps_index env" "\<And>n. we_write_io env n = None" "exec_step env st key s w = (Inr s1, w1)" "ww_kv w \<noteq> None"
  shows "counted env key (ww_kv w1) (wx_step_index s1)"
proof -
  obtain json old where "we_state_show env s1 = Some json" "we_state_parse env json = Some old"
    "wx_step_index old = wx_step_index s1" using assms(1) unfolding keeps_index_def by blast
  then show ?thesis using exec_step_snapshot [OF assms(3)] assms(2,4) by (auto simp: counted_def)
qed

lemma loop_limit_counted:
  assumes "keeps_index env" "\<And>n. we_write_io env n = None"
    and "workflow_loop env flow key s w = (WfErr step_limit_error, w2)" "counted env key (ww_kv w) (wx_step_index s)"
  shows "\<exists>n. counted env key (ww_kv w2) n \<and> MAX_WORKFLOW_STEPS \<le> n"
proof -
  have "counted env key (ww_kv w) (wx_step_index s)
      \<longrightarrow> fst (workflow_loop env flow key s w) = WfErr step_limit_error
      \<longrightarrow> (\<exists>n. counted env key (ww_kv (snd (workflow_loop env flow key s w))) n \<and> MAX_WORKFLOW_STEPS \<le> n)"
  proof (induction rule: workflow_loop_rule)
    case (goes_on s w s1 w1 s2 r w2)
    have "ww_kv w \<noteq> None \<Longrightarrow> counted env key (ww_kv w1) (wx_step_index s2)"
      using exec_step_counted [OF assms(1,2) goes_on(3)] next_move_index [OF goes_on(4)] by simp
    then show ?case using goes_on(5) by (auto simp: counted_def)
  next
    case (failed s w e w1)
    then show ?case using exec_step_not_limit [OF failed(3)] by simp
  next
    case (gives_up s w s1 w1 e)
    then show ?case using next_move_not_limit [OF gives_up(4)] by simp
  qed auto
  then show ?thesis using assms(3,4) by simp
qed

text \<open>C40: a workflow that once hits the step limit is stuck in its session.  If a run ends with the
  step-limit error, with the key-value table working, then every later run of the workflow
  in the same session, whatever its arguments, ends with the same error before its first
  step and leaves everything as it is: the snapshot with the exhausted count is
  read back and never removed.\<close>

theorem step_limit_is_permanent:
  assumes "keeps_index env" "we_read_io env = None" "\<And>n. we_write_io env n = None" "ww_kv w \<noteq> None"
    and "workflow_execute env flow k args w = (WfErr step_limit_error, w1)"
  shows "workflow_execute env flow k args' w1 = (WfErr step_limit_error, w1)"
proof -
  let ?key = "state_key k flow"
  let ?s = "restore env ?key (ww_kv w) (fresh_state (we_json env) flow args)"
  have "finish_output env flow s \<noteq> WfErr step_limit_error" for s
    by (auto simp: finish_output_def step_limit_error_def split: option.split sum.split)
  then have loop: "workflow_loop env flow ?key ?s w = (WfErr step_limit_error, w1)"
    using assms(5) by (auto simp: workflow_execute_def Let_def split: prod.splits wf_result.splits)
  have "counted env ?key (ww_kv w) (wx_step_index ?s)"
  proof (cases "snapshot env ?key (ww_kv w)")
    case None
    then have "?s = fresh_state (we_json env) flow args"
      using assms(2,4) by (auto simp: restore_def snapshot_def kv_read_def split: option.splits)
    then show ?thesis using assms(4) by (simp add: counted_def fresh_state_def)
  next
    case (Some old)
    then show ?thesis using restore_snapshot [OF Some assms(2)] assms(4) by (simp add: counted_def)
  qed
  from loop_limit_counted [OF assms(1,3) loop this] obtain n where
    n: "counted env ?key (ww_kv w1) n" "MAX_WORKFLOW_STEPS \<le> n" by blast
  then obtain old where "snapshot env ?key (ww_kv w1) = Some old" "wx_step_index old = n"
    by (auto simp: counted_def MAX_WORKFLOW_STEPS_def)
  then have "MAX_WORKFLOW_STEPS \<le> wx_step_index (restore env ?key (ww_kv w1) s)" for s
    using restore_snapshot [OF _ assms(2)] n(2) by simp
  then show ?thesis by (simp add: workflow_execute_def workflow_loop.simps [of env flow ?key])
qed

text \<open>A workflow whose only step follows itself, and a snapshot format that keeps the count.\<close>

definition loop_flow :: "unit workflow" where
  "loop_flow = demo_flow \<lparr> wf_steps := [\<lparr> ws_name = ''again'', ws_prompt = ''go'', ws_model = None,
     ws_transition = NextStep 0, ws_tools = None \<rparr>] \<rparr>"

definition unary_env :: "(unit, string list) workflow_env" where
  "unary_env = demo_workflow_env (\<lambda>s. Some (replicate (wx_step_index s) CHR ''i''))
     (\<lambda>t. Some \<lparr> wx_current_idx = 0, wx_step_index = length t, wx_context = \<lambda>_. None, wx_retries = \<lambda>_. None \<rparr>)"

definition worn_world :: "string list workflow_world" where
  "worn_world = empty_world (Some [state_key (session_key_new Cli ''a'') loop_flow \<mapsto> replicate 99 CHR ''i''])"

theorem step_limit_is_permanent_witness:
  "fst (workflow_execute unary_env loop_flow (session_key_new Cli ''a'') ()
     (snd (workflow_execute unary_env loop_flow (session_key_new Cli ''a'') () worn_world))) = WfErr step_limit_error"
proof -
  let ?k = "session_key_new Cli ''a''"
  have "fst (workflow_execute unary_env loop_flow ?k () worn_world) = WfErr step_limit_error" by code_simp
  then have run: "workflow_execute unary_env loop_flow ?k () worn_world
      = (WfErr step_limit_error, snd (workflow_execute unary_env loop_flow ?k () worn_world))"
    by (metis prod.collapse)
  have "keeps_index unary_env" "we_read_io unary_env = None" "\<And>n. we_write_io unary_env n = None"
    by (simp_all add: keeps_index_def unary_env_def demo_workflow_env_def)
  from step_limit_is_permanent [OF this _ run] show ?thesis
    by (simp add: worn_world_def empty_world_def)
qed

text \<open>A resumed workflow repeats the step it has just done, on the old inputs.  The snapshot of a
  finished step still points to that step.  If the process stops after it and the workflow is
  called again, the first subagent is given that step's prompt again, filled in with the
  stored context, whose entries override the arguments of the new call.\<close>

theorem resumed_run_repeats_step:
  assumes "we_spawn env = Some (logging_spawn answer)" "we_read_io env = None" "ww_kv w \<noteq> None"
    and "exec_step env (wf_steps flow ! wx_current_idx s) (state_key k flow) s w = (Inr s1, w1)"
    and "we_write_io env (wx_step_index s1) = None"
    and "we_state_show env s1 = Some json" "we_state_parse env json = Some s1"
    and "wx_current_idx s < length (wf_steps flow)" "wx_step_index s1 < MAX_WORKFLOW_STEPS"
    and "ww_kv w2 = ww_kv w1"
  shows "prefix (ww_world w2 @ [substitute_template (ws_prompt (wf_steps flow ! wx_current_idx s))
             (input_context (wj_fields (we_json env) args) ++ wx_context s1)])
      (ww_world (snd (workflow_execute env flow k args w2)))"
proof -
  let ?key = "state_key k flow" and ?st = "wf_steps flow ! wx_current_idx s"
  obtain kv where "ww_kv w = Some kv" using assms(3) by blast
  from exec_step_snapshot(1) [OF assms(4) this assms(6,7,5)]
  have snap: "snapshot env ?key (ww_kv w2) = Some s1" using assms(10) by simp
  define r where "r = restore env ?key (ww_kv w2) (fresh_state (we_json env) flow args)"
  have idx: "wx_current_idx s1 = wx_current_idx s"
    using assms(4) by (auto simp: exec_step_def Let_def split: prod.splits sum.splits)
  have r: "wx_current_idx r = wx_current_idx s" "wx_step_index r = wx_step_index s1"
    "wx_context r = input_context (wj_fields (we_json env) args) ++ wx_context s1"
    unfolding r_def restore_snapshot [OF snap assms(2)] by (simp_all add: idx fresh_state_def)
  obtain out w3 where ex: "exec_step env ?st ?key r w2 = (out, w3)" by fastforce
  have w3: "ww_world w3 = ww_world w2 @ [substitute_template (ws_prompt ?st) (wx_context r)]"
    by (rule exec_step_log [OF assms(1) ex])
  have loop: "workflow_loop env flow ?key r w2 = (case out of
      Inl e \<Rightarrow> (WfErr e, w3)
    | Inr s2 \<Rightarrow> (case next_move_of (we_json env) ?st s2 of
        Goto s3 \<Rightarrow> workflow_loop env flow ?key s3 w3
      | Leave s3 \<Rightarrow> (WfOk s3, w3)
      | GiveUp e \<Rightarrow> (WfErr e, w3)))"
    using assms(8,9) r(1,2) ex by (subst workflow_loop.simps) simp
  have "prefix (ww_world w3) (ww_world (snd (workflow_loop env flow ?key r w2)))"
    unfolding loop using loop_log [OF assms(1)]
    by (auto split: sum.split next_move.split) (metis prod.collapse)
  then show ?thesis unfolding w3 r(3) by (simp add: r_def)
qed

definition plan_done :: workflow_state where
  "plan_done = \<lparr> wx_current_idx = 0, wx_step_index = 1,
     wx_context = [''input.goal'' \<mapsto> ''old'', ''plan'' \<mapsto> ''ok''], wx_retries = \<lambda>_. None \<rparr>"

definition crash_env :: "(unit, string list) workflow_env" where
  "crash_env = demo_workflow_env (\<lambda>_. Some ''snap'') (\<lambda>_. Some plan_done)"

text \<open>The new call asks for the goal \<open>new\<close>; its first prompt is still about \<open>old\<close>.\<close>

theorem resumed_run_repeats_step_witness:
  "prefix [''plan old''] (ww_world (snd (workflow_execute crash_env demo_flow (session_key_new Cli ''a'') ()
     (empty_world (Some [state_key (session_key_new Cli ''a'') demo_flow \<mapsto> ''snap''])))))"
proof -
  let ?k = "session_key_new Cli ''a''"
  let ?s = "\<lparr> wx_current_idx = 0, wx_step_index = 0, wx_context = [''input.goal'' \<mapsto> ''old''], wx_retries = \<lambda>_. None \<rparr>"
  let ?kv = "Some [state_key ?k demo_flow \<mapsto> ''snap'']"
  obtain w1 where ex: "exec_step crash_env (wf_steps demo_flow ! wx_current_idx ?s) (state_key ?k demo_flow) ?s
      (empty_world (Some (\<lambda>_. None))) = (Inr plan_done, w1)" "ww_kv w1 = ?kv"
    by (simp add: exec_step_def run_step_def save_snapshot_def crash_env_def demo_workflow_env_def logging_spawn_def
        demo_flow_def empty_world_def kv_write_def plan_done_def Let_def)
  have "prefix (ww_world (empty_world ?kv) @ [substitute_template (ws_prompt (wf_steps demo_flow ! wx_current_idx ?s))
         (input_context (wj_fields (we_json crash_env) ()) ++ wx_context plan_done)])
      (ww_world (snd (workflow_execute crash_env demo_flow ?k () (empty_world ?kv))))"
    by (rule resumed_run_repeats_step [OF _ _ _ ex(1)])
      (simp_all add: crash_env_def demo_workflow_env_def empty_world_def plan_done_def demo_flow_def
        MAX_WORKFLOW_STEPS_def ex(2))
  moreover have "substitute_template (ws_prompt (wf_steps demo_flow ! wx_current_idx ?s))
      (input_context (wj_fields (we_json crash_env) ()) ++ wx_context plan_done) = ''plan old''"
    by code_simp
  ultimately show ?thesis by (simp add: empty_world_def)
qed

end
