(* ===== verification/Sandbox_Config.thy ===== *)
theory Sandbox_Config
  imports Prelude
begin

text \<open>
  The sandbox crate's error type (sandbox/src/error.rs) and its configuration
  (sandbox/src/config/): resource limits with the ulimit and bwrap argument
  builders and output truncation, the command policy, and the configuration
  records with their defaults.  Conditional compilation on the target operating
  system is an explicit \<open>platform\<close> argument; \<open>usize\<close> is a 64-bit word.
\<close>

section \<open>Errors\<close>

datatype sandbox_error =
    BackendInit string string
  | BackendUnavailable string string
  | ExecutionFailed string
  | Timeout u64
  | ResourceLimitExceeded string u64 u64
  | OutputLimitExceeded u64
  | PolicyDenied string
  | PermissionDenied string
  | ApprovalFailed string
  | ApprovalTimeout u64
  | StoreError string
  | IoError string
  | SerializationError string
  | ConfigError string
  | PathNotAllowed string
  | InvalidCommand string
  | AuditError string

section \<open>Platforms\<close>

datatype platform = Linux | MacOS | Windows

fun platform_as_str :: "platform \<Rightarrow> string" where
  "platform_as_str Linux = ''linux''"
| "platform_as_str MacOS = ''macos''"
| "platform_as_str Windows = ''windows''"

section \<open>Resource limits\<close>

record resource_limits =
  max_memory_mb :: u32
  max_cpu_secs :: u32
  max_output_bytes :: u64
  max_processes :: u32
  max_file_size_mb :: u32
  max_open_files :: u32

definition default_limits :: resource_limits where
  "default_limits = \<lparr> max_memory_mb = 512, max_cpu_secs = 60, max_output_bytes = 1048576,
     max_processes = 0, max_file_size_mb = 0, max_open_files = 64 \<rparr>"

definition to_ulimit_prefix :: "platform \<Rightarrow> resource_limits \<Rightarrow> string" where
  "to_ulimit_prefix pf l =
     (let mem_kb = (ucast (max_memory_mb l) :: u64) * 1024;
          base = (if pf = MacOS then ''ulimit -t '' @ show_word (max_cpu_secs l)
                  else ''ulimit -v '' @ show_word mem_kb @ '' -t '' @ show_word (max_cpu_secs l));
          procs = (if max_processes l > 0 then [''-u '' @ show_word (max_processes l)] else []);
          opens = (if max_open_files l > 0 then [''-n '' @ show_word (max_open_files l)] else []);
          fsz = (if max_file_size_mb l > 0
                 then [''-f '' @ show_word ((ucast (max_file_size_mb l) :: u64) * 1024)] else [])
      in join '' '' (base # procs @ opens @ fsz) @ '' 2>/dev/null; '')"

definition to_bwrap_args :: "resource_limits \<Rightarrow> string list" where
  "to_bwrap_args l =
     (let mem_bytes = (ucast (max_memory_mb l) :: u64) * 1024 * 1024
      in [''--rlimit-as'', show_word mem_bytes, ''--rlimit-cpu'', show_word (max_cpu_secs l)]
       @ (if max_processes l > 0 then [''--rlimit-nproc'', show_word (max_processes l)] else [])
       @ (if max_open_files l > 0 then [''--rlimit-nofile'', show_word (max_open_files l)] else [])
       @ (if max_file_size_mb l > 0
          then [''--rlimit-fsize'', show_word ((ucast (max_file_size_mb l) :: u64) * 1024 * 1024)]
          else []))"

definition truncation_marker :: "nat \<Rightarrow> u64 \<Rightarrow> string" where
  "truncation_marker n limit = [NL, NL] @ ''[OUTPUT TRUNCATED: '' @ show_nat n
     @ '' bytes exceeded limit of '' @ show_word limit @ '' bytes]''"

definition truncate_output :: "resource_limits \<Rightarrow> string \<Rightarrow> string" where
  "truncate_output l output =
     (if length output \<le> unat (max_output_bytes l) then output
      else take (floor_char_boundary output (unat (max_output_bytes l))) output
           @ truncation_marker (length output) (max_output_bytes l))"

section \<open>Command policy\<close>

datatype policy_verdict = Allow | Deny string

record command_policy_config =
  cfg_allowlist :: "string list"
  cfg_denylist :: "string list"

definition policy_with_defaults :: command_policy_config where
  "policy_with_defaults = \<lparr> cfg_allowlist = [],
     cfg_denylist = [''rm -rf /'', ''mkfs'', ''dd if=/dev/zero'', '':(){ :|:& };:''] \<rparr>"

record command_policy =
  allowlist :: "string list"
  denylist :: "string list"

definition policy_from_config :: "command_policy_config \<Rightarrow> command_policy" where
  "policy_from_config c = \<lparr> allowlist = cfg_allowlist c, denylist = cfg_denylist c \<rparr>"

definition binary_of :: "string \<Rightarrow> string" where
  "binary_of command = after_last CHR ''/'' (first_token command)"

definition policy_check :: "command_policy \<Rightarrow> string \<Rightarrow> policy_verdict" where
  "policy_check p command =
     (let trimmed = trim command in
      case find (\<lambda>pat. str_contains trimmed pat) (denylist p) of
        Some pat \<Rightarrow> Deny (''Command matches denylist pattern: '' @ [CHR 0x27] @ pat @ [CHR 0x27])
      | None \<Rightarrow>
          if allowlist p \<noteq> [] \<and> \<not> list_ex (\<lambda>a. a = binary_of trimmed) (allowlist p)
          then Deny (''Binary '' @ [CHR 0x27] @ binary_of trimmed @ [CHR 0x27]
                     @ '' is not in the allowlist'')
          else Allow)"

section \<open>Configuration records\<close>

record approval_config =
  ac_enabled :: bool
  ac_default_level :: string
  ac_rules_file :: "string option"
  ac_session_timeout :: u64
  ac_interaction_timeout :: u64

definition default_approval_config :: approval_config where
  "default_approval_config = \<lparr> ac_enabled = True, ac_default_level = ''ask_always'',
     ac_rules_file = None, ac_session_timeout = 3600, ac_interaction_timeout = 300 \<rparr>"

record audit_config =
  au_enabled :: bool
  au_log_file :: "string option"
  au_max_size_mb :: u64
  au_log_output :: bool
  au_log_env :: bool

definition default_audit_config :: audit_config where
  "default_audit_config = \<lparr> au_enabled = True, au_log_file = None, au_max_size_mb = 100,
     au_log_output = False, au_log_env = False \<rparr>"

record sandbox_config =
  sc_enabled :: bool
  sc_backend :: string
  sc_tmp_size_mb :: u32
  sc_workspace :: "string option"
  sc_limits :: resource_limits
  sc_policy :: command_policy_config
  sc_approval :: approval_config
  sc_audit :: audit_config

definition default_sandbox_config :: sandbox_config where
  "default_sandbox_config = \<lparr> sc_enabled = False, sc_backend = ''auto'', sc_tmp_size_mb = 64,
     sc_workspace = None, sc_limits = default_limits,
     sc_policy = \<lparr> cfg_allowlist = [], cfg_denylist = [] \<rparr>,
     sc_approval = default_approval_config, sc_audit = default_audit_config \<rparr>"

definition sandbox_enabled :: sandbox_config where
  "sandbox_enabled = default_sandbox_config \<lparr> sc_enabled := True \<rparr>"

definition sandbox_fallback :: sandbox_config where
  "sandbox_fallback = default_sandbox_config \<lparr> sc_enabled := False, sc_backend := ''fallback'' \<rparr>"

section \<open>Lemmas\<close>

lemma find_SomeD: "find P xs = Some x \<Longrightarrow> x \<in> set xs \<and> P x"
  by (auto simp: find_Some_iff)

text \<open>The memory and file-size products fit their 64-bit type: no wrap-around.\<close>

lemma ucast_mult_bound:
  fixes w :: u32
  assumes "k \<le> 2 ^ 20"
  shows "unat ((ucast w :: u64) * of_nat k) = unat w * k"
proof -
  have "unat w < 2 ^ LENGTH(32)" by (rule unsigned_less)
  then have "unat w < 2 ^ 32" by simp
  then have "unat w * k \<le> 2 ^ 32 * 2 ^ 20" using assms by (intro mult_mono) auto
  then have "unat w * k < 2 ^ 64" by simp
  moreover have "(ucast w :: u64) * of_nat k = of_nat (unat w * k)" by simp
  ultimately show ?thesis by (simp only: unat_of_nat) simp
qed

text \<open>What truncation keeps.  Output within the limit is returned as it is.  Longer
  output keeps a prefix of at most the limit that ends on a character boundary, as close
  below the limit as a boundary exists, followed by the marker that states both sizes.\<close>

theorem truncate_output_spec:
  "(length out \<le> unat (max_output_bytes l) \<and> truncate_output l out = out)
   \<or> (length out > unat (max_output_bytes l)
      \<and> (\<exists>n \<le> unat (max_output_bytes l).
            truncate_output l out = take n out @ truncation_marker (length out) (max_output_bytes l)
          \<and> is_char_boundary out n
          \<and> filter (\<lambda>j. \<not> is_cont_byte (out ! j)) [Suc n..<Suc (unat (max_output_bytes l))] = []))"
proof (cases "length out \<le> unat (max_output_bytes l)")
  case True
  then show ?thesis by (simp add: truncate_output_def)
next
  case False
  let ?m = "unat (max_output_bytes l)"
  let ?n = "floor_char_boundary out ?m"
  have "?n \<le> ?m" by (rule floor_char_boundary_le)
  moreover have "is_char_boundary out ?n" by (rule floor_char_boundary_is_boundary)
  moreover have "\<forall>j. ?n < j \<and> j \<le> ?m \<longrightarrow> is_cont_byte (out ! j)"
    using floor_char_boundary_skips [of out ?m] False by auto
  then have "filter (\<lambda>j. \<not> is_cont_byte (out ! j)) [Suc ?n..<Suc ?m] = []"
    by (auto simp: filter_empty_conv)
  ultimately show ?thesis
    using False by (auto simp: truncate_output_def intro!: exI [of _ ?n])
qed

text \<open>What the command policy lets through: exactly the commands whose trimmed text
  contains no denied pattern and whose binary, the last path component of the first
  token, is on the allow list when there is one.  The deny list therefore wins.\<close>

theorem policy_check_allow:
  "policy_check p command = Allow \<longleftrightarrow>
     \<not> (\<exists>pat \<in> set (denylist p). str_contains (trim command) pat)
     \<and> (if allowlist p = [] then True else binary_of (trim command) \<in> set (allowlist p))"
  by (auto simp: policy_check_def Let_def list_ex_iff find_None_iff split: option.splits
      dest: find_SomeD)

end
