(* ===== verification/Sandbox_Backend.thy ===== *)
theory Sandbox_Backend
  imports Sandbox_Config
begin

text \<open>
  Sandbox backends (sandbox/src/backend/): isolation levels, the selection of a
  backend, the command line each backend builds (bubblewrap arguments, the
  Seatbelt profile, the ulimit shell line, the Windows host command) and how each
  turns the outcome of the child process into an execution result
  (executor/result.rs).  The operating system is the record \<open>os\<close>: it runs a
  command line and answers the path questions of the Windows backend; output is
  what the child wrote, already decoded to text.
\<close>

section \<open>Isolation levels and results\<close>

datatype isolation_level = NoIsolation | ResourceLimits | SeatbeltProfile | Namespaces

fun isolation_as_str :: "isolation_level \<Rightarrow> string" where
  "isolation_as_str NoIsolation = ''none''"
| "isolation_as_str ResourceLimits = ''resource_limits''"
| "isolation_as_str SeatbeltProfile = ''seatbelt_profile''"
| "isolation_as_str Namespaces = ''namespaces''"

definition isolates_filesystem :: "isolation_level \<Rightarrow> bool" where
  "isolates_filesystem l = (l \<in> {SeatbeltProfile, Namespaces})"

record execution_result =
  er_exit_code :: "32 word option"
  er_stdout :: string
  er_stderr :: string
  er_timed_out :: bool
  er_resource_exceeded :: bool
  er_duration_ms :: u64

definition result_success :: "string \<Rightarrow> execution_result" where
  "result_success out = \<lparr> er_exit_code = Some 0, er_stdout = out, er_stderr = [], er_timed_out = False,
     er_resource_exceeded = False, er_duration_ms = 0 \<rparr>"

definition result_failure :: "32 word \<Rightarrow> string \<Rightarrow> execution_result" where
  "result_failure code err = \<lparr> er_exit_code = Some code, er_stdout = [], er_stderr = err,
     er_timed_out = False, er_resource_exceeded = False, er_duration_ms = 0 \<rparr>"

definition result_timeout :: execution_result where
  "result_timeout = \<lparr> er_exit_code = None, er_stdout = [], er_stderr = ''Command timed out'',
     er_timed_out = True, er_resource_exceeded = False, er_duration_ms = 0 \<rparr>"

definition is_success :: "execution_result \<Rightarrow> bool" where
  "is_success r = (er_exit_code r = Some 0)"

definition combined_output :: "execution_result \<Rightarrow> string" where
  "combined_output r = (if er_stderr r = [] then er_stdout r
     else if er_stdout r = [] then er_stderr r
     else er_stdout r @ [NL] @ er_stderr r)"

section \<open>Selecting a backend\<close>

datatype backend = FallbackBackend | LinuxBwrapBackend string | MacOsSandboxBackend | HostExecutor

fun backend_name :: "backend \<Rightarrow> string" where
  "backend_name FallbackBackend = ''fallback''"
| "backend_name (LinuxBwrapBackend _) = ''bwrap''"
| "backend_name MacOsSandboxBackend = ''sandbox-exec''"
| "backend_name HostExecutor = ''host-executor''"

fun backend_platforms :: "backend \<Rightarrow> platform list" where
  "backend_platforms FallbackBackend = [Linux, MacOS, Windows]"
| "backend_platforms (LinuxBwrapBackend _) = [Linux]"
| "backend_platforms MacOsSandboxBackend = [MacOS]"
| "backend_platforms HostExecutor = [Windows]"

fun backend_isolation :: "backend \<Rightarrow> isolation_level" where
  "backend_isolation FallbackBackend = NoIsolation"
| "backend_isolation (LinuxBwrapBackend _) = Namespaces"
| "backend_isolation MacOsSandboxBackend = SeatbeltProfile"
| "backend_isolation HostExecutor = ResourceLimits"

fun backend_fs_isolation :: "backend \<Rightarrow> bool" where
  "backend_fs_isolation FallbackBackend = False"
| "backend_fs_isolation (LinuxBwrapBackend _) = True"
| "backend_fs_isolation MacOsSandboxBackend = True"
| "backend_fs_isolation HostExecutor = False"

text \<open>\<open>bwrap_path\<close>: what detect_bwrap finds on the system.\<close>

definition create_backend :: "platform \<Rightarrow> string option \<Rightarrow> sandbox_config \<Rightarrow> sandbox_error + backend" where
  "create_backend pf bwrap_path cfg =
     (if \<not> sc_enabled cfg then Inr FallbackBackend
      else
        let lower = to_lowercase (sc_backend cfg);
            name = (if lower = ''auto''
                    then (case pf of Linux \<Rightarrow> ''bwrap'' | MacOS \<Rightarrow> ''sandbox-exec'' | Windows \<Rightarrow> ''host-executor'')
                    else lower);
            wrong = (\<lambda>b os. ConfigError (''backend '' @ [CHR 0x27] @ b @ [CHR 0x27] @ '' is only available on ''
                       @ os @ '' (current platform: '' @ platform_as_str pf
                       @ ''); set `sandbox.backend = '' @ [CHR 0x22] @ ''auto'' @ [CHR 0x22]
                       @ ''` or `sandbox.enabled = false`'')) in
        if name = ''fallback'' then Inr FallbackBackend
        else if name = ''bwrap''
             then (if pf = Linux
                   then Inr (LinuxBwrapBackend (case bwrap_path of Some p \<Rightarrow> p | None \<Rightarrow> ''bwrap''))
                   else Inl (wrong name ''Linux''))
        else if name = ''sandbox-exec''
             then (if pf = MacOS then Inr MacOsSandboxBackend else Inl (wrong name ''macOS''))
        else if name \<in> {''job-objects'', ''windows-fallback'', ''host-executor'', ''unsafe-direct''}
             then (if pf = Windows then Inr HostExecutor else Inl (wrong name ''Windows''))
        else Inl (ConfigError (''unknown sandbox backend '' @ [CHR 0x27] @ name @ [CHR 0x27]
               @ ''; expected one of: auto, fallback, bwrap, sandbox-exec, host-executor'')))"

definition available_backends :: "platform \<Rightarrow> string list" where
  "available_backends pf = ''fallback'' # (case pf of
      Linux \<Rightarrow> [''bwrap''] | MacOS \<Rightarrow> [''sandbox-exec''] | Windows \<Rightarrow> [''host-executor''])"

section \<open>Command lines\<close>

record command_line =
  cl_program :: string
  cl_args :: "string list"
  cl_cwd :: "string option"

definition bwrap_command :: "string \<Rightarrow> string \<Rightarrow> string \<Rightarrow> sandbox_config \<Rightarrow> command_line" where
  "bwrap_command path cmd wd cfg = \<lparr> cl_program = path,
     cl_args = [''--unshare-pid'', ''--unshare-ipc'', ''--ro-bind'', ''/'', ''/'', ''--bind'', wd, wd,
                ''--tmpfs'', ''/tmp'', ''--dev'', ''/dev'', ''--proc'', ''/proc'',
                ''--size'', show_word ((ucast (sc_tmp_size_mb cfg) :: u64) * 1024 * 1024)]
             @ to_bwrap_args (sc_limits cfg)
             @ [''--chdir'', wd, ''sh'', ''-c'', cmd],
     cl_cwd = None \<rparr>"

definition fallback_command :: "platform \<Rightarrow> string \<Rightarrow> string \<Rightarrow> sandbox_config \<Rightarrow> command_line" where
  "fallback_command pf cmd wd cfg = \<lparr> cl_program = ''sh'',
     cl_args = [''-c'', to_ulimit_prefix pf (sc_limits cfg) @ cmd], cl_cwd = Some wd \<rparr>"

fun sbpl_escape :: "string \<Rightarrow> string" where
  "sbpl_escape [] = []"
| "sbpl_escape (c # s) =
     (if c = CHR 0x5C then CHR 0x5C # CHR 0x5C # sbpl_escape s
      else if c = CHR 0x22 then CHR 0x5C # CHR 0x22 # sbpl_escape s
      else c # sbpl_escape s)"

definition quoted :: "string \<Rightarrow> string" where
  "quoted s = CHR 0x22 # s @ [CHR 0x22]"

definition profile_head :: string where
  "profile_head = ''(version 1)'' @ [NL] @ ''(deny default)'' @ [NL] @ ''(allow file-read*)'' @ [NL]
     @ ''(allow file-write*'' @ [NL] @ ''  (subpath ''"

definition profile_tail :: string where
  "profile_tail = '')'' @ [NL] @ ''  (subpath '' @ quoted ''/tmp'' @ '')'' @ [NL]
     @ ''  (subpath '' @ quoted ''/private/tmp'' @ '')'' @ [NL]
     @ ''  (literal '' @ quoted ''/dev/null'' @ '')'' @ [NL]
     @ ''  (literal '' @ quoted ''/dev/zero'' @ '')'' @ [NL]
     @ '')'' @ [NL] @ ''(allow process-exec)'' @ [NL] @ ''(allow process-fork)'' @ [NL]
     @ ''(allow network-outbound)'' @ [NL] @ ''(allow file-read-metadata)'' @ [NL]
     @ ''(allow sysctl-read)'' @ [NL] @ ''(allow signal (target same-sandbox))'' @ [NL, NL]
     @ ''; Allow cf prefs to work.'' @ [NL] @ ''(allow user-preference-read)'' @ [NL, NL]
     @ ''; process-info'' @ [NL] @ ''(allow process-info* (target same-sandbox))'' @ [NL, NL]"

definition generate_profile :: "string \<Rightarrow> string" where
  "generate_profile workspace = profile_head @ quoted (sbpl_escape workspace) @ profile_tail"

definition seatbelt_command :: "string \<Rightarrow> string \<Rightarrow> sandbox_config \<Rightarrow> command_line" where
  "seatbelt_command cmd wd cfg = \<lparr> cl_program = ''sandbox-exec'',
     cl_args = [''-p'', generate_profile wd, ''sh'', ''-c'', to_ulimit_prefix MacOS (sc_limits cfg) @ cmd],
     cl_cwd = Some wd \<rparr>"

section \<open>The operating system, and running a command\<close>

datatype proc_outcome =
    SpawnError string
  | WaitError string
  | Exited "32 word option" string string
  | StillRunning

record os =
  os_run :: "command_line \<Rightarrow> u64 \<Rightarrow> proc_outcome"
  os_exists :: "string \<Rightarrow> bool"
  os_is_dir :: "string \<Rightarrow> bool"
  os_canonicalize :: "string \<Rightarrow> string option"
  os_components :: "string \<Rightarrow> string list"

definition validate_working_dir :: "os \<Rightarrow> string \<Rightarrow> sandbox_config \<Rightarrow> sandbox_error + string" where
  "validate_working_dir os wd cfg =
     (if \<not> os_exists os wd then Inl (PathNotAllowed wd)
      else if \<not> os_is_dir os wd then Inl (PathNotAllowed wd)
      else case os_canonicalize os wd of
             None \<Rightarrow> Inl (PathNotAllowed wd)
           | Some canonical \<Rightarrow>
               (case sc_workspace cfg of
                  None \<Rightarrow> Inr canonical
                | Some ws \<Rightarrow>
                    (case os_canonicalize os ws of
                       None \<Rightarrow> Inl (PathNotAllowed ws)
                     | Some wsc \<Rightarrow>
                         if prefix (os_components os wsc) (os_components os canonical)
                         then Inr canonical else Inl (PathNotAllowed canonical))))"

definition host_command :: "os \<Rightarrow> string \<Rightarrow> string \<Rightarrow> sandbox_config \<Rightarrow> sandbox_error + command_line" where
  "host_command os cmd wd cfg =
     bind_res (validate_working_dir os wd cfg)
       (\<lambda>v. Inr \<lparr> cl_program = ''cmd'', cl_args = [''/C'', cmd], cl_cwd = Some v \<rparr>)"

definition build_command ::
  "platform \<Rightarrow> os \<Rightarrow> backend \<Rightarrow> string \<Rightarrow> string \<Rightarrow> sandbox_config \<Rightarrow> sandbox_error + command_line" where
  "build_command pf os b cmd wd cfg = (case b of
      FallbackBackend \<Rightarrow> Inr (fallback_command pf cmd wd cfg)
    | LinuxBwrapBackend path \<Rightarrow> Inr (bwrap_command path cmd wd cfg)
    | MacOsSandboxBackend \<Rightarrow> Inr (seatbelt_command cmd wd cfg)
    | HostExecutor \<Rightarrow> host_command os cmd wd cfg)"

text \<open>How a backend reports an outcome; the Windows backend truncates stdout only.\<close>

definition report_outcome :: "backend \<Rightarrow> resource_limits \<Rightarrow> u64 \<Rightarrow> proc_outcome
   \<Rightarrow> sandbox_error + execution_result" where
  "report_outcome b limits secs oc = (case oc of
      SpawnError e \<Rightarrow> Inl (ExecutionFailed e)
    | WaitError e \<Rightarrow> Inl (ExecutionFailed e)
    | StillRunning \<Rightarrow> Inl (Timeout secs)
    | Exited code out err \<Rightarrow> Inr \<lparr> er_exit_code = code, er_stdout = truncate_output limits out,
         er_stderr = (if b = HostExecutor then err else truncate_output limits err),
         er_timed_out = False, er_resource_exceeded = False, er_duration_ms = 0 \<rparr>)"

definition backend_execute ::
  "platform \<Rightarrow> os \<Rightarrow> backend \<Rightarrow> string \<Rightarrow> string \<Rightarrow> sandbox_config \<Rightarrow> u64
   \<Rightarrow> sandbox_error + execution_result" where
  "backend_execute pf os b cmd wd cfg secs =
     bind_res (build_command pf os b cmd wd cfg)
       (\<lambda>cl. report_outcome b (sc_limits cfg) secs (os_run os cl secs))"

section \<open>Lemmas and properties\<close>

lemma backend_fs_isolation_level: "backend_fs_isolation b = isolates_filesystem (backend_isolation b)"
  by (cases b) (simp_all add: isolates_filesystem_def)

lemma create_backend_platform:
  "create_backend pf bw cfg = Inr b \<Longrightarrow> pf \<in> set (backend_platforms b)"
  by (cases pf) (auto simp: create_backend_def Let_def split: if_splits option.splits)

text \<open>No silent downgrade.  When the sandbox is enabled, backend selection yields the
  uncontained fallback backend only if the configuration asks for it by name; on Linux
  and macOS every other successful selection isolates the file system, and the default
  setting "auto" always succeeds with the strongest backend of the platform.\<close>

theorem create_backend_no_downgrade:
  assumes "sc_enabled cfg"
  shows "(create_backend pf bw cfg = Inr FallbackBackend \<longleftrightarrow> to_lowercase (sc_backend cfg) = ''fallback'')
    \<and> (\<forall>b. create_backend pf bw cfg = Inr b \<and> b \<noteq> FallbackBackend \<and> pf \<noteq> Windows \<longrightarrow> backend_fs_isolation b)
    \<and> (to_lowercase (sc_backend cfg) = ''auto'' \<longrightarrow>
         (\<exists>b. create_backend pf bw cfg = Inr b \<and> b \<noteq> FallbackBackend))"
  using assms
  by (cases pf) (auto simp: create_backend_def Let_def split: option.splits if_splits)

theorem create_backend_no_downgrade_witness:
  "create_backend Linux None sandbox_enabled \<noteq> Inr FallbackBackend
    \<and> (\<exists>b. create_backend Linux None sandbox_enabled = Inr b \<and> b \<noteq> FallbackBackend
         \<and> backend_fs_isolation b)"
proof -
  have b: "to_lowercase (sc_backend sandbox_enabled) = ''auto''"
    by (simp add: sandbox_enabled_def default_sandbox_config_def to_lowercase_def ascii_lower_def)
  have "sc_enabled sandbox_enabled" by (simp add: sandbox_enabled_def)
  from create_backend_no_downgrade [OF this, of Linux None] show ?thesis
    unfolding b by auto
qed

text \<open>A reader of the profile's string literals: a backslash takes the next character as it
  is, a quote ends the literal.\<close>

fun read_literal :: "string \<Rightarrow> (string \<times> string) option" where
  "read_literal [] = None"
| "read_literal (c # s) =
     (if c = CHR 0x22 then Some ([], s)
      else if c = CHR 0x5C
           then (case s of [] \<Rightarrow> None
                 | d # t \<Rightarrow> map_option (\<lambda>(x, r). (d # x, r)) (read_literal t))
           else map_option (\<lambda>(x, r). (c # x, r)) (read_literal s))"

lemma read_literal_escape: "read_literal (sbpl_escape s @ CHR 0x22 # rest) = Some (s, rest)"
  by (induction s rule: sbpl_escape.induct) simp_all

text \<open>No path injects policy.  Reading the workspace literal of a generated Seatbelt
  profile gives back exactly the path it was generated from, and the text after the
  literal is the fixed rest of the profile, whatever quotes or backslashes the path holds.\<close>

theorem generate_profile_injective:
  "\<exists>body. generate_profile ws = profile_head @ CHR 0x22 # body
      \<and> read_literal body = Some (ws, profile_tail)"
  by (rule exI [of _ "sbpl_escape ws @ CHR 0x22 # profile_tail"])
    (simp add: generate_profile_def quoted_def read_literal_escape)

lemma host_command_inside:
  assumes "host_command os cmd wd cfg = Inr cl" "sc_workspace cfg = Some ws"
  shows "\<exists>wsc v. os_canonicalize os ws = Some wsc \<and> cl_cwd cl = Some v
    \<and> os_canonicalize os wd = Some v \<and> prefix (os_components os wsc) (os_components os v)"
  using assms
  by (auto simp: host_command_def bind_res_Inr_iff validate_working_dir_def
      split: if_splits option.splits)

end
