(* ===== verification/Approval_Rules.thy ===== *)
theory Approval_Rules
  imports Sandbox_Config
begin

text \<open>
  Data model of the approval system: sandbox/src/approval/rules.rs (permission
  levels, operations, conditions, rules) and approval/mod.rs (requests, responses
  and execution contexts), with the parsers and printers of levels and sources.
  Clock reads (\<open>Utc::now\<close>) and fresh identifiers (\<open>Uuid::new_v4\<close>) are arguments.
\<close>

section \<open>Permission levels\<close>

datatype permission_level = Denied | AskAlways | AskOnce | Allowed

definition default_permission_level :: permission_level where
  "default_permission_level = AskAlways"

fun level_display :: "permission_level \<Rightarrow> string" where
  "level_display Denied = ''denied''"
| "level_display AskAlways = ''ask_always''"
| "level_display AskOnce = ''ask_once''"
| "level_display Allowed = ''allowed''"

definition level_from_str :: "string \<Rightarrow> string + permission_level" where
  "level_from_str s =
     (let l = to_lowercase s in
      if l = ''denied'' then Inr Denied
      else if l \<in> {''ask_always'', ''ask-always'', ''askalways''} then Inr AskAlways
      else if l \<in> {''ask_once'', ''ask-once'', ''askonce''} then Inr AskOnce
      else if l = ''allowed'' then Inr Allowed
      else Inl (''Invalid permission level: '' @ s))"

text \<open>Levels are ordered by how much they permit.\<close>

instantiation permission_level :: linorder
begin

fun level_rank :: "permission_level \<Rightarrow> nat" where
  "level_rank Denied = 0"
| "level_rank AskAlways = 1"
| "level_rank AskOnce = 2"
| "level_rank Allowed = 3"

definition less_eq_permission_level :: "permission_level \<Rightarrow> permission_level \<Rightarrow> bool" where
  "a \<le> b \<longleftrightarrow> level_rank a \<le> level_rank b"

definition less_permission_level :: "permission_level \<Rightarrow> permission_level \<Rightarrow> bool" where
  "a < b \<longleftrightarrow> level_rank a < level_rank b"

lemma level_rank_inj [simp]: "level_rank a = level_rank b \<longleftrightarrow> a = b"
  by (cases a; cases b) auto

instance
  by standard (auto simp: less_eq_permission_level_def less_permission_level_def
      simp flip: level_rank_inj)

end

section \<open>Operations\<close>

datatype operation_type =
    Command (op_binary: string) (op_args: "string option")
  | FileRead (op_path: string)
  | FileWrite (op_path: string)
  | Network (op_host: string) (op_port: "u16 option")
  | EnvVar (op_name: string)
  | CustomOp (op_category: string) (op_custom_name: string)

definition op_command :: "string \<Rightarrow> operation_type" where
  "op_command binary = Command binary None"

definition op_command_with_args :: "string \<Rightarrow> string \<Rightarrow> operation_type" where
  "op_command_with_args binary args = Command binary (Some args)"

definition op_file_read :: "string \<Rightarrow> operation_type" where
  "op_file_read path = FileRead path"

definition op_file_write :: "string \<Rightarrow> operation_type" where
  "op_file_write path = FileWrite path"

definition op_network :: "string \<Rightarrow> operation_type" where
  "op_network host = Network host None"

fun op_description :: "operation_type \<Rightarrow> string" where
  "op_description (Command b (Some a)) = ''Execute command: '' @ b @ '' '' @ a"
| "op_description (Command b None) = ''Execute command: '' @ b"
| "op_description (FileRead p) = ''Read file: '' @ p"
| "op_description (FileWrite p) = ''Write file: '' @ p"
| "op_description (Network h (Some port)) = ''Network access: '' @ h @ '':'' @ show_word port"
| "op_description (Network h None) = ''Network access: '' @ h"
| "op_description (EnvVar n) = ''Access env var: '' @ n"
| "op_description (CustomOp c n) = c @ '': '' @ n"

section \<open>Rules\<close>

datatype condition_type =
    TimeRange u8 u8
  | WorkingDir string
  | UserCond string
  | SessionCond uuid
  | CustomCond string string

record condition =
  condition_type :: condition_type
  cond_negate :: bool

datatype rule_source = UserRule | SystemRule | ImportedRule

fun source_display :: "rule_source \<Rightarrow> string" where
  "source_display UserRule = ''user''"
| "source_display SystemRule = ''system''"
| "source_display ImportedRule = ''imported''"

definition source_from_str :: "string \<Rightarrow> string + rule_source" where
  "source_from_str s =
     (let l = to_lowercase s in
      if l = ''user'' then Inr UserRule
      else if l = ''system'' then Inr SystemRule
      else if l = ''imported'' then Inr ImportedRule
      else Inl (''Invalid rule source: '' @ s))"

record approval_rule =
  rule_id :: uuid
  rule_operation :: operation_type
  rule_permission :: permission_level
  rule_created_at :: time
  rule_expires_at :: "time option"
  rule_conditions :: "condition list"
  rule_description :: "string option"
  rule_source :: rule_source

definition rule_new :: "uuid \<Rightarrow> time \<Rightarrow> operation_type \<Rightarrow> permission_level \<Rightarrow> approval_rule" where
  "rule_new u now op perm = \<lparr> rule_id = u, rule_operation = op, rule_permission = perm,
     rule_created_at = now, rule_expires_at = None, rule_conditions = [],
     rule_description = None, rule_source = UserRule \<rparr>"

definition with_expiration :: "time \<Rightarrow> approval_rule \<Rightarrow> approval_rule" where
  "with_expiration t r = r \<lparr> rule_expires_at := Some t \<rparr>"

definition with_description :: "string \<Rightarrow> approval_rule \<Rightarrow> approval_rule" where
  "with_description d r = r \<lparr> rule_description := Some d \<rparr>"

definition with_condition :: "condition \<Rightarrow> approval_rule \<Rightarrow> approval_rule" where
  "with_condition c r = r \<lparr> rule_conditions := rule_conditions r @ [c] \<rparr>"

definition is_expired :: "time \<Rightarrow> approval_rule \<Rightarrow> bool" where
  "is_expired now r = (case rule_expires_at r of None \<Rightarrow> False | Some e \<Rightarrow> e < now)"

section \<open>Requests, responses, contexts\<close>

record approval_request =
  req_id :: uuid
  req_operation :: operation_type
  req_description :: string
  req_context :: "string \<rightharpoonup> string"
  req_risk_score :: u8
  req_suggested_level :: permission_level
  req_timestamp :: time

definition request_new :: "uuid \<Rightarrow> time \<Rightarrow> operation_type \<Rightarrow> string \<Rightarrow> approval_request" where
  "request_new u now op desc = \<lparr> req_id = u, req_operation = op, req_description = desc,
     req_context = Map.empty, req_risk_score = 0, req_suggested_level = AskAlways,
     req_timestamp = now \<rparr>"

definition request_with_context :: "string \<Rightarrow> string \<Rightarrow> approval_request \<Rightarrow> approval_request" where
  "request_with_context k v r = r \<lparr> req_context := (req_context r)(k \<mapsto> v) \<rparr>"

definition with_risk_score :: "u8 \<Rightarrow> approval_request \<Rightarrow> approval_request" where
  "with_risk_score s r = r \<lparr> req_risk_score := min s 100 \<rparr>"

definition with_suggested_level :: "permission_level \<Rightarrow> approval_request \<Rightarrow> approval_request" where
  "with_suggested_level l r = r \<lparr> req_suggested_level := l \<rparr>"

record approval_response =
  resp_request_id :: uuid
  resp_permission :: permission_level
  resp_reason :: "string option"
  resp_timestamp :: time

definition response_new :: "uuid \<Rightarrow> time \<Rightarrow> permission_level \<Rightarrow> approval_response" where
  "response_new rid now p = \<lparr> resp_request_id = rid, resp_permission = p, resp_reason = None,
     resp_timestamp = now \<rparr>"

definition with_reason :: "string \<Rightarrow> approval_response \<Rightarrow> approval_response" where
  "with_reason s r = r \<lparr> resp_reason := Some s \<rparr>"

record execution_context =
  ctx_working_dir :: "string option"
  ctx_user :: "string option"
  ctx_session_id :: "uuid option"
  ctx_agent_id :: "string option"
  ctx_metadata :: "string \<rightharpoonup> string"

definition context_new :: execution_context where
  "context_new = \<lparr> ctx_working_dir = None, ctx_user = None, ctx_session_id = None,
     ctx_agent_id = None, ctx_metadata = Map.empty \<rparr>"

definition with_working_dir :: "string \<Rightarrow> execution_context \<Rightarrow> execution_context" where
  "with_working_dir d c = c \<lparr> ctx_working_dir := Some d \<rparr>"

definition with_user :: "string \<Rightarrow> execution_context \<Rightarrow> execution_context" where
  "with_user u c = c \<lparr> ctx_user := Some u \<rparr>"

definition with_session_id :: "uuid \<Rightarrow> execution_context \<Rightarrow> execution_context" where
  "with_session_id i c = c \<lparr> ctx_session_id := Some i \<rparr>"

section \<open>Lemmas\<close>

fun_cases op_description_elim: "op_description op = s"

lemma to_lowercase_Cons [simp]: "to_lowercase (c # s) = ascii_lower c # to_lowercase s"
  by (simp add: to_lowercase_def)

lemma to_lowercase_Nil [simp]: "to_lowercase [] = []"
  by (simp add: to_lowercase_def)

lemma level_display_lower [simp]: "to_lowercase (level_display l) = level_display l"
  by (cases l) (simp_all add: ascii_lower_def)

lemma source_display_lower [simp]: "to_lowercase (source_display l) = source_display l"
  by (cases l) (simp_all add: ascii_lower_def)

lemma level_from_str_display: "level_from_str (level_display l) = Inr l"
  by (cases l) (simp_all add: level_from_str_def Let_def ascii_lower_def)

lemma source_from_str_display: "source_from_str (source_display l) = Inr l"
  by (cases l) (simp_all add: source_from_str_def Let_def ascii_lower_def)

lemma level_from_str_case: "to_lowercase s = to_lowercase t \<Longrightarrow>
    is_ok (level_from_str s) \<Longrightarrow> level_from_str s = level_from_str t"
  by (auto simp: level_from_str_def Let_def split: if_splits)

lemma is_expired_mono: "is_expired t r \<Longrightarrow> t \<le> u \<Longrightarrow> is_expired u r"
  by (auto simp: is_expired_def split: option.splits)

lemma is_expired_new [simp]: "\<not> is_expired now (rule_new u t op p)"
  by (simp add: is_expired_def rule_new_def)

end
