(* ===== verification/Approval_Session.thy ===== *)
theory Approval_Session
  imports Approval_Rules
begin

text \<open>
  The session cache of user decisions (sandbox/src/approval/session.rs).  The
  DashMap is a partial map from cache keys to entries, every method returns the
  new cache beside its result, and the clock is the argument \<open>now\<close>.  The locale
  \<open>decision_cache\<close> states what a client relies on: the newest recorded decision
  for a key is seen for as long as it is fresh, and no other decision is.
\<close>

datatype permission_verdict =
    VAllowed
  | VDenied string
  | VNeedsConfirmation permission_level

datatype cached_decision = CDApproved | CDDenied

record session_entry =
  entry_decision :: cached_decision
  entry_created_at :: time

record cache_key =
  key_operation :: operation_type
  key_session_id :: "uuid option"

record approval_session =
  as_cache :: "cache_key \<rightharpoonup> session_entry"
  as_timeout_secs :: u64
  as_current_session_id :: "uuid option"

definition session_new :: "u64 \<Rightarrow> approval_session" where
  "session_new timeout = \<lparr> as_cache = Map.empty, as_timeout_secs = timeout,
     as_current_session_id = None \<rparr>"

definition set_session_id :: "uuid \<Rightarrow> approval_session \<Rightarrow> approval_session" where
  "set_session_id i s = s \<lparr> as_current_session_id := Some i \<rparr>"

text \<open>\<open>Option::or\<close>, and \<open>Duration::seconds(secs as i64)\<close> in nanoseconds.\<close>

fun option_or :: "'a option \<Rightarrow> 'a option \<Rightarrow> 'a option" where
  "option_or (Some x) y = Some x"
| "option_or None y = y"

definition timeout_nanos :: "u64 \<Rightarrow> int" where
  "timeout_nanos secs = sint secs * 1000000000"

definition cache_key_of :: "approval_session \<Rightarrow> operation_type \<Rightarrow> execution_context \<Rightarrow> cache_key" where
  "cache_key_of s op ctx = \<lparr> key_operation = op,
     key_session_id = option_or (ctx_session_id ctx) (as_current_session_id s) \<rparr>"

fun decision_level :: "cached_decision \<Rightarrow> permission_level" where
  "decision_level CDApproved = Allowed"
| "decision_level CDDenied = Denied"

definition check_cache ::
  "time \<Rightarrow> operation_type \<Rightarrow> execution_context \<Rightarrow> approval_session
   \<Rightarrow> permission_level option \<times> approval_session" where
  "check_cache now op ctx s =
     (let key = cache_key_of s op ctx in
      case as_cache s key of
        None \<Rightarrow> (None, s)
      | Some e \<Rightarrow>
          if now - entry_created_at e > timeout_nanos (as_timeout_secs s)
          then (None, s \<lparr> as_cache := (as_cache s)(key := None) \<rparr>)
          else (Some (decision_level (entry_decision e)), s))"

definition cache_decision ::
  "time \<Rightarrow> operation_type \<Rightarrow> execution_context \<Rightarrow> bool \<Rightarrow> approval_session \<Rightarrow> approval_session" where
  "cache_decision now op ctx approved s =
     (let key = cache_key_of s op ctx;
          e = \<lparr> entry_decision = (if approved then CDApproved else CDDenied), entry_created_at = now \<rparr>
      in s \<lparr> as_cache := (as_cache s)(key \<mapsto> e) \<rparr>)"

definition cache_permission ::
  "time \<Rightarrow> operation_type \<Rightarrow> execution_context \<Rightarrow> permission_level \<Rightarrow> approval_session
   \<Rightarrow> approval_session" where
  "cache_permission now op ctx perm s =
     (if perm = AskOnce then cache_decision now op ctx True s else s)"

definition clear_cache :: "approval_session \<Rightarrow> approval_session" where
  "clear_cache s = s \<lparr> as_cache := Map.empty \<rparr>"

definition clear_session :: "uuid \<Rightarrow> approval_session \<Rightarrow> approval_session" where
  "clear_session i s = s \<lparr> as_cache :=
     (\<lambda>k. if key_session_id k \<noteq> Some i then as_cache s k else None) \<rparr>"

definition cache_size :: "approval_session \<Rightarrow> nat" where
  "cache_size s = card (dom (as_cache s))"

definition cleanup_expired :: "time \<Rightarrow> approval_session \<Rightarrow> approval_session" where
  "cleanup_expired now s = s \<lparr> as_cache :=
     (\<lambda>k. case as_cache s k of
            None \<Rightarrow> None
          | Some e \<Rightarrow> if now - entry_created_at e \<le> timeout_nanos (as_timeout_secs s)
                      then Some e else None) \<rparr>"

section \<open>The contract of a decision cache\<close>

locale decision_cache =
  fixes look :: "time \<Rightarrow> 's \<Rightarrow> 'k \<Rightarrow> 'v option"
    and keep :: "time \<Rightarrow> 'k \<Rightarrow> 'v \<Rightarrow> 's \<Rightarrow> 's"
    and fresh :: "'s \<Rightarrow> time \<Rightarrow> time \<Rightarrow> bool"
  assumes look_keep: "look now (keep t k v s) k' =
      (if k' = k then if fresh s t now then Some v else None else look now s k')"
    and fresh_keep: "fresh (keep t k v s) = fresh s"
begin

text \<open>Recording a sequence of decisions, oldest first.\<close>

fun keep_all :: "(time \<times> 'k \<times> 'v) list \<Rightarrow> 's \<Rightarrow> 's" where
  "keep_all [] s = s"
| "keep_all ((t, k, v) # es) s = keep_all es (keep t k v s)"

lemma fresh_keep_all: "fresh (keep_all es s) = fresh s"
  by (induction es s rule: keep_all.induct) (simp_all add: fresh_keep)

text \<open>Whatever a lookup reports was recorded for that very key and is still fresh, or
  was there before.\<close>

lemma look_justified:
  "look now (keep_all es s) k = Some v \<Longrightarrow>
     look now s k = Some v \<or> (\<exists>t. (t, k, v) \<in> set es \<and> fresh s t now)"
proof (induction es s rule: keep_all.induct)
  case (2 t k' v' es s)
  then show ?case by (auto simp: look_keep fresh_keep split: if_splits)
qed simp

text \<open>The newest decision for a key is the one a lookup reports while it is fresh.\<close>

lemma look_other_keys:
  "k \<notin> (fst \<circ> snd) ` set es \<Longrightarrow> look now (keep_all es s) k = look now s k"
  by (induction es s rule: keep_all.induct) (auto simp: look_keep)

lemma look_newest:
  "k \<notin> (fst \<circ> snd) ` set es \<Longrightarrow> look now (keep_all es (keep t k v s)) k =
     (if fresh s t now then Some v else None)"
  by (simp add: look_other_keys look_keep)

end

section \<open>The session cache meets the contract\<close>

text \<open>Lookups and recordings by key, as the methods perform them.\<close>

definition look_level :: "time \<Rightarrow> approval_session \<Rightarrow> cache_key \<Rightarrow> permission_level option" where
  "look_level now s k = (case as_cache s k of None \<Rightarrow> None
     | Some e \<Rightarrow> if now - entry_created_at e > timeout_nanos (as_timeout_secs s) then None
                 else Some (decision_level (entry_decision e)))"

definition keep_decision :: "time \<Rightarrow> cache_key \<Rightarrow> cached_decision \<Rightarrow> approval_session \<Rightarrow> approval_session" where
  "keep_decision t k d s = s \<lparr> as_cache := (as_cache s)
     (k \<mapsto> \<lparr> entry_decision = d, entry_created_at = t \<rparr>) \<rparr>"

definition look_decision :: "time \<Rightarrow> approval_session \<Rightarrow> cache_key \<Rightarrow> cached_decision option" where
  "look_decision now s k = (case as_cache s k of None \<Rightarrow> None
     | Some e \<Rightarrow> if now - entry_created_at e > timeout_nanos (as_timeout_secs s) then None
                 else Some (entry_decision e))"

definition still_fresh :: "approval_session \<Rightarrow> time \<Rightarrow> time \<Rightarrow> bool" where
  "still_fresh s t now = (now - t \<le> timeout_nanos (as_timeout_secs s))"

interpretation dc: decision_cache look_decision keep_decision still_fresh
  by unfold_locales
    (auto simp: look_decision_def keep_decision_def still_fresh_def fun_eq_iff split: option.splits)

lemma look_level_decision: "look_level now s k = map_option decision_level (look_decision now s k)"
  by (auto simp: look_level_def look_decision_def split: option.splits)

lemma check_cache_value: "fst (check_cache now op ctx s) = look_level now s (cache_key_of s op ctx)"
  by (auto simp: check_cache_def look_level_def Let_def split: option.splits)

lemma cache_decision_keep:
  "cache_decision now op ctx a s =
     keep_decision now (cache_key_of s op ctx) (if a then CDApproved else CDDenied) s"
  by (simp add: cache_decision_def keep_decision_def Let_def)

text \<open>The lookup only ever drops an entry that is already stale: at any later time no
  lookup can tell the difference.\<close>

lemma check_cache_same [simp]:
  "as_timeout_secs (snd (check_cache now op ctx s)) = as_timeout_secs s"
  "as_current_session_id (snd (check_cache now op ctx s)) = as_current_session_id s"
  by (auto simp: check_cache_def Let_def split: option.splits)

lemma check_cache_submap: "as_cache (snd (check_cache now op ctx s)) k \<in> {None, as_cache s k}"
  by (auto simp: check_cache_def Let_def split: option.splits)

lemma check_cache_neutral:
  assumes "now \<le> later"
  shows "look_level later (snd (check_cache now op ctx s)) k = look_level later s k"
  using assms
  by (auto simp: check_cache_def look_level_def Let_def split: option.splits)

lemma cleanup_expired_neutral:
  assumes "now \<le> later"
  shows "look_level later (cleanup_expired now s) k = look_level later s k"
  using assms by (auto simp: cleanup_expired_def look_level_def split: option.splits)

lemma cache_key_of_same [simp]:
  "cache_key_of (snd (check_cache now op ctx s)) = cache_key_of s"
  "cache_key_of (cache_decision now op ctx a s) = cache_key_of s"
  "cache_key_of (clear_cache s) = cache_key_of s"
  "cache_key_of (cleanup_expired now s) = cache_key_of s"
  by (auto simp: fun_eq_iff cache_key_of_def cache_decision_def clear_cache_def cleanup_expired_def
      Let_def)

lemma cache_decision_timeout [simp]:
  "as_timeout_secs (cache_decision now op ctx a s) = as_timeout_secs s"
  "as_current_session_id (cache_decision now op ctx a s) = as_current_session_id s"
  by (simp_all add: cache_decision_def Let_def)

lemma look_level_cache_decision:
  "look_level now (cache_decision t op ctx a s) k =
     (if k = cache_key_of s op ctx
      then if still_fresh s t now then Some (if a then Allowed else Denied) else None
      else look_level now s k)"
  unfolding cache_decision_keep look_level_decision
  by (simp add: dc.look_keep)

lemma clear_session_other:
  "key_session_id k \<noteq> Some i \<Longrightarrow> look_level now (clear_session i s) k = look_level now s k"
  "key_session_id k = Some i \<Longrightarrow> look_level now (clear_session i s) k = None"
  by (auto simp: clear_session_def look_level_def split: option.splits)

lemma look_level_range: "look_level now s k = Some l \<Longrightarrow> l = Allowed \<or> l = Denied"
  by (auto simp: look_level_def split: option.splits if_splits elim: decision_level.elims)
    (metis decision_level.simps cached_decision.exhaust)+

end
