(* ===== verification/Approval_Store.thy ===== *)
theory Approval_Store
  imports Approval_Session
begin

text \<open>
  Rule persistence: the \<open>PermissionStore\<close> trait (sandbox/src/approval/store.rs) as a
  record of operations over a store state and an environment, and the JSON file
  store (store_json.rs).  serde_json is the parameter pair \<open>ser\<close>, \<open>de\<close>; the file is
  its content (None when absent); the environment of one call says what the
  clock reads and which file-system calls fail, with the file a failed write
  leaves behind.
\<close>

section \<open>The trait\<close>

record ('e, 's) permission_store =
  st_load :: "'e \<Rightarrow> 's \<Rightarrow> sandbox_error + approval_rule list"
  st_save :: "'e \<Rightarrow> approval_rule list \<Rightarrow> 's \<Rightarrow> (sandbox_error + unit) \<times> 's"
  st_add :: "'e \<Rightarrow> approval_rule \<Rightarrow> 's \<Rightarrow> (sandbox_error + unit) \<times> 's"
  st_remove :: "'e \<Rightarrow> uuid \<Rightarrow> 's \<Rightarrow> (sandbox_error + unit) \<times> 's"
  st_update :: "'e \<Rightarrow> approval_rule \<Rightarrow> 's \<Rightarrow> (sandbox_error + unit) \<times> 's"
  st_get :: "'e \<Rightarrow> uuid \<Rightarrow> 's \<Rightarrow> sandbox_error + approval_rule option"
  st_clear :: "'e \<Rightarrow> 's \<Rightarrow> (sandbox_error + unit) \<times> 's"

section \<open>The JSON file store\<close>

record json_file =
  jf_content :: "string option"
  jf_parent_exists :: bool

record io_env =
  io_now :: time
  io_mkdir_error :: "string option"
  io_read_error :: "string option"
  io_write_error :: "(string \<times> string option) option"

definition ensure_parent_dir :: "io_env \<Rightarrow> json_file \<Rightarrow> (sandbox_error + unit) \<times> json_file" where
  "ensure_parent_dir io f =
     (if jf_parent_exists f then (Inr (), f)
      else case io_mkdir_error io of
             Some e \<Rightarrow> (Inl (StoreError (''Failed to create directory: '' @ e)), f)
           | None \<Rightarrow> (Inr (), f \<lparr> jf_parent_exists := True \<rparr>))"

definition load_rules ::
  "(string \<Rightarrow> string + approval_rule list) \<Rightarrow> io_env \<Rightarrow> json_file
   \<Rightarrow> sandbox_error + approval_rule list" where
  "load_rules de io f =
     (case jf_content f of
        None \<Rightarrow> Inr []
      | Some content \<Rightarrow>
          (case io_read_error io of
             Some e \<Rightarrow> Inl (StoreError (''Failed to read rules file: '' @ e))
           | None \<Rightarrow>
               if trim content = [] then Inr []
               else (case de content of
                       Inl e \<Rightarrow> Inl (StoreError (''Failed to parse rules: '' @ e))
                     | Inr rules \<Rightarrow> Inr (filter (\<lambda>r. \<not> is_expired (io_now io) r) rules))))"

definition save_rules ::
  "(approval_rule list \<Rightarrow> string + string) \<Rightarrow> io_env \<Rightarrow> approval_rule list \<Rightarrow> json_file
   \<Rightarrow> (sandbox_error + unit) \<times> json_file" where
  "save_rules ser io rules f =
     (case ensure_parent_dir io f of
        (Inl e, f1) \<Rightarrow> (Inl e, f1)
      | (Inr _, f1) \<Rightarrow>
          (case ser rules of
             Inl e \<Rightarrow> (Inl (StoreError (''Failed to serialize rules: '' @ e)), f1)
           | Inr content \<Rightarrow>
               (case io_write_error io of
                  Some (e, left) \<Rightarrow>
                    (Inl (StoreError (''Failed to write rules file: '' @ e)), f1 \<lparr> jf_content := left \<rparr>)
                | None \<Rightarrow> (Inr (), f1 \<lparr> jf_content := Some content \<rparr>))))"

definition store_add_rule where
  "store_add_rule ser de io rule f =
     (case load_rules de io f of
        Inl e \<Rightarrow> (Inl e, f)
      | Inr rules \<Rightarrow> save_rules ser io (rules @ [rule]) f)"

definition store_remove_rule where
  "store_remove_rule ser de io rid f =
     (case load_rules de io f of
        Inl e \<Rightarrow> (Inl e, f)
      | Inr rules \<Rightarrow> save_rules ser io (filter (\<lambda>r. rule_id r \<noteq> rid) rules) f)"

text \<open>\<open>*existing = rule.clone()\<close> on the first rule with that identifier.\<close>

fun replace_first :: "approval_rule \<Rightarrow> approval_rule list \<Rightarrow> approval_rule list" where
  "replace_first r [] = []"
| "replace_first r (x # xs) = (if rule_id x = rule_id r then r # xs else x # replace_first r xs)"

definition store_update_rule where
  "store_update_rule ser de io io' rule f =
     (case load_rules de io f of
        Inl e \<Rightarrow> (Inl e, f)
      | Inr rules \<Rightarrow>
          (case find (\<lambda>r. rule_id r = rule_id rule) rules of
             Some existing \<Rightarrow> save_rules ser io (replace_first rule rules) f
           | None \<Rightarrow> store_add_rule ser de io' rule f))"

definition store_get_rule where
  "store_get_rule de io rid f =
     bind_res (load_rules de io f) (\<lambda>rules. Inr (find (\<lambda>r. rule_id r = rid) rules))"

definition store_clear where
  "store_clear ser io f = save_rules ser io [] f"

definition default_location :: "string option \<Rightarrow> string option \<Rightarrow> sandbox_error + string" where
  "default_location config_dir home_dir =
     (case option_or config_dir (map_option (\<lambda>h. h @ ''/.gasket'') home_dir) of
        None \<Rightarrow> Inl (StoreError ''Cannot determine config directory'')
      | Some d \<Rightarrow> Inr (d @ ''/approval_rules.json''))"

definition json_store ::
  "(approval_rule list \<Rightarrow> string + string) \<Rightarrow> (string \<Rightarrow> string + approval_rule list)
   \<Rightarrow> (io_env, json_file) permission_store" where
  "json_store ser de = \<lparr> st_load = load_rules de, st_save = save_rules ser,
     st_add = store_add_rule ser de, st_remove = store_remove_rule ser de,
     st_update = (\<lambda>io. store_update_rule ser de io io), st_get = store_get_rule de,
     st_clear = store_clear ser \<rparr>"

section \<open>Lemmas\<close>

text \<open>What the store relies on of serde_json at one list of rules.\<close>

definition codec_roundtrips where
  "codec_roundtrips ser de rules = (\<exists>c. ser rules = Inr c \<and> trim c \<noteq> [] \<and> de c = Inr rules)"

definition io_ok :: "io_env \<Rightarrow> bool" where
  "io_ok io = (io_mkdir_error io = None \<and> io_read_error io = None \<and> io_write_error io = None)"

definition live_rules :: "time \<Rightarrow> approval_rule list \<Rightarrow> approval_rule list" where
  "live_rules now rules = filter (\<lambda>r. \<not> is_expired now r) rules"

lemma live_rules_append [simp]: "live_rules t (xs @ ys) = live_rules t xs @ live_rules t ys"
  by (simp add: live_rules_def)

lemma live_rules_mono: "s \<le> t \<Longrightarrow> live_rules t (live_rules s xs) = live_rules t xs"
  by (induction xs) (auto simp: live_rules_def dest: is_expired_mono)

lemma live_rules_filter: "live_rules t (filter P xs) = filter P (live_rules t xs)"
  by (simp add: live_rules_def conj_commute)

lemma ensure_parent_dir_content [simp]: "jf_content (snd (ensure_parent_dir io f)) = jf_content f"
  by (auto simp: ensure_parent_dir_def split: option.splits)

lemma save_rules_success:
  assumes "ser rules = Inr c" "io_ok io"
  shows "save_rules ser io rules f = (Inr (), f \<lparr> jf_parent_exists := True, jf_content := Some c \<rparr>)"
  using assms by (cases f) (simp add: save_rules_def ensure_parent_dir_def io_ok_def)

lemma load_rules_content:
  assumes "jf_content f = Some c" "trim c \<noteq> []" "de c = Inr rules" "io_read_error io = None"
  shows "load_rules de io f = Inr (live_rules (io_now io) rules)"
  using assms by (simp add: load_rules_def live_rules_def)

lemma save_rules_ok:
  assumes "codec_roundtrips ser de rules" "io_ok io"
  shows "fst (save_rules ser io rules f) = Inr ()"
    "io_read_error io' = None \<Longrightarrow>
       load_rules de io' (snd (save_rules ser io rules f)) = Inr (live_rules (io_now io') rules)"
proof -
  obtain c where c: "ser rules = Inr c" "trim c \<noteq> []" "de c = Inr rules"
    using assms(1) by (auto simp: codec_roundtrips_def)
  show "fst (save_rules ser io rules f) = Inr ()"
    by (simp add: save_rules_success [where c = c] c assms(2))
  show "load_rules de io' (snd (save_rules ser io rules f)) = Inr (live_rules (io_now io') rules)"
    if "io_read_error io' = None"
    by (rule load_rules_content [where c = c])
      (simp_all add: save_rules_success [where c = c] c assms(2) that)
qed

text \<open>Nothing but a failed write can leave a different file behind an error.\<close>

lemma save_rules_error_content:
  assumes "io_write_error io = None" "fst (save_rules ser io rules f) = Inl e"
  shows "jf_content (snd (save_rules ser io rules f)) = jf_content f"
proof (cases "ensure_parent_dir io f")
  case (Pair r f1)
  then have "jf_content f1 = jf_content f" using ensure_parent_dir_content [of io f] by simp
  with Pair assms show ?thesis
    by (cases r; cases "ser rules") (simp_all add: save_rules_def)
qed

lemma replace_first_other: "rule_id r \<notin> rule_id ` set xs \<Longrightarrow> replace_first r xs = xs"
  by (induction xs) auto

lemma replace_first_map:
  "distinct (map rule_id xs) \<Longrightarrow>
     replace_first r xs = map (\<lambda>x. if rule_id x = rule_id r then r else x) xs"
proof (induction xs)
  case (Cons x xs)
  then show ?case
    by (cases "rule_id x = rule_id r") (auto simp: map_idI image_iff intro!: map_idI [symmetric])
qed simp

lemma replace_first_lookup:
  "find (\<lambda>x. rule_id x = rule_id r) xs \<noteq> None \<Longrightarrow>
     find (\<lambda>x. rule_id x = rule_id r) (replace_first r xs) = Some r"
  by (induction xs) auto

end
