(* ===== verification/Approval_Manager.thy ===== *)
theory Approval_Manager
  imports Approval_Store
begin

text \<open>
  The rule engine and the approval manager (sandbox/src/approval/manager.rs).
  The engine is its list of rules; the manager owns the store state, the rules,
  the session cache, the optional interaction handler and the configuration.
  \<open>mstep\<close> is the step relation of a running manager with the history of the
  answers users gave; its invariant ties every cached decision to an answer.
\<close>

section \<open>Rule engine\<close>

type_synonym rule_engine = "approval_rule list"

definition set_rules :: "approval_rule list \<Rightarrow> rule_engine \<Rightarrow> rule_engine" where
  "set_rules rules e = rules"

definition engine_add_rule :: "approval_rule \<Rightarrow> rule_engine \<Rightarrow> rule_engine" where
  "engine_add_rule r e = e @ [r]"

definition engine_remove_rule :: "uuid \<Rightarrow> rule_engine \<Rightarrow> rule_engine" where
  "engine_remove_rule i e = filter (\<lambda>r. rule_id r \<noteq> i) e"

definition pattern_matches :: "string \<Rightarrow> string \<Rightarrow> bool" where
  "pattern_matches pat v =
     (if pat = ''*'' then True
      else if starts_with pat ''*'' \<and> ends_with pat ''*''
           then str_contains v (take (length pat - 2) (drop 1 pat))
      else case strip_prefix ''*'' pat of
             Some suf \<Rightarrow> ends_with v suf
           | None \<Rightarrow> (case strip_suffix ''*'' pat of
                       Some pre \<Rightarrow> starts_with v pre
                     | None \<Rightarrow> pat = v))"

fun rule_matches :: "operation_type \<Rightarrow> operation_type \<Rightarrow> bool" where
  "rule_matches (Command pb pa) (Command ob oa) =
     (if \<not> pattern_matches pb ob then False
      else case (pa, oa) of
             (None, _) \<Rightarrow> True
           | (Some p, Some q) \<Rightarrow> pattern_matches p q
           | (Some _, None) \<Rightarrow> False)"
| "rule_matches (FileRead pp) (FileRead q) = pattern_matches pp q"
| "rule_matches (FileWrite pp) (FileWrite q) = pattern_matches pp q"
| "rule_matches (Network ph _) (Network oh _) = pattern_matches ph oh"
| "rule_matches (EnvVar pn) (EnvVar n) = pattern_matches pn n"
| "rule_matches (CustomOp pc pn) (CustomOp oc n) = (pattern_matches pc oc \<and> pattern_matches pn n)"
| "rule_matches _ _ = False"

definition find_match :: "time \<Rightarrow> rule_engine \<Rightarrow> operation_type \<Rightarrow> approval_rule option" where
  "find_match now e op =
     find (\<lambda>r. rule_matches (rule_operation r) op) (filter (\<lambda>r. \<not> is_expired now r) e)"

section \<open>Manager\<close>

type_synonym interaction = "approval_request \<Rightarrow> sandbox_error + permission_level"

record 's approval_manager =
  am_store :: 's
  am_rules :: rule_engine
  am_session :: approval_session
  am_interaction :: "interaction option"
  am_config :: approval_config

definition manager_new :: "'s \<Rightarrow> approval_config \<Rightarrow> 's approval_manager" where
  "manager_new st cfg = \<lparr> am_store = st, am_rules = [],
     am_session = session_new (ac_session_timeout cfg), am_interaction = None, am_config = cfg \<rparr>"

definition with_interaction :: "interaction \<Rightarrow> 's approval_manager \<Rightarrow> 's approval_manager" where
  "with_interaction h m = m \<lparr> am_interaction := Some h \<rparr>"

definition manager_initialize ::
  "('e, 's) permission_store \<Rightarrow> 'e \<Rightarrow> 's approval_manager
   \<Rightarrow> (sandbox_error + unit) \<times> 's approval_manager" where
  "manager_initialize ops env m =
     (case st_load ops env (am_store m) of
        Inl e \<Rightarrow> (Inl e, m)
      | Inr rules \<Rightarrow> (Inr (), m \<lparr> am_rules := set_rules rules (am_rules m) \<rparr>))"

definition default_level :: "approval_config \<Rightarrow> permission_level" where
  "default_level cfg = (case level_from_str (ac_default_level cfg) of
     Inr l \<Rightarrow> l | Inl _ \<Rightarrow> AskAlways)"

definition rule_verdict :: "approval_rule \<Rightarrow> permission_verdict" where
  "rule_verdict r = (case rule_permission r of
      Allowed \<Rightarrow> VAllowed
    | Denied \<Rightarrow> VDenied (case rule_description r of Some d \<Rightarrow> d | None \<Rightarrow> ''Denied by rule'')
    | AskOnce \<Rightarrow> VNeedsConfirmation AskOnce
    | AskAlways \<Rightarrow> VNeedsConfirmation AskAlways)"

definition default_verdict :: "permission_level \<Rightarrow> permission_verdict" where
  "default_verdict l = (case l of
      Allowed \<Rightarrow> VAllowed
    | Denied \<Rightarrow> VDenied ''Denied by default policy''
    | _ \<Rightarrow> VNeedsConfirmation l)"

definition check_permission ::
  "time \<Rightarrow> operation_type \<Rightarrow> execution_context \<Rightarrow> 's approval_manager
   \<Rightarrow> permission_verdict \<times> 's approval_manager" where
  "check_permission now op ctx m =
     (let (cached, sess) = check_cache now op ctx (am_session m);
          m1 = m \<lparr> am_session := sess \<rparr> in
      case cached of
        Some Allowed \<Rightarrow> (VAllowed, m1)
      | Some Denied \<Rightarrow> (VDenied ''Previously denied in this session'', m1)
      | Some level \<Rightarrow> (VNeedsConfirmation level, m1)
      | None \<Rightarrow>
          (case find_match now (am_rules m) op of
             Some r \<Rightarrow> (rule_verdict r, m1)
           | None \<Rightarrow> (default_verdict (default_level (am_config m)), m1)))"

text \<open>\<open>t0\<close>: the clock during the check, \<open>t1\<close>: when the answer is in; \<open>u\<close>: the request id.\<close>

definition approval_prompt ::
  "time \<Rightarrow> uuid \<Rightarrow> operation_type \<Rightarrow> permission_level \<Rightarrow> approval_request" where
  "approval_prompt t0 u op suggested =
     with_suggested_level suggested (request_new u t0 op (op_description op))"

definition request_approval ::
  "time \<Rightarrow> time \<Rightarrow> uuid \<Rightarrow> operation_type \<Rightarrow> execution_context \<Rightarrow> 's approval_manager
   \<Rightarrow> (sandbox_error + permission_level) \<times> 's approval_manager" where
  "request_approval t0 t1 u op ctx m =
     (case check_permission t0 op ctx m of
        (VAllowed, m1) \<Rightarrow> (Inr Allowed, m1)
      | (VDenied reason, m1) \<Rightarrow> (Inl (PermissionDenied reason), m1)
      | (VNeedsConfirmation suggested, m1) \<Rightarrow>
          (case am_interaction m1 of
             None \<Rightarrow> (Inl (ApprovalFailed ''approval interaction handler not configured''), m1)
           | Some confirm \<Rightarrow>
               (case confirm (approval_prompt t0 u op suggested) of
                  Inl e \<Rightarrow> (Inl e, m1)
                | Inr level \<Rightarrow>
                    (let m2 = (if suggested = AskOnce
                               then m1 \<lparr> am_session := cache_decision t1 op ctx (level \<noteq> Denied) (am_session m1) \<rparr>
                               else m1)
                     in if level = Denied then (Inl (PermissionDenied ''user denied operation''), m2)
                        else (Inr level, m2)))))"

definition manager_add_rule ::
  "('e, 's) permission_store \<Rightarrow> 'e \<Rightarrow> approval_rule \<Rightarrow> 's approval_manager
   \<Rightarrow> (sandbox_error + unit) \<times> 's approval_manager" where
  "manager_add_rule ops env r m =
     (case st_add ops env r (am_store m) of
        (Inl e, st) \<Rightarrow> (Inl e, m \<lparr> am_store := st \<rparr>)
      | (Inr _, st) \<Rightarrow> (Inr (), m \<lparr> am_store := st, am_rules := engine_add_rule r (am_rules m) \<rparr>))"

definition manager_revoke_rule ::
  "('e, 's) permission_store \<Rightarrow> 'e \<Rightarrow> uuid \<Rightarrow> 's approval_manager
   \<Rightarrow> (sandbox_error + unit) \<times> 's approval_manager" where
  "manager_revoke_rule ops env i m =
     (case st_remove ops env i (am_store m) of
        (Inl e, st) \<Rightarrow> (Inl e, m \<lparr> am_store := st \<rparr>)
      | (Inr _, st) \<Rightarrow> (Inr (), m \<lparr> am_store := st, am_rules := engine_remove_rule i (am_rules m) \<rparr>))"

definition manager_rules :: "'s approval_manager \<Rightarrow> approval_rule list" where
  "manager_rules m = am_rules m"

definition manager_rule_count :: "'s approval_manager \<Rightarrow> nat" where
  "manager_rule_count m = length (am_rules m)"

definition manager_clear_session :: "'s approval_manager \<Rightarrow> 's approval_manager" where
  "manager_clear_session m = m \<lparr> am_session := clear_cache (am_session m) \<rparr>"

section \<open>A running manager\<close>

text \<open>An answer of the user: when it was recorded, for which cache key, which level.\<close>

type_synonym answers = "(time \<times> cache_key \<times> permission_level) list"

definition answers_of ::
  "time \<Rightarrow> time \<Rightarrow> uuid \<Rightarrow> operation_type \<Rightarrow> execution_context \<Rightarrow> 's approval_manager \<Rightarrow> answers" where
  "answers_of t0 t1 u op ctx m =
     (case (fst (check_permission t0 op ctx m), am_interaction m) of
        (VNeedsConfirmation l, Some confirm) \<Rightarrow>
          (case confirm (approval_prompt t0 u op l) of
             Inr level \<Rightarrow> [(t1, cache_key_of (am_session m) op ctx, level)]
           | Inl _ \<Rightarrow> [])
      | _ \<Rightarrow> [])"

inductive mstep ::
  "('e, 's) permission_store \<Rightarrow> 's approval_manager \<times> answers \<Rightarrow> 's approval_manager \<times> answers \<Rightarrow> bool"
  for ops where
  step_init: "mstep ops (m, h) (snd (manager_initialize ops env m), h)"
| step_request: "mstep ops (m, h)
     (snd (request_approval t0 t1 u op ctx m), h @ answers_of t0 t1 u op ctx m)"
| step_check: "mstep ops (m, h) (snd (check_permission t0 op ctx m), h)"
| step_add: "mstep ops (m, h) (snd (manager_add_rule ops env r m), h)"
| step_revoke: "mstep ops (m, h) (snd (manager_revoke_rule ops env i m), h)"
| step_clear: "mstep ops (m, h) (manager_clear_session m, h)"

inductive_cases mstep_elim: "mstep ops c c'"
inductive_simps mstep_from: "mstep ops (m, h) c'"

inductive mreach :: "('e, 's) permission_store \<Rightarrow> 's approval_manager \<times> answers \<Rightarrow> bool" for ops where
  mreach_start: "am_session m = session_new (ac_session_timeout (am_config m)) \<Longrightarrow> mreach ops (m, [])"
| mreach_step: "mreach ops c \<Longrightarrow> mstep ops c c' \<Longrightarrow> mreach ops c'"

section \<open>Pattern matching is globbing\<close>

text \<open>The reference: a star stands for any string, wherever it occurs.\<close>

fun glob :: "string \<Rightarrow> string \<Rightarrow> bool" where
  "glob [] v = (v = [])"
| "glob (c # p) v =
     (if c = CHR ''*'' then list_ex (glob p) (suffixes v)
      else case v of [] \<Rightarrow> False | d # w \<Rightarrow> c = d \<and> glob p w)"

lemma glob_star: "glob (CHR ''*'' # q) v \<longleftrightarrow> (\<exists>a b. v = a @ b \<and> glob q b)"
proof -
  have "glob (CHR ''*'' # q) v \<longleftrightarrow> (\<exists>b. suffix b v \<and> glob q b)"
    by (subst glob.simps(2)) (auto simp: list_ex_iff simp del: glob.simps)
  then show ?thesis unfolding suffix_def by blast
qed

lemma glob_lit_append:
  "CHR ''*'' \<notin> set p \<Longrightarrow> glob (p @ q) v \<longleftrightarrow> (\<exists>w. v = p @ w \<and> glob q w)"
proof (induction p arbitrary: v)
  case (Cons c p)
  then show ?case by (cases v) auto
qed simp

declare glob.simps(2) [simp del]

lemma glob_literal: "CHR ''*'' \<notin> set p \<Longrightarrow> glob p v \<longleftrightarrow> p = v"
  using glob_lit_append [of p "[]" v] by auto

lemma glob_only_star [simp]: "glob ''*'' v"
  by (auto simp: glob_star)

lemma glob_star_lit: "CHR ''*'' \<notin> set p \<Longrightarrow> glob (CHR ''*'' # p) v \<longleftrightarrow> ends_with v p"
  by (auto simp: glob_star glob_literal ends_with_append)

lemma glob_lit_star: "CHR ''*'' \<notin> set p \<Longrightarrow> glob (p @ ''*'') v \<longleftrightarrow> starts_with v p"
  by (simp add: glob_lit_append starts_with_append)

lemma glob_star_lit_star:
  "CHR ''*'' \<notin> set p \<Longrightarrow> glob (CHR ''*'' # p @ ''*'') v \<longleftrightarrow> str_contains v p"
  by (auto simp: glob_star glob_lit_append str_contains_append)

lemma pattern_first_last:
  fixes p :: string
  obtains "p = []" | c where "p = [c]" | c mid d where "p = c # mid @ [d]"
  by (metis list.exhaust rev_exhaust)

lemma pattern_matches_literal [simp]:
  "CHR ''*'' \<notin> set p \<Longrightarrow> pattern_matches p v \<longleftrightarrow> p = v"
  by (auto simp: pattern_matches_def starts_with_append strip_prefix_def strip_suffix_def
      prefix_def suffix_def)

text \<open>Rule patterns are globs.  For every pattern whose inner characters are not
  stars, the matcher of the rule engine agrees with the reference glob semantics, in
  which a leading or trailing star stands for any string and nothing else is special.\<close>

theorem pattern_matches_glob:
  assumes "CHR ''*'' \<notin> set (butlast (tl p))"
  shows "pattern_matches p v \<longleftrightarrow> glob p v"
proof (cases p rule: pattern_first_last)
  case (2 c)
  then show ?thesis
    by (cases "c = CHR ''*''") (simp_all add: pattern_matches_def [of "''*''"] glob_literal)
next
  case (3 c mid d)
  then have mid: "CHR ''*'' \<notin> set mid" using assms by simp
  have strip: "strip_prefix ''*'' p = (if c = CHR ''*'' then Some (mid @ [d]) else None)"
    "strip_suffix ''*'' p = (if d = CHR ''*'' then Some (c # mid) else None)"
    using 3 by (auto simp: str_simps strip_prefix_def strip_suffix_def suffix_def)
  have ends: "starts_with p ''*'' \<longleftrightarrow> c = CHR ''*''" "ends_with p ''*'' \<longleftrightarrow> d = CHR ''*''"
    "p \<noteq> ''*''" "take (length p - 2) (drop (Suc 0) p) = mid"
    using 3 by (auto simp: str_simps)
  have "pattern_matches p v \<longleftrightarrow>
    (if c = CHR ''*'' then if d = CHR ''*'' then str_contains v mid else ends_with v (mid @ [d])
     else if d = CHR ''*'' then starts_with v (c # mid) else p = v)"
    by (simp add: pattern_matches_def strip ends)
  with 3 mid show ?thesis
    using glob_star_lit_star [OF mid] glob_star_lit [of "mid @ [d]"] glob_lit_star [of "c # mid"]
      glob_literal [of p v] by auto
qed (auto simp: pattern_matches_def str_simps strip_prefix_def strip_suffix_def)

theorem pattern_matches_glob_witness:
  "pattern_matches ''git *'' ''git push'' \<longleftrightarrow> glob ''git *'' ''git push''"
  by (rule pattern_matches_glob) simp

section \<open>First match\<close>

abbreviation rule_applies :: "time \<Rightarrow> operation_type \<Rightarrow> approval_rule \<Rightarrow> bool" where
  "rule_applies now op r \<equiv> \<not> is_expired now r \<and> rule_matches (rule_operation r) op"

lemma find_filter: "find P (filter Q xs) = find (\<lambda>x. Q x \<and> P x) xs"
  by (induction xs) auto

lemma find_match_find: "find_match now e op = find (rule_applies now op) e"
  by (simp add: find_match_def find_filter)

lemma find_append:
  "find P (xs @ ys) = (case find P xs of Some x \<Rightarrow> Some x | None \<Rightarrow> find P ys)"
  by (induction xs) auto

lemma find_Some_split:
  "find P xs = Some x \<longleftrightarrow> (\<exists>pre post. xs = pre @ x # post \<and> P x \<and> \<not> list_ex P pre)"
proof
  assume "find P xs = Some x"
  then show "\<exists>pre post. xs = pre @ x # post \<and> P x \<and> \<not> list_ex P pre"
  proof (induction xs)
    case (Cons a xs)
    show ?case
    proof (cases "P a")
      case True
      then have "a # xs = [] @ x # xs \<and> P x \<and> \<not> list_ex P []" using Cons.prems by simp
      then show ?thesis by blast
    next
      case False
      then obtain pre post where "xs = pre @ x # post" "P x" "\<not> list_ex P pre"
        using Cons by auto
      then have "a # xs = (a # pre) @ x # post \<and> P x \<and> \<not> list_ex P (a # pre)"
        using False by simp
      then show ?thesis by blast
    qed
  qed simp
next
  assume "\<exists>pre post. xs = pre @ x # post \<and> P x \<and> \<not> list_ex P pre"
  then obtain pre post where *: "xs = pre @ x # post" "P x" "\<not> list_ex P pre" by blast
  then have "find P pre = None" by (auto simp: find_None_iff list_ex_iff)
  with * show "find P xs = Some x" by (simp add: find_append)
qed

lemma find_match_Some:
  "find_match now e op = Some r \<longleftrightarrow>
     (\<exists>pre post. e = pre @ r # post \<and> rule_applies now op r \<and> \<not> list_ex (rule_applies now op) pre)"
  by (simp add: find_match_find find_Some_split)

lemma find_match_live:
  assumes "find_match now e op = Some r"
  shows "r \<in> set e" "\<not> is_expired now r" "rule_matches (rule_operation r) op"
  using assms by (auto simp: find_match_Some)

lemma find_match_add_rule:
  "find_match now (engine_add_rule r e) op =
     (case find_match now e op of Some q \<Rightarrow> Some q
      | None \<Rightarrow> if \<not> is_expired now r \<and> rule_matches (rule_operation r) op then Some r else None)"
  by (simp add: find_match_find engine_add_rule_def find_append split: option.splits)

lemma find_match_remove_rule:
  "find_match now (engine_remove_rule i e) op = Some r \<Longrightarrow> rule_id r \<noteq> i"
  by (auto simp: engine_remove_rule_def dest: find_match_live(1))

section \<open>What a check may answer\<close>

lemma rule_verdict_cases:
  "rule_verdict r = VAllowed \<longleftrightarrow> rule_permission r = Allowed"
  "rule_verdict r = VNeedsConfirmation l \<longleftrightarrow> rule_permission r = l \<and> l \<in> {AskOnce, AskAlways}"
  by (cases "rule_permission r"; auto simp: rule_verdict_def)+

lemma default_verdict_cases:
  "default_verdict d = VAllowed \<longleftrightarrow> d = Allowed"
  "default_verdict d = VNeedsConfirmation l \<longleftrightarrow> d = l \<and> l \<in> {AskOnce, AskAlways}"
  by (cases d; auto simp: default_verdict_def)+

lemmas verdict_cases = rule_verdict_cases default_verdict_cases

lemma check_permission_state:
  "snd (check_permission now op ctx m) = m \<lparr> am_session := snd (check_cache now op ctx (am_session m)) \<rparr>"
  by (auto simp: check_permission_def Let_def split: prod.splits option.splits permission_level.splits)

lemma check_permission_verdict:
  "fst (check_permission now op ctx m) =
     (case look_level now (am_session m) (cache_key_of (am_session m) op ctx) of
        Some l \<Rightarrow> if l = Allowed then VAllowed else VDenied ''Previously denied in this session''
      | None \<Rightarrow> (case find_match now (am_rules m) op of
                   Some r \<Rightarrow> rule_verdict r
                 | None \<Rightarrow> default_verdict (default_level (am_config m))))"
proof -
  have "fst (check_cache now op ctx (am_session m)) =
      look_level now (am_session m) (cache_key_of (am_session m) op ctx)"
    by (rule check_cache_value)
  then show ?thesis
    using look_level_range [of now "am_session m" "cache_key_of (am_session m) op ctx"]
    by (auto simp: check_permission_def Let_def split: prod.splits option.splits permission_level.splits)
qed

lemma request_approval_Inr:
  assumes "fst (request_approval t0 t1 u op ctx m) = Inr l"
  shows "fst (check_permission t0 op ctx m) = VAllowed
    \<or> answers_of t0 t1 u op ctx m = [(t1, cache_key_of (am_session m) op ctx, l)] \<and> l \<noteq> Denied"
proof (cases "check_permission t0 op ctx m")
  case (Pair v m1)
  then have "am_interaction m1 = am_interaction m"
    using check_permission_state [of t0 op ctx m] by simp
  with Pair assms show ?thesis
    by (auto simp: request_approval_def answers_of_def Let_def split: permission_verdict.splits
        option.splits sum.splits if_splits)
qed

section \<open>The session cache only repeats the users' answers\<close>

definition cache_inv :: "'s approval_manager \<times> answers \<Rightarrow> bool" where
  "cache_inv c = (\<forall>k e. as_cache (am_session (fst c)) k = Some e \<longrightarrow>
     (\<exists>l. (entry_created_at e, k, l) \<in> set (snd c) \<and> (entry_decision e = CDApproved \<longleftrightarrow> l \<noteq> Denied)))"

lemma cache_invI:
  assumes "\<And>k e. as_cache (am_session m) k = Some e \<Longrightarrow>
     \<exists>l. (entry_created_at e, k, l) \<in> set h \<and> (entry_decision e = CDApproved \<longleftrightarrow> l \<noteq> Denied)"
  shows "cache_inv (m, h)"
  using assms by (auto simp: cache_inv_def)

lemma cache_invD:
  assumes "cache_inv (m, h)" "as_cache (am_session m) k = Some e"
  obtains l where "(entry_created_at e, k, l) \<in> set h" "entry_decision e = CDApproved \<longleftrightarrow> l \<noteq> Denied"
  using assms unfolding cache_inv_def by auto

lemma cache_inv_mono:
  assumes "cache_inv (m, h)" "\<And>k. as_cache (am_session m') k \<in> {None, as_cache (am_session m) k}"
    "set h \<subseteq> set h'"
  shows "cache_inv (m', h')"
proof (rule cache_invI)
  fix k e assume "as_cache (am_session m') k = Some e"
  then have "as_cache (am_session m) k = Some e" using assms(2) [of k] by auto
  then obtain l where "(entry_created_at e, k, l) \<in> set h" "entry_decision e = CDApproved \<longleftrightarrow> l \<noteq> Denied"
    using cache_invD [OF assms(1)] by blast
  then show "\<exists>l. (entry_created_at e, k, l) \<in> set h' \<and> (entry_decision e = CDApproved \<longleftrightarrow> l \<noteq> Denied)"
    using assms(3) by blast
qed

text \<open>A request leaves the cache as the check left it, or records the answer just given.\<close>

lemma request_approval_state:
  "snd (request_approval t0 t1 u op ctx m) = snd (check_permission t0 op ctx m)
   \<or> (\<exists>l. answers_of t0 t1 u op ctx m = [(t1, cache_key_of (am_session m) op ctx, l)]
        \<and> snd (request_approval t0 t1 u op ctx m) =
            (let m1 = snd (check_permission t0 op ctx m) in
             m1 \<lparr> am_session := cache_decision t1 op ctx (l \<noteq> Denied) (am_session m1) \<rparr>))"
proof (cases "check_permission t0 op ctx m")
  case (Pair v m1)
  then have "am_interaction m1 = am_interaction m"
    using check_permission_state [of t0 op ctx m] by simp
  with Pair show ?thesis
    by (auto simp: request_approval_def answers_of_def Let_def split: permission_verdict.splits
        option.splits sum.splits if_splits)
qed

lemma cache_inv_check:
  "cache_inv (m, h) \<Longrightarrow> cache_inv (snd (check_permission t0 op ctx m), h)"
proof (erule cache_inv_mono)
  show "as_cache (am_session (snd (check_permission t0 op ctx m))) k \<in> {None, as_cache (am_session m) k}" for k
    using check_cache_submap [of t0 op ctx "am_session m" k] by (simp add: check_permission_state)
qed simp

lemma cache_inv_cache_decision:
  assumes "cache_inv (m, h)"
  shows "cache_inv (m \<lparr> am_session := cache_decision t op ctx (l \<noteq> Denied) (am_session m) \<rparr>,
           h @ [(t, cache_key_of (am_session m) op ctx, l)])"
  using assms by (auto simp: cache_inv_def cache_decision_def Let_def)

lemma cache_inv_request:
  assumes "cache_inv (m, h)"
  shows "cache_inv (snd (request_approval t0 t1 u op ctx m), h @ answers_of t0 t1 u op ctx m)"
proof -
  let ?m1 = "snd (check_permission t0 op ctx m)"
  have inv: "cache_inv (?m1, h)" using assms by (rule cache_inv_check)
  have key: "cache_key_of (am_session ?m1) op ctx = cache_key_of (am_session m) op ctx"
    by (simp add: check_permission_state)
  from request_approval_state [of t0 t1 u op ctx m] show ?thesis
  proof (elim disjE exE conjE)
    assume "snd (request_approval t0 t1 u op ctx m) = ?m1"
    then show ?thesis using cache_inv_mono [OF inv, of ?m1 "h @ answers_of t0 t1 u op ctx m"] by simp
  next
    fix l assume "answers_of t0 t1 u op ctx m = [(t1, cache_key_of (am_session m) op ctx, l)]"
      "snd (request_approval t0 t1 u op ctx m) =
        (let m1 = ?m1 in m1 \<lparr> am_session := cache_decision t1 op ctx (l \<noteq> Denied) (am_session m1) \<rparr>)"
    then show ?thesis using cache_inv_cache_decision [OF inv, of t1 op ctx l] by (simp add: Let_def key)
  qed
qed

lemma manager_session_same [simp]:
  "am_session (snd (manager_initialize ops env m)) = am_session m"
  "am_session (snd (manager_add_rule ops env r m)) = am_session m"
  "am_session (snd (manager_revoke_rule ops env i m)) = am_session m"
  by (auto simp: manager_initialize_def manager_add_rule_def manager_revoke_rule_def
      split: sum.splits prod.splits)

lemma mstep_cache_inv: "mstep ops c c' \<Longrightarrow> cache_inv c \<Longrightarrow> cache_inv c'"
proof (induction rule: mstep.induct)
  case (step_request m h t0 t1 u op ctx)
  then show ?case by (rule cache_inv_request)
next
  case (step_check m h t0 op ctx)
  then show ?case by (rule cache_inv_check)
qed (erule cache_inv_mono; simp add: manager_clear_session_def clear_cache_def)+

lemma mreach_cache_inv: "mreach ops c \<Longrightarrow> cache_inv c"
proof (induction rule: mreach.induct)
  case (mreach_start m)
  then show ?case by (simp add: cache_inv_def session_new_def)
qed (rule mstep_cache_inv)

lemma cached_allowed_answer:
  assumes "cache_inv (m, h)" "look_level now (am_session m) k = Some Allowed"
  shows "\<exists>t l. (t, k, l) \<in> set h \<and> l \<noteq> Denied \<and> still_fresh (am_session m) t now"
proof -
  obtain e where e: "as_cache (am_session m) k = Some e"
    "now - entry_created_at e \<le> timeout_nanos (as_timeout_secs (am_session m))"
    "decision_level (entry_decision e) = Allowed"
    using assms(2) by (auto simp: look_level_def split: option.splits if_splits)
  then have "entry_decision e = CDApproved" by (cases "entry_decision e") auto
  moreover obtain l where "(entry_created_at e, k, l) \<in> set h"
    "entry_decision e = CDApproved \<longleftrightarrow> l \<noteq> Denied"
    using cache_invD [OF assms(1) e(1)] by blast
  ultimately show ?thesis using e(2) unfolding still_fresh_def by blast
qed

text \<open>C1: no operation is approved without a reason.  In every state a running manager
  can reach, if a request is approved then an unexpired matching rule or the
  configured default says so outright, or the user has just answered this very
  request with something other than Denied, or the user gave such an answer for the
  same operation and session no longer ago than the session timeout.\<close>

theorem approval_justified:
  assumes "mreach ops (m, h)"
    and "fst (request_approval t0 t1 u op ctx m) = Inr l"
  shows "(\<exists>r. find_match t0 (am_rules m) op = Some r \<and> rule_permission r = Allowed)
    \<or> default_level (am_config m) = Allowed
    \<or> (l \<noteq> Denied \<and> answers_of t0 t1 u op ctx m = [(t1, cache_key_of (am_session m) op ctx, l)])
    \<or> (\<exists>t a. (t, cache_key_of (am_session m) op ctx, a) \<in> set h \<and> a \<noteq> Denied
          \<and> t0 - t \<le> timeout_nanos (as_timeout_secs (am_session m)))"
proof -
  have "fst (check_permission t0 op ctx m) = VAllowed \<Longrightarrow>
    look_level t0 (am_session m) (cache_key_of (am_session m) op ctx) = Some Allowed
    \<or> (\<exists>r. find_match t0 (am_rules m) op = Some r \<and> rule_permission r = Allowed)
    \<or> default_level (am_config m) = Allowed"
    by (auto simp: check_permission_verdict verdict_cases split: option.splits if_splits)
  then show ?thesis
    using request_approval_Inr [OF assms(2)]
      cached_allowed_answer [OF mreach_cache_inv [OF assms(1)]]
    unfolding still_fresh_def by blast
qed

definition demo_manager :: "unit approval_manager" where
  "demo_manager = with_interaction (\<lambda>_. Inr AskOnce)
     (manager_new () (default_approval_config \<lparr> ac_default_level := ''ask_once'' \<rparr>))"

definition demo_op :: operation_type where
  "demo_op = op_command_with_args ''git'' ''git push''"

definition demo_after :: "unit approval_manager" where
  "demo_after = snd (request_approval 0 1 7 demo_op context_new demo_manager)"

lemma demo_levels [simp]: "level_from_str ''ask_once'' = Inr AskOnce"
  using level_from_str_display [of AskOnce] by simp

lemma demo_check: "check_permission 0 demo_op context_new demo_manager
    = (VNeedsConfirmation AskOnce, demo_manager)"
  by (simp add: check_permission_def demo_manager_def manager_new_def with_interaction_def session_new_def
      check_cache_def find_match_def default_level_def default_verdict_def Let_def)

lemma demo_after_eq: "demo_after =
    demo_manager \<lparr> am_session := cache_decision 1 demo_op context_new True (am_session demo_manager) \<rparr>"
  by (simp add: demo_after_def request_approval_def demo_check)
    (simp add: demo_manager_def with_interaction_def)

lemma demo_answers: "answers_of 0 1 7 demo_op context_new demo_manager
    = [(1, cache_key_of (am_session demo_manager) demo_op context_new, AskOnce)]"
  by (simp add: answers_of_def demo_check) (simp add: demo_manager_def with_interaction_def)

lemma demo_reach: "mreach ops (demo_after, [(1, cache_key_of (am_session demo_manager) demo_op context_new, AskOnce)])"
proof -
  have "mreach ops (demo_manager, [])"
    by (rule mreach_start) (simp add: demo_manager_def with_interaction_def manager_new_def
        default_approval_config_def)
  then show ?thesis
    using step_request [of ops demo_manager "[]" 0 1 7 demo_op context_new]
    by (auto simp: demo_after_def demo_answers intro: mreach_step)
qed

lemma demo_second: "fst (request_approval 2 3 8 demo_op context_new demo_after) = Inr Allowed"
  by (simp add: request_approval_def check_permission_def demo_after_eq check_cache_def cache_decision_def
      cache_key_of_def Let_def demo_manager_def with_interaction_def manager_new_def session_new_def
      default_approval_config_def timeout_nanos_def)

theorem approval_justified_witness:
  "(\<exists>r. find_match 2 (am_rules demo_after) demo_op = Some r \<and> rule_permission r = Allowed)
    \<or> default_level (am_config demo_after) = Allowed
    \<or> (Allowed \<noteq> Denied \<and> answers_of 2 3 8 demo_op context_new demo_after
          = [(3, cache_key_of (am_session demo_after) demo_op context_new, Allowed)])
    \<or> (\<exists>t a. (t, cache_key_of (am_session demo_after) demo_op context_new, a)
          \<in> set [(1, cache_key_of (am_session demo_manager) demo_op context_new, AskOnce)] \<and> a \<noteq> Denied
          \<and> 2 - t \<le> timeout_nanos (as_timeout_secs (am_session demo_after)))"
  by (rule approval_justified [OF demo_reach demo_second])

section \<open>Ask once, ask always\<close>

lemma request_answered:
  assumes "fst (check_permission t0 op ctx m) = VNeedsConfirmation s" "am_interaction m = Some confirm"
    "confirm (approval_prompt t0 u op s) = Inr l"
  shows "request_approval t0 t1 u op ctx m =
    (if l = Denied then Inl (PermissionDenied ''user denied operation'') else Inr l,
     (let m1 = snd (check_permission t0 op ctx m) in
      if s = AskOnce then m1 \<lparr> am_session := cache_decision t1 op ctx (l \<noteq> Denied) (am_session m1) \<rparr> else m1))"
proof (cases "check_permission t0 op ctx m")
  case (Pair v m1)
  then have "am_interaction m1 = am_interaction m"
    using check_permission_state [of t0 op ctx m] by simp
  with Pair assms show ?thesis by (simp add: request_approval_def Let_def)
qed

text \<open>Ask-once means once.  When a request that needed an ask-once confirmation was
  answered at time t1, every later check of the same operation in the same context
  repeats the answer without asking, allowed or denied, until the session timeout
  has passed.\<close>

theorem ask_once_remembered:
  assumes "fst (check_permission t0 op ctx m) = VNeedsConfirmation AskOnce"
    and "am_interaction m = Some confirm"
    and "confirm (approval_prompt t0 u op AskOnce) = Inr l"
    and "t - t1 \<le> timeout_nanos (as_timeout_secs (am_session m))"
  shows "fst (check_permission t op ctx (snd (request_approval t0 t1 u op ctx m)))
    = (if l = Denied then VDenied ''Previously denied in this session'' else VAllowed)"
proof -
  have "snd (request_approval t0 t1 u op ctx m) = (let m1 = snd (check_permission t0 op ctx m) in
      m1 \<lparr> am_session := cache_decision t1 op ctx (l \<noteq> Denied) (am_session m1) \<rparr>)"
    using request_answered [OF assms(1-3)] by simp
  then show ?thesis
    using assms(4)
    by (auto simp: check_permission_verdict check_permission_state look_level_cache_decision
        still_fresh_def Let_def)
qed

theorem ask_once_remembered_witness:
  "fst (check_permission 5 demo_op context_new (snd (request_approval 0 1 7 demo_op context_new demo_manager)))
    = (if AskOnce = Denied then VDenied ''Previously denied in this session'' else VAllowed)"
  by (rule ask_once_remembered [where confirm = "\<lambda>_. Inr AskOnce"])
    (simp_all add: demo_check, simp_all add: demo_manager_def with_interaction_def manager_new_def
      session_new_def default_approval_config_def timeout_nanos_def)

text \<open>An ask-always confirmation is never remembered: whatever the user answers, no
  cache entry appears, so the same question is asked again.\<close>

theorem ask_always_not_cached:
  assumes "fst (check_permission t0 op ctx m) = VNeedsConfirmation AskAlways"
  shows "as_cache (am_session (snd (request_approval t0 t1 u op ctx m))) k
    \<in> {None, as_cache (am_session m) k}"
proof (cases "check_permission t0 op ctx m")
  case (Pair v m1)
  then have "am_session m1 = snd (check_cache t0 op ctx (am_session m))"
    using check_permission_state [of t0 op ctx m] by simp
  then have sub: "as_cache (am_session m1) k \<in> {None, as_cache (am_session m) k}"
    using check_cache_submap [of t0 op ctx "am_session m" k] by simp
  from Pair assms have "snd (request_approval t0 t1 u op ctx m) = m1"
    by (auto simp: request_approval_def Let_def split: option.splits sum.splits)
  with sub show ?thesis by simp
qed

theorem ask_always_not_cached_witness:
  "as_cache (am_session (snd (request_approval 0 1 7 demo_op context_new
      (with_interaction (\<lambda>_. Inr Allowed) (manager_new () default_approval_config))))) \<lparr> key_operation = demo_op, key_session_id = None \<rparr>
    \<in> {None, as_cache (am_session (with_interaction (\<lambda>_. Inr Allowed)
         (manager_new () default_approval_config))) \<lparr> key_operation = demo_op, key_session_id = None \<rparr>}"
  by (rule ask_always_not_cached)
    (simp add: check_permission_def manager_new_def with_interaction_def session_new_def default_approval_config_def
      check_cache_def find_match_def default_level_def default_verdict_def Let_def
      level_from_str_display [of AskAlways, simplified])

section \<open>Store and engine agree\<close>

text \<open>A container of rules: what a client of the engine relies on.\<close>

locale rule_container =
  fixes contents :: "'c \<Rightarrow> approval_rule list"
    and insert :: "approval_rule \<Rightarrow> 'c \<Rightarrow> 'c"
    and delete :: "uuid \<Rightarrow> 'c \<Rightarrow> 'c"
  assumes contents_insert: "contents (insert r c) = contents c @ [r]"
    and contents_delete: "contents (delete i c) = filter (\<lambda>r. rule_id r \<noteq> i) (contents c)"
begin

lemma delete_insert_fresh:
  "rule_id r \<notin> rule_id ` set (contents c) \<Longrightarrow> contents (delete (rule_id r) (insert r c)) = contents c"
  by (simp add: contents_insert contents_delete filter_id_conv) (metis image_eqI)

lemma live_insert: "live_rules t (contents (insert r c)) = live_rules t (contents c) @ live_rules t [r]"
  by (simp add: contents_insert)

lemma live_delete:
  "live_rules t (contents (delete i c)) = filter (\<lambda>r. rule_id r \<noteq> i) (live_rules t (contents c))"
  by (simp add: contents_delete live_rules_filter)

lemma deleted_gone: "r \<in> set (contents (delete i c)) \<Longrightarrow> rule_id r \<noteq> i"
  by (simp add: contents_delete)

end

interpretation engine: rule_container "\<lambda>e. e" engine_add_rule engine_remove_rule
  by unfold_locales (simp_all add: engine_add_rule_def engine_remove_rule_def)

text \<open>The file and the engine hold the same unexpired rules.\<close>

definition coherent ::
  "(string \<Rightarrow> string + approval_rule list) \<Rightarrow> io_env \<Rightarrow> json_file approval_manager \<Rightarrow> bool" where
  "coherent de io m = (load_rules de io (am_store m) = Inr (live_rules (io_now io) (am_rules m)))"

lemma manager_initialize_coherent:
  assumes "fst (manager_initialize (json_store ser de) io m) = Inr ()"
  shows "coherent de io (snd (manager_initialize (json_store ser de) io m))"
proof -
  obtain rs where rs: "load_rules de io (am_store m) = Inr rs"
    using assms by (auto simp: manager_initialize_def json_store_def split: sum.splits)
  then have "live_rules (io_now io) rs = rs"
    by (auto simp: load_rules_def live_rules_def split: option.splits if_splits sum.splits)
  with rs show ?thesis
    by (simp add: coherent_def manager_initialize_def json_store_def set_rules_def)
qed

text \<open>Adding and revoking rules keeps the rules file and the rules in memory in step.
  If file calls succeed and serde_json round-trips the list being written, both calls
  succeed, and afterwards, at any later time, reloading the file gives exactly the
  unexpired rules the engine uses, with the added rule last and every rule of the
  revoked identifier gone from both.\<close>

theorem store_engine_in_step:
  assumes "coherent de io m" "io_ok io" "io_now io \<le> io_now io'" "io_read_error io' = None"
    and "codec_roundtrips ser de (live_rules (io_now io) (am_rules m) @ [r])"
    and "codec_roundtrips ser de (filter (\<lambda>q. rule_id q \<noteq> i) (live_rules (io_now io) (am_rules m)))"
  shows "fst (manager_add_rule (json_store ser de) io r m) = Inr ()
      \<and> coherent de io' (snd (manager_add_rule (json_store ser de) io r m))
      \<and> am_rules (snd (manager_add_rule (json_store ser de) io r m)) = am_rules m @ [r]
      \<and> fst (manager_revoke_rule (json_store ser de) io i m) = Inr ()
      \<and> coherent de io' (snd (manager_revoke_rule (json_store ser de) io i m))
      \<and> i \<notin> rule_id ` set (am_rules (snd (manager_revoke_rule (json_store ser de) io i m)))"
proof -
  let ?old = "live_rules (io_now io) (am_rules m)"
  have load: "load_rules de io (am_store m) = Inr ?old" using assms(1) by (simp add: coherent_def)
  have add: "store_add_rule ser de io r (am_store m) = save_rules ser io (?old @ [r]) (am_store m)"
    by (simp add: store_add_rule_def load)
  have rem: "store_remove_rule ser de io i (am_store m)
      = save_rules ser io (filter (\<lambda>q. rule_id q \<noteq> i) ?old) (am_store m)"
    by (simp add: store_remove_rule_def load)
  note ok1 = save_rules_ok [OF assms(5,2), where f = "am_store m"]
  note ok2 = save_rules_ok [OF assms(6,2), where f = "am_store m"]
  have live2: "live_rules (io_now io') (filter (\<lambda>q. rule_id q \<noteq> i) ?old)
      = live_rules (io_now io') (filter (\<lambda>q. rule_id q \<noteq> i) (am_rules m))"
    by (simp add: live_rules_filter live_rules_mono assms(3))
  show ?thesis
    using ok1(1) ok1(2) [OF assms(4)] ok2(1) ok2(2) [OF assms(4)]
    by (auto simp: manager_add_rule_def manager_revoke_rule_def json_store_def add rem coherent_def
        engine_add_rule_def engine_remove_rule_def live2
        live_rules_mono [OF assms(3)] split: prod.splits sum.splits)
qed

definition demo_io :: "time \<Rightarrow> io_env" where
  "demo_io t = \<lparr> io_now = t, io_mkdir_error = None, io_read_error = None, io_write_error = None \<rparr>"

definition demo_rule :: approval_rule where
  "demo_rule = rule_new 1 0 (op_command ''ls'') Allowed"

definition demo_file_manager :: "json_file approval_manager" where
  "demo_file_manager = manager_new \<lparr> jf_content = None, jf_parent_exists = True \<rparr> default_approval_config"

theorem store_engine_in_step_witness:
  "fst (manager_add_rule (json_store (\<lambda>rs. Inr (if rs = [] then ''e'' else ''o''))
        (\<lambda>c. Inr (if c = ''e'' then [] else [demo_rule]))) (demo_io 0) demo_rule demo_file_manager) = Inr ()
      \<and> coherent (\<lambda>c. Inr (if c = ''e'' then [] else [demo_rule])) (demo_io 1)
          (snd (manager_add_rule (json_store (\<lambda>rs. Inr (if rs = [] then ''e'' else ''o''))
        (\<lambda>c. Inr (if c = ''e'' then [] else [demo_rule]))) (demo_io 0) demo_rule demo_file_manager))
      \<and> am_rules (snd (manager_add_rule (json_store (\<lambda>rs. Inr (if rs = [] then ''e'' else ''o''))
        (\<lambda>c. Inr (if c = ''e'' then [] else [demo_rule]))) (demo_io 0) demo_rule demo_file_manager))
          = am_rules demo_file_manager @ [demo_rule]
      \<and> fst (manager_revoke_rule (json_store (\<lambda>rs. Inr (if rs = [] then ''e'' else ''o''))
        (\<lambda>c. Inr (if c = ''e'' then [] else [demo_rule]))) (demo_io 0) 1 demo_file_manager) = Inr ()
      \<and> coherent (\<lambda>c. Inr (if c = ''e'' then [] else [demo_rule])) (demo_io 1)
          (snd (manager_revoke_rule (json_store (\<lambda>rs. Inr (if rs = [] then ''e'' else ''o''))
        (\<lambda>c. Inr (if c = ''e'' then [] else [demo_rule]))) (demo_io 0) 1 demo_file_manager))
      \<and> 1 \<notin> rule_id ` set (am_rules (snd (manager_revoke_rule
          (json_store (\<lambda>rs. Inr (if rs = [] then ''e'' else ''o''))
        (\<lambda>c. Inr (if c = ''e'' then [] else [demo_rule]))) (demo_io 0) 1 demo_file_manager)))"
  by (rule store_engine_in_step)
    (simp_all add: coherent_def demo_file_manager_def manager_new_def load_rules_def live_rules_def
      demo_io_def io_ok_def codec_roundtrips_def trim_def trim_start_def trim_end_def is_ws_def)

section \<open>What a rule's operation constrains\<close>

text \<open>A command rule that names arguments applies only to command operations that
  carry arguments, whose binary and argument string match its patterns; a rule without
  arguments constrains the binary only.\<close>

theorem command_rule_applies:
  "rule_matches (Command b args) op \<longleftrightarrow>
     (\<exists>b' args'. op = Command b' args' \<and> pattern_matches b b'
        \<and> (case args of None \<Rightarrow> True | Some p \<Rightarrow> \<exists>q. args' = Some q \<and> pattern_matches p q))"
  by (cases op) (auto split: option.splits)

definition strip_conditions :: "approval_rule \<Rightarrow> approval_rule" where
  "strip_conditions r = r \<lparr> rule_conditions := [],
     rule_operation := (case rule_operation r of Network h _ \<Rightarrow> Network h None | p \<Rightarrow> p) \<rparr>"

lemma strip_matches: "rule_matches (rule_operation (strip_conditions r)) op = rule_matches (rule_operation r) op"
  by (cases "rule_operation r"; cases op) (auto simp: strip_conditions_def)

lemma strip_expired: "is_expired t (strip_conditions r) = is_expired t r"
  by (simp add: is_expired_def strip_conditions_def)

lemma strip_find_match:
  "find_match t (map strip_conditions e) op = map_option strip_conditions (find_match t e op)"
  by (induction e) (simp_all add: find_match_find strip_matches strip_expired)

lemma strip_verdict: "rule_verdict (strip_conditions r) = rule_verdict r"
  by (cases "rule_permission r") (simp_all add: rule_verdict_def strip_conditions_def)

text \<open>The conditions attached to a rule are never consulted.  Stripping the conditions
  from every rule, and the port from every network operation of a rule, changes no
  verdict of the manager.\<close>

theorem rule_conditions_ignored:
  "fst (check_permission t op ctx (m \<lparr> am_rules := map strip_conditions (am_rules m) \<rparr>))
    = fst (check_permission t op ctx m)"
  by (auto simp: check_permission_verdict strip_find_match strip_verdict split: option.splits)

end
