(* ===== verification/Sandbox_Exec.thy ===== *)
theory Sandbox_Exec
  imports Sandbox_Backend Approval_Manager
begin

text \<open>
  The process manager (sandbox/src/executor/process.rs) and the audit log
  (sandbox/src/audit/).  A command passes the policy, the approval manager, the
  audit log and the backend, in this order; the state that can change is the
  approval manager and the audit log.  The log is its file, the rotated file and
  the tracked size; serde_json's event printer is the parameter \<open>ser\<close>, and the
  faults of one write say which file call fails.
\<close>

section \<open>Audit events\<close>

datatype audit_event_type =
    CommandStart string string
  | CommandEnd string "32 word option" u64 bool
  | PermissionGrantedEv string string
  | PermissionDeniedEv string string
  | RuleAddedEv uuid string string
  | RuleRemovedEv uuid
  | BackendChanged string string
  | SecurityEvent string string string
  | ConfigChanged string "string option" "string option"

record audit_event =
  ev_id :: uuid
  ev_timestamp :: time
  ev_type :: audit_event_type
  ev_session_id :: "uuid option"
  ev_user :: "string option"
  ev_agent_id :: "string option"
  ev_metadata :: "string \<rightharpoonup> string"

definition event_new :: "uuid \<Rightarrow> time \<Rightarrow> audit_event_type \<Rightarrow> audit_event" where
  "event_new u now t = \<lparr> ev_id = u, ev_timestamp = now, ev_type = t, ev_session_id = None,
     ev_user = None, ev_agent_id = None, ev_metadata = Map.empty \<rparr>"

definition event_with_session_id :: "uuid \<Rightarrow> audit_event \<Rightarrow> audit_event" where
  "event_with_session_id i e = e \<lparr> ev_session_id := Some i \<rparr>"

definition event_with_user :: "string \<Rightarrow> audit_event \<Rightarrow> audit_event" where
  "event_with_user s e = e \<lparr> ev_user := Some s \<rparr>"

definition event_with_agent_id :: "string \<Rightarrow> audit_event \<Rightarrow> audit_event" where
  "event_with_agent_id s e = e \<lparr> ev_agent_id := Some s \<rparr>"

definition event_with_metadata :: "string \<Rightarrow> string \<Rightarrow> audit_event \<Rightarrow> audit_event" where
  "event_with_metadata k v e = e \<lparr> ev_metadata := (ev_metadata e)(k \<mapsto> v) \<rparr>"

definition maybe_session :: "uuid option \<Rightarrow> audit_event \<Rightarrow> audit_event" where
  "maybe_session sid e = (case sid of Some i \<Rightarrow> event_with_session_id i e | None \<Rightarrow> e)"

section \<open>Audit log\<close>

record audit_log =
  al_file :: "string option"
  al_old :: "string option"
  al_parent_exists :: bool
  al_max_size_bytes :: u64
  al_enabled :: bool
  al_writer_open :: bool
  al_current_size :: u64

record log_faults =
  lf_mkdir :: "string option"
  lf_metadata :: bool
  lf_rename :: "string option"
  lf_open :: "string option"
  lf_write :: "(nat \<times> string) option"
  lf_flush :: "string option"

definition no_faults :: log_faults where
  "no_faults = \<lparr> lf_mkdir = None, lf_metadata = False, lf_rename = None, lf_open = None,
     lf_write = None, lf_flush = None \<rparr>"

text \<open>\<open>file\<close>, \<open>old\<close>, \<open>parent\<close>: what is on disk already when the log object is made.\<close>

definition audit_new :: "string option \<Rightarrow> string option \<Rightarrow> bool \<Rightarrow> audit_config \<Rightarrow> audit_log" where
  "audit_new file old parent cfg = \<lparr> al_file = file, al_old = old, al_parent_exists = parent,
     al_max_size_bytes = au_max_size_mb cfg * 1024 * 1024, al_enabled = au_enabled cfg,
     al_writer_open = False, al_current_size = 0 \<rparr>"

definition audit_with_path :: "string option \<Rightarrow> string option \<Rightarrow> bool \<Rightarrow> audit_log" where
  "audit_with_path file old parent = \<lparr> al_file = file, al_old = old, al_parent_exists = parent,
     al_max_size_bytes = 100 * 1024 * 1024, al_enabled = True,
     al_writer_open = False, al_current_size = 0 \<rparr>"

definition audit_initialize :: "log_faults \<Rightarrow> audit_log \<Rightarrow> (sandbox_error + unit) \<times> audit_log" where
  "audit_initialize io l =
     (let made = (if al_parent_exists l then Inr l
                  else case lf_mkdir io of
                         Some e \<Rightarrow> Inl (AuditError (''Failed to create log directory: '' @ e))
                       | None \<Rightarrow> Inr (l \<lparr> al_parent_exists := True \<rparr>)) in
      case made of
        Inl e \<Rightarrow> (Inl e, l)
      | Inr l1 \<Rightarrow>
          let size = (case al_file l1 of
                        None \<Rightarrow> 0
                      | Some c \<Rightarrow> if lf_metadata io then 0 else of_nat (length c))
          in (Inr (), l1 \<lparr> al_current_size := size \<rparr>))"

definition rotate_log :: "log_faults \<Rightarrow> audit_log \<Rightarrow> (sandbox_error + unit) \<times> audit_log" where
  "rotate_log io l =
     (case al_file l of
        None \<Rightarrow> (Inr (), l)
      | Some c \<Rightarrow>
          (case lf_rename io of
             Some e \<Rightarrow> (Inl (AuditError (''Failed to rotate log: '' @ e)), l)
           | None \<Rightarrow> (Inr (), l \<lparr> al_file := None, al_old := Some c \<rparr>)))"

text \<open>Open (creating), append, flush; a failed write may leave a part of the line.\<close>

definition open_writer :: "log_faults \<Rightarrow> audit_log \<Rightarrow> (sandbox_error + unit) \<times> audit_log" where
  "open_writer io l =
     (if al_writer_open l then (Inr (), l)
      else case lf_open io of
             Some e \<Rightarrow> (Inl (AuditError (''Failed to open log file: '' @ e)), l)
           | None \<Rightarrow> (Inr (), l \<lparr> al_writer_open := True,
               al_file := Some (case al_file l of Some c \<Rightarrow> c | None \<Rightarrow> []) \<rparr>))"

definition append_line :: "log_faults \<Rightarrow> string \<Rightarrow> audit_log \<Rightarrow> (sandbox_error + unit) \<times> audit_log" where
  "append_line io line l =
     (let put = (\<lambda>s. l \<lparr> al_file := Some (the (al_file l) @ s) \<rparr>) in
      case lf_write io of
        Some (n, e) \<Rightarrow> (Inl (AuditError (''Failed to write to log: '' @ e)), put (take n line))
      | None \<Rightarrow>
          (case lf_flush io of
             Some e \<Rightarrow> (Inl (AuditError (''Failed to flush log: '' @ e)), put line)
           | None \<Rightarrow> (Inr (), (put line) \<lparr> al_current_size := al_current_size l + of_nat (length line) \<rparr>)))"

definition audit_write ::
  "(audit_event \<Rightarrow> string + string) \<Rightarrow> log_faults \<Rightarrow> audit_event \<Rightarrow> audit_log
   \<Rightarrow> (sandbox_error + unit) \<times> audit_log" where
  "audit_write ser io ev l =
     (if \<not> al_enabled l then (Inr (), l)
      else case ser ev of
        Inl e \<Rightarrow> (Inl (AuditError (''Failed to serialize event: '' @ e)), l)
      | Inr text \<Rightarrow>
          (let line = text @ [NL];
               rotated = (if al_current_size l + of_nat (length line) > al_max_size_bytes l
                          then (case rotate_log io (l \<lparr> al_writer_open := False \<rparr>) of
                                  (Inl e, l1) \<Rightarrow> (Inl e, l1)
                                | (Inr _, l1) \<Rightarrow> (Inr (), l1 \<lparr> al_current_size := 0 \<rparr>))
                          else (Inr (), l)) in
           case rotated of
             (Inl e, l1) \<Rightarrow> (Inl e, l1)
           | (Inr _, l1) \<Rightarrow>
               (case open_writer io l1 of
                  (Inl e, l2) \<Rightarrow> (Inl e, l2)
                | (Inr _, l2) \<Rightarrow> append_line io line l2)))"

definition log_command where
  "log_command ser io u now command wd sid l =
     audit_write ser io (maybe_session sid (event_new u now (CommandStart command wd))) l"

definition log_command_end where
  "log_command_end ser io u now command code ms timed_out sid l =
     audit_write ser io (maybe_session sid (event_new u now (CommandEnd command code ms timed_out))) l"

definition log_permission where
  "log_permission ser io u now operation granted reason sid l =
     audit_write ser io (maybe_session sid (event_new u now
       (if granted then PermissionGrantedEv operation ''allowed''
        else PermissionDeniedEv operation (case reason of Some r \<Rightarrow> r | None \<Rightarrow> ''Unknown'')))) l"

definition log_security where
  "log_security ser io u now category description severity l =
     audit_write ser io (event_new u now (SecurityEvent category description severity)) l"

section \<open>Process manager\<close>

record 's process_manager =
  pm_config :: sandbox_config
  pm_policy :: command_policy
  pm_backend :: backend
  pm_timeout_secs :: u64
  pm_approval :: "'s approval_manager option"
  pm_audit :: "audit_log option"

definition process_manager_new ::
  "platform \<Rightarrow> string option \<Rightarrow> sandbox_config \<Rightarrow> sandbox_error + 's process_manager" where
  "process_manager_new pf bw cfg =
     bind_res (create_backend pf bw cfg) (\<lambda>b. Inr \<lparr> pm_config = cfg,
       pm_policy = policy_from_config (sc_policy cfg), pm_backend = b, pm_timeout_secs = 120,
       pm_approval = None, pm_audit = None \<rparr>)"

definition with_timeout :: "u64 \<Rightarrow> 's process_manager \<Rightarrow> 's process_manager" where
  "with_timeout t pm = pm \<lparr> pm_timeout_secs := t \<rparr>"

definition with_approval :: "'s approval_manager \<Rightarrow> 's process_manager \<Rightarrow> 's process_manager" where
  "with_approval a pm = pm \<lparr> pm_approval := Some a \<rparr>"

definition with_audit :: "audit_log \<Rightarrow> 's process_manager \<Rightarrow> 's process_manager" where
  "with_audit a pm = pm \<lparr> pm_audit := Some a \<rparr>"

text \<open>What one execution reads from outside: the clock at each point, identifiers, the faults
  of the two audit writes, and the measured duration.\<close>

record exec_env =
  ee_check :: time
  ee_answer :: time
  ee_request_id :: uuid
  ee_start :: "uuid \<times> time"
  ee_end :: "uuid \<times> time"
  ee_faults_start :: log_faults
  ee_faults_end :: log_faults
  ee_duration_ms :: u64

definition approve_command ::
  "exec_env \<Rightarrow> string \<Rightarrow> string \<Rightarrow> 's process_manager
   \<Rightarrow> (sandbox_error + unit) \<times> 's process_manager" where
  "approve_command env command wd pm =
     (case pm_approval pm of
        None \<Rightarrow> (Inr (), pm)
      | Some a \<Rightarrow>
          (case request_approval (ee_check env) (ee_answer env) (ee_request_id env)
                  (op_command_with_args (first_token command) command)
                  (with_working_dir wd context_new) a of
             (Inl e, a1) \<Rightarrow> (Inl e, pm \<lparr> pm_approval := Some a1 \<rparr>)
           | (Inr level, a1) \<Rightarrow>
               if level = Denied
               then (Inl (PermissionDenied ''operation denied by approval system''), pm \<lparr> pm_approval := Some a1 \<rparr>)
               else (Inr (), pm \<lparr> pm_approval := Some a1 \<rparr>)))"

definition audit_step :: "(audit_log \<Rightarrow> (sandbox_error + unit) \<times> audit_log) \<Rightarrow> 's process_manager \<Rightarrow> 's process_manager" where
  "audit_step w pm = (case pm_audit pm of None \<Rightarrow> pm
     | Some l \<Rightarrow> pm \<lparr> pm_audit := Some (snd (w l)) \<rparr>)"

definition execute_inner ::
  "(audit_event \<Rightarrow> string + string) \<Rightarrow> platform \<Rightarrow> os \<Rightarrow> exec_env \<Rightarrow> string \<Rightarrow> string \<Rightarrow> u64
   \<Rightarrow> 's process_manager \<Rightarrow> (sandbox_error + execution_result) \<times> 's process_manager" where
  "execute_inner ser pf os env command wd secs pm =
     (case policy_check (pm_policy pm) command of
        Deny reason \<Rightarrow> (Inl (PolicyDenied reason), pm)
      | Allow \<Rightarrow>
          (case approve_command env command wd pm of
             (Inl e, pm1) \<Rightarrow> (Inl e, pm1)
           | (Inr _, pm1) \<Rightarrow>
               (let pm2 = audit_step (log_command ser (ee_faults_start env) (fst (ee_start env))
                            (snd (ee_start env)) command wd None) pm1 in
                case backend_execute pf os (pm_backend pm2) command wd (pm_config pm2) secs of
                  Inl e \<Rightarrow> (Inl e, pm2)
                | Inr r \<Rightarrow>
                    (let r1 = r \<lparr> er_duration_ms := ee_duration_ms env \<rparr>;
                         pm3 = audit_step (log_command_end ser (ee_faults_end env) (fst (ee_end env))
                            (snd (ee_end env)) command (er_exit_code r1) (er_duration_ms r1)
                            (er_timed_out r1) None) pm2
                     in (Inr r1, pm3)))))"

definition execute where
  "execute ser pf os env command wd pm =
     execute_inner ser pf os env command wd (pm_timeout_secs pm) pm"

definition is_sandboxed :: "'s process_manager \<Rightarrow> bool" where
  "is_sandboxed pm = (sc_enabled (pm_config pm) \<and> backend_isolation (pm_backend pm) \<noteq> NoIsolation)"

section \<open>Execution is gated\<close>

lemma approve_command_Inr:
  assumes "fst (approve_command env command wd pm) = Inr ()" "pm_approval pm = Some a"
  shows "\<exists>level. fst (request_approval (ee_check env) (ee_answer env) (ee_request_id env)
    (op_command_with_args (first_token command) command) (with_working_dir wd context_new) a)
      = Inr level"
  using assms by (auto simp: approve_command_def split: prod.splits sum.splits)

lemma execute_inner_Deny:
  "policy_check (pm_policy pm) command = Deny r \<Longrightarrow>
     execute_inner ser pf os env command wd secs pm = (Inl (PolicyDenied r), pm)"
  by (simp add: execute_inner_def)

lemma execute_inner_refused:
  "policy_check (pm_policy pm) command = Allow \<Longrightarrow> approve_command env command wd pm = (Inl e, pm1) \<Longrightarrow>
     execute_inner ser pf os env command wd secs pm = (Inl e, pm1)"
  by (simp add: execute_inner_def)

text \<open>C2: nothing runs without passing the gates.  If the operating system can make any
  difference to the result of an execution, that is, if any command was handed to it,
  then the policy allows the command and, when an approval manager is attached, it has
  approved the operation "this binary with exactly this command line".\<close>

theorem execution_gated:
  assumes "execute_inner ser pf os1 env command wd secs pm \<noteq> execute_inner ser pf os2 env command wd secs pm"
  shows "policy_check (pm_policy pm) command = Allow
    \<and> (case pm_approval pm of None \<Rightarrow> True
       | Some a \<Rightarrow> \<exists>level. fst (request_approval (ee_check env) (ee_answer env) (ee_request_id env)
            (Command (first_token command) (Some command)) (with_working_dir wd context_new) a)
            = Inr level)"
proof (intro conjI)
  show allow: "policy_check (pm_policy pm) command = Allow"
    using assms by (cases "policy_check (pm_policy pm) command") (simp_all add: execute_inner_Deny)
  have "is_ok (fst (approve_command env command wd pm))"
    using assms allow
    by (cases "approve_command env command wd pm"; cases "fst (approve_command env command wd pm)")
      (simp_all add: execute_inner_refused)
  then have "fst (approve_command env command wd pm) = Inr ()"
    by (cases "fst (approve_command env command wd pm)") simp_all
  then show "case pm_approval pm of None \<Rightarrow> True
    | Some a \<Rightarrow> \<exists>level. fst (request_approval (ee_check env) (ee_answer env) (ee_request_id env)
        (Command (first_token command) (Some command)) (with_working_dir wd context_new) a) = Inr level"
    by (auto simp: op_command_with_args_def dest: approve_command_Inr split: option.split)
qed

definition demo_os :: "proc_outcome \<Rightarrow> os" where
  "demo_os oc = \<lparr> os_run = (\<lambda>_ _. oc), os_exists = (\<lambda>_. True), os_is_dir = (\<lambda>_. True),
     os_canonicalize = Some, os_components = (\<lambda>p. [p]) \<rparr>"

definition demo_exec_env :: exec_env where
  "demo_exec_env = \<lparr> ee_check = 0, ee_answer = 1, ee_request_id = 7, ee_start = (8, 2), ee_end = (9, 3),
     ee_faults_start = no_faults, ee_faults_end = no_faults, ee_duration_ms = 5 \<rparr>"

definition demo_pm :: "unit process_manager" where
  "demo_pm = \<lparr> pm_config = default_sandbox_config, pm_policy = \<lparr> allowlist = [], denylist = [] \<rparr>,
     pm_backend = FallbackBackend, pm_timeout_secs = 120,
     pm_approval = Some demo_manager, pm_audit = None \<rparr>"

lemma demo_pm_run:
  "execute_inner ser Linux (demo_os oc) demo_exec_env ''ls'' ''/'' 9 demo_pm =
    (case report_outcome FallbackBackend default_limits 9 oc of
       Inl e \<Rightarrow> Inl e | Inr r \<Rightarrow> Inr (r \<lparr> er_duration_ms := 5 \<rparr>),
     demo_pm \<lparr> pm_approval := Some (snd (request_approval 0 1 7 (Command ''ls'' (Some ''ls''))
        (with_working_dir ''/'' context_new) demo_manager)) \<rparr>)"
proof -
  have chk: "check_permission 0 (Command ''ls'' (Some ''ls'')) (with_working_dir ''/'' context_new) demo_manager
      = (VNeedsConfirmation AskOnce, demo_manager)"
    by (simp add: check_permission_def demo_manager_def manager_new_def with_interaction_def session_new_def
        check_cache_def find_match_def default_level_def default_verdict_def Let_def)
  have req: "fst (request_approval 0 1 7 (Command ''ls'' (Some ''ls''))
        (with_working_dir ''/'' context_new) demo_manager) = Inr AskOnce"
    by (simp add: request_approval_def chk) (simp add: demo_manager_def with_interaction_def Let_def)
  have tok: "first_token ''ls'' = ''ls''"
    by (simp add: first_token_def trim_start_def is_ws_def)
  obtain a1 where a1: "request_approval 0 1 7 (Command ''ls'' (Some ''ls''))
      (with_working_dir ''/'' context_new) demo_manager = (Inr AskOnce, a1)"
    using req by (metis prod.collapse)
  have pol: "policy_check (pm_policy demo_pm) ''ls'' = Allow"
    by (simp add: policy_check_def demo_pm_def)
  have fields: "pm_backend demo_pm = FallbackBackend" "pm_config demo_pm = default_sandbox_config"
    "pm_audit demo_pm = None" "ee_duration_ms demo_exec_env = 5"
    by (simp_all add: demo_pm_def demo_exec_env_def)
  have app: "approve_command demo_exec_env ''ls'' ''/'' demo_pm = (Inr (), demo_pm \<lparr> pm_approval := Some a1 \<rparr>)"
    by (simp add: approve_command_def demo_pm_def demo_exec_env_def op_command_with_args_def tok a1)
  have "execute_inner ser Linux (demo_os oc) demo_exec_env ''ls'' ''/'' 9 demo_pm =
      (case backend_execute Linux (demo_os oc) FallbackBackend ''ls'' ''/'' default_sandbox_config 9 of
         Inl e \<Rightarrow> Inl e | Inr r \<Rightarrow> Inr (r \<lparr> er_duration_ms := 5 \<rparr>), demo_pm \<lparr> pm_approval := Some a1 \<rparr>)"
    by (simp add: execute_inner_def pol app audit_step_def Let_def fields split: sum.split)
  also have "backend_execute Linux (demo_os oc) FallbackBackend ''ls'' ''/'' default_sandbox_config 9
      = report_outcome FallbackBackend default_limits 9 oc"
    by (simp add: backend_execute_def build_command_def demo_os_def default_sandbox_config_def)
  finally show ?thesis by (simp add: a1)
qed

theorem execution_gated_witness:
  "policy_check (pm_policy demo_pm) ''ls'' = Allow
    \<and> (case pm_approval demo_pm of None \<Rightarrow> True
       | Some a \<Rightarrow> \<exists>level. fst (request_approval (ee_check demo_exec_env) (ee_answer demo_exec_env)
            (ee_request_id demo_exec_env)
            (Command (first_token ''ls'') (Some ''ls'')) (with_working_dir ''/'' context_new) a)
            = Inr level)"
  by (rule execution_gated [where ser = "\<lambda>_. Inr ''e''" and pf = Linux and secs = 9
        and ?os1.0 = "demo_os (SpawnError ''a'')" and ?os2.0 = "demo_os StillRunning"])
    (simp add: demo_pm_run report_outcome_def)

section \<open>The audit log tracks its file\<close>

definition log_content :: "audit_log \<Rightarrow> string" where
  "log_content l = (case al_file l of None \<Rightarrow> [] | Some c \<Rightarrow> c)"

text \<open>The tracked size is the length of the file, and an open writer has a file.\<close>

definition log_tracked :: "audit_log \<Rightarrow> bool" where
  "log_tracked l = (unat (al_current_size l) = length (log_content l)
     \<and> (al_writer_open l \<longrightarrow> al_file l \<noteq> None))"

lemma audit_initialize_tracked:
  assumes "al_parent_exists l" "\<not> lf_metadata io" "\<not> al_writer_open l" "length (log_content l) < 2 ^ 64"
  shows "log_tracked (snd (audit_initialize io l))"
  using assms
  by (auto simp: audit_initialize_def log_tracked_def log_content_def unat_of_nat split: option.splits)

lemma add_no_wrap:
  fixes w :: u64
  assumes "unat w + n < 2 ^ 64"
  shows "unat (w + of_nat n) = unat w + n"
  using assms by (simp add: unat_word_ariths unat_of_nat)

lemma open_append:
  assumes "al_writer_open l \<longrightarrow> al_file l \<noteq> None"
  shows "fst (append_line no_faults line (snd (open_writer no_faults l))) = Inr ()"
    "al_file (snd (append_line no_faults line (snd (open_writer no_faults l)))) = Some (log_content l @ line)"
    "al_old (snd (append_line no_faults line (snd (open_writer no_faults l)))) = al_old l"
    "al_writer_open (snd (append_line no_faults line (snd (open_writer no_faults l))))"
    "al_current_size (snd (append_line no_faults line (snd (open_writer no_faults l))))
       = al_current_size l + of_nat (length line)"
    "fst (open_writer no_faults l) = Inr ()"
  using assms
  by (auto simp: open_writer_def append_line_def no_faults_def log_content_def Let_def split: option.splits)

definition rotated_log :: "audit_log \<Rightarrow> audit_log" where
  "rotated_log l = l \<lparr> al_file := None, al_old := (if al_file l = None then al_old l else al_file l),
     al_writer_open := False, al_current_size := 0 \<rparr>"

lemma rotate_log_ok: "rotate_log no_faults (l \<lparr> al_writer_open := False \<rparr>)
    = (Inr (), (rotated_log l) \<lparr> al_current_size := al_current_size l \<rparr>)"
  by (cases l) (auto simp: rotate_log_def no_faults_def rotated_log_def split: option.splits)

lemma audit_write_ok:
  assumes "al_enabled l" "ser ev = Inr payload"
  shows "audit_write ser no_faults ev l =
    (let line = payload @ [NL];
         l1 = (if al_current_size l + of_nat (length line) > al_max_size_bytes l then rotated_log l else l)
     in append_line no_faults line (snd (open_writer no_faults l1)))"
proof -
  have open_ok: "fst (open_writer no_faults x) = Inr ()" for x
    by (auto simp: open_writer_def no_faults_def split: option.splits)
  have reset: "(rotated_log l) \<lparr> al_current_size := c, al_current_size := 0 \<rparr> = rotated_log l" for c
    by (simp add: rotated_log_def)
  have step: "(case open_writer no_faults x of (Inl e, l2) \<Rightarrow> (Inl e, l2)
      | (Inr _, l2) \<Rightarrow> append_line no_faults line l2) = append_line no_faults line (snd (open_writer no_faults x))"
    for x line
    using open_ok [of x] by (cases "open_writer no_faults x") simp
  show ?thesis
    using assms by (simp add: audit_write_def rotate_log_ok reset step Let_def)
qed

text \<open>The audit log loses nothing but the generation before last, and knows its size.
  When no file call fails, a write appends the event's line to the file if the result
  fits the size limit; otherwise the whole file moves to the rotated file and the line
  starts a new one.  The tracked size stays the length of the file.\<close>

theorem audit_write_rotates:
  assumes "al_enabled l" "ser ev = Inr payload" "log_tracked l"
    and "length (log_content l) + length payload + 1 < 2 ^ 64"
  shows "fst (audit_write ser no_faults ev l) = Inr ()
    \<and> log_tracked (snd (audit_write ser no_faults ev l))
    \<and> (if length (log_content l) + length payload + 1 \<le> unat (al_max_size_bytes l)
       then al_file (snd (audit_write ser no_faults ev l)) = Some (log_content l @ payload @ [NL])
          \<and> al_old (snd (audit_write ser no_faults ev l)) = al_old l
       else al_file (snd (audit_write ser no_faults ev l)) = Some (payload @ [NL])
          \<and> al_old (snd (audit_write ser no_faults ev l)) =
              (if al_file l = None then al_old l else al_file l))"
proof -
  let ?line = "payload @ [NL]"
  have size: "unat (al_current_size l) = length (log_content l)"
    and wr: "al_writer_open l \<longrightarrow> al_file l \<noteq> None" using assms(3) by (auto simp: log_tracked_def)
  have sum: "unat (al_current_size l + of_nat (length ?line)) = length (log_content l) + length ?line"
    by (subst add_no_wrap) (use size assms(4) in simp_all)
  have line64: "unat (of_nat (length ?line) :: u64) = length ?line"
    using assms(4) by (simp only: unat_of_nat) simp
  have over: "al_current_size l + of_nat (length ?line) > al_max_size_bytes l
      \<longleftrightarrow> \<not> length (log_content l) + length payload + 1 \<le> unat (al_max_size_bytes l)"
    by (simp only: word_less_nat_alt sum) auto
  show ?thesis
  proof (cases "length (log_content l) + length payload + 1 \<le> unat (al_max_size_bytes l)")
    case True
    then have "audit_write ser no_faults ev l = append_line no_faults ?line (snd (open_writer no_faults l))"
      using over by (simp add: audit_write_ok [of l ser ev payload] assms(1,2) Let_def)
    then show ?thesis
      using open_append(1-5) [OF wr, of ?line] True sum
      by (simp add: log_tracked_def log_content_def)
  next
    case False
    have rot: "al_writer_open (rotated_log l) \<longrightarrow> al_file (rotated_log l) \<noteq> None"
      by (simp add: rotated_log_def)
    have fields: "log_content (rotated_log l) = []" "al_current_size (rotated_log l) = 0"
      "al_old (rotated_log l) = (if al_file l = None then al_old l else al_file l)"
      by (simp_all add: rotated_log_def log_content_def)
    from False have "audit_write ser no_faults ev l
        = append_line no_faults ?line (snd (open_writer no_faults (rotated_log l)))"
      using over by (simp add: audit_write_ok [of l ser ev payload] assms(1,2) Let_def)
    then show ?thesis
      using open_append(1-5) [OF rot, of ?line] False line64
      by (simp add: log_tracked_def log_content_def [of "snd _"] fields)
  qed
qed

definition demo_log :: audit_log where
  "demo_log = audit_with_path (Some ''old'') None True \<lparr> al_max_size_bytes := 4, al_current_size := 3 \<rparr>"

definition demo_event :: audit_event where
  "demo_event = event_new 1 0 (RuleRemovedEv 2)"

theorem audit_write_rotates_witness:
  "fst (audit_write (\<lambda>_. Inr ''e'') no_faults demo_event demo_log) = Inr ()
    \<and> log_tracked (snd (audit_write (\<lambda>_. Inr ''e'') no_faults demo_event demo_log))
    \<and> (if length (log_content demo_log) + length ''e'' + 1 \<le> unat (al_max_size_bytes demo_log)
       then al_file (snd (audit_write (\<lambda>_. Inr ''e'') no_faults demo_event demo_log))
            = Some (log_content demo_log @ ''e'' @ [NL])
          \<and> al_old (snd (audit_write (\<lambda>_. Inr ''e'') no_faults demo_event demo_log)) = al_old demo_log
       else al_file (snd (audit_write (\<lambda>_. Inr ''e'') no_faults demo_event demo_log)) = Some (''e'' @ [NL])
          \<and> al_old (snd (audit_write (\<lambda>_. Inr ''e'') no_faults demo_event demo_log)) =
              (if al_file demo_log = None then al_old demo_log else al_file demo_log))"
  by (rule audit_write_rotates)
    (simp_all add: demo_log_def audit_with_path_def log_tracked_def log_content_def)

end
