(* ===== verification/Rate_Limit.thy ===== *)
theory Rate_Limit
  imports Event_Types
begin

text \<open>
  Channel middleware (channels/src/middleware.rs): the structured channel errors,
  the per-sender rate limiter, the sender allow list and the inbound sender that
  runs both before publishing to the broker.  Instants are integers on a monotonic
  clock, the window a duration in the same unit, and publishing to the broker is the
  argument \<open>publish\<close>, which returns its error if it fails.
\<close>

section \<open>Channel errors\<close>

datatype channel_error =
    NotConnected string
  | AuthError string string
  | DeliveryFailed string string
  | RateLimited string
  | InvalidFormat string
  | OtherError string

fun error_channel :: "channel_error \<Rightarrow> string option" where
  "error_channel (NotConnected c) = Some c"
| "error_channel (AuthError c _) = Some c"
| "error_channel (DeliveryFailed c _) = Some c"
| "error_channel (RateLimited c) = Some c"
| "error_channel _ = None"

fun is_retryable :: "channel_error \<Rightarrow> bool" where
  "is_retryable (RateLimited _) = True"
| "is_retryable (DeliveryFailed _ _) = True"
| "is_retryable _ = False"

section \<open>Rate limiter\<close>

record rate_limiter =
  rl_max_messages :: u32
  rl_window :: int
  rl_timestamps :: "string \<rightharpoonup> int list"

definition limiter_new :: "u32 \<Rightarrow> int \<Rightarrow> rate_limiter" where
  "limiter_new m w = \<lparr> rl_max_messages = m, rl_window = w, rl_timestamps = Map.empty \<rparr>"

text \<open>\<open>duration_since\<close> is zero for an instant in the future.\<close>

definition duration_since :: "int \<Rightarrow> int \<Rightarrow> int" where
  "duration_since now t = max 0 (now - t)"

text \<open>The eviction loop pops the front while it is older than the window.\<close>

fun evict :: "int \<Rightarrow> int \<Rightarrow> int list \<Rightarrow> int list" where
  "evict now w [] = []"
| "evict now w (front # ts) =
     (if duration_since now front > w then evict now w ts else front # ts)"

definition limiter_check :: "int \<Rightarrow> string \<Rightarrow> rate_limiter \<Rightarrow> bool \<times> rate_limiter" where
  "limiter_check now sender rl =
     (let ts = evict now (rl_window rl) (case rl_timestamps rl sender of Some ts \<Rightarrow> ts | None \<Rightarrow> []) in
      if length ts < unat (rl_max_messages rl)
      then (True, rl \<lparr> rl_timestamps := (rl_timestamps rl)(sender \<mapsto> ts @ [now]) \<rparr>)
      else (False, rl \<lparr> rl_timestamps := (rl_timestamps rl)(sender \<mapsto> ts) \<rparr>))"

definition prune_stale :: "int \<Rightarrow> rate_limiter \<Rightarrow> rate_limiter" where
  "prune_stale now rl = rl \<lparr> rl_timestamps := (\<lambda>s. case rl_timestamps rl s of
       None \<Rightarrow> None
     | Some ts \<Rightarrow> if list_ex (\<lambda>t. duration_since now t \<le> rl_window rl) ts then Some ts else None) \<rparr>"

definition limiter_check_and_log :: "int \<Rightarrow> inbound_message \<Rightarrow> rate_limiter \<Rightarrow> bool \<times> rate_limiter" where
  "limiter_check_and_log now msg rl = limiter_check now (im_sender_id msg) rl"

section \<open>Sender allow list\<close>

type_synonym auth_checker = "string list"

definition is_allowed :: "auth_checker \<Rightarrow> string \<Rightarrow> bool" where
  "is_allowed allowed sender = (if allowed = [] then True else sender \<in> set allowed)"

definition auth_check_and_log :: "auth_checker \<Rightarrow> inbound_message \<Rightarrow> bool" where
  "auth_check_and_log allowed msg =
     (if allowed \<noteq> [] \<and> im_sender_id msg \<notin> set allowed then False else True)"

section \<open>Inbound sender\<close>

record inbound_sender =
  is_rate_limiter :: "rate_limiter option"
  is_auth_checker :: "auth_checker option"

definition sender_new :: inbound_sender where
  "sender_new = \<lparr> is_rate_limiter = None, is_auth_checker = None \<rparr>"

definition with_rate_limiter :: "rate_limiter \<Rightarrow> inbound_sender \<Rightarrow> inbound_sender" where
  "with_rate_limiter rl s = s \<lparr> is_rate_limiter := Some rl \<rparr>"

definition with_auth_checker :: "auth_checker \<Rightarrow> inbound_sender \<Rightarrow> inbound_sender" where
  "with_auth_checker a s = s \<lparr> is_auth_checker := Some a \<rparr>"

text \<open>The result, the messages handed to the broker (none or this one), the new state.\<close>

definition inbound_send ::
  "(inbound_message \<Rightarrow> string option) \<Rightarrow> int \<Rightarrow> inbound_message \<Rightarrow> inbound_sender
   \<Rightarrow> (string + unit) \<times> inbound_message list \<times> inbound_sender" where
  "inbound_send publish now msg s =
     (let auth_ok = (case is_auth_checker s of None \<Rightarrow> True | Some a \<Rightarrow> auth_check_and_log a msg) in
      if \<not> auth_ok then (Inr (), [], s)
      else
        let (rate_ok, s1) =
              (case is_rate_limiter s of
                 None \<Rightarrow> (True, s)
               | Some rl \<Rightarrow> (case limiter_check_and_log now msg rl of
                     (ok, rl1) \<Rightarrow> (ok, s \<lparr> is_rate_limiter := Some rl1 \<rparr>))) in
        if \<not> rate_ok then (Inr (), [], s1)
        else (case publish msg of
                Some e \<Rightarrow> (Inl (''broker publish failed: '' @ e), [msg], s1)
              | None \<Rightarrow> (Inr (), [msg], s1)))"

section \<open>A limiter in use\<close>

text \<open>Checks and background prunings in the order they happen; the run returns the limiter
  and the accepted checks, newest last.\<close>

datatype limiter_event = Check int string | Prune int

fun event_time :: "limiter_event \<Rightarrow> int" where
  "event_time (Check t _) = t"
| "event_time (Prune t) = t"

fun limiter_step :: "limiter_event \<Rightarrow> rate_limiter \<times> (int \<times> string) list \<Rightarrow> rate_limiter \<times> (int \<times> string) list" where
  "limiter_step (Check t s) (rl, acc) = (case limiter_check t s rl of
     (ok, rl1) \<Rightarrow> (rl1, if ok then acc @ [(t, s)] else acc))"
| "limiter_step (Prune t) (rl, acc) = (prune_stale t rl, acc)"

definition limiter_run :: "limiter_event list \<Rightarrow> rate_limiter \<Rightarrow> rate_limiter \<times> (int \<times> string) list" where
  "limiter_run es rl = foldl (\<lambda>c e. limiter_step e c) (rl, []) es"

definition accepted_at :: "string \<Rightarrow> (int \<times> string) list \<Rightarrow> int list" where
  "accepted_at s acc = map fst (filter (\<lambda>(t, s'). s' = s) acc)"

definition bucket :: "rate_limiter \<Rightarrow> string \<Rightarrow> int list" where
  "bucket rl s = (case rl_timestamps rl s of Some ts \<Rightarrow> ts | None \<Rightarrow> [])"

lemma evict_filter:
  assumes "sorted ts" "\<forall>t \<in> set ts. t \<le> now" "0 \<le> w"
  shows "evict now w ts = filter (\<lambda>t. now - t \<le> w) ts"
  using assms
proof (induction ts)
  case (Cons t ts)
  then show ?case
  proof (cases "now - t > w")
    case False
    then have "\<forall>u \<in> set ts. now - u \<le> w" using Cons.prems(1) by auto
    with False Cons.prems show ?thesis by (auto simp: duration_since_def)
  qed (use Cons in \<open>auto simp: duration_since_def\<close>)
qed simp

definition in_window :: "int \<Rightarrow> int \<Rightarrow> int list \<Rightarrow> int list" where
  "in_window a w xs = filter (\<lambda>t. a \<le> t \<and> t \<le> a + w) xs"

text \<open>One sender: its bucket holds the accepted checks still inside the window at the last
  time the sender was looked at, and no window holds more than the maximum.\<close>

definition sender_inv :: "rate_limiter \<Rightarrow> int list \<Rightarrow> string \<Rightarrow> int \<Rightarrow> bool" where
  "sender_inv rl acc s now = (\<exists>seen \<le> now. bucket rl s = filter (\<lambda>t. seen - t \<le> rl_window rl) acc
     \<and> sorted acc \<and> (\<forall>t \<in> set acc. t \<le> seen)
     \<and> (\<forall>a. length (in_window a (rl_window rl) acc) \<le> unat (rl_max_messages rl)))"

lemma filter_narrow: "seen \<le> now \<Longrightarrow>
    filter (\<lambda>t. now - t \<le> w) (filter (\<lambda>t. seen - t \<le> w) acc) = filter (\<lambda>t. now - t \<le> (w :: int)) acc"
  by (induction acc) auto

lemma sender_inv_later:
  assumes "sender_inv rl acc s now" "now \<le> later"
  shows "sender_inv rl acc s later"
  using assms unfolding sender_inv_def by (meson order_trans)

lemma bucket_evict:
  assumes "sender_inv rl acc s now" "now \<le> later" "0 \<le> rl_window rl"
  shows "evict later (rl_window rl) (bucket rl s) = filter (\<lambda>t. later - t \<le> rl_window rl) acc"
proof -
  obtain seen where *: "seen \<le> now" "bucket rl s = filter (\<lambda>t. seen - t \<le> rl_window rl) acc"
    "sorted acc" "\<forall>t \<in> set acc. t \<le> seen"
    using assms(1) by (auto simp: sender_inv_def)
  then have "evict later (rl_window rl) (bucket rl s)
      = filter (\<lambda>t. later - t \<le> rl_window rl) (bucket rl s)"
    using assms(2,3) by (intro evict_filter) (auto simp: sorted_wrt_filter)
  then show ?thesis using * assms(2) by (simp only: filter_narrow)
qed

text \<open>The timestamps are a keyed map from senders to their deques.\<close>

definition put_bucket :: "string \<Rightarrow> int list \<Rightarrow> rate_limiter \<Rightarrow> rate_limiter" where
  "put_bucket s ts rl = rl \<lparr> rl_timestamps := (rl_timestamps rl)(s \<mapsto> ts) \<rparr>"

definition drop_bucket :: "string \<Rightarrow> rate_limiter \<Rightarrow> rate_limiter" where
  "drop_bucket s rl = rl \<lparr> rl_timestamps := (rl_timestamps rl)(s := None) \<rparr>"

interpretation buckets: keyed_map "\<lambda>rl s. rl_timestamps rl s" put_bucket drop_bucket
  by unfold_locales (simp_all add: put_bucket_def drop_bucket_def)

lemma bucket_put: "bucket (put_bucket s ts rl) s' = (if s' = s then ts else bucket rl s')"
  by (simp add: bucket_def buckets.look_put)

lemma put_bucket_same [simp]:
  "rl_window (put_bucket s ts rl) = rl_window rl" "rl_max_messages (put_bucket s ts rl) = rl_max_messages rl"
  by (simp_all add: put_bucket_def)

lemma limiter_check_eq:
  "limiter_check now s rl =
     (let ts = evict now (rl_window rl) (bucket rl s) in
      if length ts < unat (rl_max_messages rl) then (True, put_bucket s (ts @ [now]) rl)
      else (False, put_bucket s ts rl))"
  by (simp add: limiter_check_def put_bucket_def bucket_def Let_def)

lemma sender_inv_other:
  assumes "sender_inv rl acc s now" "s \<noteq> s'"
  shows "sender_inv (put_bucket s' ts rl) acc s now"
  using assms by (simp add: sender_inv_def bucket_put)

lemma window_accept:
  assumes "sorted acc" "\<forall>t \<in> set acc. t \<le> now" "0 \<le> w"
    and "length (filter (\<lambda>t. now - t \<le> w) acc) < n" "length (in_window a w acc) \<le> n"
  shows "length (in_window a w (acc @ [now])) \<le> n"
proof (cases "a \<le> now \<and> now \<le> a + w")
  case True
  then have "in_window a w acc = filter (\<lambda>t. a \<le> t) (filter (\<lambda>t. now - t \<le> w) acc)"
    using assms(2) by (auto simp: in_window_def intro!: filter_cong)
  then have "length (in_window a w acc) \<le> length (filter (\<lambda>t. now - t \<le> w) acc)"
    using length_filter_le by metis
  then show ?thesis using True assms(4) by (simp add: in_window_def)
next
  case False
  then have "in_window a w (acc @ [now]) = in_window a w acc" by (auto simp: in_window_def)
  then show ?thesis using assms(5) by simp
qed

lemma accepted_at_snoc:
  "accepted_at s' (acc @ [(t, s)]) = accepted_at s' acc @ (if s' = s then [t] else [])"
  by (simp add: accepted_at_def)

lemma sender_inv_check:
  assumes "sender_inv rl acc s now" "now \<le> t" "0 \<le> rl_window rl"
  shows "sender_inv (snd (limiter_check t s rl)) (if fst (limiter_check t s rl) then acc @ [t] else acc) s t"
proof -
  let ?ts = "evict t (rl_window rl) (bucket rl s)"
  have ts: "?ts = filter (\<lambda>x. t - x \<le> rl_window rl) acc" by (rule bucket_evict [OF assms])
  have acc: "sorted acc" "\<forall>x \<in> set acc. x \<le> t"
    and win: "\<And>a. length (in_window a (rl_window rl) acc) \<le> unat (rl_max_messages rl)"
    using assms(1,2) by (force simp: sender_inv_def)+
  show ?thesis
  proof (cases "length ?ts < unat (rl_max_messages rl)")
    case True
    then have c: "limiter_check t s rl = (True, put_bucket s (?ts @ [t]) rl)"
      by (simp add: limiter_check_eq Let_def)
    have "length (in_window a (rl_window rl) (acc @ [t])) \<le> unat (rl_max_messages rl)" for a
      using window_accept [OF acc assms(3) _ win] True ts by simp
    then show ?thesis
      unfolding sender_inv_def c
      by (intro exI [of _ t]) (use acc assms(3) ts in \<open>simp add: bucket_put sorted_append\<close>)
  next
    case False
    then have c: "limiter_check t s rl = (False, put_bucket s ?ts rl)"
      by (simp add: limiter_check_eq Let_def)
    show ?thesis
      unfolding sender_inv_def c
      by (intro exI [of _ t]) (use acc win ts in \<open>simp add: bucket_put\<close>)
  qed
qed

lemma sender_inv_prune:
  assumes "sender_inv rl acc s now" "now \<le> t" "0 \<le> rl_window rl"
  shows "sender_inv (prune_stale t rl) acc s t"
proof -
  obtain seen where *: "seen \<le> now" "bucket rl s = filter (\<lambda>x. seen - x \<le> rl_window rl) acc"
    "sorted acc" "\<forall>x \<in> set acc. x \<le> seen"
    "\<And>a. length (in_window a (rl_window rl) acc) \<le> unat (rl_max_messages rl)"
    using assms(1) by (auto simp: sender_inv_def)
  show ?thesis
  proof (cases "bucket (prune_stale t rl) s = bucket rl s")
    case True
    then show ?thesis
      using sender_inv_later [OF assms(1,2)] by (simp add: sender_inv_def prune_stale_def)
  next
    case False
    then have empty: "bucket (prune_stale t rl) s = []"
      and stale: "\<not> list_ex (\<lambda>x. duration_since t x \<le> rl_window rl) (bucket rl s)"
      by (auto simp: bucket_def prune_stale_def split: option.splits if_splits)
    have "filter (\<lambda>x. t - x \<le> rl_window rl) acc = filter (\<lambda>x. t - x \<le> rl_window rl) (bucket rl s)"
      unfolding *(2) using filter_narrow *(1) assms(2) by (metis order_trans)
    also have "\<dots> = []"
      using stale assms(3) by (auto simp: filter_empty_conv list_ex_iff duration_since_def)
    finally have "filter (\<lambda>x. t - x \<le> rl_window rl) acc = []" .
    then show ?thesis
      unfolding sender_inv_def
      by (intro exI [of _ t]) (use * assms(2) empty in \<open>force simp: prune_stale_def\<close>)
  qed
qed

definition limiter_inv :: "u32 \<Rightarrow> int \<Rightarrow> rate_limiter \<times> (int \<times> string) list \<Rightarrow> int \<Rightarrow> bool" where
  "limiter_inv m w c now = (rl_window (fst c) = w \<and> rl_max_messages (fst c) = m
     \<and> (\<forall>s. sender_inv (fst c) (accepted_at s (snd c)) s now))"

lemma limiter_step_inv:
  assumes "limiter_inv m w c now" "now \<le> event_time e" "0 \<le> w"
  shows "limiter_inv m w (limiter_step e c) (event_time e)"
proof (cases e)
  case (Prune t)
  have "rl_window (prune_stale t rl) = rl_window rl" "rl_max_messages (prune_stale t rl) = rl_max_messages rl" for rl
    by (simp_all add: prune_stale_def)
  with Prune show ?thesis
    using assms by (cases c) (auto simp: limiter_inv_def intro: sender_inv_prune)
next
  case (Check t s)
  obtain rl acc where c: "c = (rl, acc)" by fastforce
  obtain ok rl1 where chk: "limiter_check t s rl = (ok, rl1)" by fastforce
  then obtain ts where rl1: "rl1 = put_bucket s ts rl"
    by (auto simp: limiter_check_eq Let_def split: if_splits)
  have inv: "sender_inv rl (accepted_at s' acc) s' now" for s'
    using assms(1) c by (simp add: limiter_inv_def)
  have w: "0 \<le> rl_window rl" using assms(1,3) c by (simp add: limiter_inv_def)
  have "sender_inv rl1 (accepted_at s' (if ok then acc @ [(t, s)] else acc)) s' t" for s'
  proof (cases "s' = s")
    case True
    then show ?thesis
      using sender_inv_check [OF inv [of s] _ w, of t] assms(2) Check chk
      by (simp add: accepted_at_snoc split: if_splits)
  next
    case False
    then have "accepted_at s' (if ok then acc @ [(t, s)] else acc) = accepted_at s' acc"
      by (simp add: accepted_at_snoc)
    then show ?thesis
      using sender_inv_other [OF sender_inv_later [OF inv [of s']] False] assms(2) Check rl1 by simp
  qed
  then show ?thesis
    using assms(1) c Check chk rl1 by (simp add: limiter_inv_def)
qed

lemma limiter_fold_inv:
  "limiter_inv m w c now \<Longrightarrow> sorted (now # map event_time es) \<Longrightarrow> 0 \<le> w \<Longrightarrow>
     \<exists>later. limiter_inv m w (foldl (\<lambda>c e. limiter_step e c) c es) later"
proof (induction es arbitrary: c now)
  case (Cons e es)
  then show ?case using limiter_step_inv [of m w c now e] by auto
qed auto

lemma limiter_inv_new: "limiter_inv m w (limiter_new m w, []) now"
  by (auto simp: limiter_inv_def limiter_new_def sender_inv_def bucket_def accepted_at_def in_window_def)

text \<open>C35: the rate limit holds in every window.  However checks of different senders and
  background prunings interleave on a monotonic clock, no sender has more than the
  configured number of accepted messages within any span of the window's length.\<close>

theorem rate_limit_every_window:
  assumes "sorted (map event_time es)" "0 \<le> w"
  shows "length (in_window a w (accepted_at s (snd (limiter_run es (limiter_new m w))))) \<le> unat m"
proof -
  have "sorted ((case es of [] \<Rightarrow> 0 | e # _ \<Rightarrow> event_time e) # map event_time es)"
    using assms(1) by (cases es) auto
  then obtain later where inv: "limiter_inv m w (limiter_run es (limiter_new m w)) later"
    using limiter_fold_inv [OF limiter_inv_new _ assms(2)] unfolding limiter_run_def by blast
  then have eq: "rl_window (fst (limiter_run es (limiter_new m w))) = w"
    "rl_max_messages (fst (limiter_run es (limiter_new m w))) = m"
    by (simp_all add: limiter_inv_def)
  from inv have "sender_inv (fst (limiter_run es (limiter_new m w)))
      (accepted_at s (snd (limiter_run es (limiter_new m w)))) s later"
    by (simp add: limiter_inv_def)
  then show ?thesis unfolding sender_inv_def eq by blast
qed

theorem rate_limit_every_window_witness:
  "length (in_window 0 10 (accepted_at ''a'' (snd (limiter_run
      [Check 1 ''a'', Check 2 ''b'', Check 3 ''a'', Prune 4, Check 5 ''a'', Check 12 ''a'']
      (limiter_new 2 10))))) \<le> unat (2 :: u32)"
  by (rule rate_limit_every_window) simp_all

text \<open>Only authorised, in-quota messages reach the broker, and refusals by the allow
  list cost nothing.  A message is handed to the broker exactly when its sender is
  allowed and the limiter accepts it; a message of a disallowed sender changes no state.\<close>

theorem inbound_send_gate:
  "case inbound_send publish now msg s of (res, sent, s1) \<Rightarrow>
     (sent = (if (case is_auth_checker s of None \<Rightarrow> True | Some a \<Rightarrow> is_allowed a (im_sender_id msg))
               \<and> (case is_rate_limiter s of None \<Rightarrow> True
                  | Some rl \<Rightarrow> fst (limiter_check now (im_sender_id msg) rl))
              then [msg] else []))
   \<and> (if (case is_auth_checker s of None \<Rightarrow> True | Some a \<Rightarrow> is_allowed a (im_sender_id msg))
      then is_auth_checker s1 = is_auth_checker s else s1 = s)
   \<and> (if sent = [] then res = Inr () else is_ok res = (publish msg = None))"
  by (auto simp: inbound_send_def Let_def limiter_check_and_log_def auth_check_and_log_def is_allowed_def
      split: option.splits prod.splits)

end
