(* ===== verification/Message_Normalize.thy ===== *)
theory Message_Normalize
  imports Chat_Types
begin

text \<open>
  Message normalisation for a provider without system messages
  (providers/src/vendor_workarounds.rs): system texts move into the first user message,
  runs of messages of one role merge, provider-specific fields are dropped.  The
  normalised conversation keeps the tool-call protocol and loses no text.
\<close>

definition PARA :: string where
  "PARA = [NL, NL]"

fun system_parts :: "'j chat_message list \<Rightarrow> string list" where
  "system_parts [] = []"
| "system_parts (m # ms) =
     (if cm_role m = SystemRole
      then (case cm_content m of Some c \<Rightarrow> c # system_parts ms | None \<Rightarrow> system_parts ms)
      else system_parts ms)"

text \<open>Prepends the text to the first proper user message, if there is one.\<close>

fun prepend_first_user :: "string \<Rightarrow> 'j chat_message list \<Rightarrow> 'j chat_message list option" where
  "prepend_first_user tx [] = None"
| "prepend_first_user tx (m # ms) =
     (if cm_role m = UserRole \<and> cm_tool_call_id m = None
      then Some (m \<lparr> cm_content := Some (case cm_content m of
               Some c \<Rightarrow> tx @ PARA @ c | None \<Rightarrow> tx) \<rparr> # ms)
      else map_option ((#) m) (prepend_first_user tx ms))"

definition convert_system_messages :: "'j chat_message list \<Rightarrow> 'j chat_message list" where
  "convert_system_messages messages =
     (let parts = system_parts messages;
          result = filter (\<lambda>m. cm_role m \<noteq> SystemRole) messages in
      if parts = [] then result
      else let tx = join PARA parts in
           (case prepend_first_user tx result of
              Some r \<Rightarrow> r
            | None \<Rightarrow> msg_user tx # result))"

definition merge_content :: "string option \<Rightarrow> string option \<Rightarrow> string option" where
  "merge_content a b = (case (a, b) of
      (Some x, Some y) \<Rightarrow> Some (x @ PARA @ y)
    | (None, Some y) \<Rightarrow> Some y
    | _ \<Rightarrow> a)"

definition merge_into :: "'j chat_message list \<Rightarrow> 'j chat_message \<Rightarrow> 'j chat_message list" where
  "merge_into merged msg =
     (if merged \<noteq> [] \<and> cm_role (last merged) = cm_role msg \<and> cm_role msg \<noteq> ToolRole
      then (if cm_role msg = AssistantRole
                \<and> (cm_tool_calls msg \<noteq> None \<or> cm_tool_calls (last merged) \<noteq> None)
            then merged @ [msg]
            else butlast merged
                 @ [(last merged) \<lparr> cm_content := merge_content (cm_content (last merged)) (cm_content msg) \<rparr>])
      else merged @ [msg])"

definition merge_consecutive_messages :: "'j chat_message list \<Rightarrow> 'j chat_message list" where
  "merge_consecutive_messages messages = foldl merge_into [] messages"

definition sanitize_message :: "'j chat_message \<Rightarrow> 'j chat_message" where
  "sanitize_message msg =
     (let m1 = msg \<lparr> cm_reasoning := None \<rparr>;
          m2 = (if cm_role m1 = ToolRole then m1 \<lparr> cm_name := None \<rparr> else m1) in
      if cm_role m2 = AssistantRole \<and> cm_tool_calls m2 \<noteq> None \<and> cm_content m2 = None
      then m2 \<lparr> cm_content := Some [] \<rparr> else m2)"

definition sanitize_messages :: "'j chat_message list \<Rightarrow> 'j chat_message list" where
  "sanitize_messages messages = map sanitize_message messages"

definition normalize_messages :: "'j chat_message list \<Rightarrow> 'j chat_message list" where
  "normalize_messages messages =
     sanitize_messages (merge_consecutive_messages (convert_system_messages messages))"

section \<open>The tool-call protocol survives\<close>

lemma paired_from_drop_system:
  "paired_from owed ms \<Longrightarrow> paired_from owed (filter (\<lambda>m. cm_role m \<noteq> SystemRole) ms)"
proof (induction owed ms rule: paired_from.induct)
  case (2 owed m ms)
  then show ?case by (cases "cm_role m") (auto simp: call_ids_def split: list.splits)
qed simp

lemma call_ids_content [simp]: "call_ids (m \<lparr> cm_content := c \<rparr>) = call_ids m"
  by (simp add: call_ids_def)

lemma paired_from_prepend:
  "prepend_first_user tx ms = Some ms' \<Longrightarrow> paired_from owed ms' = paired_from owed ms"
proof (induction ms arbitrary: owed ms')
  case (Cons m ms)
  then show ?case by (auto split: if_splits list.splits)
qed simp

lemma convert_paired: "paired ms \<Longrightarrow> paired (convert_system_messages ms)"
  using paired_from_drop_system [of "[]" ms]
  by (auto simp: convert_system_messages_def paired_def Let_def paired_from_prepend split: option.splits)

lemma paired_from_merge_two:
  assumes "call_ids l = []" "call_ids m = []" "cm_role l \<noteq> ToolRole" "cm_role m \<noteq> ToolRole"
    and "cm_role l' \<noteq> ToolRole" "call_ids l' = []"
  shows "paired_from owed (xs @ l # m # rest) \<Longrightarrow> paired_from owed (xs @ l' # rest)"
proof (induction xs arbitrary: owed)
  case Nil
  then show ?case using assms by simp
next
  case (Cons x xs)
  show ?case
  proof (cases "cm_role x = ToolRole")
    case True
    with Cons.prems obtain i ks where "owed = i # ks" "cm_tool_call_id x = Some i"
      "paired_from ks (xs @ l # m # rest)"
      by (cases owed) simp_all
    then show ?thesis using Cons.IH [of ks] True by simp
  next
    case False
    with Cons.prems have "owed = []" "paired_from (call_ids x) (xs @ l # m # rest)" by simp_all
    then show ?thesis using Cons.IH [of "call_ids x"] False by simp
  qed
qed

lemma merge_into_snoc:
  "merge_into (xs @ [l]) msg = xs @ [l, msg]
   \<or> merge_into (xs @ [l]) msg = xs @ [l \<lparr> cm_content := merge_content (cm_content l) (cm_content msg) \<rparr>]
     \<and> cm_role l = cm_role msg \<and> cm_role msg \<noteq> ToolRole \<and> call_ids l = [] \<and> call_ids msg = []"
  by (simp add: merge_into_def call_ids_def)

lemma merge_into_paired:
  assumes "paired (merged @ msg # rest)"
  shows "paired (merge_into merged msg @ rest)"
proof (cases merged rule: rev_cases)
  case Nil
  then show ?thesis using assms by (simp add: merge_into_def)
next
  case (snoc xs l)
  then have p: "paired_from [] (xs @ l # msg # rest)" using assms by (simp add: paired_def)
  from merge_into_snoc [of xs l msg] show ?thesis
  proof (elim disjE conjE)
    assume "merge_into (xs @ [l]) msg = xs @ [l, msg]"
    then show ?thesis using p snoc by (simp add: paired_def)
  next
    assume m: "merge_into (xs @ [l]) msg = xs @ [l \<lparr> cm_content := merge_content (cm_content l) (cm_content msg) \<rparr>]"
      and l: "cm_role l = cm_role msg" "cm_role msg \<noteq> ToolRole" "call_ids l = []" "call_ids msg = []"
    have "paired_from [] (xs @ l \<lparr> cm_content := merge_content (cm_content l) (cm_content msg) \<rparr> # rest)"
      by (rule paired_from_merge_two [OF l(3,4) _ l(2) _ _ p]) (simp_all add: l)
    then show ?thesis using m snoc by (simp add: paired_def)
  qed
qed

lemma merge_fold_paired: "paired (merged @ ms) \<Longrightarrow> paired (foldl merge_into merged ms)"
proof (induction ms arbitrary: merged)
  case (Cons m ms)
  then show ?case using merge_into_paired [of merged m ms] by simp
qed simp

lemma sanitize_same [simp]:
  "cm_role (sanitize_message m) = cm_role m" "cm_tool_call_id (sanitize_message m) = cm_tool_call_id m"
  "cm_tool_calls (sanitize_message m) = cm_tool_calls m" "call_ids (sanitize_message m) = call_ids m"
  by (simp_all add: sanitize_message_def Let_def call_ids_def)

lemma paired_from_sanitize: "paired_from owed (map sanitize_message ms) = paired_from owed ms"
  by (induction owed ms rule: paired_from.induct) (auto split: list.splits)

section \<open>What is left, and that no text is lost\<close>

definition carries :: "'j chat_message list \<Rightarrow> string \<Rightarrow> bool" where
  "carries ms c = (\<exists>m \<in> set ms. \<exists>d. cm_content m = Some d \<and> sublist c d)"

lemma carriesI: "m \<in> set ms \<Longrightarrow> cm_content m = Some d \<Longrightarrow> sublist c d \<Longrightarrow> carries ms c"
  by (auto simp: carries_def)

lemma carries_append [simp]: "carries (xs @ ys) c \<longleftrightarrow> carries xs c \<or> carries ys c"
  by (auto simp: carries_def)

lemma carries_Cons [simp]:
  "carries (m # ms) c \<longleftrightarrow> (\<exists>d. cm_content m = Some d \<and> sublist c d) \<or> carries ms c"
  by (auto simp: carries_def)

lemma sublist_join: "p \<in> set ps \<Longrightarrow> sublist p (join sep ps)"
proof (induction sep ps rule: join.induct)
  case (3 sep x y ys)
  show ?case
  proof (cases "p = x")
    case True
    then have "join sep (x # y # ys) = [] @ p @ (sep @ join sep (y # ys))" by simp
    then show ?thesis unfolding sublist_def by blast
  next
    case False
    then obtain a b where "join sep (y # ys) = a @ p @ b" using 3 by (auto simp: sublist_def)
    then have "join sep (x # y # ys) = (x @ sep @ a) @ p @ b" by simp
    then show ?thesis unfolding sublist_def by blast
  qed
qed auto

lemma sublist_glue: "sublist c a \<Longrightarrow> sublist c (a @ b)" "sublist c b \<Longrightarrow> sublist c (a @ b)"
  by (simp_all add: sublist_append)

lemma prepend_carries:
  "prepend_first_user tx ms = Some ms' \<Longrightarrow> (sublist c tx \<or> carries ms c) \<Longrightarrow> carries ms' c"
  by (induction ms arbitrary: ms')
    (auto simp: sublist_glue split: if_splits option.splits)

lemma convert_carries:
  assumes "m \<in> set ms" "cm_content m = Some c"
  shows "carries (convert_system_messages ms) c"
proof (cases "cm_role m = SystemRole")
  case True
  then have "c \<in> set (system_parts ms)" using assms by (induction ms) (auto split: option.splits)
  then have "system_parts ms \<noteq> []" "sublist c (join PARA (system_parts ms))"
    by (auto simp: sublist_join)
  then show ?thesis
    by (auto simp: convert_system_messages_def Let_def msg_user_def intro: prepend_carries split: option.splits)
next
  case False
  then have "carries (filter (\<lambda>m. cm_role m \<noteq> SystemRole) ms) c"
    using assms by (auto simp: carries_def)
  then show ?thesis
    by (auto simp: convert_system_messages_def Let_def intro: prepend_carries split: option.splits)
qed

lemma merge_content_sublist:
  "a = Some d \<Longrightarrow> sublist c d \<Longrightarrow> \<exists>e. merge_content a b = Some e \<and> sublist c e"
  "b = Some d \<Longrightarrow> sublist c d \<Longrightarrow> \<exists>e. merge_content a b = Some e \<and> sublist c e"
  by (auto simp: merge_content_def sublist_glue split: option.splits)

lemma merge_into_carries:
  "carries merged c \<or> (\<exists>d. cm_content msg = Some d \<and> sublist c d) \<Longrightarrow> carries (merge_into merged msg) c"
proof -
  assume *: "carries merged c \<or> (\<exists>d. cm_content msg = Some d \<and> sublist c d)"
  show ?thesis
  proof (cases "merge_into merged msg = merged @ [msg]")
    case True
    then show ?thesis using * by auto
  next
    case False
    then have m: "merge_into merged msg = butlast merged
        @ [(last merged) \<lparr> cm_content := merge_content (cm_content (last merged)) (cm_content msg) \<rparr>]"
      and "merged = butlast merged @ [last merged]"
      by (auto simp: merge_into_def split: if_splits)
    then have "carries merged c \<Longrightarrow> carries (butlast merged) c
        \<or> (\<exists>d. cm_content (last merged) = Some d \<and> sublist c d)"
      using carries_append [of "butlast merged" "[last merged]" c] by (auto simp: carries_def)
    then show ?thesis using * m merge_content_sublist by fastforce
  qed
qed

lemma merge_fold_carries:
  "carries merged c \<or> carries ms c \<Longrightarrow> carries (foldl merge_into merged ms) c"
proof (induction ms arbitrary: merged)
  case (Cons m ms)
  then show ?case using merge_into_carries [of merged c m] by auto
qed (simp add: carries_def)

lemma sanitize_content: "cm_content m = Some d \<Longrightarrow> cm_content (sanitize_message m) = Some d"
  by (simp add: sanitize_message_def Let_def)

lemma sanitize_carries: "carries ms c \<Longrightarrow> carries (map sanitize_message ms) c"
  unfolding carries_def set_map by (meson image_eqI sanitize_content)

text \<open>Which roles are left, and that adjacent user messages are gone.\<close>

fun no_double_user :: "message_role list \<Rightarrow> bool" where
  "no_double_user (r # s # rs) = (\<not> (r = UserRole \<and> s = UserRole) \<and> no_double_user (s # rs))"
| "no_double_user _ = True"

definition no_adjacent_users :: "'j chat_message list \<Rightarrow> bool" where
  "no_adjacent_users ms = no_double_user (map cm_role ms)"

lemma no_double_user_snoc:
  "no_double_user (rs @ [r]) \<longleftrightarrow> no_double_user rs \<and> (rs = [] \<or> \<not> (last rs = UserRole \<and> r = UserRole))"
  by (induction rs rule: no_double_user.induct) auto

lemma merge_into_roles:
  "map cm_role (merge_into merged msg) = map cm_role merged
   \<or> map cm_role (merge_into merged msg) = map cm_role merged @ [cm_role msg]
     \<and> (merged = [] \<or> \<not> (last (map cm_role merged) = UserRole \<and> cm_role msg = UserRole))"
proof (cases merged rule: rev_cases)
  case (snoc xs x)
  then show ?thesis by (auto simp: merge_into_def)
qed (simp add: merge_into_def)

lemma merge_fold_shape:
  "no_adjacent_users merged \<Longrightarrow> no_adjacent_users (foldl merge_into merged ms)
     \<and> cm_role ` set (foldl merge_into merged ms) \<subseteq> cm_role ` set merged \<union> cm_role ` set ms"
proof (induction ms arbitrary: merged)
  case (Cons m ms)
  from merge_into_roles [of merged m] have "no_adjacent_users (merge_into merged m)"
    using Cons.prems by (elim disjE conjE) (simp_all add: no_adjacent_users_def no_double_user_snoc)
  then have IH: "no_adjacent_users (foldl merge_into merged (m # ms))"
    "cm_role ` set (foldl merge_into merged (m # ms))
      \<subseteq> cm_role ` set (merge_into merged m) \<union> cm_role ` set ms"
    using Cons.IH by simp_all
  have "set (map cm_role (merge_into merged m)) \<subseteq> set (map cm_role merged @ [cm_role m])"
    using merge_into_roles [of merged m] by (elim disjE conjE) (simp_all only:, auto)
  then have "cm_role ` set (merge_into merged m) \<subseteq> cm_role ` set merged \<union> {cm_role m}" by simp
  with IH show ?case by (simp add: subset_iff) blast
qed simp

lemma prepend_roles: "prepend_first_user tx ms = Some ms' \<Longrightarrow> map cm_role ms' = map cm_role ms"
  by (induction ms arbitrary: ms') (auto split: if_splits)

lemma convert_no_system: "SystemRole \<notin> set (map cm_role (convert_system_messages ms))"
proof -
  let ?r = "filter (\<lambda>m. cm_role m \<noteq> SystemRole) ms"
  have r: "SystemRole \<notin> set (map cm_role ?r)" by auto
  show ?thesis
  proof (cases "system_parts ms = []")
    case True
    then show ?thesis using r by (simp add: convert_system_messages_def)
  next
    case False
    then show ?thesis
      using r by (cases "prepend_first_user (join PARA (system_parts ms)) ?r")
        (simp_all add: convert_system_messages_def Let_def prepend_roles del: set_map)
  qed
qed

text \<open>Normalising a conversation for a provider without system messages is safe.  If
  the tool calls of the conversation are properly answered they still are, no system
  message and no two adjacent user messages are left, and every text of the original
  appears within the text of some message.\<close>

theorem normalize_messages_safe:
  "(paired ms \<longrightarrow> paired (normalize_messages ms))
   \<and> SystemRole \<notin> cm_role ` set (normalize_messages ms)
   \<and> no_adjacent_users (normalize_messages ms)
   \<and> (\<forall>m \<in> set ms. \<forall>c. cm_content m = Some c \<longrightarrow>
        (\<exists>m' \<in> set (normalize_messages ms). \<exists>d. cm_content m' = Some d \<and> sublist c d))"
proof (intro conjI impI ballI allI)
  let ?c = "convert_system_messages ms" and ?m = "merge_consecutive_messages (convert_system_messages ms)"
  have n: "normalize_messages ms = map sanitize_message ?m"
    by (simp add: normalize_messages_def sanitize_messages_def)
  have roles: "map cm_role (map sanitize_message ?m) = map cm_role ?m" by simp
  have shape: "no_adjacent_users ?m" "cm_role ` set ?m \<subseteq> cm_role ` set ?c"
    using merge_fold_shape [of "[]" ?c] by (simp_all add: merge_consecutive_messages_def no_adjacent_users_def)
  show "paired (normalize_messages ms)" if "paired ms"
    using merge_fold_paired [of "[]" ?c] convert_paired [OF that]
    by (simp add: n paired_def paired_from_sanitize merge_consecutive_messages_def)
  show "SystemRole \<notin> cm_role ` set (normalize_messages ms)"
    using shape(2) convert_no_system [of ms] by (force simp: n)
  show "no_adjacent_users (normalize_messages ms)"
    using shape(1) unfolding n no_adjacent_users_def roles .
  show "\<exists>m' \<in> set (normalize_messages ms). \<exists>d. cm_content m' = Some d \<and> sublist c d"
    if "m \<in> set ms" "cm_content m = Some c" for m c
    using sanitize_carries merge_fold_carries [of "[]" c ?c] convert_carries [OF that]
    unfolding n merge_consecutive_messages_def carries_def [symmetric] by blast
qed

definition demo_conversation :: "unit chat_message list" where
  "demo_conversation = [msg_system ''be brief'', msg_user ''hi'', msg_user ''list'',
     msg_assistant_with_tools None [tool_call_new ''1'' ''ls'' ()] None, msg_tool_result ''1'' ''ls'' ''a b'']"

theorem normalize_messages_safe_witness:
  "paired demo_conversation \<and> paired (normalize_messages demo_conversation)"
proof -
  have "paired demo_conversation"
    by (simp add: demo_conversation_def paired_def tool_call_new_def)
  then show ?thesis using normalize_messages_safe [of demo_conversation] by blast
qed

end
