(* ===== verification/Approval_Router.thy ===== *)
theory Approval_Router
  imports Pending_Ask
begin

text \<open>
  Tool confirmations over WebSocket (channels/src/approval_router.rs and the callback of
  channels/src/websocket.rs): the router that pairs requests with responses and keeps the
  remembered decisions, and the callback the tool registry calls.  The waiting callback
  and the connection that delivers the response run concurrently; each router operation
  is atomic on its key, so a run is a sequence of operations.  The end of each oneshot
  sender is recorded as in Pending_Ask.  \<open>parse_uuid\<close> is the uuid crate's parser.
\<close>

section \<open>The router\<close>

record tool_approval_response =
  rp_request_id :: string
  rp_approved :: bool
  rp_remember :: bool

record approval_router =
  ar_pending :: "uuid \<Rightarrow> nat option"
  ar_remembered :: "string \<times> string \<Rightarrow> bool option"
  ar_outcomes :: "(nat \<times> tool_approval_response tx_outcome) list"
  ar_next :: nat

definition router_new :: approval_router where
  "router_new = \<lparr> ar_pending = (\<lambda>_. None), ar_remembered = (\<lambda>_. None), ar_outcomes = [], ar_next = 0 \<rparr>"

definition is_remembered :: "approval_router \<Rightarrow> session_key \<Rightarrow> string \<Rightarrow> bool option" where
  "is_remembered r key tool = ar_remembered r (session_key_display key, tool)"

definition remember :: "session_key \<Rightarrow> string \<Rightarrow> bool \<Rightarrow> approval_router \<Rightarrow> approval_router" where
  "remember key tool approved r =
     r \<lparr> ar_remembered := (ar_remembered r)((session_key_display key, tool) \<mapsto> approved) \<rparr>"

definition forget_session :: "session_key \<Rightarrow> approval_router \<Rightarrow> approval_router" where
  "forget_session key r =
     r \<lparr> ar_remembered := (\<lambda>k. if fst k \<noteq> session_key_display key then ar_remembered r k else None) \<rparr>"

text \<open>Taking the sender of a request out of the map, with what becomes of it.\<close>

definition end_request ::
  "uuid \<Rightarrow> tool_approval_response tx_outcome \<Rightarrow> approval_router \<Rightarrow> approval_router" where
  "end_request i oc r = (case ar_pending r i of
       Some tx \<Rightarrow> r \<lparr> ar_pending := (ar_pending r)(i := None), ar_outcomes := (tx, oc) # ar_outcomes r \<rparr>
     | None \<Rightarrow> r)"

definition register_request :: "uuid \<Rightarrow> approval_router \<Rightarrow> nat \<times> approval_router" where
  "register_request i r =
     (let r1 = end_request i SenderDropped r; tx = ar_next r1 in
      (tx, r1 \<lparr> ar_pending := (ar_pending r1)(i \<mapsto> tx), ar_next := Suc tx \<rparr>))"

definition resolve ::
  "(string \<Rightarrow> string + uuid) \<Rightarrow> tool_approval_response \<Rightarrow> approval_router \<Rightarrow> bool \<times> approval_router" where
  "resolve parse_uuid response r = (case parse_uuid (rp_request_id response) of
       Inl e \<Rightarrow> (False, r)
     | Inr i \<Rightarrow> (case ar_pending r i of
           Some _ \<Rightarrow> (True, end_request i (Sent response) r)
         | None \<Rightarrow> (False, r)))"

text \<open>\<open>elapsed\<close>: the timer has fired; the receiver is polled before it.\<close>

definition wait_for_response ::
  "uuid \<Rightarrow> bool \<Rightarrow> nat \<Rightarrow> approval_router \<Rightarrow> (string + tool_approval_response) option \<times> approval_router" where
  "wait_for_response i elapsed rx r = (case map_of (ar_outcomes r) rx of
       Some (Sent response) \<Rightarrow> (Some (Inr response), r)
     | Some SenderDropped \<Rightarrow> (Some (Inl ''Approval channel closed''), end_request i SenderDropped r)
     | None \<Rightarrow> if elapsed then (Some (Inl ''Approval timed out''), end_request i SenderDropped r)
               else (None, r))"

section \<open>The WebSocket callback\<close>

datatype ws_begin = WsDone "string + bool" | WsWaiting uuid nat

text \<open>Up to the wait: a remembered decision answers at once; otherwise the request is
  registered and sent to the session's chat.  \<open>approval_event\<close> builds the wire event.\<close>

definition ws_request_begin ::
  "(string \<Rightarrow> string + uuid) \<Rightarrow> (tool_approval_request \<Rightarrow> 'ws) \<Rightarrow> session_key \<Rightarrow> tool_approval_request
    \<Rightarrow> approval_router \<Rightarrow> ws_begin \<times> 'ws outbound_message list \<times> approval_router" where
  "ws_request_begin parse_uuid approval_event key request r =
     (case is_remembered r key (ta_tool_name request) of
        Some d \<Rightarrow> (WsDone (Inr (if d then True else False)), [], r)
      | None \<Rightarrow> (case parse_uuid (ta_id request) of
          Inl e \<Rightarrow> (WsDone (Inl (''Invalid approval request id: '' @ e)), [], r)
        | Inr i \<Rightarrow> (let (rx, r1) = register_request i r in
            (WsWaiting i rx,
             [outbound_with_ws WebSocket (sk_chat_id key) (approval_event request)], r1))))"

definition ws_request_end ::
  "session_key \<Rightarrow> tool_approval_request \<Rightarrow> uuid \<Rightarrow> nat \<Rightarrow> bool \<Rightarrow> approval_router
    \<Rightarrow> (string + bool) option \<times> approval_router" where
  "ws_request_end key request i rx elapsed r = (case wait_for_response i elapsed rx r of
       (None, r1) \<Rightarrow> (None, r1)
     | (Some (Inl e), r1) \<Rightarrow> (Some (Inl e), r1)
     | (Some (Inr response), r1) \<Rightarrow>
         (Some (Inr (rp_approved response)),
          if rp_remember response then remember key (ta_tool_name request) (rp_approved response) r1 else r1))"

section \<open>Runs\<close>

datatype router_op =
    RegisterOp uuid
  | ResolveOp tool_approval_response
  | WaitOp uuid bool nat
  | RememberOp session_key string bool
  | ForgetOp session_key

fun router_step :: "(string \<Rightarrow> string + uuid) \<Rightarrow> router_op \<Rightarrow> approval_router \<Rightarrow> approval_router" where
  "router_step pu (RegisterOp i) r = snd (register_request i r)"
| "router_step pu (ResolveOp response) r = snd (resolve pu response r)"
| "router_step pu (WaitOp i elapsed rx) r = snd (wait_for_response i elapsed rx r)"
| "router_step pu (RememberOp key tool d) r = remember key tool d r"
| "router_step pu (ForgetOp key) r = forget_session key r"

definition run_router :: "(string \<Rightarrow> string + uuid) \<Rightarrow> router_op list \<Rightarrow> approval_router \<Rightarrow> approval_router" where
  "run_router pu ops r = fold (router_step pu) ops r"

inductive router_reach :: "(string \<Rightarrow> string + uuid) \<Rightarrow> approval_router \<Rightarrow> bool" for pu where
  router_start: "router_reach pu router_new"
| router_op: "router_reach pu r \<Longrightarrow> router_reach pu (router_step pu oper r)"

section \<open>Remembered decisions\<close>

text \<open>The reference: the last decision remembered for the session and tool that no later
  \<open>forget_session\<close> of the session has erased.\<close>

fun last_decision :: "string \<Rightarrow> string \<Rightarrow> router_op list \<Rightarrow> bool option" where
  "last_decision sess tool [] = None"
| "last_decision sess tool (oper # older) = (case oper of
      RememberOp k t d \<Rightarrow> if session_key_display k = sess \<and> t = tool then Some d
                          else last_decision sess tool older
    | ForgetOp k \<Rightarrow> if session_key_display k = sess then None else last_decision sess tool older
    | _ \<Rightarrow> last_decision sess tool older)"

lemma end_request_remembered [simp]: "ar_remembered (end_request i oc r) = ar_remembered r"
  by (simp add: end_request_def split: option.split)

lemma step_remembered:
  "is_remembered (router_step pu oper r) key tool = (case oper of
      RememberOp k t d \<Rightarrow> if session_key_display k = session_key_display key \<and> t = tool then Some d
                          else is_remembered r key tool
    | ForgetOp k \<Rightarrow> if session_key_display k = session_key_display key then None else is_remembered r key tool
    | _ \<Rightarrow> is_remembered r key tool)"
  by (cases oper) (auto simp: is_remembered_def register_request_def resolve_def wait_for_response_def
      remember_def forget_session_def Let_def split: sum.split option.split tx_outcome.split)

text \<open>Remembered decisions are exact.  After any run of the router, what a request finds
  remembered for its session and tool is the last decision the user asked to remember for
  that very session and tool, unless the session was forgotten since; registering,
  answering and timing out requests never touch it, nor do other sessions and tools.\<close>

theorem remembered_is_last_decision:
  "is_remembered (run_router pu ops router_new) key tool = last_decision (session_key_display key) tool (rev ops)"
proof (induction ops rule: rev_induct)
  case Nil
  then show ?case by (simp add: run_router_def is_remembered_def router_new_def)
next
  case (snoc oper ops)
  have "run_router pu (ops @ [oper]) router_new = router_step pu oper (run_router pu ops router_new)"
    by (simp add: run_router_def)
  then show ?case using snoc by (simp add: step_remembered split: router_op.split)
qed

section \<open>Only an answer approves\<close>

definition chans_below :: "approval_router \<Rightarrow> bool" where
  "chans_below r \<longleftrightarrow> (\<forall>i tx. ar_pending r i = Some tx \<longrightarrow> tx < ar_next r)
     \<and> (\<forall>tx \<in> fst ` set (ar_outcomes r). tx < ar_next r)"

lemma chans_below_end: "chans_below r \<Longrightarrow> chans_below (end_request i oc r)"
  by (auto simp: chans_below_def end_request_def split: option.split if_splits)

lemma end_request_next [simp]: "ar_next (end_request i oc r) = ar_next r"
  by (simp add: end_request_def split: option.split)

lemma chans_below_register: "chans_below r \<Longrightarrow> chans_below (snd (register_request i r))"
  using chans_below_end [of r i SenderDropped]
  by (fastforce simp: chans_below_def register_request_def Let_def split: if_splits)

lemma chans_below_step: "chans_below r \<Longrightarrow> chans_below (router_step pu oper r)"
proof (cases oper)
  case (RememberOp k t d)
  then show "chans_below r \<Longrightarrow> ?thesis" by (simp add: chans_below_def remember_def)
next
  case (ForgetOp k)
  then show "chans_below r \<Longrightarrow> ?thesis" by (simp add: chans_below_def forget_session_def)
qed (simp_all add: chans_below_register chans_below_end resolve_def wait_for_response_def
      split: sum.split option.split tx_outcome.split)

lemma reach_below: "router_reach pu r \<Longrightarrow> chans_below r"
  by (induction rule: router_reach.induct) (simp_all add: chans_below_step, simp add: chans_below_def router_new_def)

text \<open>What holds of the channel of a request while it waits: only its own identifier maps to
  it, and an answer on it is one of the responses given to that identifier.\<close>

definition owned :: "(string \<Rightarrow> string + uuid) \<Rightarrow> uuid \<Rightarrow> nat \<Rightarrow> tool_approval_response set \<Rightarrow> approval_router \<Rightarrow> bool" where
  "owned pu i rx rs r \<longleftrightarrow> rx < ar_next r
     \<and> (\<forall>j. ar_pending r j = Some rx \<longrightarrow> j = i)
     \<and> (\<forall>resp. (rx, Sent resp) \<in> set (ar_outcomes r) \<longrightarrow> resp \<in> rs \<and> pu (rp_request_id resp) = Inr i)"

lemma owned_end:
  assumes "owned pu i rx rs r"
    and "\<And>resp. oc = Sent resp \<Longrightarrow> resp \<in> rs \<and> pu (rp_request_id resp) = Inr j"
  shows "owned pu i rx rs (end_request j oc r)"
  using assms by (auto simp: owned_def end_request_def split: option.split)

lemma owned_mono: "owned pu i rx rs r \<Longrightarrow> rs \<subseteq> rs' \<Longrightarrow> owned pu i rx rs' r"
  by (auto simp: owned_def)

fun op_response :: "router_op \<Rightarrow> tool_approval_response set" where
  "op_response (ResolveOp resp) = {resp}"
| "op_response _ = {}"

lemma owned_register: "owned pu i rx rs r \<Longrightarrow> owned pu i rx rs (snd (register_request j r))"
  using owned_end [of pu i rx rs r SenderDropped j]
  by (auto simp: register_request_def Let_def owned_def split: if_splits)

lemma owned_resolve:
  assumes "owned pu i rx rs r"
  shows "owned pu i rx (insert resp rs) (snd (resolve pu resp r))"
proof -
  have "owned pu i rx (insert resp rs) r" using owned_mono [OF assms] by blast
  then show ?thesis by (auto simp: resolve_def intro!: owned_end split: sum.split option.split)
qed

lemma owned_step:
  assumes "owned pu i rx rs r"
  shows "owned pu i rx (rs \<union> op_response oper) (router_step pu oper r)"
proof (cases oper)
  case (ResolveOp resp)
  then show ?thesis using owned_resolve [OF assms] by simp
next
  case (WaitOp j elapsed c)
  then show ?thesis using assms
    by (auto simp: wait_for_response_def intro!: owned_end split: option.split tx_outcome.split)
next
  case (RememberOp k t d)
  then show ?thesis using assms by (simp add: owned_def remember_def)
next
  case (ForgetOp k)
  then show ?thesis using assms by (simp add: owned_def forget_session_def)
qed (use assms in \<open>simp add: owned_register\<close>)

lemma owned_run:
  "owned pu i rx rs r \<Longrightarrow> owned pu i rx (rs \<union> \<Union> (op_response ` set ops)) (run_router pu ops r)"
  unfolding run_router_def
proof (induction ops arbitrary: rs r)
  case (Cons oper ops)
  have "owned pu i rx ((rs \<union> op_response oper) \<union> \<Union> (op_response ` set ops))
      (fold (router_step pu) ops (router_step pu oper r))"
    by (rule Cons.IH [OF owned_step [OF Cons.prems]])
  then show ?case by (simp add: Un_assoc)
qed simp

lemma owned_new:
  assumes "chans_below r" "register_request i r = (rx, r1)"
  shows "owned pu i rx {} r1"
proof -
  let ?r = "end_request i SenderDropped r"
  have below: "chans_below ?r" using assms(1) by (rule chans_below_end)
  have rx: "rx = ar_next ?r" "r1 = ?r \<lparr> ar_pending := (ar_pending ?r)(i \<mapsto> rx), ar_next := Suc rx \<rparr>"
    using assms(2) by (auto simp: register_request_def Let_def)
  have "(rx, Sent resp) \<notin> set (ar_outcomes ?r)" for resp
  proof
    assume "(rx, Sent resp) \<in> set (ar_outcomes ?r)"
    then have "rx \<in> fst ` set (ar_outcomes ?r)" by force
    then show False using below rx(1) unfolding chans_below_def by (metis less_irrefl)
  qed
  moreover have "ar_pending ?r j \<noteq> Some rx" for j
    using below rx(1) unfolding chans_below_def by (metis less_irrefl)
  ultimately show ?thesis unfolding rx(2) by (auto simp: owned_def split: if_splits)
qed

text \<open>C10: a tool is confirmed only by its user.  If the callback says yes, then either a yes
  was remembered for this session and tool, or, while the request was waiting, a response
  that carries this request's identifier and approves it was delivered.  No other request's
  answer, no time-out, no dropped channel and no earlier response ever turns into a yes.\<close>

theorem approval_only_by_answer:
  assumes reach: "router_reach pu r"
    and beg: "ws_request_begin pu ev key request r = (b, out, r1)"
    and yes: "b = WsDone (Inr True) \<or> (\<exists>i rx elapsed. b = WsWaiting i rx
        \<and> fst (ws_request_end key request i rx elapsed (run_router pu ops r1)) = Some (Inr True))"
  shows "is_remembered r key (ta_tool_name request) = Some True
    \<or> (is_remembered r key (ta_tool_name request) = None
       \<and> (\<exists>resp i. ResolveOp resp \<in> set ops \<and> rp_approved resp
            \<and> pu (rp_request_id resp) = Inr i \<and> pu (ta_id request) = Inr i))"
proof (cases "is_remembered r key (ta_tool_name request)")
  case None
  with beg yes obtain i rx elapsed where b: "b = WsWaiting i rx" "pu (ta_id request) = Inr i"
      "register_request i r = (rx, r1)"
    and fin: "fst (ws_request_end key request i rx elapsed (run_router pu ops r1)) = Some (Inr True)"
    by (auto simp: ws_request_begin_def split: sum.splits prod.splits)
  have own: "owned pu i rx (\<Union> (op_response ` set ops)) (run_router pu ops r1)"
    using owned_run [OF owned_new [OF reach_below [OF reach] b(3)], of pu ops] by simp
  from fin obtain resp where resp: "map_of (ar_outcomes (run_router pu ops r1)) rx = Some (Sent resp)" "rp_approved resp"
    by (auto simp: ws_request_end_def wait_for_response_def split: option.splits tx_outcome.splits if_splits)
  from map_of_SomeD [OF resp(1)] own
  have "resp \<in> \<Union> (op_response ` set ops)" "pu (rp_request_id resp) = Inr i"
    by (auto simp: owned_def)
  moreover from this(1) obtain oper where "oper \<in> set ops" "resp \<in> op_response oper" by blast
  moreover from this(2) have "oper = ResolveOp resp" by (cases oper) auto
  ultimately show ?thesis using None b(2) resp(2) by blast
next
  case (Some d)
  then show ?thesis using beg yes by (auto simp: ws_request_begin_def split: if_splits)
qed

definition demo_parse :: "string \<Rightarrow> string + uuid" where
  "demo_parse s = (if s = ''a'' then Inr 1 else if s = ''b'' then Inr 2 else Inl ''invalid'')"

definition demo_request :: tool_approval_request where
  "demo_request = \<lparr> ta_id = ''a'', ta_tool_name = ''shell'', ta_description = ''d'', ta_arguments = ''{}'' \<rparr>"

definition demo_yes :: tool_approval_response where
  "demo_yes = \<lparr> rp_request_id = ''a'', rp_approved = True, rp_remember = False \<rparr>"

definition demo_waiting :: approval_router where
  "demo_waiting = snd (register_request 1 router_new)"

theorem approval_only_by_answer_witness:
  "fst (ws_request_end demo_key demo_request 1 0 True
      (run_router demo_parse [ResolveOp (demo_yes \<lparr> rp_request_id := ''b'' \<rparr>), ResolveOp demo_yes] demo_waiting))
    = Some (Inr True)
   \<and> (\<exists>resp i. ResolveOp resp \<in> set [ResolveOp (demo_yes \<lparr> rp_request_id := ''b'' \<rparr>), ResolveOp demo_yes]
        \<and> rp_approved resp \<and> demo_parse (rp_request_id resp) = Inr i \<and> demo_parse (ta_id demo_request) = Inr i)"
proof -
  let ?ops = "[ResolveOp (demo_yes \<lparr> rp_request_id := ''b'' \<rparr>), ResolveOp demo_yes]"
  have none: "is_remembered router_new demo_key (ta_tool_name demo_request) = None"
    by (simp add: is_remembered_def router_new_def)
  have beg: "ws_request_begin demo_parse (\<lambda>_. ()) demo_key demo_request router_new
      = (WsWaiting 1 0, [outbound_with_ws WebSocket (sk_chat_id demo_key) ()], demo_waiting)"
    using none by (simp add: ws_request_begin_def demo_parse_def demo_request_def demo_waiting_def
        register_request_def end_request_def router_new_def Let_def)
  have fin: "fst (ws_request_end demo_key demo_request 1 0 True (run_router demo_parse ?ops demo_waiting))
      = Some (Inr True)"
    by (simp add: ws_request_end_def wait_for_response_def run_router_def resolve_def demo_yes_def
        demo_parse_def demo_waiting_def register_request_def end_request_def router_new_def Let_def)
  from approval_only_by_answer [OF router_start beg, of ?ops] fin none show ?thesis by auto
qed

end
