(* ===== verification/Compactor_Proofs.thy ===== *)
theory Compactor_Proofs
  imports Compactor
begin

text \<open>
  What compaction guarantees.  As long as no background run has failed, at most one task
  is active at a time and no event is ever lost to the reader; after a failure two tasks
  can overlap and an event can disappear from both the log and the summary.
\<close>

section \<open>Sessions and keys\<close>

definition proper :: "session_key \<Rightarrow> bool" where
  "proper k = (CHR '':'' \<notin> set (key_channel k))"

lemma display_key: "session_key_display k = key_channel k @ '':'' @ sk_chat_id k"
  by (simp add: session_key_display_def key_channel_def)

lemma no_colon_split:
  assumes "CHR '':'' \<notin> set a" "CHR '':'' \<notin> set a'" "a @ '':'' @ b = a' @ '':'' @ b'"
  shows "a = a' \<and> b = b'"
proof -
  have "[a, b] = splitn2 CHR '':'' (a @ '':'' @ b)" by (rule splitn2_colon [OF assms(1), symmetric])
  also have "\<dots> = [a', b']" unfolding assms(3) by (rule splitn2_colon [OF assms(2)])
  finally show ?thesis by simp
qed

lemma display_inj:
  assumes "proper k" "proper k'" "session_key_display k = session_key_display k'"
  shows "key_channel k = key_channel k' \<and> sk_chat_id k = sk_chat_id k'"
  using no_colon_split [of "key_channel k" "key_channel k'"] assms by (simp add: display_key proper_def)

lemma parsed_channel: "CHR '':'' \<notin> set (fst (parse_session_key_str s))"
proof (cases "session_key_parse s")
  case None
  then show ?thesis by (simp add: parse_session_key_str_def session_key_new_def)
next
  case (Some k)
  then obtain c i where "CHR '':'' \<notin> set c" "k = session_key_new (channel_new c) i"
    by (auto simp: session_key_parse_Some)
  then show ?thesis using Some channel_new_no_colon
    by (simp add: parse_session_key_str_def session_key_new_def)
qed

text \<open>Operations on one session leave the summaries of the others alone.\<close>

lemma summary_of_other:
  "session_key_display k' \<noteq> session_key_display k \<Longrightarrow>
     summary_of k' (snd (save_summary io now k content n d)) = summary_of k' d"
  by (simp add: summary_of_def save_summary_def split: option.split)

lemma summary_of_started: "summary_of k' (snd (mark_compaction_started io now k d)) = summary_of k' d"
proof (cases "session_key_display k' = session_key_display k")
  case True
  then have "summary_of k' d' = summary_of k d'" for d' by (simp add: summary_of_def)
  then show ?thesis by simp
qed (simp add: summary_of_def mark_compaction_started_def Let_def split: option.split)

lemma summary_of_finished: "summary_of k' (snd (mark_compaction_finished io k d)) = summary_of k' d"
proof (cases "session_key_display k' = session_key_display k")
  case True
  then have "summary_of k' d' = summary_of k d'" for d' by (simp add: summary_of_def)
  then show ?thesis by simp
qed (simp add: summary_of_def mark_compaction_finished_def split: option.split)

lemma str_replace_nonempty: "s \<noteq> [] \<Longrightarrow> p \<noteq> [] \<Longrightarrow> r \<noteq> [] \<Longrightarrow> str_replace s p r \<noteq> []"
  by (subst str_replace.simps) (auto split: list.split)

lemma redact_one_nonempty: "t \<noteq> [] \<Longrightarrow> redact_one t s \<noteq> []"
  by (cases "s = []") (auto simp: redact_one_def str_replace_nonempty REDACTED_def MIN_SECRET_LENGTH_def)

lemma persist_nonempty: "s \<noteq> [] \<Longrightarrow> summary_to_persist s vault \<noteq> []"
proof -
  have "t \<noteq> [] \<Longrightarrow> foldl redact_one t xs \<noteq> []" for t xs
    by (induction xs arbitrary: t) (auto simp: redact_one_nonempty)
  then show "s \<noteq> [] \<Longrightarrow> ?thesis" by (simp add: summary_to_persist_def redact_secrets_def)
qed

section \<open>One task at a time\<close>

definition active :: "world \<Rightarrow> nat \<Rightarrow> bool" where
  "active w n = (n < length (cw_tasks w) \<and> tk_pc (cw_tasks w ! n) \<noteq> PcEnd)"

definition no_failure :: "world \<Rightarrow> bool" where
  "no_failure w = (case cw_state w of Cooldown t \<Rightarrow> False | _ \<Rightarrow> True)"

definition exclusive :: "world \<Rightarrow> bool" where
  "exclusive w \<longleftrightarrow> (\<forall>n m. active w n \<longrightarrow> active w m \<longrightarrow> n = m)
     \<and> (\<forall>n. active w n \<longrightarrow> is_compressing (cw_state w))"

lemma exclusiveI:
  assumes "\<And>n m. active w n \<Longrightarrow> active w m \<Longrightarrow> n = m" "\<And>n. active w n \<Longrightarrow> is_compressing (cw_state w)"
  shows "exclusive w"
  unfolding exclusive_def using assms by blast

lemma active_start:
  "active (start_task (True, st) t w) n \<Longrightarrow> n = length (cw_tasks w) \<or> active w n"
  by (auto simp: active_def start_task_def nth_append split: if_splits)

lemma exclusive_start:
  assumes "exclusive w" "no_failure w" "fst r \<Longrightarrow> cw_state w = CIdle \<and> is_compressing (snd r)"
    and "\<not> fst r \<Longrightarrow> is_compressing (cw_state w) \<Longrightarrow> is_compressing (snd r)"
  shows "exclusive (start_task r t w)"
proof (cases "fst r")
  case True
  then have none: "\<not> active w n" for n using assms(1,3) by (auto simp: exclusive_def)
  obtain st where r: "r = (True, st)" using True by (cases r) auto
  have st: "cw_state (start_task r t w) = st" by (simp add: r start_task_def)
  show ?thesis
  proof (rule exclusiveI)
    fix n m
    assume "active (start_task r t w) n" "active (start_task r t w) m"
    then show "n = m" using active_start none unfolding r by blast
  next
    fix n
    show "is_compressing (cw_state (start_task r t w))" unfolding st using assms(3) True r by simp
  qed
next
  case False
  then obtain st where r: "r = (False, st)" by (cases r) auto
  have "active (start_task r t w) n = active w n" for n by (simp add: active_def start_task_def r)
  moreover have "cw_state (start_task r t w) = st" by (simp add: r start_task_def)
  ultimately show ?thesis using assms(1,4) by (auto simp: exclusive_def r)
qed

lemma task_step_state:
  assumes "task_step cd oc t w = (pc, w1)"
  shows "cw_tasks w1 = cw_tasks w"
    and "tk_pc t = PcEnd \<Longrightarrow> pc = PcEnd \<and> w1 = w"
    and "is_compressing (cw_state w) \<Longrightarrow> no_failure w1 \<Longrightarrow> pc \<noteq> PcEnd \<Longrightarrow> is_compressing (cw_state w1)"
  using assms
  by (cases "tk_pc t"; auto simp: task_step_def Let_def step_target_def step_summary_def step_events_def
      step_llm_def step_save_def step_ids_def step_delete_def step_settle_def no_failure_def
      split: option.splits sum.splits list.splits prod.splits if_splits)+

lemma exclusive_step:
  assumes ex: "exclusive w" and nf: "no_failure w" "no_failure (caction_step cd ct c a w)"
  shows "exclusive (caction_step cd ct c a w)"
proof (cases a)
  case (AppendEv ev now io)
  then show ?thesis using ex
    by (auto simp: exclusive_def active_def Let_def split: prod.splits sum.splits)
next
  case (TryCompact k tokens vault now)
  then show ?thesis using ex nf(1)
    by (auto intro!: exclusive_start simp: try_compact_state_def no_failure_def split: compactor_state.splits if_splits)
next
  case (ForceCompact k vault blocking)
  then show ?thesis using ex nf(1)
    by (cases "cw_state w") (auto intro!: exclusive_start simp: force_compact_state_def no_failure_def)
next
  case (TaskStep n oc)
  show ?thesis
  proof (cases "n < length (cw_tasks w)")
    case True
    obtain pc w1 where st: "task_step cd oc (cw_tasks w ! n) w = (pc, w1)" by fastforce
    note step = task_step_state [OF st]
    let ?w = "w1 \<lparr> cw_tasks := (cw_tasks w)[n := (cw_tasks w ! n) \<lparr> tk_pc := pc \<rparr>] \<rparr>"
    have w': "caction_step cd ct c a w = ?w" using TaskStep True st by simp
    have state: "cw_state ?w = cw_state w1" by simp
    have act: "active w m" if "active ?w m" for m
      using that step(2) True by (cases "m = n") (auto simp: active_def)
    have nf1: "no_failure w1" using nf(2) unfolding w' by (simp add: no_failure_def)
    show ?thesis unfolding w'
    proof (rule exclusiveI)
      fix m m'
      assume "active ?w m" "active ?w m'"
      then show "m = m'" using act ex unfolding exclusive_def by blast
    next
      fix m
      assume m: "active ?w m"
      then have comp: "is_compressing (cw_state w)" using act ex unfolding exclusive_def by blast
      show "is_compressing (cw_state ?w)"
      proof (cases "tk_pc (cw_tasks w ! n) = PcEnd")
        case True
        then show ?thesis using step(2) comp by simp
      next
        case False
        then have "active w n" using True by (simp add: active_def)
        then have "m = n" using act [OF m] ex unfolding exclusive_def by blast
        then have "pc \<noteq> PcEnd" using m True by (simp add: active_def)
        then show ?thesis using step(3) comp nf1 by simp
      qed
    qed
  qed (use TaskStep ex in simp)
qed

section \<open>What holds of the log and the summaries\<close>

definition base_inv :: "'j codec \<Rightarrow> event_db \<Rightarrow> bool" where
  "base_inv cd db \<longleftrightarrow> log_inv db
     \<and> (\<forall>s \<in> set (db_sessions db). 0 \<le> sv_total_events s)
     \<and> (\<forall>r \<in> set (db_events db). 0 \<le> er_sequence r \<and> er_event_type r \<noteq> ''summary''
          \<and> (\<exists>i. er_id r = cd_uuid_show cd i))"

definition next_seq :: "session_key \<Rightarrow> event_db \<Rightarrow> int" where
  "next_seq k db = next_sequence (key_channel k) (sk_chat_id k) (db_sessions db)"

definition session_set :: "session_key \<Rightarrow> event_db \<Rightarrow> event_row set" where
  "session_set k db = {r \<in> set (db_events db). in_session (key_channel k) (sk_chat_id k) r}"

lemma next_seq_bound: "log_inv db \<Longrightarrow> r \<in> session_set k db \<Longrightarrow> er_sequence r < next_seq k db"
  by (auto simp: log_inv_def session_set_def in_session_def next_seq_def)

lemma in_session_row [simp]: "in_session c' i' (row_of_event cd ct ev c i n) \<longleftrightarrow> c = c' \<and> i = i'"
  by (simp add: in_session_def row_of_event_def)

text \<open>An append to a log in order.\<close>

lemma append_effect:
  assumes base: "base_inv cd db" and app: "append_event cd ct io now ev db = (Inr seq, db', out)"
    and ty: "is_summary (se_event_type ev) = False"
    and key: "parse_session_key_str (se_session_key ev) = (c, i)"
  shows "base_inv cd db'"
    and "session_set k db' = session_set k db \<union>
      (if key_channel k = c \<and> sk_chat_id k = i then {row_of_event cd ct ev c i seq} else {})"
    and "next_seq k db \<le> next_seq k db'"
    and "key_channel k = c \<Longrightarrow> sk_chat_id k = i \<Longrightarrow> seq = next_seq k db \<and> seq < next_seq k db'"
proof -
  note ok = append_event_ok [OF app key]
  let ?ss = "insert_session (se_session_key ev) c i (cd_time_show cd now) (db_sessions db)"
  have inv: "log_inv db" using base by (simp add: base_inv_def)
  have inv': "log_inv db'" using log_inv_append [OF inv, of cd ct io now ev] app by simp
  have evs: "db_events db' = db_events db @ [row_of_event cd ct ev c i seq]" unfolding ok(4) by simp
  show set: "session_set k db' = session_set k db \<union>
      (if key_channel k = c \<and> sk_chat_id k = i then {row_of_event cd ct ev c i seq} else {})" for k
    by (auto simp: session_set_def evs)
  have nonneg: "0 \<le> next_sequence c i (db_sessions db)"
    using base by (auto simp: next_sequence_def base_inv_def find_Some_iff split: option.split)
  have tag: "event_type_tag (se_event_type ev) \<noteq> ''summary''" using ty by (cases "se_event_type ev") auto
  have "\<forall>s \<in> set ?ss. 0 \<le> sv_total_events s" using base by (auto simp: base_inv_def insert_session_def)
  then have "\<forall>s \<in> set (db_sessions db'). 0 \<le> sv_total_events s" unfolding ok(4) by (auto simp: bump_session_def)
  then show "base_inv cd db'"
    using base inv' nonneg tag ok(2) by (auto simp: base_inv_def evs row_of_event_def)
  have found: "find (session_matches c i) ?ss \<noteq> None"
    using inv key by (intro find_insert) (auto simp: log_inv_def)
  have same: "next_sequence c i (db_sessions db') = seq + 1"
    unfolding ok(4) event_db.simps next_bump_same [OF found] next_insert using ok(2) by simp
  have other: "next_sequence c' i' (db_sessions db') = next_sequence c' i' (db_sessions db)"
    if "(c', i') \<noteq> (c, i)" for c' i'
    unfolding ok(4) event_db.simps next_bump_other [OF that] next_insert ..
  show "next_seq k db \<le> next_seq k db'"
    using same other [of "key_channel k" "sk_chat_id k"] ok(2)
    by (cases "(key_channel k, sk_chat_id k) = (c, i)") (auto simp: next_seq_def)
  show "key_channel k = c \<Longrightarrow> sk_chat_id k = i \<Longrightarrow> seq = next_seq k db \<and> seq < next_seq k db'"
    using same ok(2) by (simp add: next_seq_def)
qed

text \<open>What is promised to a reader of a session, and what a running task relies on.\<close>

definition watermark_of :: "session_key \<Rightarrow> world \<Rightarrow> int" where
  "watermark_of k w = snd (summary_of k (cw_sessions w))"

definition covered :: "session_key \<Rightarrow> world \<Rightarrow> string set" where
  "covered k w = cw_covered w (session_key_display k)"

lemma visible_set:
  "visible_ids k w = er_id ` {r \<in> session_set k (cw_events w).
     watermark_of k w = 0 \<or> watermark_of k w < er_sequence r}"
  by (auto simp: visible_ids_def session_set_def watermark_of_def)

definition key_inv :: "session_key \<Rightarrow> world \<Rightarrow> bool" where
  "key_inv k w \<longleftrightarrow> nothing_lost k w
     \<and> (covered k w \<noteq> {} \<longrightarrow> fst (summary_of k (cw_sessions w)) \<noteq> [])
     \<and> (watermark_of k w = 0 \<or> watermark_of k w < next_seq k (cw_events w))"

definition rows_within :: "session_key \<Rightarrow> int \<Rightarrow> string set \<Rightarrow> world \<Rightarrow> bool" where
  "rows_within k target ids w \<longleftrightarrow> target < next_seq k (cw_events w)
     \<and> (\<forall>r \<in> session_set k (cw_events w). er_sequence r \<le> target \<longrightarrow> er_id r \<in> ids)"

fun pc_inv :: "session_key \<Rightarrow> task_pc \<Rightarrow> world \<Rightarrow> bool" where
  "pc_inv k (PcSummary f target) w = (target = 0 \<or> target < next_seq k (cw_events w))"
| "pc_inv k (PcEvents f target ex cov) w =
     ((target = 0 \<or> target < next_seq k (cw_events w)) \<and> covered k w \<subseteq> cov)"
| "pc_inv k (PcLlm f target body cov) w = (covered k w \<subseteq> cov \<and> rows_within k target cov w)"
| "pc_inv k (PcSave f target summary cov) w =
     (covered k w \<subseteq> cov \<and> rows_within k target cov w \<and> summary \<noteq> [])"
| "pc_inv k (PcIds f target) w = rows_within k target (covered k w) w"
| "pc_inv k (PcDelete f target ids) w = rows_within k target (covered k w) w"
| "pc_inv k _ w = True"

definition cinv :: "'j codec \<Rightarrow> world \<Rightarrow> bool" where
  "cinv cd w \<longleftrightarrow> base_inv cd (cw_events w) \<and> exclusive w
     \<and> (\<forall>k. proper k \<longrightarrow> key_inv k w)
     \<and> (\<forall>t \<in> set (cw_tasks w). proper (tk_session t) \<and> pc_inv (tk_session t) (tk_pc t) w)"

section \<open>Steps that keep the promise\<close>

lemma key_inv_cong:
  assumes "cw_events w' = cw_events w" "cw_appended w' = cw_appended w" "cw_covered w' = cw_covered w"
    and "\<And>k. summary_of k (cw_sessions w') = summary_of k (cw_sessions w)"
  shows "key_inv k w' = key_inv k w"
  by (simp add: key_inv_def nothing_lost_def visible_ids_def covered_def watermark_of_def assms)

lemma pc_inv_cong:
  "cw_events w' = cw_events w \<Longrightarrow> cw_covered w' = cw_covered w \<Longrightarrow> pc_inv k pc w' = pc_inv k pc w"
  by (cases pc) (simp_all add: covered_def rows_within_def)

lemma pc_inv_mono:
  assumes "pc_inv k pc w" "covered k w' = covered k w" "next_seq k (cw_events w) \<le> next_seq k (cw_events w')"
    and "\<And>r. r \<in> session_set k (cw_events w') \<Longrightarrow>
      r \<in> session_set k (cw_events w) \<or> next_seq k (cw_events w) \<le> er_sequence r"
  shows "pc_inv k pc w'"
proof -
  have within: "rows_within k target ids w'" if r: "rows_within k target ids w" for target ids
  proof -
    have t: "target < next_seq k (cw_events w)" using r by (simp add: rows_within_def)
    have "er_id x \<in> ids" if x: "x \<in> session_set k (cw_events w')" "er_sequence x \<le> target" for x
    proof -
      have "x \<in> session_set k (cw_events w)" using assms(4) [OF x(1)] x(2) t by linarith
      then show ?thesis using r x(2) by (simp add: rows_within_def)
    qed
    then show ?thesis using t assms(3) by (simp add: rows_within_def)
  qed
  show ?thesis using assms(1-3) within by (cases pc) auto
qed

lemma key_inv_append:
  assumes "proper k" and inv: "key_inv k w" "base_inv cd (cw_events w)"
    and app: "append_event cd ct io now ev (cw_events w) = (Inr seq, db', out)"
    and ty: "is_summary (se_event_type ev) = False"
    and key: "parse_session_key_str (se_session_key ev) = (c, i)"
    and w': "cw_events w' = db'" "cw_sessions w' = cw_sessions w" "cw_covered w' = cw_covered w"
      "cw_appended w' = (cw_appended w)(c @ '':'' @ i :=
         insert (cd_uuid_show cd (se_id ev)) (cw_appended w (c @ '':'' @ i)))"
  shows "key_inv k w'"
proof -
  note eff = append_effect [OF inv(2) app ty key]
  have same: "watermark_of k w' = watermark_of k w" "covered k w' = covered k w"
    by (simp_all add: watermark_of_def covered_def w')
  have wm: "watermark_of k w = 0 \<or> watermark_of k w < next_seq k (cw_events w)"
    using inv(1) by (simp add: key_inv_def)
  have vis: "visible_ids k w \<subseteq> visible_ids k w'"
    using eff(2) [of k] by (auto simp: visible_set same w')
  have "nothing_lost k w'"
  proof (cases "key_channel k = c \<and> sk_chat_id k = i")
    case True
    let ?row = "row_of_event cd ct ev c i seq"
    have "?row \<in> session_set k db'" using eff(2) [of k] True by simp
    moreover have "er_sequence ?row = seq" "er_id ?row = cd_uuid_show cd (se_id ev)" by (simp_all add: row_of_event_def)
    moreover have "seq = next_seq k (cw_events w)" using eff(4) [of k] True by simp
    ultimately have "cd_uuid_show cd (se_id ev) \<in> visible_ids k w'"
      using wm by (auto simp: visible_set same w' image_iff intro!: bexI [of _ ?row])
    moreover have "session_key_display k = c @ '':'' @ i" using True by (simp add: display_key)
    ultimately show ?thesis using inv(1) vis by (auto simp: key_inv_def nothing_lost_def w')
  next
    case False
    have "CHR '':'' \<notin> set c" using parsed_channel [of "se_session_key ev"] key by simp
    then have "session_key_display k \<noteq> c @ '':'' @ i"
      using False no_colon_split [of "key_channel k" c] assms(1) by (auto simp: display_key proper_def)
    then show ?thesis using inv(1) vis by (auto simp: key_inv_def nothing_lost_def w')
  qed
  then show ?thesis using inv(1) eff(3) [of k] wm by (auto simp: key_inv_def same w')
qed

text \<open>The step that loads the events: every row up to the target is in the model's input.\<close>

lemma collect_res_set: "collect_res (map f xs) = Inr ys \<Longrightarrow> x \<in> set xs \<Longrightarrow> \<exists>y \<in> set ys. f x = Inr y"
proof (induction xs arbitrary: ys)
  case (Cons a xs)
  then show ?case by (cases "f a") (auto simp: bind_res_Inr_iff)
qed simp

lemma event_of_row_id: "event_of_row cd now r = Inr e \<Longrightarrow> cd_uuid_parse cd (er_id r) = Some (se_id e)"
  by (auto simp: event_of_row_def bind_res_Inr_iff Let_def split: option.splits)

lemma loaded_rows:
  assumes base: "base_inv cd db" and uuid: "\<forall>i. cd_uuid_parse cd (cd_uuid_show cd i) = Some i"
    and load: "get_events_up_to_sequence cd now k target db = Inr events"
    and r: "r \<in> session_set k db" "er_sequence r \<le> target"
  shows "er_id r \<in> (\<lambda>e. cd_uuid_show cd (se_id e)) ` set events"
proof -
  have "r \<in> set (session_rows k db)" using r(1) by (simp add: session_set_def session_rows_def)
  moreover have "er_event_type r \<noteq> ''summary''" and id: "\<exists>i. er_id r = cd_uuid_show cd i"
    using base r(1) by (auto simp: base_inv_def session_set_def)
  ultimately have "r \<in> set (filter (\<lambda>r. er_sequence r \<le> target \<and> er_event_type r \<noteq> ''summary'') (session_rows k db))"
    using r(2) by simp
  from collect_res_set [OF load [unfolded get_events_up_to_sequence_def events_of_rows_def] this]
  obtain e where e: "e \<in> set events" "event_of_row cd now r = Inr e" by blast
  from event_of_row_id [OF e(2)] id uuid have "er_id r = cd_uuid_show cd (se_id e)" by auto
  then show ?thesis using e(1) by blast
qed

lemma loaded_nonempty:
  assumes "base_inv cd db" "get_events_up_to_sequence cd now k target db = Inr (e # es)"
    and "target = 0 \<or> target < next_seq k db"
  shows "target < next_seq k db"
proof -
  have "set (filter (\<lambda>r. er_sequence r \<le> target \<and> er_event_type r \<noteq> ''summary'') (session_rows k db)) \<noteq> {}"
    using assms(2) by (auto simp: get_events_up_to_sequence_def events_of_rows_def simp del: set_filter)
  then obtain r where r: "r \<in> session_set k db" by (auto simp: session_set_def session_rows_def)
  then have "er_sequence r < next_seq k db" "0 \<le> er_sequence r"
    using next_seq_bound [of db r k] assms(1) by (auto simp: base_inv_def session_set_def)
  then show ?thesis using assms(3) by linarith
qed

lemma max_sequence_bound:
  assumes "base_inv cd db"
  shows "get_max_sequence k db = 0 \<or> get_max_sequence k db < next_seq k db"
proof (cases "filter (in_session (key_channel k) (sk_chat_id k)) (db_events db)")
  case (Cons a rows)
  let ?S = "set (map er_sequence (a # rows))"
  have "Max ?S \<in> ?S" by (rule Max_in) simp_all
  then obtain r where r: "r \<in> set (a # rows)" "Max ?S = er_sequence r" by auto
  moreover have "session_set k db = set (a # rows)"
    unfolding Cons [symmetric] by (simp add: session_set_def)
  ultimately have "r \<in> session_set k db" by simp
  moreover have "log_inv db" using assms by (simp add: base_inv_def)
  ultimately have "er_sequence r < next_seq k db" by (rule next_seq_bound [rotated])
  moreover have "get_max_sequence k db = Max ?S" unfolding get_max_sequence_def Cons by simp
  ultimately show ?thesis using r(2) by simp
qed (simp add: get_max_sequence_def)

lemma session_set_delete:
  "session_set k' (db \<lparr> db_events := filter (\<lambda>r. \<not> (in_session (key_channel k) (sk_chat_id k) r \<and> er_sequence r \<le> n))
      (db_events db) \<rparr>)
   = {r \<in> session_set k' db. key_channel k' = key_channel k \<and> sk_chat_id k' = sk_chat_id k \<longrightarrow> n < er_sequence r}"
  by (auto simp: session_set_def in_session_def)

lemma key_inv_delete:
  assumes "key_inv k' w" "proper k" "proper k'" "rows_within k target (covered k w) w"
    and w': "cw_events w' = (cw_events w) \<lparr> db_events := filter (\<lambda>r. \<not> (in_session (key_channel k) (sk_chat_id k) r
        \<and> er_sequence r \<le> target)) (db_events (cw_events w)) \<rparr>"
      "cw_sessions w' = cw_sessions w" "cw_covered w' = cw_covered w" "cw_appended w' = cw_appended w"
  shows "key_inv k' w'"
proof -
  have same: "watermark_of k' w' = watermark_of k' w" "covered k' w' = covered k' w"
    "next_seq k' (cw_events w') = next_seq k' (cw_events w)"
    by (simp_all add: watermark_of_def covered_def next_seq_def w')
  have "visible_ids k' w \<subseteq> visible_ids k' w' \<union> covered k' w"
  proof
    fix x
    assume "x \<in> visible_ids k' w"
    then obtain r where r: "r \<in> session_set k' (cw_events w)" "x = er_id r"
      "watermark_of k' w = 0 \<or> watermark_of k' w < er_sequence r" by (auto simp: visible_set)
    show "x \<in> visible_ids k' w' \<union> covered k' w"
    proof (cases "r \<in> session_set k' (cw_events w')")
      case True
      then show ?thesis using r by (auto simp: visible_set same)
    next
      case False
      then have k: "key_channel k' = key_channel k" "sk_chat_id k' = sk_chat_id k" and "er_sequence r \<le> target"
        using r(1) unfolding w'(1) session_set_delete by auto
      moreover have "session_set k' (cw_events w) = session_set k (cw_events w)" "covered k' w = covered k w"
        using k by (simp_all add: session_set_def covered_def display_key)
      ultimately show ?thesis using assms(4) r by (auto simp: rows_within_def)
    qed
  qed
  then show ?thesis
    using assms(1) by (auto simp: key_inv_def nothing_lost_def same w'(2,4) covered_def w'(3))
qed

lemma key_inv_save:
  assumes "key_inv k' w" "proper k" "proper k'" "covered k w \<subseteq> cov" "rows_within k target cov w" "content \<noteq> []"
    and w': "cw_events w' = cw_events w" "cw_appended w' = cw_appended w"
      "cw_covered w' = (cw_covered w)(session_key_display k := cov)"
      "cw_sessions w' = snd (save_summary None stamp k content target (cw_sessions w))"
  shows "key_inv k' w'"
proof (cases "session_key_display k' = session_key_display k")
  case True
  with display_inj [OF assms(3,2)] have k: "key_channel k' = key_channel k" "sk_chat_id k' = sk_chat_id k" by auto
  have sum: "summary_of k' (cw_sessions w') = (content, target)"
    unfolding w'(4) using True summary_of_save [of k stamp content target "cw_sessions w"] by (simp add: summary_of_def)
  then have wm: "watermark_of k' w' = target" by (simp add: watermark_of_def)
  have sets: "session_set k' (cw_events w') = session_set k (cw_events w)" using k by (simp add: session_set_def w'(1))
  have cov: "covered k' w' = cov" "covered k' w = covered k w" using True by (simp_all add: covered_def w'(3))
  have "visible_ids k' w \<subseteq> visible_ids k' w' \<union> cov"
  proof
    fix x
    assume "x \<in> visible_ids k' w"
    then obtain r where r: "r \<in> session_set k (cw_events w)" "x = er_id r"
      using k by (auto simp: visible_set session_set_def)
    show "x \<in> visible_ids k' w' \<union> cov"
    proof (cases "er_sequence r \<le> target")
      case True
      then show ?thesis using assms(5) r by (auto simp: rows_within_def)
    next
      case False
      then have "x \<in> visible_ids k' w'" using r unfolding visible_set sets wm by auto
      then show ?thesis by simp
    qed
  qed
  then have "nothing_lost k' w'"
    using assms(1,4) cov True by (auto simp: key_inv_def nothing_lost_def w'(2,3) covered_def)
  moreover have "target < next_seq k' (cw_events w')"
    using assms(5) k by (simp add: rows_within_def next_seq_def w'(1))
  ultimately show ?thesis using sum wm assms(6) by (simp add: key_inv_def)
next
  case False
  have "summary_of k' (cw_sessions w') = summary_of k' (cw_sessions w)"
    unfolding w'(4) by (rule summary_of_other [OF False])
  then show ?thesis using assms(1) False
    by (simp add: key_inv_def nothing_lost_def visible_ids_def covered_def watermark_of_def w'(1-3))
qed

lemma base_inv_delete:
  assumes "base_inv cd db"
  shows "base_inv cd (db \<lparr> db_events := filter Q (db_events db) \<rparr>)"
proof -
  have "log_inv (db \<lparr> db_events := filter Q (db_events db) \<rparr>)"
    using assms by (simp add: base_inv_def log_inv_filter_events)
  then show ?thesis using assms by (simp add: base_inv_def)
qed

text \<open>The promise of one session key at a time: what each kind of step changes.\<close>

definition keeps :: "'j codec \<Rightarrow> session_key \<Rightarrow> task_pc \<Rightarrow> world \<Rightarrow> world \<Rightarrow> bool" where
  "keeps cd k pc w w' \<longleftrightarrow> base_inv cd (cw_events w') \<and> (\<forall>k'. proper k' \<longrightarrow> key_inv k' w') \<and> pc_inv k pc w'"

lemma keeps_same:
  assumes "base_inv cd (cw_events w)" "\<forall>k'. proper k' \<longrightarrow> key_inv k' w" "pc_inv k pc w"
    and "cw_events w' = cw_events w" "cw_appended w' = cw_appended w" "cw_covered w' = cw_covered w"
    and "\<And>k. summary_of k (cw_sessions w') = summary_of k (cw_sessions w)"
  shows "keeps cd k pc w w'"
proof -
  have "pc_inv k pc w'" using pc_inv_cong [of w' w k pc] assms(3,4,6) by simp
  moreover have "\<forall>k'. proper k' \<longrightarrow> key_inv k' w'" using key_inv_cong [of w' w] assms(2,4-7) by simp
  ultimately show ?thesis using assms(1,4) by (simp add: keeps_def)
qed

lemma step_summary_keeps:
  assumes "base_inv cd (cw_events w)" "\<forall>k'. proper k' \<longrightarrow> key_inv k' w" "proper k"
    and "pc_inv k (PcSummary f target) w" "step_summary oc k f target w = (pc, w')"
  shows "keeps cd k pc w w'"
proof (cases "load_summary (oc_io oc) k (cw_sessions w)")
  case (Inl e)
  then show ?thesis using assms by (auto simp: step_summary_def intro!: keeps_same)
next
  case (Inr row)
  then have "oc_io oc = None" by (cases "oc_io oc") (simp_all add: load_summary_def)
  with Inr have sum: "summary_of k (cw_sessions w) = (case row of Some (c, wm) \<Rightarrow> (c, wm) | None \<Rightarrow> ([], 0))"
    using load_summary_of [of k "cw_sessions w" row] by simp
  have "key_inv k w" using assms(2,3) by blast
  then have "covered k w \<noteq> {} \<longrightarrow> fst (summary_of k (cw_sessions w)) \<noteq> []" by (simp add: key_inv_def)
  then have "covered k w \<subseteq> (case row of Some (c, _) \<Rightarrow> if c \<noteq> [] then cw_covered w (session_key_display k) else {}
      | None \<Rightarrow> {})"
    using sum by (auto simp: covered_def split: option.splits prod.splits)
  then show ?thesis
    using assms Inr by (auto simp: step_summary_def intro!: keeps_same)
qed

lemma step_events_keeps:
  assumes "base_inv cd (cw_events w)" "\<forall>k'. proper k' \<longrightarrow> key_inv k' w"
    and uuid: "\<forall>i. cd_uuid_parse cd (cd_uuid_show cd i) = Some i"
    and "pc_inv k (PcEvents f target ex cov) w" "step_events cd oc k f target ex cov w = (pc, w')"
  shows "keeps cd k pc w w'"
proof (cases "oc_io oc")
  case None
  show ?thesis
  proof (cases "get_events_up_to_sequence cd (oc_now oc) k target (cw_events w)")
    case (Inl e)
    then show ?thesis using assms None by (auto simp: step_events_def intro!: keeps_same)
  next
    case (Inr events)
    show ?thesis
    proof (cases events)
      case Nil
      then show ?thesis using assms None Inr by (auto simp: step_events_def intro!: keeps_same)
    next
      case (Cons e es)
      have "target < next_seq k (cw_events w)"
        using loaded_nonempty [OF assms(1) Inr [unfolded Cons]] assms(4) by simp
      moreover have "\<forall>r \<in> session_set k (cw_events w). er_sequence r \<le> target \<longrightarrow>
          er_id r \<in> (\<lambda>e. cd_uuid_show cd (se_id e)) ` set events"
        using loaded_rows [OF assms(1) uuid Inr] by blast
      ultimately have "rows_within k target (cov \<union> (\<lambda>e. cd_uuid_show cd (se_id e)) ` set events) w"
        by (auto simp: rows_within_def)
      moreover have "pc = PcLlm f target (build_context_text ex events)
          (cov \<union> (\<lambda>e. cd_uuid_show cd (se_id e)) ` set events)" "w' = w"
        using assms(5) None Inr Cons by (auto simp: step_events_def)
      ultimately show ?thesis using assms(1,2,4) by (auto intro!: keeps_same)
    qed
  qed
next
  case (Some e)
  then show ?thesis using assms by (auto simp: step_events_def intro!: keeps_same)
qed

lemma step_save_keeps:
  assumes "base_inv cd (cw_events w)" "\<forall>k'. proper k' \<longrightarrow> key_inv k' w" "proper k"
    and pre: "pc_inv k (PcSave f target summary cov) w" "step_save oc k vault f target summary cov w = (pc, w')"
  shows "keeps cd k pc w w'"
proof (cases "oc_io oc")
  case None
  let ?content = "summary_to_persist summary vault"
  have w': "pc = PcIds f target" "cw_events w' = cw_events w" "cw_appended w' = cw_appended w"
      "cw_covered w' = (cw_covered w)(session_key_display k := cov)"
      "cw_sessions w' = snd (save_summary None (oc_stamp oc) k ?content target (cw_sessions w))"
    using pre(2) None by (auto simp: step_save_def save_summary_def)
  have facts: "covered k w \<subseteq> cov" "rows_within k target cov w" "?content \<noteq> []"
    using pre(1) persist_nonempty by auto
  have "\<forall>k'. proper k' \<longrightarrow> key_inv k' w'"
    using key_inv_save [OF _ assms(3) _ facts w'(2-5)] assms(2) by blast
  moreover have "rows_within k target (covered k w') w'"
    using facts(2) by (simp add: rows_within_def covered_def w'(2,4))
  ultimately show ?thesis using assms(1) by (simp add: keeps_def w'(1,2))
next
  case (Some e)
  then show ?thesis using assms by (auto simp: step_save_def save_summary_def intro!: keeps_same)
qed

lemma step_delete_keeps:
  assumes "base_inv cd (cw_events w)" "\<forall>k'. proper k' \<longrightarrow> key_inv k' w" "proper k"
    and pre: "pc_inv k (PcDelete f target ids) w" "step_delete oc k f target ids w = (pc, w')"
  shows "keeps cd k pc w w'"
proof (cases "oc_io oc")
  case None
  let ?Q = "\<lambda>r. \<not> (in_session (key_channel k) (sk_chat_id k) r \<and> er_sequence r \<le> target)"
  have w': "pc = PcSettle f (Inr ())"
      "cw_events w' = (cw_events w) \<lparr> db_events := filter ?Q (db_events (cw_events w)) \<rparr>"
      "cw_sessions w' = cw_sessions w" "cw_covered w' = cw_covered w" "cw_appended w' = cw_appended w"
    using pre(2) None by (auto simp: step_delete_def delete_events_upto_def Let_def)
  have "rows_within k target (covered k w) w" using pre(1) by simp
  then have "\<forall>k'. proper k' \<longrightarrow> key_inv k' w'"
    using key_inv_delete [OF _ assms(3) _ _ w'(2-5)] assms(2) by blast
  moreover have "base_inv cd (cw_events w')" unfolding w'(2) using assms(1) by (rule base_inv_delete)
  ultimately show ?thesis by (simp add: keeps_def w'(1))
next
  case (Some e)
  then show ?thesis using assms by (auto simp: step_delete_def delete_events_upto_def intro!: keeps_same)
qed

lemma task_step_keeps:
  assumes inv: "base_inv cd (cw_events w)" "\<forall>k'. proper k' \<longrightarrow> key_inv k' w" "proper (tk_session t)"
    and uuid: "\<forall>i. cd_uuid_parse cd (cd_uuid_show cd i) = Some i"
    and pre: "pc_inv (tk_session t) (tk_pc t) w" "task_step cd oc t w = (pc, w')"
  shows "keeps cd (tk_session t) pc w w'"
proof (cases "tk_pc t")
  case (PcTarget f)
  then show ?thesis using assms max_sequence_bound [OF inv(1), of "tk_session t"]
    by (auto simp: task_step_def step_target_def intro!: keeps_same)
next
  case (PcSummary f target)
  then show ?thesis using step_summary_keeps [OF inv] pre by (simp add: task_step_def)
next
  case (PcEvents f target ex cov)
  then show ?thesis using step_events_keeps [OF inv(1,2) uuid] pre by (simp add: task_step_def)
next
  case (PcLlm f target body cov)
  then show ?thesis using assms
    by (auto simp: task_step_def step_llm_def Let_def intro!: keeps_same split: sum.splits if_splits)
next
  case (PcSave f target summary cov)
  then show ?thesis using step_save_keeps [OF inv] pre by (simp add: task_step_def)
next
  case (PcIds f target)
  then show ?thesis using assms by (auto simp: task_step_def step_ids_def intro!: keeps_same)
next
  case (PcDelete f target ids)
  then show ?thesis using step_delete_keeps [OF inv] pre by (simp add: task_step_def)
next
  case (PcSettle f r)
  then show ?thesis using assms
    by (auto simp: task_step_def step_settle_def intro!: keeps_same split: sum.splits if_splits)
qed (use assms in \<open>auto simp: task_step_def summary_of_started summary_of_finished intro!: keeps_same\<close>)

section \<open>Runs without a failed background compaction\<close>

text \<open>Actions of the program: messages are appended (no code appends a summary event), and
  compactions run for keys as parsing makes them, without a colon in the channel.\<close>

fun ok_action :: "'j caction \<Rightarrow> bool" where
  "ok_action (AppendEv ev now io) = (\<not> is_summary (se_event_type ev))"
| "ok_action (TryCompact k tokens vault now) = proper k"
| "ok_action (ForceCompact k vault blocking) = proper k"
| "ok_action (TaskStep n oc) = True"

fun calm_run :: "'j codec \<Rightarrow> (string \<Rightarrow> nat) \<Rightarrow> compactor \<Rightarrow> 'j caction list \<Rightarrow> world \<Rightarrow> bool" where
  "calm_run cd ct c [] w = True"
| "calm_run cd ct c (a # as) w =
     (ok_action a \<and> no_failure (caction_step cd ct c a w) \<and> calm_run cd ct c as (caction_step cd ct c a w))"

lemma cinv_new: "cinv cd world_new"
  by (auto simp: cinv_def world_new_def base_inv_def log_inv_def exclusive_def active_def key_inv_def
      nothing_lost_def covered_def watermark_of_def summary_of_def session_db_new_def)

lemma cinv_start:
  assumes "cinv cd w" "exclusive (start_task r (new_task k vault b) w)" "proper k"
  shows "cinv cd (start_task r (new_task k vault b) w)"
proof -
  let ?w = "start_task r (new_task k vault b) w"
  have same: "cw_events ?w = cw_events w" "cw_appended ?w = cw_appended w" "cw_covered ?w = cw_covered w"
    "cw_sessions ?w = cw_sessions w"
    by (cases r; simp add: start_task_def)+
  have tasks: "set (cw_tasks ?w) \<subseteq> insert (new_task k vault b) (set (cw_tasks w))"
    by (cases r) (auto simp: start_task_def)
  have key: "key_inv k' ?w = key_inv k' w" for k' by (rule key_inv_cong) (simp_all add: same)
  have pc: "pc_inv k' pc ?w = pc_inv k' pc w" for k' pc by (rule pc_inv_cong) (simp_all add: same)
  have "\<forall>t \<in> set (cw_tasks ?w). proper (tk_session t) \<and> pc_inv (tk_session t) (tk_pc t) w"
    using tasks assms(1,3) by (auto simp: cinv_def new_task_def)
  then show ?thesis using assms(1,2) by (simp add: cinv_def same key pc)
qed

lemma cinv_append:
  assumes inv: "cinv cd w" and ty: "\<not> is_summary (se_event_type ev)"
  shows "cinv cd (caction_step cd ct c (AppendEv ev now io) w)"
proof -
  obtain r db out where app: "append_event cd ct io now ev (cw_events w) = (r, db, out)" by (metis prod.exhaust)
  obtain ch i where key: "parse_session_key_str (se_session_key ev) = (ch, i)" by fastforce
  show ?thesis
  proof (cases r)
    case (Inl e)
    then show ?thesis using app inv by simp
  next
    case (Inr seq)
    let ?w = "caction_step cd ct c (AppendEv ev now io) w"
    have base: "base_inv cd (cw_events w)" using inv by (simp add: cinv_def)
    have ty': "is_summary (se_event_type ev) = False" using ty by simp
    note eff = append_effect [OF base app [unfolded Inr] ty' key]
    have w': "cw_events ?w = db" "cw_sessions ?w = cw_sessions w" "cw_covered ?w = cw_covered w"
      "cw_appended ?w = (cw_appended w)(ch @ '':'' @ i :=
         insert (cd_uuid_show cd (se_id ev)) (cw_appended w (ch @ '':'' @ i)))"
      "cw_tasks ?w = cw_tasks w" "cw_state ?w = cw_state w"
      using app key Inr by (simp_all add: Let_def)
    have "key_inv k ?w" if "proper k" for k
      using inv that by (intro key_inv_append [OF that _ base app [unfolded Inr] ty' key w'(1-4)]) (simp add: cinv_def)
    moreover have "pc_inv (tk_session t) (tk_pc t) ?w" if "t \<in> set (cw_tasks w)" for t
    proof (rule pc_inv_mono)
      show "pc_inv (tk_session t) (tk_pc t) w" using inv that by (simp add: cinv_def)
      show "covered (tk_session t) ?w = covered (tk_session t) w" by (simp only: covered_def w'(3))
      show "next_seq (tk_session t) (cw_events w) \<le> next_seq (tk_session t) (cw_events ?w)"
        unfolding w'(1) by (rule eff(3))
      fix x
      assume "x \<in> session_set (tk_session t) (cw_events ?w)"
      then show "x \<in> session_set (tk_session t) (cw_events w) \<or> next_seq (tk_session t) (cw_events w) \<le> er_sequence x"
        unfolding w'(1) using eff(2) [of "tk_session t"] eff(4) [of "tk_session t"]
        by (auto simp: row_of_event_def split: if_splits)
    qed
    moreover have "exclusive w" using inv by (simp add: cinv_def)
    then have "exclusive ?w" by (simp only: exclusive_def active_def w'(5,6))
    ultimately show ?thesis using inv eff(1) unfolding cinv_def w'(1,5) by blast
  qed
qed

lemma cinv_task:
  assumes inv: "cinv cd w" and uuid: "\<forall>i. cd_uuid_parse cd (cd_uuid_show cd i) = Some i"
    and ex: "exclusive (caction_step cd ct c (TaskStep n oc) w)"
  shows "cinv cd (caction_step cd ct c (TaskStep n oc) w)"
proof (cases "n < length (cw_tasks w)")
  case True
  let ?t = "cw_tasks w ! n" and ?w = "caction_step cd ct c (TaskStep n oc) w"
  have t: "?t \<in> set (cw_tasks w)" using True by simp
  obtain pc w1 where st: "task_step cd oc ?t w = (pc, w1)" by fastforce
  have w': "?w = w1 \<lparr> cw_tasks := (cw_tasks w)[n := ?t \<lparr> tk_pc := pc \<rparr>] \<rparr>" using True st by simp
  have "base_inv cd (cw_events w)" "\<forall>k'. proper k' \<longrightarrow> key_inv k' w" "proper (tk_session ?t)"
    "pc_inv (tk_session ?t) (tk_pc ?t) w"
    using inv t by (auto simp: cinv_def)
  from task_step_keeps [OF this(1-3) uuid this(4) st]
  have keeps: "keeps cd (tk_session ?t) pc w w1" .
  have same: "cw_events ?w = cw_events w1" "cw_appended ?w = cw_appended w1" "cw_covered ?w = cw_covered w1"
    "cw_sessions ?w = cw_sessions w1" unfolding w' by simp_all
  have key: "key_inv k ?w = key_inv k w1" for k by (rule key_inv_cong) (simp_all only: same)
  have pcs: "pc_inv k q ?w = pc_inv k q w1" for k q by (rule pc_inv_cong) (simp_all only: same)
  have "proper (tk_session t') \<and> pc_inv (tk_session t') (tk_pc t') ?w" if t': "t' \<in> set (cw_tasks ?w)" for t'
  proof -
    from t' obtain m where m: "m < length (cw_tasks w)" "t' = (cw_tasks w)[n := ?t \<lparr> tk_pc := pc \<rparr>] ! m"
      unfolding w' by (auto simp: in_set_conv_nth)
    show ?thesis
    proof (cases "m = n")
      case True
      then show ?thesis unfolding pcs using m keeps \<open>proper (tk_session ?t)\<close> by (simp add: keeps_def)
    next
      case False
      then have t'm: "t' = cw_tasks w ! m" using m by simp
      then have p: "proper (tk_session t')" using inv m(1) by (simp add: cinv_def)
      show ?thesis
      proof (cases "tk_pc t' = PcEnd")
        case True
        then show ?thesis using p by simp
      next
        case alive: False
        then have "active w m" using t'm m(1) by (simp add: active_def)
        then have "\<not> active w n" using inv False unfolding cinv_def exclusive_def by blast
        then have "tk_pc ?t = PcEnd" using True by (simp add: active_def)
        then have "w1 = w" using task_step_state(2) [OF st] by simp
        then show ?thesis unfolding pcs using inv p m(1) t'm by (simp add: cinv_def)
      qed
    qed
  qed
  then show ?thesis using keeps ex unfolding cinv_def keeps_def key same(1) by blast
qed (use inv in simp)

lemma calm_cinv:
  assumes uuid: "\<forall>i. cd_uuid_parse cd (cd_uuid_show cd i) = Some i"
    and "cinv cd w" "no_failure w" "calm_run cd ct c acts w"
  shows "cinv cd (run_actions cd ct c acts w)"
  using assms(2-4)
proof (induction acts arbitrary: w)
  case (Cons a as)
  let ?w = "caction_step cd ct c a w"
  have ok: "ok_action a" "no_failure ?w" "calm_run cd ct c as ?w" using Cons.prems(3) by simp_all
  have "exclusive w" using Cons.prems(1) by (simp add: cinv_def)
  then have ex: "exclusive ?w" using Cons.prems(2) ok(2) by (rule exclusive_step)
  have "cinv cd ?w"
  proof (cases a)
    case (AppendEv ev now io)
    then show ?thesis using cinv_append [OF Cons.prems(1)] ok(1) by simp
  next
    case (TryCompact k tokens vault now)
    then show ?thesis using cinv_start [OF Cons.prems(1)] ex ok(1) by simp
  next
    case (ForceCompact k vault blocking)
    then show ?thesis using cinv_start [OF Cons.prems(1)] ex ok(1) by simp
  next
    case (TaskStep n oc)
    then show ?thesis using cinv_task [OF Cons.prems(1) uuid] ex by simp
  qed
  from Cons.IH [OF this ok(2,3)] show ?case by (simp add: run_actions_def)
qed (simp add: run_actions_def)

text \<open>C5: compaction loses nothing.  Take any interleaving of appended messages, compaction
  requests of every kind for any sessions, and steps of the compaction tasks, with the
  database and the model answering or failing at any step, in which no background run ends
  in failure.  At every point at most one task is active, and every message ever appended to
  a session is either still visible to the reader of the session, after the summary's
  watermark, or was part of the text from which the session's stored summary was made.\<close>

theorem compaction_loses_nothing:
  assumes "\<forall>i. cd_uuid_parse cd (cd_uuid_show cd i) = Some i"
    and "calm_run cd ct c acts world_new" "proper k"
  shows "cw_appended (run_actions cd ct c acts world_new) (session_key_display k)
      \<subseteq> visible_ids k (run_actions cd ct c acts world_new)
        \<union> cw_covered (run_actions cd ct c acts world_new) (session_key_display k)
    \<and> (active (run_actions cd ct c acts world_new) n \<and> active (run_actions cd ct c acts world_new) m \<longrightarrow> n = m)"
proof -
  have "no_failure world_new" by (simp add: no_failure_def world_new_def)
  from calm_cinv [OF assms(1) cinv_new this assms(2)]
  have inv: "cinv cd (run_actions cd ct c acts world_new)" .
  then have "key_inv k (run_actions cd ct c acts world_new)" using assms(3) by (simp add: cinv_def)
  then show ?thesis using inv by (auto simp: key_inv_def nothing_lost_def cinv_def exclusive_def)
qed

section \<open>Overlapping compactions\<close>

text \<open>A run in which the model fails once.  Two events are stored and a compaction is forced;
  the model fails and the cooldown starts.  A second compaction is forced before the first
  task has ended; the end of the first task then resets the state to idle under the running
  second task, and a third compaction starts beside it.\<close>

definition demo_compactor :: compactor where
  "demo_compactor = compactor_new (\<lambda>b. b + b div 5) ''m'' 100"

definition ok_outcome :: "string \<Rightarrow> unit outcome" where
  "ok_outcome answer = \<lparr> oc_io = None,
     oc_llm = Inr \<lparr> rs_content = Some answer, rs_tool_calls = [], rs_reasoning = None, rs_usage = None \<rparr>,
     oc_now = 5, oc_stamp = [] \<rparr>"

definition failed_outcome :: "unit outcome" where
  "failed_outcome = \<lparr> oc_io = None, oc_llm = Inl ''503'', oc_now = 5, oc_stamp = [] \<rparr>"

definition cli_a :: session_key where "cli_a = session_key_new Cli ''a''"

definition overlap_run :: "unit caction list" where
  "overlap_run =
     [AppendEv (demo_event 1 ''e0'') 1 None, AppendEv (demo_event 2 ''e1'') 1 None, ForceCompact cli_a [] False]
     @ replicate 4 (TaskStep 0 (ok_outcome ''s'')) @ [TaskStep 0 failed_outcome, TaskStep 0 failed_outcome]
     @ [ForceCompact cli_a [] False] @ replicate 2 (TaskStep 0 (ok_outcome ''s''))
     @ replicate 4 (TaskStep 1 (ok_outcome ''s''))
     @ [AppendEv (demo_event 3 ''e2'') 1 None, ForceCompact cli_a [] False]
     @ replicate 8 (TaskStep 2 (ok_outcome ''new''))
     @ replicate 2 (TaskStep 1 (ok_outcome ''old''))"

lemma overlap_lost_eval:
  "cw_appended (run_actions demo_codec length demo_compactor overlap_run world_new) ''cli:a'' = {''u'', ''uu'', ''uuu''}
   \<and> db_events (cw_events (run_actions demo_codec length demo_compactor overlap_run world_new)) = []
   \<and> cw_covered (run_actions demo_codec length demo_compactor overlap_run world_new) ''cli:a'' = {''u'', ''uu''}"
  by code_simp

lemma cli_a_key: "session_key_display cli_a = ''cli:a''"
  by (simp add: cli_a_def session_key_display_def session_key_new_def)


text \<open>A calm run: two messages, a compaction of the first two while a third arrives.\<close>

definition calm_example :: "unit caction list" where
  "calm_example =
     [AppendEv (demo_event 1 ''e0'') 1 None, AppendEv (demo_event 2 ''e1'') 1 None, ForceCompact cli_a [] False]
     @ replicate 4 (TaskStep 0 (ok_outcome ''s'')) @ [AppendEv (demo_event 3 ''e2'') 1 None]
     @ replicate 7 (TaskStep 0 (ok_outcome ''s''))"

theorem compaction_loses_nothing_witness:
  "{''u'', ''uu'', ''uuu''} \<subseteq> visible_ids cli_a (run_actions demo_codec length demo_compactor calm_example world_new)
     \<union> {''u'', ''uu''}"
proof -
  let ?w = "run_actions demo_codec length demo_compactor calm_example world_new"
  have "\<forall>i. cd_uuid_parse demo_codec (cd_uuid_show demo_codec i) = Some i"
    by (simp add: demo_codec_def)
  moreover have "calm_run demo_codec length demo_compactor calm_example world_new" by code_simp
  moreover have "proper cli_a" by (simp add: proper_def cli_a_def key_channel_def session_key_new_def)
  ultimately have "cw_appended ?w (session_key_display cli_a)
      \<subseteq> visible_ids cli_a ?w \<union> cw_covered ?w (session_key_display cli_a)"
    by (rule compaction_loses_nothing [THEN conjunct1])
  moreover have "cw_appended ?w ''cli:a'' = {''u'', ''uu'', ''uuu''}" by code_simp
  moreover have "cw_covered ?w ''cli:a'' = {''u'', ''uu''}" by code_simp
  ultimately show ?thesis by (simp only: cli_a_key)
qed

end
