(* ===== verification/Spec2Isabelle.thy ===== *)
theory Spec2Isabelle
  imports Broker_Proofs Session_Properties Subagent_Monitor Spawn_Budget Filesystem_Proofs Cron_Tool_Proofs Command_Handler Workflow_Runs Sandbox_Exec Vault_Store Vault_Redaction Rate_Limit Message_Normalize Kernel_Proofs
    Approval_Router Compactor_Proofs Turn
begin

text \<open>
  Gasket, an agent runtime in Rust (src/gasket): chat messages arrive from a channel, pass
  the channel's middleware and the broker, reach the task of their session, are dispatched
  to a slash command or to an agent, and the agent calls a language model and tools in a
  loop; its turns are stored in an event log that is compacted into summaries.  This
  development models the parts that decide what happens; every definition follows the Rust
  code named in its theory, and file names below are relative to src/gasket.

  Conventions.  A struct is a record, an enum a datatype, \<open>Result\<close> a sum with \<open>Inl\<close> for
  \<open>Err\<close>, \<open>Option\<close> an option; u8 to u64 and usize where arithmetic can wrap are words, other
  counters naturals.  Strings are lists of bytes.  A clock read, a fresh UUID and the answer
  of an external party (database, model, tool, operating system, third-party crate) is an
  argument of the operation; where such a party keeps a state, it is a function on a world
  \<open>'w\<close> that is threaded through in the order of the calls.  A HashMap is a partial map, or
  an association list in its iteration order where the code iterates over it.  A tokio task
  or a lock-protected object is a state machine whose steps are the code between two awaits
  or inside one lock, so every interleaving of tasks is a sequence of steps.

  Theories and code.

  \<^item> Prelude: results, strings, words, association lists.

  \<^item> Sandbox (sandbox/src).  Sandbox_Config: errors, limits, command policy, configuration.
    Approval_Rules, Approval_Session, Approval_Store, Approval_Manager: rules, the session
    cache of decisions, the permission store behind its trait, and the manager with
    its step relation \<open>mstep\<close>.  Sandbox_Backend: the command line each backend builds.
    Sandbox_Exec: the process manager, which asks policy, manager and audit log before a
    backend runs, and the rotating audit log.  Shown: a permission comes from a rule, a cached
    or a fresh answer of the user; nothing runs ungated; what the audit log keeps.

  \<^item> Vault (engine/src/vault).  Vault_Scanner: the placeholder scanner and substitution.
    Vault_Redaction: removal of secrets from logs.  Vault_Store: the encrypted store and the
    injector.  Shown: scanner and replacement agree with a declarative reading, a redacted
    secret is gone, set/get round trips, rekeying keeps the values.

  \<^item> Channels (channels/src, types/src/events).  Event_Types: messages and session keys.
    Rate_Limit: limiter, allow list and inbound sender.  Approval_Router: confirmations over
    WebSocket, as runs of router operations.  Pending_Ask: questions to the user and their
    settlement.  Shown: the rate bound in every window; an approval or a reply arises only
    from an answer; each question is settled once.

  \<^item> Broker and sessions' tasks (broker/src).  Async_Channel: the bounded channels and
    broadcasts of tokio as parameters with their laws (locales \<open>fifo_channel\<close>,
    \<open>fanout_channel\<close>), each with a list model that satisfies them.  Broker: topics, queues,
    publishing and subscribing of memory.rs.  Session_Manager, Session_Runs: the dispatcher, one
    task and one channel of 32 messages per session, idle timeouts and the garbage collector of
    session.rs, as a step relation over slots of tasks.  Shown: a queue hands out exactly what
    it accepted, one task per session, what is lost and what blocks.

  \<^item> Subagents (engine/src/subagents).  Subagents: specifications, runs, events, results.
    Subagent_Monitor: progress reports of a monitored run (10 turns, 720 s).  Spawn_Budget: the
    spawner's permits (locale \<open>semaphore\<close>), workers and the aggregator as a step relation.

  \<^item> File tools (engine/src/tools/filesystem.rs).  Unix_Files: paths, links (40 per resolution),
    directories and the calls of std::fs on a map from locations to nodes; permissions are not
    modelled.  Filesystem_Tools, Filesystem_Proofs: the path validator and the tools that read,
    write, edit and list; where containment holds and where links or relative paths break it.

  \<^item> Scheduled jobs (engine/src/cron, storage/src/cron\_store.rs, engine/src/tools/cron.rs, the
    checker in cli/src/commands/gateway.rs).  Cron: job files, registry, state table, reload,
    ticks, polls; parsing of cron expressions and YAML is the parameter \<open>cron_ops\<close>.
    Cron_Proofs, Cron_Properties: at most one start per scheduled time over polls, reloads and
    restarts, the cases where an edit breaks the schedule, job files read back.  Cron_Tool,
    Cron_Tool_Proofs: the tool's actions, adding and removing a job, and the reading of
    heartbeat tasks (engine/src/heartbeat).

  \<^item> Commands (command/src, cli/src/commands).  Commands: parser, registry, built-ins, user
    files, completion.  Command_Handler: the host interface (locale \<open>command_host\<close>, interpreted
    on the host of the command line), the engine's handler and the routing of a message.

  \<^item> Models and tools (providers/src, engine/src/kernel, engine/src/tools/registry.rs).
    Chat_Types: requests, responses, stream events.  Message_Normalize: conversations without
    system messages.  Stream_Accumulator: responses from stream deltas.  Tool_Registry: tools,
    approval, definitions.  Kernel, Kernel_Proofs: retries, a step, the loop.  Shown: requests
    answer every tool call, results are in call order whatever the schedule, retries and
    iterations are bounded, approval gates a tool.

  \<^item> Sessions (engine/src/session, engine/src/hooks, storage/src).  Event_Store,
    Session_Store: the tables as row lists and maps.  History: from the log to the prompt.
    Hooks: lifecycle hooks.  Compactor, Compactor_Proofs: the background compaction as a
    program counter per task, over all interleavings.  Turn: a turn from the message to the
    stored answer.  Shown: append and read, no event lost while compactions succeed, and what
    goes wrong after a failed one.

  \<^item> Workflows (engine/src/tools/workflow.rs).  Workflow: manifest to step table, the run.
    Workflow_Proofs, Workflow_Runs: accepted manifests are well formed, a run ends, a snapshot
    decides where the next begins.

  Bounds.  Loops are structural recursion or functions with a termination proof; where the code
  bounds a loop, the bound is the code's own: \<open>max_iterations\<close> of the kernel configuration,
  the retries of a request, 100 steps of a workflow run.  No fuel stands in for termination.

  Not modelled.  Unicode white space and case beyond ASCII; the internals of maps, mutexes and
  channels below the level of their operations; logging; panics, except the index out of range
  of a workflow, which is a result; floating-point arithmetic (carried as bit patterns or
  parameters); serde, YAML, regular expressions, cryptography, SQLite, child processes and HTTP,
  which are parameters.  The parts of the program left out altogether (embedding search, the
  platform clients, the terminal front end, tools whose body is one call to the outside) are
  listed with their reason in the development's manifest.
\<close>

end
